(* ===== verification/Prelude.thy ===== *)
theory Prelude
  imports Main "HOL-Library.Word" "HOL-Library.Monad_Syntax"
begin

unbundle bit_operations_syntax

text \<open>
  Shared vocabulary of the development: the machine integers of the C code, pointers that may
  be null, byte memory with checked block reads and writes, typed access to byte memory in
  the byte order of the host, the C allocator as a parameter, bounded loops, and the outcome
  of code that may end its thread. Undefined behaviour of the C code (an access outside a
  block, an over-long shift) is a value of the model: the outer \<^theory_text>\<open>None\<close> of the memory
  operations and the constructor \<^theory_text>\<open>Undef\<close> of an outcome.
\<close>

section \<open>Machine integers, pointers and the C environment\<close>

type_synonym u8 = "8 word"
type_synonym u16 = "16 word"
type_synonym u32 = "32 word"
type_synonym u64 = "64 word"
type_synonym bytes = "8 word list"

text \<open>A pointer of the program that may be \<^verbatim>\<open>NULL\<close>, and the object it points to otherwise.\<close>

datatype 'a ptr = NULL | Ptr (deref: 'a)

text \<open>
  What the C program gets from its platform: the byte order, whether the allocator and
  \<^verbatim>\<open>mtx_init\<close> succeed, the indeterminate content of memory from \<^verbatim>\<open>malloc\<close>, and whether
  \<^verbatim>\<open>mtx_destroy\<close> leaves alone a mutex whose bytes say that it is held (\<^verbatim>\<open>pthread_mutex_destroy\<close> of
  glibc returns \<^verbatim>\<open>EBUSY\<close> for one); POSIX leaves it undefined.
\<close>

record cenv =
  host_be :: bool
  struct_ok :: bool
  alloc_ok :: "nat \<Rightarrow> bool"
  mtx_ok :: bool
  junk :: "nat \<Rightarrow> u8"
  destroy_held :: bool

text \<open>A little-endian platform on which every request succeeds, for the examples.\<close>

definition easy_env :: cenv where
  "easy_env = \<lparr>host_be = False, struct_ok = True, alloc_ok = (\<lambda>_. True), mtx_ok = True, junk = (\<lambda>_. 0xaa),
     destroy_held = True\<rparr>"

lemma easy_env_simps [simp]:
  "host_be easy_env = False" "struct_ok easy_env" "alloc_ok easy_env n" "mtx_ok easy_env"
  "junk easy_env n = 0xaa" "destroy_held easy_env"
  by (simp_all add: easy_env_def)

definition calloc :: "cenv \<Rightarrow> nat \<Rightarrow> bytes ptr" where
  "calloc e n = (if alloc_ok e n then Ptr (replicate n 0) else NULL)"

definition malloc :: "cenv \<Rightarrow> nat \<Rightarrow> bytes ptr" where
  "malloc e n = (if alloc_ok e n then Ptr (map (junk e) [0..<n]) else NULL)"

text \<open>\<^verbatim>\<open>realloc\<close> keeps the common prefix; a request for no bytes has no defined result.\<close>

definition realloc :: "cenv \<Rightarrow> bytes \<Rightarrow> nat \<Rightarrow> bytes ptr option" where
  "realloc e old n =
     (if n = 0 then None
      else if alloc_ok e n then Some (Ptr (take n old @ map (junk e) [length old..<n]))
      else Some NULL)"

text \<open>State of a mutex: zero bytes never given to \<^verbatim>\<open>mtx_init\<close>, free, or held.\<close>

datatype mtx = MtxRaw | MtxFree | MtxHeld

section \<open>Collections of facts\<close>

named_theorems mem_simps \<open>block reads and writes of byte memory\<close>
named_theorems wf_intros \<open>preservation of the well-formedness invariants\<close>

section \<open>Widening\<close>

lemma unat_ucast_le:
  fixes w :: "'a::len word"
  assumes "LENGTH('a) \<le> LENGTH('b::len)"
  shows "unat (ucast w :: 'b word) = unat w"
proof -
  have "unat w < 2 ^ LENGTH('b)"
    using assms unsigned_less [of w] by (meson less_le_trans one_le_numeral power_increasing)
  then show ?thesis
    by (simp add: unsigned_ucast_eq take_bit_nat_eq_self)
qed
lemma unat_ucast_u8 [simp]: "unat (ucast (b :: u8) :: u32) = unat b"
  by (rule unat_ucast_le) simp
lemma unat_u8_bound: "unat (b :: u8) < 256"
  using unsigned_less [of b] by simp

text \<open>Two 32-bit values are equal when their 32 bits are, one after the other.\<close>

lemma u32_bits_eqI:
  fixes a b :: u32
  assumes "list_all (\<lambda>n. bit a n = bit b n) [0, 1, 2, 3, 4, 5, 6, 7, 8, 9, 10, 11, 12, 13, 14, 15,
    16, 17, 18, 19, 20, 21, 22, 23, 24, 25, 26, 27, 28, 29, 30, 31]"
  shows "a = b"
proof (rule bit_eqI)
  fix n assume "possible_bit TYPE(32 word) n"
  then have "n < 32" by simp
  then have "n \<in> set [0, 1, 2, 3, 4, 5, 6, 7, 8, 9, 10, 11, 12, 13, 14, 15,
    16, 17, 18, 19, 20, 21, 22, 23, 24, 25, 26, 27, 28, 29, 30, 31]"
    by simp presburger
  with assms show "bit a n = bit b n" by (auto simp only: list_all_iff)
qed

section \<open>Block access to memory\<close>

definition slice :: "'a list \<Rightarrow> nat \<Rightarrow> nat \<Rightarrow> 'a list option" where
  "slice xs off n = (if off + n \<le> length xs then Some (take n (drop off xs)) else None)"

definition blit :: "'a list \<Rightarrow> nat \<Rightarrow> 'a list \<Rightarrow> 'a list option" where
  "blit xs off ys =
     (if off + length ys \<le> length xs
      then Some (take off xs @ ys @ drop (off + length ys) xs) else None)"

lemma slice_Some [mem_simps]:
  "off + n \<le> length xs \<Longrightarrow> slice xs off n = Some (take n (drop off xs))"
  by (simp add: slice_def)

lemma slice_length: "slice xs off n = Some ys \<Longrightarrow> length ys = n"
  by (auto simp: slice_def split: if_splits)

lemma slice_whole [mem_simps]: "slice xs 0 (length xs) = Some xs"
  by (simp add: slice_def)

lemma blit_Some [mem_simps]:
  "off + length ys \<le> length xs \<Longrightarrow>
   blit xs off ys = Some (take off xs @ ys @ drop (off + length ys) xs)"
  by (simp add: blit_def)

lemma blit_length: "blit xs off ys = Some zs \<Longrightarrow> length zs = length xs"
  by (auto simp: blit_def split: if_splits)

lemma blit_nth:
  assumes "blit xs off ys = Some zs" and "i < length xs"
  shows "zs ! i = (if off \<le> i \<and> i < off + length ys then ys ! (i - off) else xs ! i)"
  using assms by (auto simp: blit_def nth_append split: if_splits)

lemma blit_whole [mem_simps]: "length ys = length xs \<Longrightarrow> blit xs 0 ys = Some ys"
  by (simp add: blit_def)

text \<open>Reading back a block that was written, and a block the write did not touch.\<close>

lemma slice_blit_same:
  assumes "blit xs off ys = Some zs"
  shows "slice zs off (length ys) = Some ys"
  using assms by (auto simp: blit_def slice_def split: if_splits)

lemma slice_blit_other:
  assumes "blit xs off ys = Some zs" and "off' + n \<le> off \<or> off + length ys \<le> off'"
  shows "slice zs off' n = slice xs off' n"
proof (cases "off' + n \<le> length xs")
  case True
  have len: "length zs = length xs"
    using assms(1) by (rule blit_length)
  have "take n (drop off' zs) = take n (drop off' xs)"
  proof (rule nth_equalityI)
    fix i assume "i < length (take n (drop off' zs))"
    then have i: "i < n" "off' + i < length xs"
      using len by auto
    with assms True len show "take n (drop off' zs) ! i = take n (drop off' xs) ! i"
      by (auto simp: blit_nth [OF assms(1)])
  qed (simp add: len)
  with True len show ?thesis by (simp add: slice_def)
next
  case False
  with blit_length [OF assms(1)] show ?thesis by (simp add: slice_def)
qed

lemma slice_slice:
  assumes "slice xs off m = Some ys" and "a + n \<le> m"
  shows "slice ys a n = slice xs (off + a) n"
  using assms by (auto simp: slice_def take_drop min_def ac_simps split: if_splits)

lemma slice_blit_inside:
  assumes "blit xs off ys = Some zs" and "a + n \<le> length ys"
  shows "slice zs (off + a) n = slice ys a n"
  using slice_slice [OF slice_blit_same [OF assms(1)] assms(2)] by simp

lemma slice_replicate: "off + n \<le> m \<Longrightarrow> slice (replicate m x) off n = Some (replicate n x)"
  by (simp add: slice_def)

section \<open>Values in byte memory\<close>

text \<open>
  The least significant byte of a value comes first in \<open>le_bytes\<close>; a big-endian host stores
  the same bytes in reverse order. \<open>load\<close> and \<open>store\<close> access element \<open>idx\<close> of an array of
  \<open>s\<close>-byte elements, as \<^verbatim>\<open>((uint16_t*)p)[idx]\<close> does for \<open>s = 2\<close>.
\<close>

fun le_bytes :: "nat \<Rightarrow> u32 \<Rightarrow> bytes" where
  "le_bytes 0 v = []"
| "le_bytes (Suc n) v = ucast v # le_bytes n (drop_bit 8 v)"

fun le_word :: "bytes \<Rightarrow> u32" where
  "le_word [] = 0"
| "le_word (b # bs) = ucast b OR push_bit 8 (le_word bs)"

definition host_order :: "bool \<Rightarrow> bytes \<Rightarrow> bytes" where
  "host_order be bs = (if be then rev bs else bs)"

definition load :: "bool \<Rightarrow> nat \<Rightarrow> bytes \<Rightarrow> nat \<Rightarrow> u32 option" where
  "load be s mem idx = map_option (\<lambda>bs. le_word (host_order be bs)) (slice mem (idx * s) s)"

definition store :: "bool \<Rightarrow> nat \<Rightarrow> bytes \<Rightarrow> nat \<Rightarrow> u32 \<Rightarrow> bytes option" where
  "store be s mem idx v = blit mem (idx * s) (host_order be (le_bytes s v))"

lemma length_le_bytes [simp]: "length (le_bytes n v) = n"
  by (induction n arbitrary: v) auto

lemma length_host_order [simp]: "length (host_order be bs) = length bs"
  by (simp add: host_order_def)

lemma host_order_host_order [simp]: "host_order be (host_order be bs) = bs"
  by (simp add: host_order_def)

lemma le_word_le_bytes: "le_word (le_bytes n v) = take_bit (8 * n) v"
proof (induction n arbitrary: v)
  case 0
  show ?case by simp
next
  case (Suc n)
  have "ucast (ucast v :: u8) OR push_bit 8 (take_bit (8 * n) (drop_bit 8 v)) = take_bit (8 * Suc n) v"
    by (rule bit_eqI) (auto simp: bit_simps)
  then show ?case by (simp add: Suc.IH)
qed

lemma le_word_bound: "take_bit (8 * length bs) (le_word bs) = le_word bs"
proof (induction bs)
  case (Cons b bs)
  have "take_bit (8 * Suc n) (ucast b OR push_bit 8 v) = ucast b OR push_bit 8 (take_bit (8 * n) v)"
    for n and v :: u32
    by (rule bit_eqI) (auto simp: bit_simps dest: bit_imp_le_length)
  with Cons.IH show ?case by simp
qed simp

lemma le_bytes_le_word: "length bs \<le> 4 \<Longrightarrow> le_bytes (length bs) (le_word bs) = bs"
proof (induction bs)
  case (Cons b bs)
  have "take_bit 24 (take_bit (8 * length bs) (le_word bs)) = take_bit (8 * length bs) (le_word bs)"
    using Cons.prems by (simp add: min_absorb2)
  then have "take_bit 24 (le_word bs) = le_word bs"
    by (simp add: le_word_bound)
  moreover have "ucast (ucast b OR push_bit 8 v :: u32) = b" for v
    by (rule bit_eqI) (auto simp: bit_simps)
  moreover have "drop_bit 8 (ucast b OR push_bit 8 v) = take_bit 24 v" for v :: u32
    by (rule bit_eqI) (auto simp: bit_simps dest: bit_imp_le_length)
  ultimately show ?case using Cons by simp
qed simp

lemma load_store_same:
  assumes "store be s mem idx v = Some mem'"
  shows "load be s mem' idx = Some (take_bit (8 * s) v)"
  using slice_blit_same [OF assms [unfolded store_def]]
  by (simp add: load_def le_word_le_bytes)

lemma load_store_other:
  assumes "store be s mem idx v = Some mem'" and "idx' \<noteq> idx"
  shows "load be s mem' idx' = load be s mem idx'"
proof -
  have "idx' * s + s \<le> idx * s \<or> idx * s + s \<le> idx' * s"
    using assms(2) by (metis Suc_leI add.commute linorder_neqE_nat mult_Suc mult_le_mono1)
  then have "slice mem' (idx' * s) s = slice mem (idx' * s) s"
    by (intro slice_blit_other [OF assms(1) [unfolded store_def]]) simp
  then show ?thesis by (simp add: load_def)
qed

lemma store_length: "store be s mem idx v = Some mem' \<Longrightarrow> length mem' = length mem"
  by (auto simp: store_def dest: blit_length)

lemma elem_fits: "idx < n \<Longrightarrow> idx * s + s \<le> n * (s::nat)"
  by (metis Suc_leI add.commute mult_Suc mult_le_mono1)

lemma store_defined:
  "idx < n \<Longrightarrow> n * s \<le> length mem \<Longrightarrow> \<exists>mem'. store be s mem idx v = Some mem'"
  using elem_fits [of idx n s] by (auto simp: store_def blit_def)

lemma load_defined:
  "idx < n \<Longrightarrow> n * s \<le> length mem \<Longrightarrow> \<exists>v. load be s mem idx = Some v"
  using elem_fits [of idx n s] by (auto simp: load_def slice_def)

lemma le_word_zeros [simp]: "le_word (replicate n 0) = 0"
  by (induction n) auto

lemma host_order_replicate [simp]: "host_order be (replicate n x) = replicate n x"
  by (simp add: host_order_def)

section \<open>Loops\<close>

text \<open>
  \<open>for_loop k i n f s\<close> is \<^verbatim>\<open>for (; i < n; i += k) s = f(i, s)\<close>; an iteration without a defined
  result ends it.
\<close>

function for_loop :: "nat \<Rightarrow> nat \<Rightarrow> nat \<Rightarrow> (nat \<Rightarrow> 's \<Rightarrow> 's option) \<Rightarrow> 's \<Rightarrow> 's option" where
  "for_loop k i n f s =
     (if i < n \<and> 0 < k then Option.bind (f i s) (\<lambda>s'. for_loop k (i + k) n f s') else Some s)"
  by pat_completeness auto
termination
  by (relation "measure (\<lambda>(k, i, n, f, s). n - i)") auto

declare for_loop.simps [simp del]

lemma for_loop_done [simp]: "n \<le> i \<Longrightarrow> for_loop k i n f s = Some s"
  by (simp add: for_loop.simps)

lemma for_loop_step:
  "i < n \<Longrightarrow> 0 < k \<Longrightarrow> for_loop k i n f s = Option.bind (f i s) (for_loop k (i + k) n f)"
  by (simp add: for_loop.simps)

text \<open>
  The rule of the loops: an invariant that every iteration keeps, each with a defined result,
  gives a defined result that satisfies it at the first index past the bound.
\<close>

lemma for_loop_rule:
  assumes "0 < k" and "P i s"
    and "\<And>j t. P j t \<Longrightarrow> j < n \<Longrightarrow> \<exists>t'. f j t = Some t' \<and> P (j + k) t'"
  shows "\<exists>j t. for_loop k i n f s = Some t \<and> n \<le> j \<and> P j t"
  using assms
proof (induction k i n f s rule: for_loop.induct)
  case (1 k i n f s)
  show ?case
  proof (cases "i < n")
    case True
    with "1.prems" obtain t' where "f i s = Some t'" and "P (i + k) t'"
      by blast
    with "1.IH" "1.prems" True show ?thesis
      by (simp add: for_loop_step)
  next
    case False
    with "1.prems" show ?thesis by (intro exI [of _ i] exI [of _ s]) simp
  qed
qed

lemma for_loop_unit_rule:
  assumes "P i s" and "i \<le> n"
    and "\<And>j t. P j t \<Longrightarrow> i \<le> j \<Longrightarrow> j < n \<Longrightarrow> \<exists>t'. f j t = Some t' \<and> P (Suc j) t'"
  shows "\<exists>t. for_loop 1 i n f s = Some t \<and> P n t"
proof -
  have "\<exists>j t. for_loop 1 i n f s = Some t \<and> n \<le> j \<and> (i \<le> j \<and> j \<le> n \<and> P j t)"
    by (rule for_loop_rule [where P = "\<lambda>j t. i \<le> j \<and> j \<le> n \<and> P j t"]) (use assms in auto)
  then show ?thesis by (metis le_antisym)
qed

lemma for_loop_cong:
  "(\<And>j t. i \<le> j \<Longrightarrow> j < n \<Longrightarrow> f j t = g j t) \<Longrightarrow> for_loop k i n f s = for_loop k i n g s"
proof (induction k i n f s rule: for_loop.induct)
  case (1 k i n f s)
  show ?case
  proof (cases "i < n \<and> 0 < k")
    case True
    have "for_loop k (i + k) n f s' = for_loop k (i + k) n g s'" if "f i s = Some s'" for s'
      using that True "1.prems" by (intro "1.IH") auto
    moreover have "g i s = f i s" using "1.prems" True by simp
    ultimately show ?thesis
      using True by (cases "f i s") (simp_all add: for_loop_step)
  qed (auto simp: for_loop.simps)
qed

section \<open>System calls and outcomes\<close>

text \<open>
  Error numbers the code looks at. A system call that moves bytes fails with an error number,
  times out, or moves some.
\<close>

datatype errno = EAGAIN | EINTR | EINVAL | EIO | EOTHER nat

datatype 'a xfer = XErr errno | XTimeout | XOk 'a

text \<open>
  What became of a call in a state \<open>'s\<close>: it returned a value, it ended its thread
  (\<^verbatim>\<open>thrd_exit\<close>), or its behaviour is undefined. The whole is \<^theory_text>\<open>None\<close> when the call does not
  return at all: it waits for an event that the environment does not deliver.
\<close>

datatype ('s, 'a) outcome = Done 'a 's | Exit 's | Undef

fun andthen ::
  "('s, 'a) outcome option \<Rightarrow> ('a \<Rightarrow> 's \<Rightarrow> ('s, 'b) outcome option) \<Rightarrow> ('s, 'b) outcome option" where
  "andthen None f = None"
| "andthen (Some (Done a s)) f = f a s"
| "andthen (Some (Exit s)) f = Some (Exit s)"
| "andthen (Some Undef) f = Some Undef"

text \<open>A memory access that must be in bounds.\<close>

definition need :: "'a option \<Rightarrow> ('a \<Rightarrow> ('s, 'b) outcome option) \<Rightarrow> ('s, 'b) outcome option" where
  "need m f = (case m of None \<Rightarrow> Some Undef | Some x \<Rightarrow> f x)"

lemma need_simps [simp]: "need None f = Some Undef" "need (Some x) f = f x"
  by (simp_all add: need_def)

lemma andthen_mono [partial_function_mono]:
  fixes m :: "('c \<Rightarrow> 'd option) \<Rightarrow> ('s, 'a) outcome option"
  assumes m: "mono_option m" and f: "\<And>a s. mono_option (\<lambda>h. f h a s)"
  shows "mono_option (\<lambda>h. andthen (m h) (f h))"
proof (rule monotoneI)
  fix x y :: "'c \<Rightarrow> 'd option" assume le: "fun_ord option_ord x y"
  have m: "option_ord (m x) (m y)" using m le by (rule monotoneD [of _ _ _ x y])
  have f: "option_ord (f x a s) (f y a s)" for a s using f [of a s] le by (rule monotoneD [of _ _ _ x y])
  show "option_ord (andthen (m x) (f x)) (andthen (m y) (f y))"
  proof (cases "m x")
    case None
    then show ?thesis by (simp add: flat_ord_def)
  next
    case (Some r)
    with m have "m y = Some r" by (auto simp: flat_ord_def)
    with Some f show ?thesis by (cases r) (auto simp: flat_ord_def)
  qed
qed

text \<open>\<open>safe\<close>: not undefined, and a normal return satisfies \<open>Q\<close>, an end of the thread \<open>E\<close>.\<close>

fun safe :: "('a \<Rightarrow> 's \<Rightarrow> bool) \<Rightarrow> ('s \<Rightarrow> bool) \<Rightarrow> ('s, 'a) outcome option \<Rightarrow> bool" where
  "safe Q E None = True"
| "safe Q E (Some (Done a s)) = Q a s"
| "safe Q E (Some (Exit s)) = E s"
| "safe Q E (Some Undef) = False"

lemma safe_andthen:
  "safe Q' E m \<Longrightarrow> (\<And>a s. Q' a s \<Longrightarrow> safe Q E (f a s)) \<Longrightarrow> safe Q E (andthen m f)"
  by (cases "(m, f)" rule: andthen.cases) auto

lemma safe_mono:
  "safe Q E m \<Longrightarrow> (\<And>a s. Q a s \<Longrightarrow> Q' a s) \<Longrightarrow> (\<And>s. E s \<Longrightarrow> E' s) \<Longrightarrow> safe Q' E' m"
  by (cases "(Q, E, m)" rule: safe.cases) auto

lemma safe_some: "(\<And>y. m = Some y \<Longrightarrow> safe Q E (Some y)) \<Longrightarrow> safe Q E m"
  by (cases m) auto

text \<open>\<open>settles\<close>: moreover the call does come to an end.\<close>

definition settles :: "('a \<Rightarrow> 's \<Rightarrow> bool) \<Rightarrow> ('s \<Rightarrow> bool) \<Rightarrow> ('s, 'a) outcome option \<Rightarrow> bool" where
  "settles Q E m \<longleftrightarrow> m \<noteq> None \<and> safe Q E m"

lemma settles_simps [simp]:
  "settles Q E (Some (Done a s)) = Q a s" "settles Q E (Some (Exit s)) = E s"
  "\<not> settles Q E (Some Undef)" "\<not> settles Q E None"
  by (simp_all add: settles_def)

lemma settles_andthen:
  "settles Q' E m \<Longrightarrow> (\<And>a s. Q' a s \<Longrightarrow> settles Q E (f a s)) \<Longrightarrow> settles Q E (andthen m f)"
  by (cases "(m, f)" rule: andthen.cases) auto

lemma settles_mono:
  "settles Q E m \<Longrightarrow> (\<And>a s. Q a s \<Longrightarrow> Q' a s) \<Longrightarrow> (\<And>s. E s \<Longrightarrow> E' s) \<Longrightarrow> settles Q' E' m"
  by (auto simp: settles_def elim: safe_mono)

lemma safe_conj: "safe Q E m \<Longrightarrow> safe Q' E' m \<Longrightarrow> safe (\<lambda>a s. Q a s \<and> Q' a s) (\<lambda>s. E s \<and> E' s) m"
  by (cases "(Q, E, m)" rule: safe.cases) auto

lemma settles_conj: "settles Q E m \<Longrightarrow> safe Q' E' m \<Longrightarrow> settles (\<lambda>a s. Q a s \<and> Q' a s) (\<lambda>s. E s \<and> E' s) m"
  by (simp add: settles_def safe_conj)

text \<open>\<open>rets\<close>: what holds of the results of a call, if there is one.\<close>

fun rets :: "('a \<Rightarrow> 's \<Rightarrow> bool) \<Rightarrow> ('s \<Rightarrow> bool) \<Rightarrow> ('s, 'a) outcome option \<Rightarrow> bool" where
  "rets Q E (Some (Done a s)) = Q a s"
| "rets Q E (Some (Exit s)) = E s"
| "rets Q E _ = True"

abbreviation keeps :: "('s \<Rightarrow> bool) \<Rightarrow> ('s, 'a) outcome option \<Rightarrow> bool" where
  "keeps I \<equiv> rets (\<lambda>_. I) I"

lemma rets_andthen:
  "rets Q' E m \<Longrightarrow> (\<And>a s. Q' a s \<Longrightarrow> rets Q E (f a s)) \<Longrightarrow> rets Q E (andthen m f)"
  by (cases "(m, f)" rule: andthen.cases) auto

lemma rets_need: "(\<And>x. m = Some x \<Longrightarrow> rets Q E (f x)) \<Longrightarrow> rets Q E (need m f)"
  by (cases m) auto

lemma rets_map: "rets Q E (map_option (map_outcome g h) m) = rets (\<lambda>a s. Q (h a) (g s)) (\<lambda>s. E (g s)) m"
proof (cases m)
  case (Some y)
  then show ?thesis by (cases y) auto
qed simp

lemma rets_any: "(\<And>a s. Q a s) \<Longrightarrow> (\<And>s. E s) \<Longrightarrow> rets Q E m"
  by (cases "(Q, E, m)" rule: rets.cases) auto

lemma rets_mono:
  "rets Q E m \<Longrightarrow> (\<And>a s. Q a s \<Longrightarrow> Q' a s) \<Longrightarrow> (\<And>s. E s \<Longrightarrow> E' s) \<Longrightarrow> rets Q' E' m"
  by (cases "(Q, E, m)" rule: rets.cases) auto

lemma rets_some: "(\<And>y. m = Some y \<Longrightarrow> rets Q E (Some y)) \<Longrightarrow> rets Q E m"
  by (cases m) auto

lemma safe_rets:
  "safe Q E m \<Longrightarrow> rets Q' E' m \<Longrightarrow> safe (\<lambda>a s. Q a s \<and> Q' a s) (\<lambda>s. E s \<and> E' s) m"
  by (cases "(Q, E, m)" rule: safe.cases) auto

text \<open>A call that comes back does not end the thread.\<close>

abbreviation returns :: "('s, 'a) outcome option \<Rightarrow> bool" where
  "returns \<equiv> rets (\<lambda>_ _. True) (\<lambda>_. False)"

text \<open>Bytes of a C string literal, without its terminator.\<close>

definition str_bytes :: "string \<Rightarrow> bytes" where
  "str_bytes s = map of_char s"

text \<open>\<^verbatim>\<open>b[0] * 256 + b[1]\<close>, the value of two bytes on the wire, and its inverse.\<close>

definition be16 :: "u8 \<Rightarrow> u8 \<Rightarrow> u32" where
  "be16 hi lo = ucast hi * 256 + ucast lo"

definition be16_hi :: "u32 \<Rightarrow> u8" where
  "be16_hi v = ucast (v div 256)"

definition be16_lo :: "u32 \<Rightarrow> u8" where
  "be16_lo v = ucast (v mod 256)"

lemma unat_be16: "unat (be16 hi lo) = unat hi * 256 + unat lo"
proof -
  have "unat hi * 256 + unat lo < 2 ^ 32"
    using unat_u8_bound [of hi] unat_u8_bound [of lo] by simp
  then show ?thesis
    by (simp add: be16_def unat_word_ariths)
qed

lemma be16_bound: "be16 hi lo \<le> 0xffff"
  using unat_u8_bound [of hi] unat_u8_bound [of lo]
  by (simp add: word_le_nat_alt unat_be16)

lemma be16_roundtrip: "v \<le> 0xffff \<Longrightarrow> be16 (be16_hi v) (be16_lo v) = v"
proof -
  assume v: "v \<le> 0xffff"
  have "unat (be16_hi v) = unat v div 256" "unat (be16_lo v) = unat v mod 256"
    using v by (simp_all add: be16_hi_def be16_lo_def unsigned_ucast_eq unsigned_take_bit_eq
        unat_div_distrib unat_mod_distrib word_le_nat_alt take_bit_nat_eq_self)
  then show ?thesis
    by (simp add: word_unat_eq_iff unat_be16)
qed

end
