(* ===== verification/Framebuffer.thy ===== *)
theory Framebuffer
  imports Prelude
begin

unbundle bit_operations_syntax

text \<open>
  The framebuffer of \<^verbatim>\<open>src/src/fb.c\<close> and the pixel functions of \<^verbatim>\<open>src/src/trfb.h\<close>. Pixels are
  byte memory; every access goes through \<open>load\<close> and \<open>store\<close>, so that an access outside the
  pixel block, and a shift by 32 or more, is \<^theory_text>\<open>None\<close>: a function that returns \<open>Some r\<close> has
  run without undefined behaviour and returned \<open>r\<close>.
\<close>

section \<open>Data\<close>

record trfb_format =
  fmt_bpp :: u8
  fmt_depth :: u8
  fmt_big_endian :: u8
  fmt_true_color :: u8
  fmt_rmax :: u16
  fmt_gmax :: u16
  fmt_bmax :: u16
  fmt_rshift :: u8
  fmt_gshift :: u8
  fmt_bshift :: u8

record trfb_framebuffer =
  fb_lock :: mtx
  fb_width :: u32
  fb_height :: u32
  fb_bpp :: u8
  fb_rmask :: u32
  fb_gmask :: u32
  fb_bmask :: u32
  fb_rshift :: u8
  fb_gshift :: u8
  fb_bshift :: u8
  fb_rnorm :: u8
  fb_gnorm :: u8
  fb_bnorm :: u8
  fb_pixels :: bytes
  fb_free_pixels :: bool

text \<open>A framebuffer from \<^verbatim>\<open>calloc\<close>: every field zero.\<close>

definition zero_fb :: trfb_framebuffer where
  "zero_fb = \<lparr>fb_lock = MtxRaw, fb_width = 0, fb_height = 0, fb_bpp = 0,
     fb_rmask = 0, fb_gmask = 0, fb_bmask = 0, fb_rshift = 0, fb_gshift = 0, fb_bshift = 0,
     fb_rnorm = 0, fb_gnorm = 0, fb_bnorm = 0, fb_pixels = [], fb_free_pixels = False\<rparr>"

section \<open>Pixel functions\<close>

text \<open>Shifts of a 32-bit value; a count of 32 or more is undefined in C.\<close>

definition shr32 :: "u32 \<Rightarrow> u8 \<Rightarrow> u32 option" where
  "shr32 v n = (if unat n < 32 then Some (drop_bit (unat n) v) else None)"

definition shl32 :: "u32 \<Rightarrow> u8 \<Rightarrow> u32 option" where
  "shl32 v n = (if unat n < 32 then Some (push_bit (unat n) v) else None)"

definition TRFB_RGB :: "u32 \<Rightarrow> u32 \<Rightarrow> u32 \<Rightarrow> u32" where
  "TRFB_RGB r g b = push_bit 16 r OR push_bit 8 g OR b"

definition TRFB_COLOR_R :: "u32 \<Rightarrow> u32" where
  "TRFB_COLOR_R col = drop_bit 16 col AND 0xff"

definition TRFB_COLOR_G :: "u32 \<Rightarrow> u32" where
  "TRFB_COLOR_G col = drop_bit 8 col AND 0xff"

definition TRFB_COLOR_B :: "u32 \<Rightarrow> u32" where
  "TRFB_COLOR_B col = drop_bit 0 col AND 0xff"

text \<open>The two conversions inside the macro \<^verbatim>\<open>TRFB_PIXEL_FUNCTIONS\<close>: pixel to colour and back.\<close>

definition pixel_color :: "trfb_framebuffer \<Rightarrow> u32 \<Rightarrow> u32 option" where
  "pixel_color fb c = do {
     r \<leftarrow> shr32 c (fb_rshift fb);
     r \<leftarrow> shl32 (r AND fb_rmask fb) (fb_rnorm fb);
     g \<leftarrow> shr32 c (fb_gshift fb);
     g \<leftarrow> shl32 (g AND fb_gmask fb) (fb_gnorm fb);
     b \<leftarrow> shr32 c (fb_bshift fb);
     b \<leftarrow> shl32 (b AND fb_bmask fb) (fb_bnorm fb);
     Some (TRFB_RGB r g b) }"

definition color_pixel :: "trfb_framebuffer \<Rightarrow> u32 \<Rightarrow> u32 option" where
  "color_pixel fb col = do {
     r \<leftarrow> shr32 (TRFB_COLOR_R col) (fb_rnorm fb);
     r \<leftarrow> shl32 (r AND fb_rmask fb) (fb_rshift fb);
     g \<leftarrow> shr32 (TRFB_COLOR_G col) (fb_gnorm fb);
     g \<leftarrow> shl32 (g AND fb_gmask fb) (fb_gshift fb);
     b \<leftarrow> shr32 (TRFB_COLOR_B col) (fb_bnorm fb);
     b \<leftarrow> shl32 (b AND fb_bmask fb) (fb_bshift fb);
     Some (r OR g OR b) }"

text \<open>The array index \<^verbatim>\<open>y * fb->width + x\<close>, computed in 32-bit unsigned arithmetic.\<close>

definition pixel_index :: "trfb_framebuffer \<Rightarrow> u32 \<Rightarrow> u32 \<Rightarrow> nat" where
  "pixel_index fb x y = unat (y * fb_width fb + x)"

text \<open>The macro's functions for pixels of \<open>s\<close> bytes, where \<open>bits = 8 * s\<close>.\<close>

definition trfb_fb_get_pixel :: "nat \<Rightarrow> cenv \<Rightarrow> trfb_framebuffer \<Rightarrow> u32 \<Rightarrow> u32 \<Rightarrow> u32 option" where
  "trfb_fb_get_pixel s e fb x y = do {
     c \<leftarrow> load (host_be e) s (fb_pixels fb) (pixel_index fb x y);
     pixel_color fb c }"

definition trfb_fb_set_pixel ::
  "nat \<Rightarrow> cenv \<Rightarrow> trfb_framebuffer \<Rightarrow> u32 \<Rightarrow> u32 \<Rightarrow> u32 \<Rightarrow> trfb_framebuffer option" where
  "trfb_fb_set_pixel s e fb x y col = do {
     v \<leftarrow> color_pixel fb col;
     px \<leftarrow> store (host_be e) s (fb_pixels fb) (pixel_index fb x y) v;
     Some (fb\<lparr>fb_pixels := px\<rparr>) }"

definition trfb_framebuffer_get_pixel ::
  "cenv \<Rightarrow> trfb_framebuffer \<Rightarrow> u32 \<Rightarrow> u32 \<Rightarrow> u32 option" where
  "trfb_framebuffer_get_pixel e fb x y =
     (if fb_bpp fb = 1 then trfb_fb_get_pixel 1 e fb x y
      else if fb_bpp fb = 2 then trfb_fb_get_pixel 2 e fb x y
      else if fb_bpp fb = 4 then trfb_fb_get_pixel 4 e fb x y
      else Some 0)"

definition trfb_framebuffer_set_pixel ::
  "cenv \<Rightarrow> trfb_framebuffer \<Rightarrow> u32 \<Rightarrow> u32 \<Rightarrow> u32 \<Rightarrow> trfb_framebuffer option" where
  "trfb_framebuffer_set_pixel e fb x y col =
     (if fb_bpp fb = 1 then trfb_fb_set_pixel 1 e fb x y col
      else if fb_bpp fb = 2 then trfb_fb_set_pixel 2 e fb x y col
      else if fb_bpp fb = 4 then trfb_fb_set_pixel 4 e fb x y col
      else Some fb)"

section \<open>Operations of fb.c\<close>

definition isBE :: "cenv \<Rightarrow> bool" where
  "isBE e = (hd (host_order (host_be e) (le_bytes 4 1)) = 0)"

partial_function (option) norm_loop :: "u32 \<Rightarrow> u32 \<Rightarrow> u32 option" where
  "norm_loop c r =
     (if 0x100 \<le> push_bit 1 c then Some r else norm_loop (push_bit 1 c) (r + 1))"

definition norm_from_mask :: "u8 \<Rightarrow> u8 option" where
  "norm_from_mask m =
     (if ucast m = (0::u32) then Some 0 else map_option ucast (norm_loop (ucast m) 0))"

text \<open>\<^verbatim>\<open>fb->rnorm = norm_from_mask(fb->rmask)\<close> and its two siblings; the mask is cut to a byte.\<close>

definition set_norms :: "trfb_framebuffer \<Rightarrow> trfb_framebuffer option" where
  "set_norms fb = do {
     rn \<leftarrow> norm_from_mask (ucast (fb_rmask fb));
     gn \<leftarrow> norm_from_mask (ucast (fb_gmask fb));
     bn \<leftarrow> norm_from_mask (ucast (fb_bmask fb));
     Some (fb\<lparr>fb_rnorm := rn, fb_gnorm := gn, fb_bnorm := bn\<rparr>) }"

text \<open>The masks and shifts of the three supported depths; \<^theory_text>\<open>None\<close> for any other depth.\<close>

definition create_format :: "u8 \<Rightarrow> trfb_framebuffer \<Rightarrow> trfb_framebuffer option" where
  "create_format bpp fb =
     (if bpp = 1 then
        Some (fb\<lparr>fb_rmask := 0x07, fb_gmask := 0x07, fb_bmask := 0x03,
                 fb_rshift := 0, fb_gshift := 3, fb_bshift := 6\<rparr>)
      else if bpp = 2 then
        Some (fb\<lparr>fb_rmask := 0x1f, fb_gmask := 0x3f, fb_bmask := 0x1f,
                 fb_rshift := 11, fb_gshift := 5, fb_bshift := 0\<rparr>)
      else if bpp = 4 then
        Some (fb\<lparr>fb_rmask := 0xff, fb_gmask := 0xff, fb_bmask := 0xff,
                 fb_rshift := 16, fb_gshift := 8, fb_bshift := 0\<rparr>)
      else None)"

definition trfb_framebuffer_create :: "cenv \<Rightarrow> u32 \<Rightarrow> u32 \<Rightarrow> u8 \<Rightarrow> trfb_framebuffer ptr option" where
  "trfb_framebuffer_create e width height bpp =
     (let sz = unat (width * height) in
      if 0xffff < width \<or> 0xffff < height then Some NULL
      else if \<not> struct_ok e then Some NULL
      else
        case create_format bpp
               (zero_fb\<lparr>fb_bpp := bpp, fb_width := width, fb_height := height\<rparr>) of
          None \<Rightarrow> Some NULL
        | Some fb \<Rightarrow> do {
            fb \<leftarrow> set_norms fb;
            Some (case calloc e (unat bpp * sz) of
                NULL \<Rightarrow> NULL
              | Ptr p \<Rightarrow>
                  if mtx_ok e
                  then Ptr (fb\<lparr>fb_pixels := p, fb_free_pixels := True, fb_lock := MtxFree\<rparr>)
                  else NULL) })"

text \<open>\<^verbatim>\<open>fb->width * fb->height * fb->bpp\<close>: a 32-bit unsigned product, whatever it is assigned to.\<close>

definition fb_bytes :: "u32 \<Rightarrow> u32 \<Rightarrow> u8 \<Rightarrow> nat" where
  "fb_bytes width height bpp = unat (width * height * ucast bpp)"

definition trfb_framebuffer_copy :: "cenv \<Rightarrow> trfb_framebuffer \<Rightarrow> trfb_framebuffer ptr option" where
  "trfb_framebuffer_copy e fb =
     (if \<not> struct_ok e then Some NULL
      else if fb_bpp fb \<noteq> 1 \<and> fb_bpp fb \<noteq> 2 \<and> fb_bpp fb \<noteq> 4 then Some NULL
      else let len = fb_bytes (fb_width fb) (fb_height fb) (fb_bpp fb) in
        case malloc e len of
          NULL \<Rightarrow> Some NULL
        | Ptr p \<Rightarrow> do {
            px \<leftarrow> slice (fb_pixels fb) 0 len;
            p \<leftarrow> blit p 0 px;
            Some (Ptr (fb\<lparr>fb_pixels := p, fb_free_pixels := True\<rparr>)) })"

text \<open>What \<^verbatim>\<open>trfb_framebuffer_free\<close> releases, in order.\<close>

datatype fb_release = FreePixels | DestroyLock mtx | FreeStruct

definition trfb_framebuffer_free :: "trfb_framebuffer ptr \<Rightarrow> fb_release list" where
  "trfb_framebuffer_free p =
     (case p of
        NULL \<Rightarrow> []
      | Ptr fb \<Rightarrow> (if fb_free_pixels fb then [FreePixels] else []) @
          [DestroyLock (fb_lock fb), FreeStruct])"

text \<open>
  Which releases are defined: a mutex that \<^verbatim>\<open>mtx_init\<close> has made and that is free may be destroyed; the
  framebuffer that \<^verbatim>\<open>trfb_framebuffer_copy\<close> makes of a locked one holds the bytes of a held mutex, and
  \<open>lax\<close> tells whether \<^verbatim>\<open>mtx_destroy\<close> leaves such a one alone.
\<close>

definition release_ok :: "bool \<Rightarrow> fb_release \<Rightarrow> bool" where
  "release_ok lax r =
     (case r of DestroyLock m \<Rightarrow> m = MtxFree \<or> m = MtxHeld \<and> lax | FreePixels \<Rightarrow> True | FreeStruct \<Rightarrow> True)"

definition fb_free_ok :: "bool \<Rightarrow> trfb_framebuffer ptr \<Rightarrow> bool" where
  "fb_free_ok lax p = list_all (release_ok lax) (trfb_framebuffer_free p)"

text \<open>The macro \<^verbatim>\<open>FB_COPY\<close>: a zeroed block of the new size that receives the common rows.\<close>

definition FB_COPY ::
  "cenv \<Rightarrow> nat \<Rightarrow> trfb_framebuffer \<Rightarrow> u32 \<Rightarrow> u32 \<Rightarrow> u32 \<Rightarrow> u32 \<Rightarrow> bytes ptr option" where
  "FB_COPY e s fb width height W H =
     (case calloc e (unat (width * height) * s) of
        NULL \<Rightarrow> Some NULL
      | Ptr np \<Rightarrow> map_option Ptr
          (for_loop 1 0 (unat H) (\<lambda>y np. do {
             row \<leftarrow> slice (fb_pixels fb) (unat (of_nat y * fb_width fb) * s) (unat W * s);
             blit np (unat (of_nat y * width) * s) row }) np))"

definition trfb_framebuffer_resize ::
  "cenv \<Rightarrow> trfb_framebuffer ptr \<Rightarrow> u32 \<Rightarrow> u32 \<Rightarrow> (int \<times> trfb_framebuffer ptr) option" where
  "trfb_framebuffer_resize e p width height =
     (case p of
        NULL \<Rightarrow> Some (-1, p)
      | Ptr fb \<Rightarrow>
          if width = 0 \<or> height = 0 \<or> 0xffff < width \<or> 0xffff < height then Some (-1, p)
          else
            let W = (if width < fb_width fb then width else fb_width fb);
                H = (if height < fb_height fb then height else fb_height fb);
                finish = (\<lambda>r. case r of
                    NULL \<Rightarrow> (-1, p)
                  | Ptr np \<Rightarrow> (0, Ptr (fb\<lparr>fb_pixels := np, fb_width := width, fb_height := height\<rparr>)))
            in if fb_bpp fb = 1 then map_option finish (FB_COPY e 1 fb width height W H)
               else if fb_bpp fb = 2 then map_option finish (FB_COPY e 2 fb width height W H)
               else if fb_bpp fb = 4 then map_option finish (FB_COPY e 4 fb width height W H)
               else Some (-1, p))"

definition fb_bpp_ok :: "u8 \<Rightarrow> bool" where
  "fb_bpp_ok b \<longleftrightarrow> b = 1 \<or> b = 2 \<or> b = 4"

definition same_format :: "trfb_framebuffer \<Rightarrow> trfb_framebuffer \<Rightarrow> bool" where
  "same_format dst src \<longleftrightarrow>
     fb_bpp dst = fb_bpp src \<and>
     fb_rmask dst = fb_rmask src \<and> fb_gmask dst = fb_gmask src \<and> fb_bmask dst = fb_bmask src \<and>
     fb_rshift dst = fb_rshift src \<and> fb_gshift dst = fb_gshift src \<and>
     fb_bshift dst = fb_bshift src"

text \<open>
  The part of \<^verbatim>\<open>trfb_framebuffer_convert\<close> that gives the destination the size of the source
  (\<open>Some (Inl dst)\<close>: not enough memory, return \<open>-1\<close>), and the loop over all pixels.
\<close>

definition convert_size ::
  "cenv \<Rightarrow> trfb_framebuffer \<Rightarrow> trfb_framebuffer \<Rightarrow> (trfb_framebuffer + trfb_framebuffer) option" where
  "convert_size e dst src =
     (if fb_width dst \<noteq> fb_width src \<or> fb_height dst \<noteq> fb_height src
      then let n = fb_bytes (fb_width src) (fb_height src) (fb_bpp dst) in do {
        p \<leftarrow> (if fb_free_pixels dst then realloc e (fb_pixels dst) n else Some (malloc e n));
        Some (case p of
            NULL \<Rightarrow> Inl dst
          | Ptr p \<Rightarrow> Inr (dst\<lparr>fb_free_pixels := True, fb_pixels := p,
                             fb_width := fb_width src, fb_height := fb_height src\<rparr>)) }
      else Some (Inr dst))"

definition convert_pixels ::
  "cenv \<Rightarrow> trfb_framebuffer \<Rightarrow> trfb_framebuffer \<Rightarrow> trfb_framebuffer option" where
  "convert_pixels e dst src =
     for_loop 1 0 (unat (fb_height src)) (\<lambda>y dst.
       for_loop 1 0 (unat (fb_width src)) (\<lambda>x dst. do {
         col \<leftarrow> trfb_framebuffer_get_pixel e src (of_nat x) (of_nat y);
         trfb_framebuffer_set_pixel e dst (of_nat x) (of_nat y) col }) dst) dst"

definition trfb_framebuffer_convert ::
  "cenv \<Rightarrow> trfb_framebuffer ptr \<Rightarrow> trfb_framebuffer ptr \<Rightarrow> (int \<times> trfb_framebuffer ptr) option" where
  "trfb_framebuffer_convert e dstp srcp =
     (case (dstp, srcp) of
        (Ptr dst, Ptr src) \<Rightarrow>
          if \<not> fb_bpp_ok (fb_bpp src) then Some (-1, dstp)
          else if \<not> fb_bpp_ok (fb_bpp dst) then Some (-1, dstp)
          else if fb_width src = 0 \<or> fb_height src = 0 \<or> fb_width dst = 0 \<or> fb_height dst = 0 \<or>
                  0xffff < fb_width src \<or> 0xffff < fb_height src \<or>
                  0xffff < fb_width dst \<or> 0xffff < fb_height dst then Some (-1, dstp)
          else do {
            r \<leftarrow> convert_size e dst src;
            case r of
              Inl dst \<Rightarrow> Some (-1, Ptr dst)
            | Inr dst \<Rightarrow>
                if same_format dst src then do {
                  px \<leftarrow> slice (fb_pixels src) 0
                          (fb_bytes (fb_width src) (fb_height src) (fb_bpp dst));
                  p \<leftarrow> blit (fb_pixels dst) 0 px;
                  Some (0, Ptr (dst\<lparr>fb_pixels := p\<rparr>)) }
                else do {
                  dst \<leftarrow> convert_pixels e dst src;
                  Some (0, Ptr dst) } }
      | _ \<Rightarrow> Some (-1, dstp))"

definition trfb_framebuffer_format ::
  "cenv \<Rightarrow> trfb_framebuffer ptr \<Rightarrow> trfb_format ptr \<Rightarrow> int \<times> trfb_format ptr" where
  "trfb_framebuffer_format e p fmtp =
     (case (p, fmtp) of
        (Ptr fb, Ptr fmt) \<Rightarrow>
          (0, Ptr (fmt\<lparr>fmt_bpp := fb_bpp fb * 8,
            fmt_big_endian := (if isBE e then 1 else 0),
            fmt_depth := (if fb_bpp fb = 1 then 8 else if fb_bpp fb = 2 then 16 else 24),
            fmt_true_color := (if fb_bpp fb = 1 \<and> fb_rmask fb = 0 then 0 else 1),
            fmt_rmax := ucast (fb_rmask fb),
            fmt_gmax := ucast (fb_gmask fb),
            fmt_bmax := ucast (fb_bmask fb),
            fmt_rshift := fb_rshift fb,
            fmt_gshift := fb_gshift fb,
            fmt_bshift := fb_bshift fb\<rparr>))
      | _ \<Rightarrow> (-1, fmtp))"

text \<open>The masks and shifts of a requested format, and the norms that follow from them.\<close>

definition take_format :: "trfb_format \<Rightarrow> trfb_framebuffer \<Rightarrow> trfb_framebuffer option" where
  "take_format fmt fb = set_norms (fb\<lparr>
     fb_rmask := ucast (fmt_rmax fmt), fb_gmask := ucast (fmt_gmax fmt), fb_bmask := ucast (fmt_bmax fmt),
     fb_rshift := fmt_rshift fmt, fb_gshift := fmt_gshift fmt, fb_bshift := fmt_bshift fmt\<rparr>)"

text \<open>The format is changed as well: its \<^verbatim>\<open>bpp\<close> is divided by 8 whatever the result.\<close>

definition trfb_framebuffer_create_of_format ::
  "cenv \<Rightarrow> u32 \<Rightarrow> u32 \<Rightarrow> trfb_format ptr \<Rightarrow> (trfb_framebuffer ptr \<times> trfb_format ptr) option" where
  "trfb_framebuffer_create_of_format e width height fmtp =
     (case fmtp of
        NULL \<Rightarrow> Some (NULL, fmtp)
      | Ptr fmt \<Rightarrow>
          let fmt = fmt\<lparr>fmt_bpp := fmt_bpp fmt div 8\<rparr> in
          if \<not> fb_bpp_ok (fmt_bpp fmt) then Some (NULL, Ptr fmt)
          else do {
            r \<leftarrow> trfb_framebuffer_create e width height (fmt_bpp fmt);
            case r of
              NULL \<Rightarrow> Some (NULL, Ptr fmt)
            | Ptr fb \<Rightarrow> do {
                fb \<leftarrow> take_format fmt fb;
                Some (Ptr fb, Ptr fmt) } })"

definition trfb_framebuffer_create_with_data ::
  "cenv \<Rightarrow> bytes \<Rightarrow> u32 \<Rightarrow> u32 \<Rightarrow> trfb_format ptr \<Rightarrow> trfb_framebuffer ptr option" where
  "trfb_framebuffer_create_with_data e pixels width height fmtp =
     (case fmtp of
        NULL \<Rightarrow> Some NULL
      | Ptr fmt \<Rightarrow>
          if \<not> fb_bpp_ok (fmt_bpp fmt) then Some NULL
          else if \<not> struct_ok e then Some NULL
          else do {
            fb \<leftarrow> take_format fmt (zero_fb\<lparr>fb_pixels := pixels, fb_free_pixels := False\<rparr>);
            Some (Ptr fb) })"

definition cswap :: "bytes \<Rightarrow> nat \<Rightarrow> nat \<Rightarrow> bytes option" where
  "cswap p i j = (if i < length p \<and> j < length p then Some (p[i := p ! j, j := p ! i]) else None)"

definition trfb_framebuffer_endian ::
  "cenv \<Rightarrow> trfb_framebuffer ptr \<Rightarrow> bool \<Rightarrow> trfb_framebuffer ptr option" where
  "trfb_framebuffer_endian e fbp is_be =
     (case fbp of
        NULL \<Rightarrow> Some fbp
      | Ptr fb \<Rightarrow>
          if fb_bpp fb = 1 then Some fbp
          else if isBE e \<and> is_be then Some fbp
          else if \<not> isBE e \<and> \<not> is_be then Some fbp
          else if fb_bpp fb = 2 then do {
            p \<leftarrow> for_loop 2 0 (fb_bytes (fb_width fb) (fb_height fb) 2)
                   (\<lambda>i p. cswap p i (i + 1)) (fb_pixels fb);
            Some (Ptr (fb\<lparr>fb_pixels := p\<rparr>)) }
          else if fb_bpp fb = 4 then do {
            p \<leftarrow> for_loop 4 0 (fb_bytes (fb_width fb) (fb_height fb) 4)
                   (\<lambda>i p. do { p \<leftarrow> cswap p i (i + 3); cswap p (i + 1) (i + 2) }) (fb_pixels fb);
            Some (Ptr (fb\<lparr>fb_pixels := p\<rparr>)) }
          else Some fbp)"

section \<open>Norms\<close>

lemma unat_double: "unat c < 2 ^ 31 \<Longrightarrow> unat (push_bit 1 c) = 2 * unat c" for c :: u32
  by (simp add: push_bit_eq_mult unat_word_ariths)

lemma norm_loop_value:
  "2 ^ k \<le> unat c \<Longrightarrow> unat c < 2 ^ Suc k \<Longrightarrow> k + n = 7 \<Longrightarrow>
   norm_loop c r = Some (r + of_nat n)"
proof (induction n arbitrary: c r k)
  case 0
  then have "unat (push_bit 1 c) = 2 * unat c"
    by (intro unat_double) simp
  with 0 have "0x100 \<le> push_bit 1 c"
    by (simp add: word_le_nat_alt)
  then show ?case by (subst norm_loop.simps) simp
next
  case (Suc n)
  have k: "k \<le> 6" using Suc.prems by simp
  have "(2::nat) ^ Suc k \<le> 2 ^ 7"
    using k by (intro power_increasing) auto
  with Suc.prems have "unat c < 128" by simp
  then have dbl: "unat (push_bit 1 c) = 2 * unat c"
    by (intro unat_double) simp
  have "norm_loop (push_bit 1 c) (r + 1) = Some ((r + 1) + of_nat n)"
    by (rule Suc.IH [of "Suc k"]) (use dbl Suc.prems in auto)
  moreover have "\<not> 0x100 \<le> push_bit 1 c"
    using dbl \<open>unat c < 128\<close> by (simp add: word_le_nat_alt)
  ultimately show ?case by (subst norm_loop.simps) simp
qed

lemma norm_from_mask_value:
  assumes "2 ^ k \<le> unat m" and "unat m < 2 ^ Suc k"
  shows "norm_from_mask m = Some (of_nat (7 - k))"
proof -
  have lt: "unat m < 2 ^ 8" using unsigned_less [of m] by simp
  have "k < 8"
    using le_less_trans [OF assms(1) lt] by (rule power_less_imp_less_exp [rotated]) simp
  moreover have u: "unat (ucast m :: u32) = unat m"
    by simp
  ultimately have "norm_loop (ucast m) 0 = Some (of_nat (7 - k))"
    using norm_loop_value [of k "ucast m" "7 - k" 0] assms by simp
  moreover have "ucast m \<noteq> (0::u32)"
    using assms(1) u by (metis le_zero_eq power_not_zero unat_0 zero_neq_numeral)
  ultimately show ?thesis
    by (simp add: norm_from_mask_def unsigned_of_nat take_bit_nat_eq_self del: of_nat_diff)
qed

lemma norm_from_mask_defined: "\<exists>r. norm_from_mask m = Some r \<and> unat r \<le> 7"
proof (cases "m = 0")
  case True
  then show ?thesis by (simp add: norm_from_mask_def)
next
  case False
  then have pos: "0 < unat m" by (simp add: unat_gt_0)
  obtain k where "2 ^ k \<le> unat m" "unat m < 2 ^ Suc k"
    using ex_power_ivl1 [of 2 "unat m"] pos by auto
  then have "norm_from_mask m = Some (of_nat (7 - k))"
    by (rule norm_from_mask_value)
  moreover have "unat (of_nat (7 - k) :: u8) \<le> 7"
    by (simp add: unat_of_nat order.trans [OF mod_less_eq_dividend])
  ultimately show ?thesis by blast
qed

lemma set_norms_defined:
  "\<exists>rn gn bn. set_norms fb = Some (fb\<lparr>fb_rnorm := rn, fb_gnorm := gn, fb_bnorm := bn\<rparr>) \<and>
     unat rn \<le> 7 \<and> unat gn \<le> 7 \<and> unat bn \<le> 7"
proof -
  obtain rn gn bn where
    "norm_from_mask (ucast (fb_rmask fb)) = Some rn" "unat rn \<le> 7"
    "norm_from_mask (ucast (fb_gmask fb)) = Some gn" "unat gn \<le> 7"
    "norm_from_mask (ucast (fb_bmask fb)) = Some bn" "unat bn \<le> 7"
    using norm_from_mask_defined by metis
  then show ?thesis by (auto simp: set_norms_def)
qed

section \<open>Well-formed framebuffers\<close>

definition fb_shape :: "trfb_framebuffer \<Rightarrow> bool" where
  "fb_shape fb \<longleftrightarrow> fb_bpp_ok (fb_bpp fb) \<and> fb_width fb \<le> 0xffff \<and> fb_height fb \<le> 0xffff \<and>
     length (fb_pixels fb) = unat (fb_width fb) * unat (fb_height fb) * unat (fb_bpp fb)"

definition fb_shifts :: "trfb_framebuffer \<Rightarrow> bool" where
  "fb_shifts fb \<longleftrightarrow> unat (fb_rshift fb) < 32 \<and> unat (fb_gshift fb) < 32 \<and> unat (fb_bshift fb) < 32 \<and>
     unat (fb_rnorm fb) \<le> 7 \<and> unat (fb_gnorm fb) \<le> 7 \<and> unat (fb_bnorm fb) \<le> 7"

definition in_fb :: "trfb_framebuffer \<Rightarrow> u32 \<Rightarrow> u32 \<Rightarrow> bool" where
  "in_fb fb x y \<longleftrightarrow> x < fb_width fb \<and> y < fb_height fb"

lemma unat_le_ffff: "w \<le> 0xffff \<Longrightarrow> unat w \<le> 65535" for w :: u32
  by (simp add: word_le_nat_alt)

lemma unat_mult_add_small:
  fixes x y w :: u32
  assumes "unat y < 65535" and "unat w \<le> 65535" and "unat x < 65535"
  shows "unat (y * w + x) = unat y * unat w + unat x"
proof -
  have "unat y * unat w \<le> 65534 * 65535"
    using assms by (intro mult_le_mono) auto
  with assms show ?thesis by (simp add: unat_word_ariths)
qed

lemma pixel_index_eq:
  assumes "fb_shape fb" and "in_fb fb x y"
  shows "pixel_index fb x y = unat y * unat (fb_width fb) + unat x"
  unfolding pixel_index_def
proof (rule unat_mult_add_small)
  show "unat y < 65535" "unat (fb_width fb) \<le> 65535" "unat x < 65535"
    using assms by (auto simp: fb_shape_def in_fb_def word_le_nat_alt word_less_nat_alt)
qed

lemma grid_index_bound: "y < h \<Longrightarrow> x < w \<Longrightarrow> y * w + x < w * (h::nat)"
proof -
  assume "y < h" "x < w"
  then have "y * w + x < Suc y * w" by simp
  also have "\<dots> \<le> h * w" using \<open>y < h\<close> by (intro mult_le_mono1) simp
  finally show ?thesis by (simp add: mult.commute)
qed

lemma grid_index_inj:
  "x < w \<Longrightarrow> x' < w \<Longrightarrow> y * w + x = y' * w + x' \<Longrightarrow> x = x' \<and> y = (y'::nat)"
  by (metis add.commute add_left_cancel div_mult_self3 mod_less mod_mult_self3 div_less add_0 less_nat_zero_code mult.commute)

lemma pixel_index_bound:
  assumes "fb_shape fb" and "in_fb fb x y"
  shows "pixel_index fb x y < unat (fb_width fb) * unat (fb_height fb)"
  using assms(2) grid_index_bound [of "unat y" "unat (fb_height fb)" "unat x" "unat (fb_width fb)"]
  by (simp add: pixel_index_eq [OF assms] in_fb_def word_less_nat_alt)

lemma pixel_index_inj:
  assumes "fb_shape fb" and "in_fb fb x y" and "in_fb fb x' y'"
  shows "pixel_index fb x y = pixel_index fb x' y' \<longleftrightarrow> x = x' \<and> y = y'"
  using assms grid_index_inj [of "unat x" "unat (fb_width fb)" "unat x'" "unat y" "unat y'"]
  by (auto simp: pixel_index_eq in_fb_def word_less_nat_alt word_unat_eq_iff)

section \<open>Pixels\<close>

lemma bpp_ok_cases: "fb_bpp_ok b \<Longrightarrow> (b = 1 \<Longrightarrow> P) \<Longrightarrow> (b = 2 \<Longrightarrow> P) \<Longrightarrow> (b = 4 \<Longrightarrow> P) \<Longrightarrow> P"
  by (auto simp: fb_bpp_ok_def)

lemma get_pixel_eq:
  "fb_bpp_ok (fb_bpp fb) \<Longrightarrow>
   trfb_framebuffer_get_pixel e fb x y = trfb_fb_get_pixel (unat (fb_bpp fb)) e fb x y"
  by (erule bpp_ok_cases) (simp_all add: trfb_framebuffer_get_pixel_def)

lemma set_pixel_eq:
  "fb_bpp_ok (fb_bpp fb) \<Longrightarrow>
   trfb_framebuffer_set_pixel e fb x y col = trfb_fb_set_pixel (unat (fb_bpp fb)) e fb x y col"
  by (erule bpp_ok_cases) (simp_all add: trfb_framebuffer_set_pixel_def)

lemma pixel_color_defined: "fb_shifts fb \<Longrightarrow> \<exists>c. pixel_color fb v = Some c"
  by (auto simp: pixel_color_def shr32_def shl32_def fb_shifts_def)

lemma color_pixel_defined: "fb_shifts fb \<Longrightarrow> \<exists>v. color_pixel fb c = Some v"
  by (auto simp: color_pixel_def shr32_def shl32_def fb_shifts_def)

lemma pixel_color_pixels [simp]: "pixel_color (fb\<lparr>fb_pixels := px\<rparr>) = pixel_color fb"
  by (simp add: fun_eq_iff pixel_color_def)

lemma color_pixel_pixels [simp]: "color_pixel (fb\<lparr>fb_pixels := px\<rparr>) = color_pixel fb"
  by (simp add: fun_eq_iff color_pixel_def)

lemma pixel_index_pixels [simp]: "pixel_index (fb\<lparr>fb_pixels := px\<rparr>) = pixel_index fb"
  by (simp add: fun_eq_iff pixel_index_def)

lemma in_fb_pixels [simp]: "in_fb (fb\<lparr>fb_pixels := px\<rparr>) = in_fb fb"
  by (simp add: fun_eq_iff in_fb_def)

lemma fb_shifts_pixels [simp]: "fb_shifts (fb\<lparr>fb_pixels := px\<rparr>) = fb_shifts fb"
  by (simp add: fb_shifts_def)

text \<open>A colour written to a pixel and read back: what the format keeps of it.\<close>

definition recolor :: "trfb_framebuffer \<Rightarrow> u32 \<Rightarrow> u32 option" where
  "recolor fb c = do {
     v \<leftarrow> color_pixel fb c;
     pixel_color fb (take_bit (8 * unat (fb_bpp fb)) v) }"

lemma recolor_pixels [simp]: "recolor (fb\<lparr>fb_pixels := px\<rparr>) = recolor fb"
  by (simp add: fun_eq_iff recolor_def)

lemma recolor_defined: "fb_shifts fb \<Longrightarrow> \<exists>c'. recolor fb c = Some c'"
  unfolding recolor_def by (metis bind.bind_lunit color_pixel_defined pixel_color_defined)

lemma get_pixel_defined:
  assumes "fb_shape fb" and "fb_shifts fb" and "in_fb fb x y"
  shows "\<exists>c. trfb_framebuffer_get_pixel e fb x y = Some c"
proof -
  obtain v where "load (host_be e) (unat (fb_bpp fb)) (fb_pixels fb) (pixel_index fb x y) = Some v"
    using load_defined [OF pixel_index_bound [OF assms(1,3)], of "unat (fb_bpp fb)" "fb_pixels fb"]
      assms(1) by (auto simp: fb_shape_def)
  with pixel_color_defined [OF assms(2), of v] assms(1) show ?thesis
    by (auto simp: fb_shape_def get_pixel_eq trfb_fb_get_pixel_def)
qed

text \<open>
  The contract of a pixel write: it succeeds inside the frame, changes the pixel memory only,
  the pixel reads back as what the format keeps of the colour, and no other pixel changes.
\<close>

lemma set_pixel_contract:
  assumes "fb_shape fb" and "fb_shifts fb" and "in_fb fb x y"
  obtains px where "trfb_framebuffer_set_pixel e fb x y col = Some (fb\<lparr>fb_pixels := px\<rparr>)"
    and "length px = length (fb_pixels fb)"
    and "trfb_framebuffer_get_pixel e (fb\<lparr>fb_pixels := px\<rparr>) x y = recolor fb col"
    and "\<And>x' y'. in_fb fb x' y' \<Longrightarrow> (x', y') \<noteq> (x, y) \<Longrightarrow>
      trfb_framebuffer_get_pixel e (fb\<lparr>fb_pixels := px\<rparr>) x' y' = trfb_framebuffer_get_pixel e fb x' y'"
proof -
  have bpp: "fb_bpp_ok (fb_bpp fb)" using assms(1) by (simp add: fb_shape_def)
  obtain v where v: "color_pixel fb col = Some v"
    using color_pixel_defined [OF assms(2)] by blast
  obtain px where px: "store (host_be e) (unat (fb_bpp fb)) (fb_pixels fb) (pixel_index fb x y) v = Some px"
    using store_defined [OF pixel_index_bound [OF assms(1,3)]] assms(1)
    by (metis fb_shape_def order_refl)
  show thesis
  proof (rule that)
    show "trfb_framebuffer_set_pixel e fb x y col = Some (fb\<lparr>fb_pixels := px\<rparr>)"
      using bpp v px by (simp add: set_pixel_eq trfb_fb_set_pixel_def)
    show "length px = length (fb_pixels fb)"
      using px by (rule store_length)
    show "trfb_framebuffer_get_pixel e (fb\<lparr>fb_pixels := px\<rparr>) x y = recolor fb col"
      using bpp v load_store_same [OF px]
      by (simp add: get_pixel_eq trfb_fb_get_pixel_def recolor_def)
    fix x' y' assume "in_fb fb x' y'" and "(x', y') \<noteq> (x, y)"
    then have "pixel_index fb x' y' \<noteq> pixel_index fb x y"
      using pixel_index_inj [OF assms(1)] assms(3) by blast
    with bpp load_store_other [OF px] show
      "trfb_framebuffer_get_pixel e (fb\<lparr>fb_pixels := px\<rparr>) x' y' = trfb_framebuffer_get_pixel e fb x' y'"
      by (simp add: get_pixel_eq trfb_fb_get_pixel_def)
  qed
qed

section \<open>The three standard formats\<close>

text \<open>\<open>fb_std\<close>: the formats that \<^verbatim>\<open>trfb_framebuffer_create\<close> sets up, with their norms.\<close>

definition fb_std :: "trfb_framebuffer \<Rightarrow> bool" where
  "fb_std fb \<longleftrightarrow>
     (fb_bpp fb = 1 \<and> fb_rmask fb = 0x07 \<and> fb_gmask fb = 0x07 \<and> fb_bmask fb = 0x03 \<and>
      fb_rshift fb = 0 \<and> fb_gshift fb = 3 \<and> fb_bshift fb = 6 \<and>
      fb_rnorm fb = 5 \<and> fb_gnorm fb = 5 \<and> fb_bnorm fb = 6) \<or>
     (fb_bpp fb = 2 \<and> fb_rmask fb = 0x1f \<and> fb_gmask fb = 0x3f \<and> fb_bmask fb = 0x1f \<and>
      fb_rshift fb = 11 \<and> fb_gshift fb = 5 \<and> fb_bshift fb = 0 \<and>
      fb_rnorm fb = 3 \<and> fb_gnorm fb = 2 \<and> fb_bnorm fb = 3) \<or>
     (fb_bpp fb = 4 \<and> fb_rmask fb = 0xff \<and> fb_gmask fb = 0xff \<and> fb_bmask fb = 0xff \<and>
      fb_rshift fb = 16 \<and> fb_gshift fb = 8 \<and> fb_bshift fb = 0 \<and>
      fb_rnorm fb = 0 \<and> fb_gnorm fb = 0 \<and> fb_bnorm fb = 0)"

text \<open>The bits of a colour that a standard format of a given depth keeps.\<close>

definition kept_bits :: "u8 \<Rightarrow> u32" where
  "kept_bits b = (if b = 1 then 0xe0e0c0 else if b = 2 then 0xf8fcf8 else 0xffffff)"

lemma fb_std_shifts: "fb_std fb \<Longrightarrow> fb_shifts fb"
  by (auto simp: fb_std_def fb_shifts_def)

lemma mask_numerals:
  "(0x03::u32) = mask 2" "(0x07::u32) = mask 3" "(0x1f::u32) = mask 5" "(0x3f::u32) = mask 6"
  "(0xff::u32) = mask 8"
  "(0xe0e0c0::u32) = push_bit 21 (mask 3) OR push_bit 13 (mask 3) OR push_bit 6 (mask 2)"
  "(0xf8fcf8::u32) = push_bit 19 (mask 5) OR push_bit 10 (mask 6) OR push_bit 3 (mask 5)"
  "(0xffffff::u32) = mask 24"
  by (simp_all add: mask_eq_exp_minus_1)

lemma recolor_std:
  assumes "fb_std fb"
  shows "recolor fb c = Some (c AND kept_bits (fb_bpp fb))"
  by (insert assms [unfolded fb_std_def], elim disjE conjE; simp add: recolor_def color_pixel_def pixel_color_def shr32_def shl32_def
     kept_bits_def TRFB_RGB_def TRFB_COLOR_R_def TRFB_COLOR_G_def TRFB_COLOR_B_def;
     simp only: mask_numerals; rule u32_bits_eqI; simp add: bit_simps)

section \<open>Creation\<close>

definition fb_normed :: "trfb_framebuffer \<Rightarrow> bool" where
  "fb_normed fb \<longleftrightarrow> set_norms fb = Some fb"

definition fb_wf :: "trfb_framebuffer \<Rightarrow> bool" where
  "fb_wf fb \<longleftrightarrow> fb_shape fb \<and> fb_shifts fb \<and> fb_normed fb"

text \<open>The number of bytes of all pixels, as a natural number: no wrap-around.\<close>

definition fb_area :: "u32 \<Rightarrow> u32 \<Rightarrow> u8 \<Rightarrow> nat" where
  "fb_area width height bpp = unat width * unat height * unat bpp"

lemma unat_mult_ffff:
  fixes w h :: u32
  assumes "w \<le> 0xffff" and "h \<le> 0xffff"
  shows "unat (w * h) = unat w * unat h"
proof -
  have "unat w * unat h \<le> 65535 * 65535"
    using assms by (intro mult_le_mono unat_le_ffff)
  then show ?thesis by (simp add: unat_word_ariths)
qed

lemma fb_bytes_eq: "fb_area w h b < 2 ^ 32 \<Longrightarrow> fb_bytes w h b = fb_area w h b"
  by (simp add: fb_bytes_def fb_area_def unat_word_ariths mod_mult_left_eq)

lemma fb_bytes_mod: "fb_bytes w h b = fb_area w h b mod 2 ^ 32"
  by (simp add: fb_bytes_def fb_area_def unat_word_ariths mod_mult_left_eq)

lemma standard_norms:
  "norm_from_mask 3 = Some 6" "norm_from_mask 7 = Some 5" "norm_from_mask 0x1f = Some 3"
  "norm_from_mask 0x3f = Some 2" "norm_from_mask 0xff = Some 0"
  using norm_from_mask_value [where k = 1 and m = 3] norm_from_mask_value [where k = 2 and m = 7]
    norm_from_mask_value [where k = 4 and m = 31] norm_from_mask_value [where k = 5 and m = 63]
    norm_from_mask_value [where k = 7 and m = 255] by simp_all

lemma fb_std_normed: "fb_std fb \<Longrightarrow> fb_normed fb"
  unfolding fb_std_def fb_normed_def set_norms_def
  by (elim disjE conjE; simp add: standard_norms)

definition creatable :: "cenv \<Rightarrow> u32 \<Rightarrow> u32 \<Rightarrow> u8 \<Rightarrow> bool" where
  "creatable e w h b \<longleftrightarrow> w \<le> 0xffff \<and> h \<le> 0xffff \<and> fb_bpp_ok b \<and> struct_ok e \<and>
     alloc_ok e (fb_area w h b) \<and> mtx_ok e"



lemma create_format_norms:
  assumes "fb_bpp_ok b" and "fb_bpp fb = b"
  shows "\<exists>fb'. create_format b fb = Some fb' \<and> (\<exists>fb''. set_norms fb' = Some fb'' \<and> fb_std fb'' \<and>
    fb_width fb'' = fb_width fb \<and> fb_height fb'' = fb_height fb \<and> fb_bpp fb'' = b)"
  using assms(1)
  by (cases rule: bpp_ok_cases)
    (auto simp: create_format_def set_norms_def standard_norms fb_std_def assms(2))

lemma create_ok:
  assumes "creatable e w h b"
  shows "\<exists>fb. trfb_framebuffer_create e w h b = Some (Ptr fb) \<and>
    fb_width fb = w \<and> fb_height fb = h \<and> fb_bpp fb = b \<and> fb_std fb \<and>
    fb_pixels fb = replicate (fb_area w h b) 0 \<and> fb_lock fb = MtxFree \<and> fb_free_pixels fb"
proof -
  have wh: "w \<le> 0xffff" "h \<le> 0xffff" and b: "fb_bpp_ok b"
    and env: "struct_ok e" "mtx_ok e" "alloc_ok e (fb_area w h b)"
    using assms by (auto simp: creatable_def)
  have le: "\<not> 0xffff < w" "\<not> 0xffff < h" using wh by auto
  have px: "calloc e (unat b * (unat w * unat h)) = Ptr (replicate (fb_area w h b) 0)"
    using env by (simp add: calloc_def fb_area_def ac_simps)
  obtain fb fb' where "create_format b (zero_fb\<lparr>fb_bpp := b, fb_width := w, fb_height := h\<rparr>) = Some fb"
    and "set_norms fb = Some fb'" "fb_std fb'" "fb_width fb' = w" "fb_height fb' = h" "fb_bpp fb' = b"
    using create_format_norms [OF b, of "zero_fb\<lparr>fb_bpp := b, fb_width := w, fb_height := h\<rparr>"] by auto
  with px le env unat_mult_ffff [OF wh] show ?thesis
    by (simp add: trfb_framebuffer_create_def fb_std_def)
qed

lemma create_fails:
  assumes "\<not> creatable e w h b"
  shows "trfb_framebuffer_create e w h b = Some NULL"
proof (cases "w \<le> 0xffff \<and> h \<le> 0xffff \<and> struct_ok e \<and> fb_bpp_ok b")
  case True
  then have wh: "w \<le> 0xffff" "h \<le> 0xffff" and b: "fb_bpp_ok b" by auto
  have px: "calloc e (unat b * unat (w * h)) = NULL \<or> \<not> mtx_ok e"
    using True assms unat_mult_ffff [OF wh] by (auto simp: creatable_def calloc_def fb_area_def ac_simps)
  obtain fb fb' where "create_format b (zero_fb\<lparr>fb_bpp := b, fb_width := w, fb_height := h\<rparr>) = Some fb"
    and "set_norms fb = Some fb'"
    using create_format_norms [OF b, of "zero_fb\<lparr>fb_bpp := b, fb_width := w, fb_height := h\<rparr>"] by auto
  with px True show ?thesis
    by (auto simp: trfb_framebuffer_create_def split: ptr.splits)
next
  case False
  then show ?thesis
    by (auto simp: trfb_framebuffer_create_def create_format_def fb_bpp_ok_def)
qed

lemma create_wf:
  assumes "trfb_framebuffer_create e w h b = Some (Ptr fb)"
  shows "fb_wf fb" and "fb_std fb" and "creatable e w h b"
proof -
  show c: "creatable e w h b"
    using assms create_fails by fastforce
  from create_ok [OF c] assms show "fb_std fb" by auto
  with c create_ok [OF c] assms show "fb_wf fb"
    by (auto simp: fb_wf_def fb_shape_def fb_std_shifts fb_std_normed creatable_def fb_area_def)
qed

section \<open>Copies\<close>

lemma fb_shape_length: "fb_shape fb \<Longrightarrow> length (fb_pixels fb) = fb_area (fb_width fb) (fb_height fb) (fb_bpp fb)"
  by (simp add: fb_shape_def fb_area_def)

lemma copy_result:
  assumes "fb_shape fb" and "struct_ok e" and "alloc_ok e n"
    and n: "n = fb_area (fb_width fb) (fb_height fb) (fb_bpp fb) mod 2 ^ 32"
  shows "trfb_framebuffer_copy e fb =
    Some (Ptr (fb\<lparr>fb_pixels := take n (fb_pixels fb), fb_free_pixels := True\<rparr>))"
proof -
  have "fb_bytes (fb_width fb) (fb_height fb) (fb_bpp fb) = n"
    by (simp add: fb_bytes_mod n)
  moreover have "n \<le> length (fb_pixels fb)"
    using fb_shape_length [OF assms(1)] n by simp
  ultimately show ?thesis
    using assms by (auto simp: trfb_framebuffer_copy_def fb_shape_def fb_bpp_ok_def malloc_def mem_simps)
qed

section \<open>Resizing\<close>

lemma row_fits:
  assumes "y < h" and "W \<le> w"
  shows "y * w * s + W * s \<le> w * h * (s::nat)"
proof -
  have "y * w * s + W * s \<le> Suc y * w * s"
    using assms(2) by (simp add: add_mult_distrib)
  also have "\<dots> \<le> h * w * s"
    using assms(1) by (intro mult_le_mono1) simp
  finally show ?thesis by (simp add: ac_simps)
qed

text \<open>Writing the first \<open>W\<close> elements of row \<open>y\<close> leaves every other element as it was.\<close>

lemma slice_row_other:
  assumes t': "blit t (y * w * s) row = Some t'" and len: "length row = W * s" and W: "W \<le> w"
    and x': "x' < w" and other: "\<not> (y' = y \<and> x' < W)"
  shows "slice t' ((y' * w + x') * s) s = slice t ((y' * w + x') * s) s"
proof (rule slice_blit_other [OF t'])
  show "(y' * w + x') * s + s \<le> y * w * s \<or> y * w * s + length row \<le> (y' * w + x') * s"
  proof (cases "y' < y")
    case True
    then have "y' * w + x' < y * w" using grid_index_bound [OF True x'] by (simp add: mult.commute)
    then show ?thesis using elem_fits by blast
  next
    case ge: False
    have "y * w + W \<le> y' * w + x'"
    proof (cases "y' = y")
      case True with other show ?thesis by simp
    next
      case False
      with ge have "Suc y * w \<le> y' * w" by (intro mult_le_mono1) simp
      with W show ?thesis by simp
    qed
    then have "(y * w + W) * s \<le> (y' * w + x') * s" by (rule mult_le_mono1)
    then show ?thesis by (simp add: len add_mult_distrib)
  qed
qed

lemma slice_row_same:
  assumes t': "blit t (y * w * s) row = Some t'" and len: "length row = W * s"
    and row: "slice px (y * w0 * s) (W * s) = Some row" and x': "x' < W"
  shows "slice t' ((y * w + x') * s) s = slice px ((y * w0 + x') * s) s"
proof -
  have fit: "x' * s + s \<le> W * s" using x' by (rule elem_fits)
  have "slice t' ((y * w + x') * s) s = slice row (x' * s) s"
    using slice_blit_inside [OF t', of "x' * s" s] fit len by (simp add: add_mult_distrib)
  also have "\<dots> = slice px ((y * w0 + x') * s) s"
    using slice_slice [OF row fit] by (simp add: add_mult_distrib)
  finally show ?thesis .
qed

lemma copy_rows:
  assumes px: "length px = w0 * h0 * s" and np: "np = replicate (w * h * s) 0"
    and W: "W \<le> w0" "W \<le> w" and H: "H \<le> h0" "H \<le> h"
  shows "\<exists>np'. for_loop 1 0 H (\<lambda>y np. do {
             row \<leftarrow> slice px (y * w0 * s) (W * s);
             blit np (y * w * s) row }) np = Some np' \<and> length np' = w * h * s \<and>
     (\<forall>x y. x < w \<longrightarrow> y < h \<longrightarrow> slice np' ((y * w + x) * s) s =
        (if x < W \<and> y < H then slice px ((y * w0 + x) * s) s else Some (replicate s (0::u8))))"
    (is "\<exists>np'. _ \<and> _ \<and> ?Q H np'")
proof -
  let ?P = "\<lambda>y np. length np = w * h * s \<and> ?Q y np"
  have "\<exists>np'. for_loop 1 0 H (\<lambda>y np. do {
             row \<leftarrow> slice px (y * w0 * s) (W * s);
             blit np (y * w * s) row }) np = Some np' \<and> ?P H np'"
  proof (rule for_loop_unit_rule [where P = ?P])
    have "(y * w + x) * s + s \<le> w * h * s" if "x < w" "y < h" for x y
      using grid_index_bound [OF that(2,1)] by (rule elem_fits)
    then show "?P 0 np" by (simp add: np slice_replicate)
  next
    fix y t assume P: "?P y t" and y: "y < H"
    obtain row where row: "slice px (y * w0 * s) (W * s) = Some row" and len: "length row = W * s"
      using row_fits [of y h0 W w0 s] y H W px by (auto simp: slice_def)
    obtain t' where t': "blit t (y * w * s) row = Some t'"
      using row_fits [of y h W w s] y H W P len by (auto simp: blit_def)
    have "?Q (Suc y) t'"
      using P slice_row_same [OF t' len row] slice_row_other [OF t' len W(2)]
      by (auto simp: less_Suc_eq)
    with row t' P show "\<exists>t'. do { row \<leftarrow> slice px (y * w0 * s) (W * s); blit t (y * w * s) row } = Some t' \<and> ?P (Suc y) t'"
      by (auto dest: blit_length)
  qed simp
  then show ?thesis by blast
qed

lemma FB_COPY_rows:
  assumes "fb_shape fb" and s: "s = unat (fb_bpp fb)" and alloc: "alloc_ok e (fb_area w h (fb_bpp fb))"
    and wh: "w \<le> 0xffff" "h \<le> 0xffff"
    and W: "W \<le> fb_width fb" "W \<le> w" and H: "H \<le> fb_height fb" "H \<le> h"
  shows "\<exists>np. FB_COPY e s fb w h W H = Some (Ptr np) \<and> length np = fb_area w h (fb_bpp fb) \<and>
    (\<forall>x y. x < unat w \<longrightarrow> y < unat h \<longrightarrow> slice np ((y * unat w + x) * s) s =
      (if x < unat W \<and> y < unat H
       then slice (fb_pixels fb) ((y * unat (fb_width fb) + x) * s) s else Some (replicate s 0)))"
proof -
  let ?w0 = "unat (fb_width fb)" and ?px = "fb_pixels fb"
  let ?np = "replicate (unat w * unat h * s) (0::u8)"
  let ?body = "\<lambda>y np. do { row \<leftarrow> slice ?px (y * ?w0 * s) (unat W * s); blit np (y * unat w * s) row }"
  have idx: "unat (of_nat y * v :: u32) = y * unat v" if "y < unat H" "v \<le> 0xffff" for y and v :: u32
  proof -
    have "H \<le> 0xffff" using H(2) wh(2) by simp
    then have "y < 65535" using that(1) by (simp add: word_le_nat_alt)
    then have "unat (of_nat y :: u32) = y" by (simp add: unat_of_nat take_bit_nat_eq_self)
    with \<open>y < 65535\<close> that(2) show ?thesis
      using unat_mult_add_small [of "of_nat y" v 0] by (simp add: unat_le_ffff)
  qed
  have "calloc e (unat (w * h) * s) = Ptr ?np"
    using alloc by (simp add: calloc_def unat_mult_ffff [OF wh] fb_area_def s)
  moreover have "for_loop 1 0 (unat H) (\<lambda>y np. do {
      row \<leftarrow> slice ?px (unat (of_nat y * fb_width fb) * s) (unat W * s);
      blit np (unat (of_nat y * w) * s) row }) ?np = for_loop 1 0 (unat H) ?body ?np"
    using assms(1) wh by (intro for_loop_cong) (simp add: idx fb_shape_def)
  ultimately have eq: "FB_COPY e s fb w h W H = map_option Ptr (for_loop 1 0 (unat H) ?body ?np)"
    by (simp add: FB_COPY_def)
  have "length ?px = ?w0 * unat (fb_height fb) * s"
    using assms(1) by (simp add: fb_shape_def s)
  then have "\<exists>np. for_loop 1 0 (unat H) ?body ?np = Some np \<and> length np = unat w * unat h * s \<and>
    (\<forall>x y. x < unat w \<longrightarrow> y < unat h \<longrightarrow> slice np ((y * unat w + x) * s) s =
      (if x < unat W \<and> y < unat H
       then slice ?px ((y * ?w0 + x) * s) s else Some (replicate s 0)))"
    using W H by (intro copy_rows) (auto simp: word_le_nat_alt)
  with eq show ?thesis by (auto simp: fb_area_def s)
qed

text \<open>Reading a pixel depends on its bytes only.\<close>

lemma get_pixel_bytes:
  assumes "fb_shape fb" and "in_fb fb x y" and "s = unat (fb_bpp fb)"
  shows "trfb_framebuffer_get_pixel e fb x y =
    Option.bind (slice (fb_pixels fb) ((unat y * unat (fb_width fb) + unat x) * s) s)
      (\<lambda>bs. pixel_color fb (le_word (host_order (host_be e) bs)))"
  using assms
  by (auto simp: get_pixel_eq trfb_fb_get_pixel_def pixel_index_eq load_def fb_shape_def
      split: bind_split)

lemma resize_ok:
  assumes fb: "fb_shape fb" and dims: "0 < w" "0 < h" "w \<le> 0xffff" "h \<le> 0xffff"
    and alloc: "alloc_ok e (fb_area w h (fb_bpp fb))"
  shows "\<exists>np. trfb_framebuffer_resize e (Ptr fb) w h =
      Some (0, Ptr (fb\<lparr>fb_pixels := np, fb_width := w, fb_height := h\<rparr>)) \<and>
    fb_shape (fb\<lparr>fb_pixels := np, fb_width := w, fb_height := h\<rparr>) \<and>
    (\<forall>x y. x < w \<and> y < h \<longrightarrow>
      trfb_framebuffer_get_pixel e (fb\<lparr>fb_pixels := np, fb_width := w, fb_height := h\<rparr>) x y =
        (if in_fb fb x y then trfb_framebuffer_get_pixel e fb x y else pixel_color fb 0))"
proof -
  define W where "W = (if w < fb_width fb then w else fb_width fb)"
  define H where "H = (if h < fb_height fb then h else fb_height fb)"
  define s where "s = unat (fb_bpp fb)"
  have WH: "W \<le> fb_width fb" "W \<le> w" "H \<le> fb_height fb" "H \<le> h"
    by (auto simp: W_def H_def)
  obtain np where np: "FB_COPY e s fb w h W H = Some (Ptr np)"
    and len: "length np = fb_area w h (fb_bpp fb)"
    and rows: "\<And>x y. x < unat w \<Longrightarrow> y < unat h \<Longrightarrow> slice np ((y * unat w + x) * s) s =
      (if x < unat W \<and> y < unat H
       then slice (fb_pixels fb) ((y * unat (fb_width fb) + x) * s) s else Some (replicate s 0))"
    using FB_COPY_rows [OF fb s_def alloc dims(3,4) WH] by blast
  let ?fb = "fb\<lparr>fb_pixels := np, fb_width := w, fb_height := h\<rparr>"
  have bpp: "fb_bpp_ok (fb_bpp fb)" using fb by (simp add: fb_shape_def)
  then have "trfb_framebuffer_resize e (Ptr fb) w h = Some (0, Ptr ?fb)"
    using np dims by (elim bpp_ok_cases) (auto simp: trfb_framebuffer_resize_def W_def H_def s_def)
  moreover have shape: "fb_shape ?fb"
    using bpp len dims by (simp add: fb_shape_def fb_area_def)
  moreover have "trfb_framebuffer_get_pixel e ?fb x y =
      (if in_fb fb x y then trfb_framebuffer_get_pixel e fb x y else pixel_color fb 0)"
    if "x < w" "y < h" for x y
  proof -
    have in_both: "in_fb fb x y \<longleftrightarrow> unat x < unat W \<and> unat y < unat H"
      using that by (auto simp: in_fb_def W_def H_def word_less_nat_alt)
    have "pixel_color ?fb = pixel_color fb"
      by (simp add: fun_eq_iff pixel_color_def)
    then show ?thesis
      using rows [of "unat x" "unat y"] that in_both get_pixel_bytes [OF shape, of x y s e]
        get_pixel_bytes [OF fb, of x y s e]
      by (auto simp: in_fb_def word_less_nat_alt s_def)
  qed
  ultimately show ?thesis by blast
qed

section \<open>Conversion\<close>

lemma same_format_pixels [simp]: "same_format (fb\<lparr>fb_pixels := px\<rparr>) = same_format fb"
  by (simp add: fun_eq_iff same_format_def)

lemma fb_shape_pixels: "fb_shape fb \<Longrightarrow> length px = length (fb_pixels fb) \<Longrightarrow> fb_shape (fb\<lparr>fb_pixels := px\<rparr>)"
  by (simp add: fb_shape_def)

lemma set_norms_pixels: "fb_normed (fb\<lparr>fb_pixels := px\<rparr>) = fb_normed fb"
proof -
  have "set_norms (fb\<lparr>fb_pixels := px\<rparr>) = map_option (fb_pixels_update (\<lambda>_. px)) (set_norms fb)"
    by (auto simp: set_norms_def split: bind_split)
  moreover obtain rn gn bn where "set_norms fb = Some (fb\<lparr>fb_rnorm := rn, fb_gnorm := gn, fb_bnorm := bn\<rparr>)"
    using set_norms_defined by blast
  ultimately show ?thesis by (cases fb) (auto simp: fb_normed_def)
qed

text \<open>
  The pixels in \<open>S\<close> of the destination hold the converted pixels of the source.
\<close>

definition converted ::
  "cenv \<Rightarrow> trfb_framebuffer \<Rightarrow> trfb_framebuffer \<Rightarrow> (u32 \<Rightarrow> u32 \<Rightarrow> bool) \<Rightarrow> bytes \<Rightarrow> bool" where
  "converted e dst src S px \<longleftrightarrow> length px = length (fb_pixels dst) \<and>
     (\<forall>x y. in_fb src x y \<longrightarrow> S x y \<longrightarrow>
       trfb_framebuffer_get_pixel e (dst\<lparr>fb_pixels := px\<rparr>) x y =
         Option.bind (trfb_framebuffer_get_pixel e src x y) (recolor dst))"

lemma convert_one:
  assumes src: "fb_shape src" "fb_shifts src" and dst: "fb_shape dst" "fb_shifts dst"
    and same: "fb_width dst = fb_width src" "fb_height dst = fb_height src"
    and px: "converted e dst src S px" and xy: "in_fb src x y"
  shows "\<exists>px'. do {
      col \<leftarrow> trfb_framebuffer_get_pixel e src x y;
      trfb_framebuffer_set_pixel e (dst\<lparr>fb_pixels := px\<rparr>) x y col } = Some (dst\<lparr>fb_pixels := px'\<rparr>) \<and>
    converted e dst src (\<lambda>x' y'. S x' y' \<or> (x', y') = (x, y)) px'"
proof -
  let ?t = "dst\<lparr>fb_pixels := px\<rparr>"
  obtain col where col: "trfb_framebuffer_get_pixel e src x y = Some col"
    using get_pixel_defined [OF src xy] by blast
  have t: "fb_shape ?t" "fb_shifts ?t" "in_fb ?t x y"
    using dst px xy same by (auto simp: converted_def in_fb_def intro: fb_shape_pixels)
  obtain px' where set: "trfb_framebuffer_set_pixel e ?t x y col = Some (?t\<lparr>fb_pixels := px'\<rparr>)"
    and len: "length px' = length (fb_pixels ?t)"
    and new: "trfb_framebuffer_get_pixel e (?t\<lparr>fb_pixels := px'\<rparr>) x y = recolor ?t col"
    and other: "\<And>x' y'. in_fb ?t x' y' \<Longrightarrow> (x', y') \<noteq> (x, y) \<Longrightarrow>
      trfb_framebuffer_get_pixel e (?t\<lparr>fb_pixels := px'\<rparr>) x' y' = trfb_framebuffer_get_pixel e ?t x' y'"
    using set_pixel_contract [OF t] by blast
  have in_t: "in_fb ?t x' y' = in_fb src x' y'" for x' y'
    using same by (simp add: in_fb_def)
  have "converted e dst src (\<lambda>x' y'. S x' y' \<or> (x', y') = (x, y)) px'"
    unfolding converted_def
  proof (intro conjI allI impI)
    fix x' y' assume "in_fb src x' y'" and "S x' y' \<or> (x', y') = (x, y)"
    then show "trfb_framebuffer_get_pixel e (dst\<lparr>fb_pixels := px'\<rparr>) x' y' =
        Option.bind (trfb_framebuffer_get_pixel e src x' y') (recolor dst)"
      using px new other [unfolded in_t] col
      by (cases "(x', y') = (x, y)") (auto simp: converted_def)
  qed (use px len in \<open>simp add: converted_def\<close>)
  with col set show ?thesis by auto
qed

lemma converted_mono: "converted e dst src S px \<Longrightarrow> (\<And>x y. in_fb src x y \<Longrightarrow> T x y \<Longrightarrow> S x y) \<Longrightarrow> converted e dst src T px"
  by (auto simp: converted_def)

lemma of_nat_u32: "i < 65536 \<Longrightarrow> unat (of_nat i :: u32) = i"
  by (simp add: unat_of_nat take_bit_nat_eq_self)

lemma convert_pixels_ok:
  assumes src: "fb_shape src" "fb_shifts src" and dst: "fb_shape dst" "fb_shifts dst"
    and same: "fb_width dst = fb_width src" "fb_height dst = fb_height src"
  shows "\<exists>px. convert_pixels e dst src = Some (dst\<lparr>fb_pixels := px\<rparr>) \<and>
    converted e dst src (\<lambda>_ _. True) px"
proof -
  let ?w = "unat (fb_width src)" and ?h = "unat (fb_height src)"
  have wh: "?w \<le> 65535" "?h \<le> 65535"
    using src by (auto simp: fb_shape_def unat_le_ffff)
  let ?S = "\<lambda>i j x y. unat y < i \<or> unat y = i \<and> unat x < j"
  let ?P = "\<lambda>i j t. \<exists>px. t = dst\<lparr>fb_pixels := px\<rparr> \<and> converted e dst src (?S i j) px"
  let ?body = "\<lambda>y x dst. do {
      col \<leftarrow> trfb_framebuffer_get_pixel e src (of_nat x) (of_nat y);
      trfb_framebuffer_set_pixel e dst (of_nat x) (of_nat y) col }"
  have row: "\<exists>t'. for_loop 1 0 ?w (?body i) t = Some t' \<and> ?P i ?w t'" if "?P i 0 t" "i < ?h" for i t
  proof (rule for_loop_unit_rule [where P = "?P i"])
    fix j t assume P: "?P i j t" and j: "j < ?w"
    have xy: "unat (of_nat j :: u32) = j" "unat (of_nat i :: u32) = i"
      using j \<open>i < ?h\<close> wh by (simp_all add: of_nat_u32)
    then have "in_fb src (of_nat j) (of_nat i)"
      using j \<open>i < ?h\<close> by (simp add: in_fb_def word_less_nat_alt)
    with P obtain px' where "?body i j t = Some (dst\<lparr>fb_pixels := px'\<rparr>)"
      and "converted e dst src (\<lambda>x y. ?S i j x y \<or> (x, y) = (of_nat j, of_nat i)) px'"
      using convert_one [OF src dst same] by blast
    moreover have "?S i (Suc j) x y \<Longrightarrow> ?S i j x y \<or> (x, y) = (of_nat j, of_nat i)" for x y :: u32
      using xy by (auto simp: less_Suc_eq word_unat_eq_iff)
    ultimately show "\<exists>t'. ?body i j t = Some t' \<and> ?P i (Suc j) t'"
      by (blast intro: converted_mono)
  qed (use that in auto)
  have "\<exists>t. for_loop 1 0 ?h (\<lambda>y dst. for_loop 1 0 ?w (?body y) dst) dst = Some t \<and> ?P ?h 0 t"
  proof (rule for_loop_unit_rule [where P = "\<lambda>i. ?P i 0"])
    show "?P 0 0 dst"
      by (intro exI [of _ "fb_pixels dst"]) (simp add: converted_def)
    fix i t assume "?P i 0 t" and "i < ?h"
    then obtain px where "for_loop 1 0 ?w (?body i) t = Some (dst\<lparr>fb_pixels := px\<rparr>)"
      and "converted e dst src (?S i ?w) px"
      using row by blast
    moreover from this(2) have "converted e dst src (?S (Suc i) 0) px"
      by (rule converted_mono) (auto simp: in_fb_def word_less_nat_alt)
    ultimately show "\<exists>t'. for_loop 1 0 ?w (?body i) t = Some t' \<and> ?P (Suc i) 0 t'"
      by blast
  qed simp
  then obtain px where "convert_pixels e dst src = Some (dst\<lparr>fb_pixels := px\<rparr>)"
    and "converted e dst src (?S ?h 0) px"
    by (auto simp: convert_pixels_def)
  moreover from this(2) have "converted e dst src (\<lambda>_ _. True) px"
    by (rule converted_mono) (auto simp: in_fb_def word_less_nat_alt)
  ultimately show ?thesis by blast
qed

lemma normed_norms:
  assumes "fb_normed fb"
  shows "norm_from_mask (ucast (fb_rmask fb)) = Some (fb_rnorm fb)"
    and "norm_from_mask (ucast (fb_gmask fb)) = Some (fb_gnorm fb)"
    and "norm_from_mask (ucast (fb_bmask fb)) = Some (fb_bnorm fb)"
proof -
  obtain rn gn bn where n: "norm_from_mask (ucast (fb_rmask fb)) = Some rn"
    "norm_from_mask (ucast (fb_gmask fb)) = Some gn" "norm_from_mask (ucast (fb_bmask fb)) = Some bn"
    using norm_from_mask_defined by metis
  then have eq: "fb\<lparr>fb_rnorm := rn, fb_gnorm := gn, fb_bnorm := bn\<rparr> = fb"
    using assms by (simp add: fb_normed_def set_norms_def)
  have "fb_rnorm fb = rn" "fb_gnorm fb = gn" "fb_bnorm fb = bn"
    using arg_cong [OF eq, of fb_rnorm] arg_cong [OF eq, of fb_gnorm] arg_cong [OF eq, of fb_bnorm]
    by simp_all
  with n show "norm_from_mask (ucast (fb_rmask fb)) = Some (fb_rnorm fb)"
    and "norm_from_mask (ucast (fb_gmask fb)) = Some (fb_gnorm fb)"
    and "norm_from_mask (ucast (fb_bmask fb)) = Some (fb_bnorm fb)"
    by simp_all
qed

lemma same_format_color:
  assumes "same_format a b" and "fb_normed a" and "fb_normed b"
  shows "pixel_color a = pixel_color b"
  using assms(1) normed_norms [OF assms(2)] normed_norms [OF assms(3)]
  by (simp add: fun_eq_iff pixel_color_def same_format_def)

text \<open>The destination with room for the source: same format, size of the source.\<close>

abbreviation sized :: "trfb_framebuffer \<Rightarrow> trfb_framebuffer \<Rightarrow> bool \<Rightarrow> bytes \<Rightarrow> trfb_framebuffer" where
  "sized dst src fp p \<equiv> dst\<lparr>fb_free_pixels := fp, fb_pixels := p,
     fb_width := fb_width src, fb_height := fb_height src\<rparr>"

lemma sized_facts [simp]:
  "fb_shifts (sized dst src fp p) = fb_shifts dst"
  "pixel_color (sized dst src fp p) = pixel_color dst"
  "recolor (sized dst src fp p) = recolor dst"
  "same_format (sized dst src fp p) src = same_format dst src"
  by (simp_all add: fb_shifts_def fun_eq_iff pixel_color_def color_pixel_def recolor_def same_format_def)

lemma convert_size_ok:
  assumes dst: "fb_shape dst" and src: "fb_shape src" and dims: "0 < fb_width src" "0 < fb_height src"
    and fits: "fb_area (fb_width src) (fb_height src) (fb_bpp dst) < 2 ^ 32"
    and alloc: "fb_width dst = fb_width src \<and> fb_height dst = fb_height src \<or>
      alloc_ok e (fb_area (fb_width src) (fb_height src) (fb_bpp dst))"
  shows "\<exists>fp p. convert_size e dst src = Some (Inr (sized dst src fp p)) \<and> fb_shape (sized dst src fp p)"
proof (cases "fb_width dst = fb_width src \<and> fb_height dst = fb_height src")
  case True
  then show ?thesis
    using dst by (intro exI [of _ "fb_free_pixels dst"] exI [of _ "fb_pixels dst"])
      (simp add: convert_size_def fb_shape_def)
next
  case False
  let ?n = "fb_area (fb_width src) (fb_height src) (fb_bpp dst)"
  let ?p = "if fb_free_pixels dst then take ?n (fb_pixels dst) @ map (junk e) [length (fb_pixels dst)..<?n]
       else map (junk e) [0..<?n]"
  have "0 < ?n"
    using dst dims by (auto simp: fb_area_def fb_shape_def unat_gt_0 fb_bpp_ok_def)
  with False alloc fb_bytes_eq [OF fits]
  have "convert_size e dst src = Some (Inr (sized dst src True ?p))"
    by (auto simp: convert_size_def realloc_def malloc_def Let_def)
  moreover have "length ?p = ?n" by auto
  then have "fb_shape (sized dst src True ?p)"
    using dst src by (simp add: fb_shape_def fb_area_def)
  ultimately show ?thesis by blast
qed

lemma convert_ok:
  assumes dst: "fb_wf dst" and src: "fb_wf src"
    and dims: "0 < fb_width src" "0 < fb_height src" "0 < fb_width dst" "0 < fb_height dst"
    and fits: "fb_area (fb_width src) (fb_height src) (fb_bpp dst) < 2 ^ 32"
    and alloc: "fb_width dst = fb_width src \<and> fb_height dst = fb_height src \<or>
      alloc_ok e (fb_area (fb_width src) (fb_height src) (fb_bpp dst))"
  shows "\<exists>fp p. trfb_framebuffer_convert e (Ptr dst) (Ptr src) = Some (0, Ptr (sized dst src fp p)) \<and>
    fb_shape (sized dst src fp p) \<and>
    (\<forall>x y. in_fb src x y \<longrightarrow> trfb_framebuffer_get_pixel e (sized dst src fp p) x y =
      (if same_format dst src then trfb_framebuffer_get_pixel e src x y
       else Option.bind (trfb_framebuffer_get_pixel e src x y) (recolor dst)))"
proof -
  have s: "fb_shape src" "fb_shifts src" "fb_shape dst" "fb_shifts dst"
    using src dst by (auto simp: fb_wf_def)
  obtain fp p where size: "convert_size e dst src = Some (Inr (sized dst src fp p))"
    and shape: "fb_shape (sized dst src fp p)"
    using convert_size_ok [OF s(3) s(1) dims(1,2) fits alloc] by blast
  let ?result = "if same_format dst src then Some (sized dst src fp (fb_pixels src))
    else convert_pixels e (sized dst src fp p) src"
  have "length p = length (fb_pixels src)" if "same_format dst src"
    using that shape s(1) by (simp add: fb_shape_def same_format_def)
  moreover have "length (fb_pixels src) = fb_bytes (fb_width src) (fb_height src) (fb_bpp dst)"
    if "same_format dst src"
    using that s(1) fb_bytes_eq [OF fits] by (simp add: fb_shape_length same_format_def)
  ultimately have run: "trfb_framebuffer_convert e (Ptr dst) (Ptr src) =
      map_option (\<lambda>fb. (0, Ptr fb)) ?result"
    using s dims size by (auto simp: trfb_framebuffer_convert_def fb_shape_def mem_simps
        split: bind_split)
  show ?thesis
  proof (cases "same_format dst src")
    case True
    have shape': "fb_shape (sized dst src fp (fb_pixels src))"
      using True shape s(1) by (simp add: fb_shape_def same_format_def)
    have "pixel_color dst = pixel_color src"
      using same_format_color [OF True] src dst by (simp add: fb_wf_def)
    then have "trfb_framebuffer_get_pixel e (sized dst src fp (fb_pixels src)) x y =
        trfb_framebuffer_get_pixel e src x y" if "in_fb src x y" for x y
      using that True get_pixel_bytes [OF shape', of x y "unat (fb_bpp src)"] get_pixel_bytes [OF s(1) that refl]
      by (simp add: in_fb_def same_format_def)
    with run True shape' show ?thesis by auto
  next
    case False
    obtain px where "convert_pixels e (sized dst src fp p) src = Some (sized dst src fp p\<lparr>fb_pixels := px\<rparr>)"
      and conv: "converted e (sized dst src fp p) src (\<lambda>_ _. True) px"
      using convert_pixels_ok [OF s(1,2) shape] s(4) by auto
    moreover have "sized dst src fp p\<lparr>fb_pixels := px\<rparr> = sized dst src fp px"
      by simp
    ultimately show ?thesis
      using run False shape by (intro exI [of _ fp] exI [of _ px]) (auto simp: converted_def fb_shape_def)
  qed
qed

text \<open>When the memory for another size cannot be had, the destination stays as it is.\<close>

lemma convert_no_memory:
  assumes dst: "fb_shape dst" and src: "fb_shape src"
    and dims: "0 < fb_width src" "0 < fb_height src" "0 < fb_width dst" "0 < fb_height dst"
    and fits: "fb_area (fb_width src) (fb_height src) (fb_bpp dst) < 2 ^ 32"
    and no: "\<not> (fb_width dst = fb_width src \<and> fb_height dst = fb_height src \<or>
      alloc_ok e (fb_area (fb_width src) (fb_height src) (fb_bpp dst)))"
  shows "trfb_framebuffer_convert e (Ptr dst) (Ptr src) = Some (-1, Ptr dst)"
proof -
  have bpp: "fb_bpp_ok (fb_bpp src)" "fb_bpp_ok (fb_bpp dst)" using dst src by (simp_all add: fb_shape_def)
  have "0 < fb_area (fb_width src) (fb_height src) (fb_bpp dst)"
    using dims bpp(2) by (auto simp: fb_area_def fb_bpp_ok_def unat_gt_0)
  then have "convert_size e dst src = Some (Inl dst)"
    using no fb_bytes_eq [OF fits] by (auto simp: convert_size_def realloc_def malloc_def Let_def)
  moreover have "\<not> (fb_width src = 0 \<or> fb_height src = 0 \<or> fb_width dst = 0 \<or> fb_height dst = 0 \<or>
      0xffff < fb_width src \<or> 0xffff < fb_height src \<or> 0xffff < fb_width dst \<or> 0xffff < fb_height dst)"
    using assms by (auto simp: fb_shape_def)
  ultimately show ?thesis using bpp by (simp add: trfb_framebuffer_convert_def)
qed

text \<open>Sizes of which no byte count wraps, and what does not change the norms.\<close>

lemma small_area:
  assumes "w \<le> 0x7fff" and "h \<le> 0x7fff" and "fb_bpp_ok b"
  shows "fb_area w h b < 2 ^ 32"
proof -
  have "unat w * unat h \<le> 32767 * 32767"
    using assms by (intro mult_le_mono) (simp_all add: word_le_nat_alt)
  moreover have "unat b \<le> 4" using assms(3) by (auto simp: fb_bpp_ok_def)
  ultimately have "unat w * unat h * unat b \<le> 32767 * 32767 * 4"
    by (rule mult_le_mono)
  then show ?thesis by (simp add: fb_area_def)
qed

lemma set_norms_frame:
  "set_norms (fb\<lparr>fb_lock := l, fb_free_pixels := fp, fb_pixels := px, fb_width := w, fb_height := h\<rparr>) =
   map_option (\<lambda>fb. fb\<lparr>fb_lock := l, fb_free_pixels := fp, fb_pixels := px, fb_width := w, fb_height := h\<rparr>)
     (set_norms fb)"
  by (auto simp: set_norms_def split: bind_split)

lemma fb_normed_frame:
  "fb_normed fb \<Longrightarrow> fb_normed (fb\<lparr>fb_lock := l, fb_free_pixels := fp, fb_pixels := px,
     fb_width := w, fb_height := h\<rparr>)"
  by (simp only: fb_normed_def set_norms_frame) simp

section \<open>Byte order\<close>

lemma isBE_host [simp]: "isBE e = host_be e"
  by (simp add: isBE_def host_order_def numeral_eq_Suc)

text \<open>Position of byte \<open>m\<close> when the bytes of every \<open>s\<close>-byte element are reversed.\<close>

definition mirror :: "nat \<Rightarrow> nat \<Rightarrow> nat" where
  "mirror s m = m div s * s + (s - 1 - m mod s)"

definition swapped_upto :: "nat \<Rightarrow> nat \<Rightarrow> bytes \<Rightarrow> bytes \<Rightarrow> bool" where
  "swapped_upto s i p q \<longleftrightarrow> length q = length p \<and> s dvd i \<and>
     (\<forall>m < length p. q ! m = (if m < i then p ! mirror s m else p ! m))"

lemma swap_elem:
  assumes q: "swapped_upto s i p q" and s: "0 < s" and i: "i + s \<le> length p"
    and len: "length q' = length q"
    and new: "\<And>j. j < s \<Longrightarrow> q' ! (i + j) = q ! (i + (s - 1 - j))"
    and old: "\<And>m. m < length q \<Longrightarrow> m < i \<or> i + s \<le> m \<Longrightarrow> q' ! m = q ! m"
  shows "swapped_upto s (i + s) p q'"
  unfolding swapped_upto_def
proof (intro conjI allI impI)
  have "s dvd i" using q by (simp add: swapped_upto_def)
  then obtain k where k: "i = k * s" by (metis dvdE mult.commute)
  fix m assume m: "m < length p"
  show "q' ! m = (if m < i + s then p ! mirror s m else p ! m)"
  proof (cases "i \<le> m \<and> m < i + s")
    case True
    then obtain j where j: "m = k * s + j" "j < s"
      using k by (metis add_less_cancel_left le_Suc_ex)
    have "mirror s m = i + (s - 1 - j)"
      using j by (simp add: mirror_def k)
    moreover have "q' ! m = q ! (i + (s - 1 - j))"
      using new [of j] j k by simp
    moreover have "q ! (i + (s - 1 - j)) = p ! (i + (s - 1 - j))"
    proof -
      have "i + (s - 1 - j) < length p" and "\<not> i + (s - 1 - j) < i"
        using i j by linarith+
      with q show ?thesis unfolding swapped_upto_def by presburger
    qed
    ultimately show ?thesis using True by simp
  next
    case False
    with old [of m] q m show ?thesis by (auto simp: swapped_upto_def)
  qed
qed (use q len in \<open>auto simp: swapped_upto_def\<close>)

lemma cswap_Some: "i < length p \<Longrightarrow> j < length p \<Longrightarrow> cswap p i j = Some (p[i := p ! j, j := p ! i])"
  by (simp add: cswap_def)

lemma swap2_loop:
  assumes "length p = n * 2"
  shows "\<exists>q. for_loop 2 0 (n * 2) (\<lambda>i p. cswap p i (i + 1)) p = Some q \<and> swapped_upto 2 (n * 2) p q"
proof -
  let ?P = "\<lambda>i q. i \<le> n * 2 \<and> swapped_upto 2 i p q"
  have "\<exists>j q. for_loop 2 0 (n * 2) (\<lambda>i p. cswap p i (i + 1)) p = Some q \<and> n * 2 \<le> j \<and> ?P j q"
  proof (rule for_loop_rule [where P = ?P])
    fix i q assume P: "?P i q" and i: "i < n * 2"
    then have le: "i + 2 \<le> n * 2" by (auto simp: swapped_upto_def elim!: dvdE)
    then have step: "cswap q i (i + 1) = Some (q[i := q ! (i + 1), i + 1 := q ! i])"
      using P assms by (intro cswap_Some) (auto simp: swapped_upto_def)
    have "swapped_upto 2 (i + 2) p (q[i := q ! (i + 1), i + 1 := q ! i])"
      using P le assms by (intro swap_elem [where q = q])
        (auto simp: swapped_upto_def nth_list_update less_Suc_eq numeral_eq_Suc)
    with step le show "\<exists>q'. cswap q i (i + 1) = Some q' \<and> ?P (i + 2) q'" by auto
  qed (auto simp: swapped_upto_def)
  then show ?thesis by (metis le_antisym)
qed

lemma swap4_loop:
  assumes "length p = n * 4"
  shows "\<exists>q. for_loop 4 0 (n * 4) (\<lambda>i p. do { p \<leftarrow> cswap p i (i + 3); cswap p (i + 1) (i + 2) }) p = Some q \<and>
    swapped_upto 4 (n * 4) p q"
proof -
  let ?f = "\<lambda>i p. do { p \<leftarrow> cswap p i (i + 3); cswap p (i + 1) (i + 2) }"
  let ?P = "\<lambda>i q. i \<le> n * 4 \<and> swapped_upto 4 i p q"
  have "\<exists>j q. for_loop 4 0 (n * 4) ?f p = Some q \<and> n * 4 \<le> j \<and> ?P j q"
  proof (rule for_loop_rule [where P = ?P])
    fix i q assume P: "?P i q" and i: "i < n * 4"
    then have le: "i + 4 \<le> n * 4" by (auto simp: swapped_upto_def elim!: dvdE)
    have len: "i + 3 < length q"
      using P le assms by (auto simp: swapped_upto_def)
    let ?q = "q[i := q ! (i + 3), i + 3 := q ! i, i + 1 := q ! (i + 2), i + 2 := q ! (i + 1)]"
    have step: "?f i q = Some ?q"
      using len by (simp add: cswap_Some nth_list_update)
    have "swapped_upto 4 (i + 4) p ?q"
      using P le len assms by (intro swap_elem [where q = q])
        (auto simp: swapped_upto_def nth_list_update less_Suc_eq numeral_eq_Suc)
    with step le show "\<exists>q'. ?f i q = Some q' \<and> ?P (i + 4) q'" by auto
  qed (auto simp: swapped_upto_def)
  then show ?thesis by (metis le_antisym)
qed

lemma swapped_slice:
  assumes q: "swapped_upto s (n * s) p q" and len: "length p = n * s" and k: "k < n"
  shows "slice q (k * s) s = map_option rev (slice p (k * s) s)"
proof -
  have fit: "k * s + s \<le> n * s" using k by (rule elem_fits)
  have "take s (drop (k * s) q) = rev (take s (drop (k * s) p))"
  proof (rule nth_equalityI)
    fix j assume "j < length (take s (drop (k * s) q))"
    then have j: "j < s" "k * s + j < n * s" using q len fit by (auto simp: swapped_upto_def)
    then have "mirror s (k * s + j) = k * s + (s - 1 - j)"
      by (simp add: mirror_def)
    moreover have "k * s + (s - Suc j) < n * s" "k * s \<le> n * s" using j fit k by simp_all
    ultimately show "take s (drop (k * s) q) ! j = rev (take s (drop (k * s) p)) ! j"
      using j q len fit by (simp add: swapped_upto_def rev_nth)
  qed (use q len in \<open>simp add: swapped_upto_def\<close>)
  with q len fit show ?thesis
    by (simp add: slice_def swapped_upto_def)
qed

lemma host_order_rev: "be' \<noteq> be \<Longrightarrow> host_order be' (rev bs) = host_order be bs"
  by (auto simp: host_order_def)

lemma load_reversed:
  "slice q (idx * s) s = map_option rev (slice p (idx * s) s) \<Longrightarrow> be' \<noteq> be \<Longrightarrow>
   load be' s q idx = load be s p idx"
  by (auto simp: load_def host_order_rev option.map_comp o_def)

text \<open>
  After the call the pixel values are stored in the requested byte order, and nothing else of
  the framebuffer has changed.
\<close>

lemma endian_ok:
  assumes fb: "fb_shape fb" and fits: "fb_area (fb_width fb) (fb_height fb) (fb_bpp fb) < 2 ^ 32"
  shows "\<exists>px. trfb_framebuffer_endian e (Ptr fb) be = Some (Ptr (fb\<lparr>fb_pixels := px\<rparr>)) \<and>
    length px = length (fb_pixels fb) \<and>
    (\<forall>k < unat (fb_width fb) * unat (fb_height fb).
      load be (unat (fb_bpp fb)) px k = load (host_be e) (unat (fb_bpp fb)) (fb_pixels fb) k)"
proof (cases "be = host_be e \<or> fb_bpp fb = 1")
  case True
  have "load be 1 mem k = load be' 1 mem k" for be be' mem k
    by (cases "drop k mem") (auto simp: load_def slice_def host_order_def)
  with True show ?thesis
    by (intro exI [of _ "fb_pixels fb"]) (auto simp: trfb_framebuffer_endian_def)
next
  case False
  let ?n = "unat (fb_width fb) * unat (fb_height fb)" and ?s = "unat (fb_bpp fb)"
  have len: "length (fb_pixels fb) = ?n * ?s"
    using fb by (simp add: fb_shape_def)
  have bytes: "fb_bytes (fb_width fb) (fb_height fb) (fb_bpp fb) = ?n * ?s"
    using fb_bytes_eq [OF fits] by (simp add: fb_area_def)
  have "\<exists>px. trfb_framebuffer_endian e (Ptr fb) be = Some (Ptr (fb\<lparr>fb_pixels := px\<rparr>)) \<and>
      swapped_upto ?s (?n * ?s) (fb_pixels fb) px"
  proof -
    have "fb_bpp fb = 2 \<or> fb_bpp fb = 4"
      using fb False by (auto simp: fb_shape_def fb_bpp_ok_def)
    then show ?thesis
    proof
      assume b: "fb_bpp fb = 2"
      obtain px where "for_loop 2 0 (?n * 2) (\<lambda>i p. cswap p i (i + 1)) (fb_pixels fb) = Some px"
        and "swapped_upto 2 (?n * 2) (fb_pixels fb) px"
        using swap2_loop [of "fb_pixels fb" ?n] len b by auto
      with b False bytes show ?thesis by (auto simp: trfb_framebuffer_endian_def)
    next
      assume b: "fb_bpp fb = 4"
      obtain px where "for_loop 4 0 (?n * 4) (\<lambda>i p. do { p \<leftarrow> cswap p i (i + 3); cswap p (i + 1) (i + 2) })
          (fb_pixels fb) = Some px"
        and "swapped_upto 4 (?n * 4) (fb_pixels fb) px"
        using swap4_loop [of "fb_pixels fb" ?n] len b by auto
      with b False bytes show ?thesis by (auto simp: trfb_framebuffer_endian_def)
    qed
  qed
  then obtain px where px: "trfb_framebuffer_endian e (Ptr fb) be = Some (Ptr (fb\<lparr>fb_pixels := px\<rparr>))"
    and swap: "swapped_upto ?s (?n * ?s) (fb_pixels fb) px"
    by blast
  have "load be ?s px k = load (host_be e) ?s (fb_pixels fb) k" if "k < ?n" for k
    using swapped_slice [OF swap len that] False by (intro load_reversed) auto
  with px swap show ?thesis by (auto simp: swapped_upto_def)
qed

section \<open>Requested formats\<close>

lemma take_format_defined:
  assumes "fb_shape fb" and "unat (fmt_rshift fmt) < 32" "unat (fmt_gshift fmt) < 32" "unat (fmt_bshift fmt) < 32"
  shows "\<exists>fb'. take_format fmt fb = Some fb' \<and> fb_wf fb'"
proof -
  let ?fb = "fb\<lparr>fb_rmask := ucast (fmt_rmax fmt), fb_gmask := ucast (fmt_gmax fmt),
     fb_bmask := ucast (fmt_bmax fmt), fb_rshift := fmt_rshift fmt, fb_gshift := fmt_gshift fmt,
     fb_bshift := fmt_bshift fmt\<rparr>"
  obtain rn gn bn where n: "norm_from_mask (ucast (fb_rmask ?fb)) = Some rn" "unat rn \<le> 7"
    "norm_from_mask (ucast (fb_gmask ?fb)) = Some gn" "unat gn \<le> 7"
    "norm_from_mask (ucast (fb_bmask ?fb)) = Some bn" "unat bn \<le> 7"
    using norm_from_mask_defined by metis
  then have "take_format fmt fb = Some (?fb\<lparr>fb_rnorm := rn, fb_gnorm := gn, fb_bnorm := bn\<rparr>)"
    by (simp add: take_format_def set_norms_def)
  moreover have "fb_wf (?fb\<lparr>fb_rnorm := rn, fb_gnorm := gn, fb_bnorm := bn\<rparr>)"
    using n assms by (simp add: fb_wf_def fb_shape_def fb_shifts_def fb_normed_def set_norms_def)
  ultimately show ?thesis by blast
qed

lemma fb_free_ok_simps [simp]:
  "fb_free_ok lax NULL"
  "fb_free_ok lax (Ptr fb) \<longleftrightarrow> fb_lock fb = MtxFree \<or> fb_lock fb = MtxHeld \<and> lax"
  by (simp_all add: fb_free_ok_def trfb_framebuffer_free_def release_ok_def)

text \<open>
  A new framebuffer of a requested format: black, with a free lock, the masks and shifts of the format
  and the norms that follow from them.
\<close>

definition fresh_of_format :: "trfb_format \<Rightarrow> u32 \<Rightarrow> u32 \<Rightarrow> trfb_framebuffer \<Rightarrow> bool" where
  "fresh_of_format fmt w h fb \<longleftrightarrow> fb_wf fb \<and> fb_lock fb = MtxFree \<and> fb_free_pixels fb \<and>
     fb_width fb = w \<and> fb_height fb = h \<and> fb_bpp fb = fmt_bpp fmt \<and>
     fb_rmask fb = ucast (fmt_rmax fmt) \<and> fb_gmask fb = ucast (fmt_gmax fmt) \<and>
     fb_bmask fb = ucast (fmt_bmax fmt) \<and> fb_rshift fb = fmt_rshift fmt \<and>
     fb_gshift fb = fmt_gshift fmt \<and> fb_bshift fb = fmt_bshift fmt \<and>
     fb_pixels fb = replicate (unat w * unat h * unat (fmt_bpp fmt)) 0"

lemma create_of_format_fresh:
  assumes "unat (fmt_rshift fmt) < 32" "unat (fmt_gshift fmt) < 32" "unat (fmt_bshift fmt) < 32"
  shows "\<exists>p. trfb_framebuffer_create_of_format e w h (Ptr fmt) =
      Some (p, Ptr (fmt\<lparr>fmt_bpp := fmt_bpp fmt div 8\<rparr>)) \<and>
    (p = NULL \<or> (\<exists>fb. p = Ptr fb \<and> fresh_of_format (fmt\<lparr>fmt_bpp := fmt_bpp fmt div 8\<rparr>) w h fb))"
proof (cases "creatable e w h (fmt_bpp fmt div 8)")
  case False
  with create_fails [OF False] show ?thesis
    by (auto simp: trfb_framebuffer_create_of_format_def Let_def)
next
  case True
  let ?fmt = "fmt\<lparr>fmt_bpp := fmt_bpp fmt div 8\<rparr>"
  obtain fb where fb: "trfb_framebuffer_create e w h (fmt_bpp fmt div 8) = Some (Ptr fb)"
    "fb_width fb = w" "fb_height fb = h" "fb_bpp fb = fmt_bpp fmt div 8" "fb_lock fb = MtxFree"
    "fb_free_pixels fb" "fb_pixels fb = replicate (fb_area w h (fmt_bpp fmt div 8)) 0"
    using create_ok [OF True] by blast
  have "fb_shape fb" using create_wf(1) [OF fb(1)] by (simp add: fb_wf_def)
  then obtain fb' where fb': "take_format ?fmt fb = Some fb'" "fb_wf fb'"
    using take_format_defined [of fb ?fmt] assms by auto
  then have "fresh_of_format ?fmt w h fb'"
    using fb by (auto simp: fresh_of_format_def take_format_def set_norms_def fb_area_def split: bind_split_asm)
  with fb fb' True show ?thesis
    by (auto simp: trfb_framebuffer_create_of_format_def Let_def creatable_def)
qed

section \<open>Examples for the witnesses\<close>

text \<open>An RGB565 framebuffer of two pixels, and a 32-bit one of one pixel.\<close>

definition fb565 :: trfb_framebuffer where
  "fb565 = \<lparr>fb_lock = MtxFree, fb_width = 2, fb_height = 1, fb_bpp = 2,
     fb_rmask = 0x1f, fb_gmask = 0x3f, fb_bmask = 0x1f, fb_rshift = 11, fb_gshift = 5, fb_bshift = 0,
     fb_rnorm = 3, fb_gnorm = 2, fb_bnorm = 3, fb_pixels = [0, 0, 0, 0], fb_free_pixels = True\<rparr>"

definition fb888 :: trfb_framebuffer where
  "fb888 = \<lparr>fb_lock = MtxFree, fb_width = 1, fb_height = 1, fb_bpp = 4,
     fb_rmask = 0xff, fb_gmask = 0xff, fb_bmask = 0xff, fb_rshift = 16, fb_gshift = 8, fb_bshift = 0,
     fb_rnorm = 0, fb_gnorm = 0, fb_bnorm = 0, fb_pixels = [1, 2, 3, 0], fb_free_pixels = True\<rparr>"

lemma fb565_facts [simp]:
  "fb_shape fb565" "fb_std fb565" "fb_bpp fb565 = 2" "fb_width fb565 = 2" "fb_height fb565 = 1"
  by (simp_all add: fb565_def fb_shape_def fb_std_def fb_bpp_ok_def)

lemma fb888_facts [simp]:
  "fb_shape fb888" "fb_std fb888" "fb_bpp fb888 = 4" "fb_width fb888 = 1" "fb_height fb888 = 1"
  by (simp_all add: fb888_def fb_shape_def fb_std_def fb_bpp_ok_def)

section \<open>Properties\<close>

text \<open>
  C1. \<^verbatim>\<open>trfb_framebuffer_create\<close> returns \<^verbatim>\<open>NULL\<close> exactly when the request is not acceptable or the
  platform refuses (\<open>creatable\<close>), and otherwise a well-formed framebuffer of the requested size
  and depth in the standard format of that depth, all black, with an initialised lock.
\<close>

theorem framebuffer_create_spec:
  "\<exists>r. trfb_framebuffer_create e w h b = Some r \<and>
    (case r of
       NULL \<Rightarrow> \<not> creatable e w h b
     | Ptr fb \<Rightarrow> creatable e w h b \<and> fb_wf fb \<and> fb_std fb \<and> fb_width fb = w \<and> fb_height fb = h \<and>
         fb_bpp fb = b \<and> fb_pixels fb = replicate (unat w * unat h * unat b) 0 \<and>
         fb_lock fb = MtxFree \<and> fb_free_pixels fb)"
  using create_ok [of e w h b] create_fails [of e w h b] create_wf [of e w h b]
  by (cases "creatable e w h b") (auto simp: fb_area_def)

text \<open>
  C3. A colour written to a pixel of a framebuffer in a standard format reads back with exactly
  the bits the depth can keep (8, 16 or 32 bits per pixel, on hosts of either byte order), and
  no other pixel changes.
\<close>

theorem pixel_write_read:
  assumes "fb_shape fb" and "fb_std fb" and "in_fb fb x y"
  shows "\<exists>fb'. trfb_framebuffer_set_pixel e fb x y col = Some fb' \<and> fb_shape fb' \<and> fb_std fb' \<and>
    trfb_framebuffer_get_pixel e fb' x y = Some (col AND kept_bits (fb_bpp fb)) \<and>
    (\<forall>x' y'. in_fb fb x' y' \<and> (x', y') \<noteq> (x, y) \<longrightarrow>
      trfb_framebuffer_get_pixel e fb' x' y' = trfb_framebuffer_get_pixel e fb x' y')"
proof -
  obtain px where "trfb_framebuffer_set_pixel e fb x y col = Some (fb\<lparr>fb_pixels := px\<rparr>)"
    and "length px = length (fb_pixels fb)"
    and "trfb_framebuffer_get_pixel e (fb\<lparr>fb_pixels := px\<rparr>) x y = recolor fb col"
    and "\<And>x' y'. in_fb fb x' y' \<Longrightarrow> (x', y') \<noteq> (x, y) \<Longrightarrow>
      trfb_framebuffer_get_pixel e (fb\<lparr>fb_pixels := px\<rparr>) x' y' = trfb_framebuffer_get_pixel e fb x' y'"
    using set_pixel_contract [OF assms(1) fb_std_shifts [OF assms(2)] assms(3)] by metis
  with assms show ?thesis
    by (intro exI [of _ "fb\<lparr>fb_pixels := px\<rparr>"]) (auto simp: recolor_std fb_shape_pixels fb_std_def)
qed

theorem pixel_write_read_witness:
  "\<exists>fb'. trfb_framebuffer_set_pixel easy_env fb565 1 0 0x123456 = Some fb' \<and>
    trfb_framebuffer_get_pixel easy_env fb' 1 0 = Some 0x103450"
  using pixel_write_read [of fb565 1 0 easy_env "0x123456"]
  by (force simp: in_fb_def kept_bits_def)

text \<open>
  C4. \<^verbatim>\<open>trfb_framebuffer_resize\<close> to an acceptable size succeeds when memory is available, keeps
  every pixel that lies in both sizes and fills the rest with zero pixels.
\<close>

theorem framebuffer_resize_spec:
  assumes "fb_shape fb" and "0 < w" and "0 < h" and "w \<le> 0xffff" and "h \<le> 0xffff"
    and "alloc_ok e (unat w * unat h * unat (fb_bpp fb))"
  shows "\<exists>fb'. trfb_framebuffer_resize e (Ptr fb) w h = Some (0, Ptr fb') \<and> fb_shape fb' \<and>
    fb_width fb' = w \<and> fb_height fb' = h \<and>
    (\<forall>x y. in_fb fb' x y \<longrightarrow> trfb_framebuffer_get_pixel e fb' x y =
      (if in_fb fb x y then trfb_framebuffer_get_pixel e fb x y else pixel_color fb 0))"
  using resize_ok [OF assms(1-5), of e] assms(6) by (fastforce simp: fb_area_def in_fb_def)

theorem framebuffer_resize_spec_witness:
  "\<exists>fb'. trfb_framebuffer_resize easy_env (Ptr fb888) 3 2 = Some (0, Ptr fb') \<and>
    trfb_framebuffer_get_pixel easy_env fb' 0 0 = Some 0x030201 \<and>
    trfb_framebuffer_get_pixel easy_env fb' 2 1 = Some 0"
proof -
  have "trfb_framebuffer_get_pixel easy_env fb888 0 0 = Some 0x030201"
    by (simp add: fb888_def trfb_framebuffer_get_pixel_def trfb_fb_get_pixel_def load_def slice_def
        pixel_index_def pixel_color_def shr32_def shl32_def TRFB_RGB_def host_order_def)
  moreover have "pixel_color fb888 0 = Some 0"
    by (simp add: fb888_def pixel_color_def shr32_def shl32_def TRFB_RGB_def)
  ultimately show ?thesis
    using framebuffer_resize_spec [of fb888 3 2 easy_env] by (force simp: in_fb_def)
qed

text \<open>
  C5. \<^verbatim>\<open>trfb_framebuffer_convert\<close> of a source into a destination, both well formed and not empty,
  succeeds without undefined behaviour when the number of the source's pixels times the
  destination's bytes per pixel is below 2^32 (above that the byte count wraps) and that many bytes
  can be had. It gives the destination the size of the source and, whatever the two formats and whatever the destination and fresh memory
  held before, leaves in every pixel the colour of the source: unchanged where the formats are
  the same, and otherwise as the destination's format can keep it.
\<close>

theorem framebuffer_convert_spec:
  assumes "fb_wf dst" and "fb_wf src"
    and "0 < fb_width src" and "0 < fb_height src" and "0 < fb_width dst" and "0 < fb_height dst"
    and "unat (fb_width src) * unat (fb_height src) * unat (fb_bpp dst) < 2 ^ 32"
    and "alloc_ok e (unat (fb_width src) * unat (fb_height src) * unat (fb_bpp dst))"
  shows "\<exists>dst'. trfb_framebuffer_convert e (Ptr dst) (Ptr src) = Some (0, Ptr dst') \<and> fb_shape dst' \<and>
    fb_width dst' = fb_width src \<and> fb_height dst' = fb_height src \<and> same_format dst' dst \<and>
    (\<forall>x y. in_fb src x y \<longrightarrow> trfb_framebuffer_get_pixel e dst' x y =
      (if same_format dst src then trfb_framebuffer_get_pixel e src x y
       else Option.bind (trfb_framebuffer_get_pixel e src x y) (recolor dst)))"
  using convert_ok [OF assms(1-6) _ disjI2] assms(7,8) by (fastforce simp: fb_area_def same_format_def)

theorem framebuffer_convert_spec_witness:
  "\<exists>dst'. trfb_framebuffer_convert easy_env (Ptr fb565) (Ptr fb888) = Some (0, Ptr dst') \<and>
    fb_width dst' = 1 \<and> trfb_framebuffer_get_pixel easy_env dst' 0 0 = Some 0"
proof -
  have "fb_wf fb565" "fb_wf fb888"
    by (simp_all add: fb_wf_def fb_std_shifts fb_std_normed)
  moreover have "trfb_framebuffer_get_pixel easy_env fb888 0 0 = Some 0x030201"
    by (simp add: fb888_def trfb_framebuffer_get_pixel_def trfb_fb_get_pixel_def load_def slice_def
        pixel_index_def pixel_color_def shr32_def shl32_def TRFB_RGB_def host_order_def)
  moreover have "\<not> same_format fb565 fb888" by (simp add: same_format_def)
  ultimately show ?thesis
    using framebuffer_convert_spec [of fb565 fb888 easy_env]
    by (force simp: in_fb_def recolor_std kept_bits_def)
qed

text \<open>
  C6. \<^verbatim>\<open>trfb_framebuffer_copy\<close> of a framebuffer of the supported depths holds all its pixels
  exactly when they take less than 4 GiB: the byte count is a 32-bit product, and above that the
  copy succeeds with a block of the wrapped size.
\<close>

theorem framebuffer_copy_complete_iff:
  assumes "fb_shape fb" and "struct_ok e" and "\<And>n. alloc_ok e n"
  shows "\<exists>c. trfb_framebuffer_copy e fb = Some (Ptr c) \<and> fb_width c = fb_width fb \<and>
    fb_height c = fb_height fb \<and> fb_bpp c = fb_bpp fb \<and>
    (fb_pixels c = fb_pixels fb \<longleftrightarrow>
      unat (fb_width fb) * unat (fb_height fb) * unat (fb_bpp fb) < 2 ^ 32) \<and>
    (fb_shape c \<longleftrightarrow> unat (fb_width fb) * unat (fb_height fb) * unat (fb_bpp fb) < 2 ^ 32)"
proof -
  let ?a = "fb_area (fb_width fb) (fb_height fb) (fb_bpp fb)"
  have len: "length (fb_pixels fb) = ?a" using assms(1) by (rule fb_shape_length)
  have small: "?a mod 2 ^ 32 = ?a \<longleftrightarrow> ?a < 2 ^ 32"
    by (metis mod_less mod_less_divisor zero_less_numeral zero_less_power)
  have "take (?a mod 2 ^ 32) (fb_pixels fb) = fb_pixels fb \<longleftrightarrow> ?a < 2 ^ 32"
  proof
    assume "take (?a mod 2 ^ 32) (fb_pixels fb) = fb_pixels fb"
    then have "length (take (?a mod 2 ^ 32) (fb_pixels fb)) = ?a" using len by simp
    then show "?a < 2 ^ 32" using len small by (simp add: min_def split: if_splits)
  qed (use len small in simp)
  moreover have "fb_shape (fb\<lparr>fb_pixels := take (?a mod 2 ^ 32) (fb_pixels fb), fb_free_pixels := True\<rparr>)
      \<longleftrightarrow> ?a mod 2 ^ 32 = ?a"
    using assms(1) len by (auto simp: fb_shape_def fb_area_def min_def)
  ultimately show ?thesis
    using copy_result [OF assms(1,2) assms(3) refl] small by (simp add: fb_area_def)
qed

theorem framebuffer_copy_complete_iff_witness:
  "\<exists>c. trfb_framebuffer_copy easy_env fb888 = Some (Ptr c) \<and> fb_pixels c = [1, 2, 3, 0]"
  using framebuffer_copy_complete_iff [of fb888 easy_env] by (auto simp: fb888_def [THEN arg_cong [of _ _ fb_pixels]])

text \<open>
  After \<^verbatim>\<open>trfb_framebuffer_endian\<close> every pixel value is stored in the requested byte order:
  read in that order it is the value the host had stored, on hosts of either order.
\<close>

theorem framebuffer_endian_spec:
  assumes "fb_shape fb" and "unat (fb_width fb) * unat (fb_height fb) * unat (fb_bpp fb) < 2 ^ 32"
  shows "\<exists>fb'. trfb_framebuffer_endian e (Ptr fb) be = Some (Ptr fb') \<and> fb_shape fb' \<and>
    (\<forall>k < unat (fb_width fb) * unat (fb_height fb).
      load be (unat (fb_bpp fb)) (fb_pixels fb') k = load (host_be e) (unat (fb_bpp fb)) (fb_pixels fb) k)"
proof -
  obtain px where "trfb_framebuffer_endian e (Ptr fb) be = Some (Ptr (fb\<lparr>fb_pixels := px\<rparr>))"
    and "length px = length (fb_pixels fb)"
    and "\<forall>k < unat (fb_width fb) * unat (fb_height fb).
      load be (unat (fb_bpp fb)) px k = load (host_be e) (unat (fb_bpp fb)) (fb_pixels fb) k"
    using endian_ok [OF assms(1), of e be] assms(2) by (auto simp: fb_area_def)
  with assms(1) show ?thesis
    by (intro exI [of _ "fb\<lparr>fb_pixels := px\<rparr>"]) (simp add: fb_shape_pixels)
qed

theorem framebuffer_endian_spec_witness:
  "\<exists>fb'. trfb_framebuffer_endian easy_env (Ptr fb888) True = Some (Ptr fb') \<and>
    load True 4 (fb_pixels fb') 0 = Some 0x030201"
proof -
  have "load False 4 (fb_pixels fb888) 0 = Some 0x030201"
    by (simp add: fb888_def load_def slice_def host_order_def)
  then show ?thesis
    using framebuffer_endian_spec [of fb888 easy_env True] by auto
qed

text \<open>
  \<^verbatim>\<open>norm_from_mask\<close> terminates on every mask: 0 for no bits, and otherwise the distance from
  the highest bit of the mask to bit 7.
\<close>

theorem norm_from_mask_spec:
  "\<exists>r. norm_from_mask m = Some r \<and>
    (if m = 0 then r = 0 else unat r \<le> 7 \<and> 2 ^ (7 - unat r) \<le> unat m \<and> unat m < 2 ^ (8 - unat r))"
proof (cases "m = 0")
  case True
  then show ?thesis by (simp add: norm_from_mask_def)
next
  case False
  then have pos: "0 < unat m" by (simp add: unat_gt_0)
  obtain k where k: "2 ^ k \<le> unat m" "unat m < 2 ^ Suc k"
    using ex_power_ivl1 [of 2 "unat m"] pos by auto
  then have "(2::nat) ^ k < 2 ^ 8" using unat_u8_bound [of m] by simp
  then have "k < 8" by (rule power_less_imp_less_exp [rotated]) simp
  then have "unat (of_nat (7 - k) :: u8) = 7 - k"
    by (simp add: unat_of_nat take_bit_nat_eq_self del: of_nat_diff)
  moreover have "8 - (7 - k) = Suc k" "7 - (7 - k) = k" using \<open>k < 8\<close> by simp_all
  ultimately show ?thesis
    using norm_from_mask_value [OF k] k False by (simp del: of_nat_diff)
qed

text \<open>
  A framebuffer created for the format that \<^verbatim>\<open>trfb_framebuffer_format\<close> reports of a well-formed
  framebuffer has the same pixel format: same depth, masks, shifts and norms.
\<close>

theorem format_roundtrip:
  assumes "fb_wf fb" and "fb_rmask fb \<le> 0xffff" and "fb_gmask fb \<le> 0xffff" and "fb_bmask fb \<le> 0xffff"
    and "creatable e w h (fb_bpp fb)"
  shows "\<exists>fmt fb' fmt'. trfb_framebuffer_format e (Ptr fb) (Ptr any) = (0, Ptr fmt) \<and>
    trfb_framebuffer_create_of_format e w h (Ptr fmt) = Some (Ptr fb', fmt') \<and>
    fb_wf fb' \<and> same_format fb' fb \<and> pixel_color fb' = pixel_color fb \<and>
    fb_width fb' = w \<and> fb_height fb' = h"
proof -
  obtain fmt where fmt: "trfb_framebuffer_format e (Ptr fb) (Ptr any) = (0, Ptr fmt)"
    and f: "fmt_bpp fmt = fb_bpp fb * 8" "fmt_rshift fmt = fb_rshift fb" "fmt_gshift fmt = fb_gshift fb"
      "fmt_bshift fmt = fb_bshift fb" "fmt_rmax fmt = ucast (fb_rmask fb)"
      "fmt_gmax fmt = ucast (fb_gmask fb)" "fmt_bmax fmt = ucast (fb_bmask fb)"
    by (simp add: trfb_framebuffer_format_def)
  have div8: "(fb_bpp fb * 8) div 8 = fb_bpp fb" and bpp: "fb_bpp_ok (fb_bpp fb)"
    using assms(1) by (auto simp: fb_wf_def fb_shape_def fb_bpp_ok_def)
  obtain c where c: "trfb_framebuffer_create e w h (fb_bpp fb) = Some (Ptr c)"
    and cf: "fb_width c = w" "fb_height c = h" "fb_bpp c = fb_bpp fb"
    using create_ok [OF assms(5)] by blast
  let ?fmt = "fmt\<lparr>fmt_bpp := fb_bpp fb\<rparr>"
  have masks: "ucast (ucast v :: u16) = v" if "v \<le> 0xffff" for v :: u32
    using that by (intro word_unat_eq_iff [THEN iffD2])
      (simp add: unsigned_ucast_eq unsigned_take_bit_eq take_bit_nat_eq_self word_le_nat_alt)
  obtain fb' where fb': "take_format ?fmt c = Some fb'" "fb_wf fb'"
    using take_format_defined [of c ?fmt] create_wf(1) [OF c] assms(1) f
    by (auto simp: fb_wf_def fb_shifts_def)
  then have same: "same_format fb' fb" "fb_width fb' = w" "fb_height fb' = h"
    using f masks assms(2-4) cf by (auto simp: take_format_def set_norms_def same_format_def
        split: bind_splits)
  have "trfb_framebuffer_create_of_format e w h (Ptr fmt) = Some (Ptr fb', Ptr ?fmt)"
    using f div8 bpp c fb' by (simp add: trfb_framebuffer_create_of_format_def)
  moreover have "pixel_color fb' = pixel_color fb"
    using same(1) fb'(2) assms(1) by (intro same_format_color) (auto simp: fb_wf_def)
  ultimately show ?thesis using fmt fb' same by blast
qed

theorem format_roundtrip_witness:
  "\<exists>fmt fb' fmt'. trfb_framebuffer_create_of_format easy_env 5 4 (Ptr fmt) = Some (Ptr fb', fmt') \<and>
    fb_width fb' = 5 \<and> fb_bpp fb' = 2"
proof -
  have "fb_wf fb565" by (simp add: fb_wf_def fb_std_shifts fb_std_normed)
  moreover have "fb_rmask fb565 \<le> 0xffff" "fb_gmask fb565 \<le> 0xffff" "fb_bmask fb565 \<le> 0xffff"
    by (simp_all add: fb565_def)
  moreover have "creatable easy_env 5 4 (fb_bpp fb565)"
    by (simp add: creatable_def fb_bpp_ok_def)
  ultimately show ?thesis
    using format_roundtrip [of fb565 easy_env 5 4] by (fastforce simp: same_format_def)
qed

text \<open>
  A framebuffer from \<^verbatim>\<open>trfb_framebuffer_create_with_data\<close> cannot be used: the size and depth
  that were requested are not stored, so every pixel reads as black, every pixel write is lost
  and \<^verbatim>\<open>trfb_framebuffer_convert\<close> refuses it on either side; its lock was never initialised.
\<close>

theorem create_with_data_unusable:
  assumes "trfb_framebuffer_create_with_data e px w h (Ptr fmt) = Some (Ptr fb)"
  shows "fb_width fb = 0 \<and> fb_height fb = 0 \<and> fb_bpp fb = 0 \<and> fb_lock fb = MtxRaw \<and>
    trfb_framebuffer_get_pixel e fb x y = Some 0 \<and> trfb_framebuffer_set_pixel e fb x y col = Some fb \<and>
    trfb_framebuffer_convert e (Ptr fb) (Ptr other) = Some (-1, Ptr fb) \<and>
    trfb_framebuffer_convert e (Ptr other) (Ptr fb) = Some (-1, Ptr other)"
proof -
  have "fb_width fb = 0 \<and> fb_height fb = 0 \<and> fb_bpp fb = 0 \<and> fb_lock fb = MtxRaw"
    using assms by (auto simp: trfb_framebuffer_create_with_data_def take_format_def set_norms_def
        zero_fb_def split: if_splits bind_splits)
  then show ?thesis
    by (simp add: trfb_framebuffer_get_pixel_def trfb_framebuffer_set_pixel_def
        trfb_framebuffer_convert_def fb_bpp_ok_def)
qed

definition fmt565 :: trfb_format where
  "fmt565 = \<lparr>fmt_bpp = 2, fmt_depth = 16, fmt_big_endian = 0, fmt_true_color = 1,
     fmt_rmax = 0x1f, fmt_gmax = 0x3f, fmt_bmax = 0x1f, fmt_rshift = 11, fmt_gshift = 5, fmt_bshift = 0\<rparr>"

theorem create_with_data_unusable_witness:
  "\<exists>fb. trfb_framebuffer_create_with_data easy_env [1, 2, 3, 4] 2 1 (Ptr fmt565) = Some (Ptr fb) \<and>
    fb_width fb = 0 \<and> trfb_framebuffer_get_pixel easy_env fb 0 0 = Some 0"
proof -
  obtain fb where "trfb_framebuffer_create_with_data easy_env [1, 2, 3, 4] 2 1 (Ptr fmt565) = Some (Ptr fb)"
    by (simp add: trfb_framebuffer_create_with_data_def fmt565_def fb_bpp_ok_def take_format_def
        set_norms_def standard_norms)
  with create_with_data_unusable [OF this] show ?thesis by blast
qed

end
