(* ===== verification/Framebuffer_Typed.thy ===== *)
theory Framebuffer_Typed
  imports Framebuffer
begin

text \<open>
  Type soundness of \<^verbatim>\<open>fb.c\<close>: the framebuffers that a program can make with its functions, as an inductive
  predicate, are well formed, and every function is defined on them. Sides are at most 32767 pixels, so
  that no byte count wraps; allocation may fail at any call.
\<close>

section \<open>Framebuffers of a program\<close>

definition fb_side :: u32 where
  "fb_side = 0x7fff"

text \<open>
  The framebuffers that a program can make with sides up to 32767, as long as it draws inside of them and asks for no
  shift of 32 or more. \<^verbatim>\<open>trfb_framebuffer_create_with_data\<close> is not among the ways: what it gives is not well formed.
\<close>

inductive fb_made :: "trfb_framebuffer \<Rightarrow> bool" where
  created: "trfb_framebuffer_create e w h b = Some (Ptr fb) \<Longrightarrow> w \<le> fb_side \<Longrightarrow> h \<le> fb_side \<Longrightarrow> fb_made fb"
| of_format: "trfb_framebuffer_create_of_format e w h (Ptr fmt) = Some (Ptr fb, fmt') \<Longrightarrow>
    fmt_rshift fmt < 32 \<Longrightarrow> fmt_gshift fmt < 32 \<Longrightarrow> fmt_bshift fmt < 32 \<Longrightarrow> w \<le> fb_side \<Longrightarrow> h \<le> fb_side \<Longrightarrow> fb_made fb"
| copied: "fb_made src \<Longrightarrow> trfb_framebuffer_copy e src = Some (Ptr fb) \<Longrightarrow> fb_made fb"
| drawn: "fb_made old \<Longrightarrow> in_fb old x y \<Longrightarrow> trfb_framebuffer_set_pixel e old x y c = Some fb \<Longrightarrow> fb_made fb"
| resized: "fb_made old \<Longrightarrow> trfb_framebuffer_resize e (Ptr old) w h = Some (r, Ptr fb) \<Longrightarrow> w \<le> fb_side \<Longrightarrow> h \<le> fb_side \<Longrightarrow> fb_made fb"
| recoloured: "fb_made dst \<Longrightarrow> fb_made src \<Longrightarrow> trfb_framebuffer_convert e (Ptr dst) (Ptr src) = Some (r, Ptr fb) \<Longrightarrow> fb_made fb"
| swapped: "fb_made old \<Longrightarrow> trfb_framebuffer_endian e (Ptr old) be = Some (Ptr fb) \<Longrightarrow> fb_made fb"

definition fb_typed :: "trfb_framebuffer \<Rightarrow> bool" where
  "fb_typed fb \<longleftrightarrow> fb_wf fb \<and> fb_width fb \<le> fb_side \<and> fb_height fb \<le> fb_side"

section \<open>Every function keeps the type\<close>

lemma fb_side_ffff: "w \<le> fb_side \<Longrightarrow> w \<le> 0xffff"
  by (simp add: fb_side_def word_le_nat_alt)

lemmas typed_area = small_area [folded fb_side_def, simplified]

text \<open>A change of the pixels and the size leaves the format as it is.\<close>

lemma fb_typed_storage:
  assumes "fb_typed fb" "w \<le> fb_side" "h \<le> fb_side"
    and "fb_shape (fb\<lparr>fb_free_pixels := fp, fb_pixels := px, fb_width := w, fb_height := h\<rparr>)"
  shows "fb_typed (fb\<lparr>fb_free_pixels := fp, fb_pixels := px, fb_width := w, fb_height := h\<rparr>)"
proof -
  let ?fb = "fb\<lparr>fb_free_pixels := fp, fb_pixels := px, fb_width := w, fb_height := h\<rparr>"
  have "fb_normed ?fb"
    using assms(1) fb_normed_frame [where fb = fb and l = "fb_lock fb" and fp = fp and px = px and w = w and h = h]
    by (simp add: fb_typed_def fb_wf_def)
  with assms show ?thesis by (simp add: fb_typed_def fb_wf_def fb_shifts_def)
qed

lemma fb_typed_pixels:
  assumes "fb_typed fb" "length px = length (fb_pixels fb)"
  shows "fb_typed (fb\<lparr>fb_pixels := px\<rparr>)"
  using assms by (simp add: fb_typed_def fb_wf_def fb_shape_pixels set_norms_pixels)

lemma typed_facts:
  assumes "fb_typed fb"
  shows "fb_shape fb" "fb_shifts fb" "fb_width fb \<le> 0xffff" "fb_height fb \<le> 0xffff"
    "fb_area (fb_width fb) (fb_height fb) (fb_bpp fb) < 2 ^ 32"
  using assms by (auto simp: fb_typed_def fb_wf_def fb_shape_def intro: fb_side_ffff typed_area)

lemma create_typed:
  "trfb_framebuffer_create e w h b = Some (Ptr fb) \<Longrightarrow> w \<le> fb_side \<Longrightarrow> h \<le> fb_side \<Longrightarrow> fb_typed fb"
  using create_wf [of e w h b fb] create_ok [of e w h b] by (auto simp: fb_typed_def)

lemma of_format_typed:
  assumes "trfb_framebuffer_create_of_format e w h (Ptr fmt) = Some (Ptr fb, fmt')"
    and "fmt_rshift fmt < 32" "fmt_gshift fmt < 32" "fmt_bshift fmt < 32" and small: "w \<le> fb_side" "h \<le> fb_side"
  shows "fb_typed fb"
proof -
  let ?fmt = "fmt\<lparr>fmt_bpp := fmt_bpp fmt div 8\<rparr>"
  obtain c where c: "trfb_framebuffer_create e w h (fmt_bpp ?fmt) = Some (Ptr c)" "take_format ?fmt c = Some fb"
    using assms(1) by (auto simp: trfb_framebuffer_create_of_format_def Let_def split: if_splits bind_splits ptr.splits)
  have t: "fb_typed c" by (rule create_typed [OF c(1) small])
  have "\<exists>fb'. take_format ?fmt c = Some fb' \<and> fb_wf fb'"
    by (rule take_format_defined) (use typed_facts [OF t] assms(2-4) in \<open>simp_all add: word_less_nat_alt\<close>)
  moreover have "fb_width fb = fb_width c \<and> fb_height fb = fb_height c"
    using c(2) by (auto simp: take_format_def set_norms_def split: bind_splits)
  ultimately show ?thesis using c(2) t by (simp add: fb_typed_def)
qed

lemma copy_typed:
  assumes "fb_typed fb"
  shows "\<exists>r. trfb_framebuffer_copy e fb = Some r \<and> (\<forall>c. r = Ptr c \<longrightarrow> fb_typed c)"
proof -
  note t = typed_facts [OF assms]
  let ?n = "fb_bytes (fb_width fb) (fb_height fb) (fb_bpp fb)"
  show ?thesis
  proof (cases "struct_ok e \<and> alloc_ok e ?n")
    case True
    have "fb_typed (fb\<lparr>fb_free_pixels := True, fb_pixels := fb_pixels fb, fb_width := fb_width fb, fb_height := fb_height fb\<rparr>)"
      by (rule fb_typed_storage) (use assms t in \<open>simp_all add: fb_typed_def fb_shape_def\<close>)
    with True copy_result [OF t(1), of e ?n] t(5) fb_shape_length [OF t(1)] show ?thesis
      by (simp add: fb_bytes_eq)
  next
    case False
    then have "trfb_framebuffer_copy e fb = Some NULL" by (auto simp: trfb_framebuffer_copy_def malloc_def)
    then show ?thesis by simp
  qed
qed

lemma set_pixel_typed:
  assumes "fb_typed fb" "in_fb fb x y"
  shows "\<exists>fb'. trfb_framebuffer_set_pixel e fb x y c = Some fb' \<and> fb_typed fb'"
  by (rule set_pixel_contract [OF typed_facts(1,2) [OF assms(1)] assms(2), of e c])
    (use assms(1) in \<open>auto intro: fb_typed_pixels\<close>)

lemma resize_typed:
  assumes "fb_typed fb"
  shows "\<exists>r fb'. trfb_framebuffer_resize e (Ptr fb) w h = Some (r, Ptr fb') \<and>
    (w \<le> fb_side \<longrightarrow> h \<le> fb_side \<longrightarrow> fb_typed fb')"
proof -
  note t = typed_facts [OF assms]
  have bpp: "fb_bpp_ok (fb_bpp fb)" using t(1) by (simp add: fb_shape_def)
  consider "w = 0 \<or> h = 0 \<or> 0xffff < w \<or> 0xffff < h"
    | "0 < w" "0 < h" "w \<le> 0xffff" "h \<le> 0xffff" "\<not> alloc_ok e (fb_area w h (fb_bpp fb))"
    | "0 < w" "0 < h" "w \<le> 0xffff" "h \<le> 0xffff" "alloc_ok e (fb_area w h (fb_bpp fb))"
    by (metis not_le word_gt_0)
  then show ?thesis
  proof cases
    case 1
    then have "trfb_framebuffer_resize e (Ptr fb) w h = Some (-1, Ptr fb)"
      by (auto simp: trfb_framebuffer_resize_def)
    with assms show ?thesis by simp
  next
    case 2
    then have "trfb_framebuffer_resize e (Ptr fb) w h = Some (-1, Ptr fb)"
      using bpp unat_mult_ffff [OF 2(3,4)]
      by (elim bpp_ok_cases) (auto simp: trfb_framebuffer_resize_def FB_COPY_def calloc_def fb_area_def Let_def)
    with assms show ?thesis by simp
  next
    case 3
    from resize_ok [OF t(1) 3]
    obtain np where "trfb_framebuffer_resize e (Ptr fb) w h =
        Some (0, Ptr (fb\<lparr>fb_pixels := np, fb_width := w, fb_height := h\<rparr>))"
      "fb_shape (fb\<lparr>fb_pixels := np, fb_width := w, fb_height := h\<rparr>)" by blast
    moreover from this(2) have "fb_typed (fb\<lparr>fb_pixels := np, fb_width := w, fb_height := h\<rparr>)"
      if "w \<le> fb_side" "h \<le> fb_side"
      using fb_typed_storage [OF assms that, where px = np and fp = "fb_free_pixels fb"] by simp
    ultimately show ?thesis by blast
  qed
qed

lemma convert_typed:
  assumes dst: "fb_typed dst" and src: "fb_typed src"
  shows "\<exists>r fb. trfb_framebuffer_convert e (Ptr dst) (Ptr src) = Some (r, Ptr fb) \<and> fb_typed fb"
proof -
  note d = typed_facts [OF dst] and s = typed_facts [OF src]
  let ?n = "fb_area (fb_width src) (fb_height src) (fb_bpp dst)"
  have bpp: "fb_bpp_ok (fb_bpp dst)" "fb_bpp_ok (fb_bpp src)" using d(1) s(1) by (simp_all add: fb_shape_def)
  have fits: "?n < 2 ^ 32" using src bpp(1) by (simp add: fb_typed_def typed_area)
  have fails: ?thesis if "trfb_framebuffer_convert e (Ptr dst) (Ptr src) = Some (-1, Ptr dst)" using that dst by simp
  consider "fb_width src = 0 \<or> fb_height src = 0 \<or> fb_width dst = 0 \<or> fb_height dst = 0"
    | "0 < fb_width src" "0 < fb_height src" "0 < fb_width dst" "0 < fb_height dst"
      "\<not> (fb_width dst = fb_width src \<and> fb_height dst = fb_height src)" "\<not> alloc_ok e ?n"
    | "0 < fb_width src" "0 < fb_height src" "0 < fb_width dst" "0 < fb_height dst"
      "fb_width dst = fb_width src \<and> fb_height dst = fb_height src \<or> alloc_ok e ?n"
    by (auto simp: word_gt_0)
  then show ?thesis
  proof cases
    case 1
    then show ?thesis by (intro fails) (auto simp: trfb_framebuffer_convert_def bpp)
  next
    case 2
    then show ?thesis
      using fits by (intro fails convert_no_memory d(1) s(1)) auto
  next
    case 3
    from convert_ok [OF _ _ 3(1-4) fits 3(5)] dst src
    obtain fp p where r: "trfb_framebuffer_convert e (Ptr dst) (Ptr src) = Some (0, Ptr (sized dst src fp p))"
      "fb_shape (sized dst src fp p)" unfolding fb_typed_def by blast
    have "fb_typed (sized dst src fp p)"
      by (rule fb_typed_storage [OF dst]) (use src r(2) in \<open>simp_all add: fb_typed_def\<close>)
    with r(1) show ?thesis by blast
  qed
qed

lemma endian_typed:
  assumes "fb_typed fb"
  shows "\<exists>fb'. trfb_framebuffer_endian e (Ptr fb) be = Some (Ptr fb') \<and> fb_typed fb'"
  using endian_ok [OF typed_facts(1,5) [OF assms], of e be] fb_typed_pixels [OF assms] by blast

lemma made_typed: "fb_made fb \<Longrightarrow> fb_typed fb"
proof (induction rule: fb_made.induct)
  case (copied src e fb)
  with copy_typed [of src e] show ?case by auto
next
  case (drawn old x y e c fb)
  with set_pixel_typed [of old x y e c] show ?case by auto
next
  case (resized old e w h r fb)
  with resize_typed [of old e w h] show ?case by auto
next
  case (recoloured dst src e r fb)
  with convert_typed [of dst src e] show ?case by auto
next
  case (swapped old e be fb)
  with endian_typed [of old e be] show ?case by auto
qed (auto intro: create_typed of_format_typed)

section \<open>Type soundness\<close>

text \<open>
  C2. Type soundness of the framebuffers. A framebuffer that a program makes by creating, copying, resizing, converting,
  swapping and drawing, in any order and with allocations that may fail, is well formed, as long as every side it asks
  for is at most 32767 (so that no byte count wraps, C6), every shift is below 32 and every pixel it draws lies inside.
  \<^verbatim>\<open>trfb_framebuffer_create_with_data\<close>, whose framebuffers are not well formed, is left out. No function is undefined
  on such a framebuffer: pixels inside of it can be read and written, it can be copied, resized to anything, converted
  from any other and swapped.
\<close>

theorem framebuffer_type_sound:
  assumes "fb_made fb"
  shows "fb_wf fb \<and> trfb_framebuffer_copy e fb \<noteq> None \<and> trfb_framebuffer_resize e (Ptr fb) w h \<noteq> None \<and>
    trfb_framebuffer_endian e (Ptr fb) be \<noteq> None \<and>
    (\<forall>x y. in_fb fb x y \<longrightarrow> trfb_framebuffer_get_pixel e fb x y \<noteq> None \<and> trfb_framebuffer_set_pixel e fb x y c \<noteq> None) \<and>
    (\<forall>src. fb_made src \<longrightarrow> trfb_framebuffer_convert e (Ptr fb) (Ptr src) \<noteq> None)"
proof -
  have t: "fb_typed fb" using assms by (rule made_typed)
  show ?thesis
  proof (intro conjI allI impI)
    show "fb_wf fb" using t by (simp add: fb_typed_def)
    show "trfb_framebuffer_copy e fb \<noteq> None" using copy_typed [OF t, of e] by auto
    show "trfb_framebuffer_resize e (Ptr fb) w h \<noteq> None" using resize_typed [OF t, of e w h] by auto
    show "trfb_framebuffer_endian e (Ptr fb) be \<noteq> None" using endian_typed [OF t, of e be] by auto
    show "trfb_framebuffer_get_pixel e fb x y \<noteq> None" if "in_fb fb x y" for x y
      using get_pixel_defined [OF typed_facts(1,2) [OF t] that, of e] by auto
    show "trfb_framebuffer_set_pixel e fb x y c \<noteq> None" if "in_fb fb x y" for x y
      using set_pixel_typed [OF t that, of e c] by auto
    show "trfb_framebuffer_convert e (Ptr fb) (Ptr src) \<noteq> None" if "fb_made src" for src
      using convert_typed [OF t made_typed [OF that], of e] by auto
  qed
qed

theorem framebuffer_type_sound_witness:
  "\<exists>fb. trfb_framebuffer_create easy_env 2 1 2 = Some (Ptr fb) \<and> fb_wf fb \<and> in_fb fb 1 0 \<and>
     trfb_framebuffer_set_pixel easy_env fb 1 0 0xff \<noteq> None \<and>
     trfb_framebuffer_convert easy_env (Ptr fb) (Ptr fb) \<noteq> None"
proof -
  obtain fb where fb: "trfb_framebuffer_create easy_env 2 1 2 = Some (Ptr fb)" "fb_width fb = 2" "fb_height fb = 1"
    using create_ok [of easy_env 2 1 2] by (auto simp: creatable_def fb_bpp_ok_def)
  have "fb_made fb" by (rule created [OF fb(1)]) (simp_all add: fb_side_def)
  moreover have "in_fb fb 1 0" using fb by (simp add: in_fb_def)
  ultimately show ?thesis
    using framebuffer_type_sound [where fb = fb and e = easy_env and c = 255] fb(1) by blast
qed

end
