(* ===== verification/Protocol.thy ===== *)
theory Protocol
  imports Prelude
begin

text \<open>
  \<^verbatim>\<open>src/src/protocol.c\<close>: the ProtocolVersion message and the two functions that move a whole
  buffer over a socket. A socket is a script of the results its system calls return.
\<close>

section \<open>Protocol versions\<close>

datatype trfb_protocol = trfb_v3 | trfb_v7 | trfb_v8

text \<open>The value of the enumerator, by which the C code compares versions.\<close>

fun proto_code :: "trfb_protocol \<Rightarrow> nat" where
  "proto_code trfb_v3 = 3"
| "proto_code trfb_v7 = 7"
| "proto_code trfb_v8 = 8"

instantiation trfb_protocol :: linorder
begin

definition less_eq_trfb_protocol :: "trfb_protocol \<Rightarrow> trfb_protocol \<Rightarrow> bool" where
  "less_eq_trfb_protocol a b \<longleftrightarrow> proto_code a \<le> proto_code b"

definition less_trfb_protocol :: "trfb_protocol \<Rightarrow> trfb_protocol \<Rightarrow> bool" where
  "less_trfb_protocol a b \<longleftrightarrow> proto_code a < proto_code b"

instance
proof
  fix a b :: trfb_protocol
  show "a \<le> b \<Longrightarrow> b \<le> a \<Longrightarrow> a = b"
    by (cases a; cases b) (simp_all add: less_eq_trfb_protocol_def)
qed (auto simp: less_eq_trfb_protocol_def less_trfb_protocol_def)

end

text \<open>
  \<^verbatim>\<open>trfb_msg_protocol_version_encode(msg, buf, len)\<close>: the return value, the buffer and \<^verbatim>\<open>*len\<close>
  afterwards.
\<close>

definition trfb_msg_protocol_version_encode ::
  "trfb_protocol \<Rightarrow> bytes ptr \<Rightarrow> nat \<Rightarrow> (int \<times> bytes ptr \<times> nat) option" where
  "trfb_msg_protocol_version_encode proto bufp len =
     (case bufp of
        NULL \<Rightarrow> Some (0, NULL, 12)
      | Ptr buf \<Rightarrow>
          if len < 12 then Some (-1, bufp, 12)
          else do {
            buf \<leftarrow> blit buf 0 (str_bytes ''RFB 003.008'' @ [10]);
            let buf =
              (if proto_code proto = 3 then buf[10 := of_char (CHR ''3'')]
               else if proto_code proto = 7 then buf[10 := of_char (CHR ''7'')]
               else if proto_code proto = 8 then buf[10 := of_char (CHR ''8'')]
               else buf[10 := of_char (CHR ''3'')]);
            Some (0, Ptr buf, 12) })"

text \<open>\<^verbatim>\<open>trfb_msg_protocol_version_decode(msg, buf, len)\<close>: the return value and \<^verbatim>\<open>msg->proto\<close> afterwards.\<close>

definition trfb_msg_protocol_version_decode ::
  "trfb_protocol \<Rightarrow> bytes \<Rightarrow> nat \<Rightarrow> (int \<times> trfb_protocol) option" where
  "trfb_msg_protocol_version_decode proto buf len =
     (if len \<noteq> 12 then Some (-1, proto)
      else do {
        text \<leftarrow> slice buf 0 12;
        if take 10 text \<noteq> str_bytes ''RFB 003.00'' \<or> text ! 11 \<noteq> 10 then Some (0, trfb_v3)
        else if text ! 10 = of_char (CHR ''8'') then Some (0, trfb_v8)
        else if text ! 10 = of_char (CHR ''7'') then Some (0, trfb_v7)
        else Some (0, trfb_v3) })"

text \<open>The twelve bytes of the message for a version.\<close>

definition version_bytes :: "trfb_protocol \<Rightarrow> bytes" where
  "version_bytes v = str_bytes ''RFB 003.00'' @
     [of_char (case v of trfb_v3 \<Rightarrow> CHR ''3'' | trfb_v7 \<Rightarrow> CHR ''7'' | trfb_v8 \<Rightarrow> CHR ''8''), 10]"

lemma length_version_bytes [simp]: "length (version_bytes v) = 12"
  by (simp add: version_bytes_def str_bytes_def)

lemma encode_ok:
  "12 \<le> length buf \<Longrightarrow> 12 \<le> len \<Longrightarrow>
   trfb_msg_protocol_version_encode v (Ptr buf) len = Some (0, Ptr (version_bytes v @ drop 12 buf), 12)"
  by (cases v) (simp_all add: trfb_msg_protocol_version_encode_def version_bytes_def blit_def str_bytes_def
      numeral_eq_Suc)

lemma decode_version [simp]:
  "trfb_msg_protocol_version_decode p (version_bytes v @ rest) 12 = Some (0, v)"
  by (cases v) (simp_all add: trfb_msg_protocol_version_decode_def version_bytes_def slice_def str_bytes_def)

text \<open>What the code makes of twelve bytes from a client: a version, never an error.\<close>

definition client_version :: "bytes \<Rightarrow> trfb_protocol" where
  "client_version text =
     (if text = version_bytes trfb_v8 then trfb_v8
      else if text = version_bytes trfb_v7 then trfb_v7 else trfb_v3)"

lemma decode_total:
  assumes "12 \<le> length buf"
  shows "trfb_msg_protocol_version_decode p buf 12 = Some (0, client_version (take 12 buf))"
proof -
  obtain t where t: "slice buf 0 12 = Some t" "take 12 buf = t" "length t = 12"
    using assms by (simp add: slice_def)
  have split: "t = take 10 t @ [t ! 10, t ! 11]"
  proof (rule nth_equalityI)
    fix i assume "i < length t"
    then consider "i < 10" | "i = 10" | "i = 11" using t(3) by force
    then show "t ! i = (take 10 t @ [t ! 10, t ! 11]) ! i"
      using t(3) by cases (simp_all add: nth_append)
  qed (simp add: t(3))
  have "t = version_bytes v \<longleftrightarrow> take 10 t = str_bytes ''RFB 003.00'' \<and> t ! 11 = 10 \<and>
      t ! 10 = of_char (case v of trfb_v3 \<Rightarrow> CHR ''3'' | trfb_v7 \<Rightarrow> CHR ''7'' | trfb_v8 \<Rightarrow> CHR ''8'')" for v
    by (subst split) (auto simp: version_bytes_def str_bytes_def t(3))
  with t show ?thesis
    by (simp add: trfb_msg_protocol_version_decode_def client_version_def)
qed

section \<open>Whole buffers\<close>

text \<open>
  One entry of the script is one result of \<^verbatim>\<open>write\<close> or \<^verbatim>\<open>read\<close>: an error, or a number of bytes
  (cut to what was asked for), zero meaning that the peer has closed. The send loop also returns
  the bytes the socket has taken, the receive loop the buffer.
\<close>

fun send_loop :: "(errno + nat) list \<Rightarrow> bytes \<Rightarrow> nat \<Rightarrow> bytes \<Rightarrow> (int \<times> bytes) option" where
  "send_loop script buf pos sent =
     (if pos < length buf then
        (case script of
           [] \<Rightarrow> None
         | Inl e # rest \<Rightarrow>
             if e = EAGAIN \<or> e = EINTR then send_loop rest buf pos sent else Some (-1, sent)
         | Inr n # rest \<Rightarrow>
             let l = min n (length buf - pos) in
             if l = 0 then Some (0, sent)
             else send_loop rest buf (pos + l) (sent @ take l (drop pos buf)))
      else Some (int (length buf), sent))"

definition trfb_send_all :: "(errno + nat) list \<Rightarrow> bytes \<Rightarrow> (int \<times> bytes) option" where
  "trfb_send_all script buf = send_loop script buf 0 []"

fun recv_loop :: "(errno + bytes) list \<Rightarrow> bytes \<Rightarrow> nat \<Rightarrow> nat \<Rightarrow> (int \<times> bytes) option" where
  "recv_loop script buf pos len =
     (if pos < len then
        (case script of
           [] \<Rightarrow> None
         | Inl e # rest \<Rightarrow>
             if e = EAGAIN \<or> e = EINTR then recv_loop rest buf pos len else Some (-1, buf)
         | Inr bs # rest \<Rightarrow>
             let got = take (len - pos) bs in
             if got = [] then Some (0, buf)
             else Option.bind (blit buf pos got)
               (\<lambda>buf. recv_loop rest buf (pos + length got) len))
      else Some (int len, buf))"

definition trfb_recv_all :: "(errno + bytes) list \<Rightarrow> bytes \<Rightarrow> nat \<Rightarrow> (int \<times> bytes) option" where
  "trfb_recv_all script buf len = recv_loop script buf 0 len"

declare send_loop.simps [simp del] recv_loop.simps [simp del]

text \<open>The bytes a script of reads delivers, and how often a script makes progress.\<close>

definition delivered :: "(errno + bytes) list \<Rightarrow> bytes" where
  "delivered script = concat (map (case_sum (\<lambda>_. []) id) script)"

lemma delivered_simps [simp]:
  "delivered [] = []" "delivered (Inl e # script) = delivered script"
  "delivered (Inr bs # script) = bs @ delivered script"
  by (simp_all add: delivered_def)

lemma send_loop_prefix:
  assumes "send_loop script buf pos sent = Some (r, out)" and "sent = take pos buf" and "pos \<le> length buf"
  shows "\<exists>n \<le> length buf. out = take n buf \<and> (r = int (length buf) \<and> n = length buf \<or> r \<le> 0 \<and> n < length buf)"
  using assms
proof (induction script buf pos sent rule: send_loop.induct)
  case (1 script buf pos sent)
  show ?case
  proof (cases "pos < length buf")
    case True
    show ?thesis
    proof (cases script)
      case Nil
      with True "1.prems" show ?thesis by (simp add: send_loop.simps)
    next
      case (Cons s rest)
      show ?thesis
      proof (cases s)
        case (Inl e)
        with True Cons "1.prems" "1.IH"(1) [OF True Cons Inl] show ?thesis
          by (subst (asm) send_loop.simps) (auto split: if_splits intro: exI [of _ pos])
      next
        case (Inr n)
        have "take pos buf @ take (min n (length buf - pos)) (drop pos buf) = take (pos + min n (length buf - pos)) buf"
          by (simp add: take_add)
        with True Cons Inr "1.prems" "1.IH"(2) [OF True Cons Inr refl] show ?thesis
          by (subst (asm) send_loop.simps) (auto simp: Let_def split: if_splits intro: exI [of _ pos])
      qed
    qed
  next
    case False
    with "1.prems" show ?thesis by (auto simp: send_loop.simps)
  qed
qed

text \<open>A script without a fatal error and without an early close.\<close>

fun healthy :: "(errno + 'a) list \<Rightarrow> ('a \<Rightarrow> bool) \<Rightarrow> bool" where
  "healthy [] ok = True"
| "healthy (Inl e # script) ok = ((e = EAGAIN \<or> e = EINTR) \<and> healthy script ok)"
| "healthy (Inr x # script) ok = (ok x \<and> healthy script ok)"

lemma recv_loop_complete:
  assumes "healthy script (\<lambda>bs. bs \<noteq> [])" and "pos \<le> len" and "len \<le> length buf"
    and "len - pos \<le> length (delivered script)"
  shows "recv_loop script buf pos len =
    Some (int len, take pos buf @ take (len - pos) (delivered script) @ drop len buf)"
  using assms
proof (induction script arbitrary: buf pos)
  case Nil
  then show ?case by (simp add: recv_loop.simps)
next
  case (Cons s script)
  show ?case
  proof (cases "pos < len")
    case False
    with Cons.prems show ?thesis by (simp add: recv_loop.simps)
  next
    case True
    show ?thesis
    proof (cases s)
      case (Inl e)
      with True Cons show ?thesis by (auto simp: recv_loop.simps [of "Inl e # script"])
    next
      case (Inr bs)
      let ?got = "take (len - pos) bs"
      let ?buf = "take pos buf @ ?got @ drop (pos + length ?got) buf"
      have got: "?got \<noteq> []" and fit: "pos + length ?got \<le> len"
        using True Cons.prems Inr by auto
      have "recv_loop (s # script) buf pos len = recv_loop script ?buf (pos + length ?got) len"
        using True Inr got fit Cons.prems
        by (subst recv_loop.simps) (simp add: Let_def blit_Some)
      also have "\<dots> = Some (int len, take (pos + length ?got) ?buf @
          take (len - (pos + length ?got)) (delivered script) @ drop len ?buf)"
        using Cons.prems fit Inr by (intro Cons.IH) auto
      also have "take (pos + length ?got) ?buf = take pos buf @ ?got"
        using Cons.prems True by (simp add: min_def)
      also have "drop len ?buf = drop len buf"
        using Cons.prems True fit by (simp add: drop_append)
      finally show ?thesis
        using Inr by (simp add: min_def)
    qed
  qed
qed

lemma send_loop_complete:
  assumes "healthy script (\<lambda>n. 0 < n)" and "pos \<le> length buf" and "sent = take pos buf"
    and "length buf - pos \<le> length (filter (\<lambda>s. \<exists>n. s = Inr n) script)"
  shows "send_loop script buf pos sent = Some (int (length buf), buf)"
  using assms
proof (induction script arbitrary: pos sent)
  case Nil
  then show ?case by (simp add: send_loop.simps)
next
  case (Cons s script)
  show ?case
  proof (cases "pos < length buf")
    case False
    with Cons.prems show ?thesis by (simp add: send_loop.simps)
  next
    case True
    show ?thesis
    proof (cases s)
      case (Inl e)
      with True Cons show ?thesis by (auto simp: send_loop.simps [of "Inl e # script"])
    next
      case (Inr n)
      let ?l = "min n (length buf - pos)"
      have "send_loop (s # script) buf pos sent =
          send_loop script buf (pos + ?l) (sent @ take ?l (drop pos buf))"
        using True Inr Cons.prems by (subst send_loop.simps) (auto simp: Let_def min_def)
      also have "\<dots> = Some (int (length buf), buf)"
        using Cons.prems True Inr by (intro Cons.IH) (auto simp: take_add)
      finally show ?thesis .
    qed
  qed
qed

section \<open>Properties\<close>

text \<open>
  Encoding a protocol version into a buffer of at least twelve bytes and decoding the twelve
  bytes gives the version back; the bytes after them are untouched.
\<close>

theorem protocol_version_roundtrip:
  assumes "12 \<le> length buf" and "12 \<le> len"
  shows "\<exists>buf'. trfb_msg_protocol_version_encode v (Ptr buf) len = Some (0, Ptr buf', 12) \<and>
    length buf' = length buf \<and> drop 12 buf' = drop 12 buf \<and>
    trfb_msg_protocol_version_decode p buf' 12 = Some (0, v)"
  using encode_ok [OF assms] assms(1) by simp

theorem protocol_version_roundtrip_witness:
  "\<exists>buf'. trfb_msg_protocol_version_encode trfb_v7 (Ptr (replicate 16 0)) 16 = Some (0, Ptr buf', 12) \<and>
    trfb_msg_protocol_version_decode trfb_v8 buf' 12 = Some (0, trfb_v7)"
  using protocol_version_roundtrip [of "replicate 16 0" 16 trfb_v7 trfb_v8] by auto

text \<open>
  Decoding twelve bytes never fails: the exact message of version 3.7 or 3.8 gives that
  version and everything else, well-formed or not, is taken as version 3.3; another length is
  refused and leaves the version alone.
\<close>

theorem protocol_version_decode_total:
  assumes "len \<le> length buf"
  shows "trfb_msg_protocol_version_decode p buf len =
    Some (if len = 12
      then (0, if take 12 buf = version_bytes trfb_v8 then trfb_v8
               else if take 12 buf = version_bytes trfb_v7 then trfb_v7 else trfb_v3)
      else (-1, p))"
proof (cases "len = 12")
  case True
  with assms decode_total [of buf p] show ?thesis by (simp add: client_version_def)
qed (simp add: trfb_msg_protocol_version_decode_def)

theorem protocol_version_decode_total_witness:
  "trfb_msg_protocol_version_decode trfb_v8 (replicate 12 0) 12 = Some (0, trfb_v3)"
proof -
  have "hd (replicate 12 0) \<noteq> hd (version_bytes v)" for v
    by (simp add: version_bytes_def str_bytes_def)
  then have "replicate 12 0 \<noteq> version_bytes v" for v by metis
  then show ?thesis
    using protocol_version_decode_total [of 12 "replicate 12 0" trfb_v8] by simp
qed

text \<open>
  \<^verbatim>\<open>trfb_send_all\<close> returns the length exactly when the socket has taken the whole buffer; when
  it returns 0 or -1 the socket has taken a proper prefix. It returns the length when no write
  fails for good and every successful one makes progress.
\<close>

theorem send_all_spec:
  "(trfb_send_all script buf = Some (r, out) \<longrightarrow>
      (\<exists>n \<le> length buf. out = take n buf \<and>
        (r = int (length buf) \<and> n = length buf \<or> r \<le> 0 \<and> n < length buf))) \<and>
   (healthy script (\<lambda>n. 0 < n) \<and> length buf \<le> length (filter (\<lambda>s. \<exists>n. s = Inr n) script) \<longrightarrow>
      trfb_send_all script buf = Some (int (length buf), buf))"
  using send_loop_prefix [of script buf 0 "[]" r out] send_loop_complete [of script 0 buf "[]"]
  by (auto simp: trfb_send_all_def)

theorem send_all_spec_witness:
  "trfb_send_all [Inl EINTR, Inr 1, Inr 7] [1, 2] = Some (2, [1, 2])"
  using send_all_spec [of "[Inl EINTR, Inr 1, Inr 7]" "[1, 2]" 0 "[]"] by simp

text \<open>
  \<^verbatim>\<open>trfb_recv_all\<close> reassembles its bytes from reads of any size: when no read fails for good
  or finds the connection closed before \<open>len\<close> bytes have come, the first \<open>len\<close> bytes of the
  buffer are the first \<open>len\<close> bytes delivered, in order, and the rest of it is unchanged.
\<close>

theorem recv_all_reassembles:
  assumes "healthy script (\<lambda>bs. bs \<noteq> [])" and "len \<le> length buf" and "len \<le> length (delivered script)"
  shows "trfb_recv_all script buf len = Some (int len, take len (delivered script) @ drop len buf)"
  using recv_loop_complete [of script 0 len buf] assms by (simp add: trfb_recv_all_def)

theorem recv_all_reassembles_witness:
  "trfb_recv_all [Inr [1], Inl EAGAIN, Inr [2, 3, 4]] [0, 0, 0, 9] 3 = Some (3, [1, 2, 3, 9])"
  using recv_all_reassembles [of "[Inr [1], Inl EAGAIN, Inr [2, 3, 4]]" 3 "[0, 0, 0, 9]"]
  by (simp add: numeral_eq_Suc)

end
