(* ===== verification/Io.thy ===== *)
theory Io
  imports Prelude
begin

text \<open>
  The buffered I/O layer, \<^verbatim>\<open>src/src/io.c\<close> with its macros in \<^verbatim>\<open>src/src/trfb.h\<close>. An I/O object
  holds a read buffer, a write buffer and three function pointers; the pointers of a socket are
  \<open>sock_read\<close>, \<open>sock_write\<close> and \<open>sock_free\<close>. What the functions behind the pointers promise is
  the locale \<open>transport\<close>.
\<close>

section \<open>Data\<close>

definition TRFB_EOF :: int where
  "TRFB_EOF = 0xffff"

definition TRFB_BUFSIZ :: nat where
  "TRFB_BUFSIZ = 2048"

text \<open>
  \<^verbatim>\<open>read(io, buf, len, timeout)\<close> and \<^verbatim>\<open>write(io, buf, len, timeout)\<close> must not touch the buffers of
  the object (as the header says): they see the context only, may change it, and their error
  number goes to \<^verbatim>\<open>io->error\<close>.
\<close>

type_synonym 'w read_fn = "'w \<Rightarrow> nat \<Rightarrow> u32 \<Rightarrow> (bytes xfer \<times> 'w) option"
type_synonym 'w write_fn = "'w \<Rightarrow> bytes \<Rightarrow> u32 \<Rightarrow> (nat xfer \<times> 'w) option"

record 'w trfb_io =
  io_ctx :: 'w
  io_error :: "errno option"
  io_rbuf :: bytes
  io_rlen :: nat
  io_rpos :: nat
  io_wbuf :: bytes
  io_wlen :: nat
  io_free :: "('w \<Rightarrow> 'w) ptr"
  io_read :: "'w read_fn ptr"
  io_write :: "'w write_fn ptr"

section \<open>Buffered operations\<close>

text \<open>
  A function of the C code that gets the object by its pointer: \<open>on_null\<close> for a null pointer, and
  otherwise the function on the object.
\<close>

definition with_io ::
  "'w trfb_io ptr \<Rightarrow> ('w trfb_io ptr, 'a) outcome option \<Rightarrow>
   ('w trfb_io \<Rightarrow> ('w trfb_io, 'a) outcome option) \<Rightarrow> ('w trfb_io ptr, 'a) outcome option" where
  "with_io iop on_null f =
     (case iop of NULL \<Rightarrow> on_null | Ptr io \<Rightarrow> map_option (map_outcome Ptr id) (f io))"

text \<open>The part of \<^verbatim>\<open>trfb_io_read\<close> after the buffer has been filled.\<close>

definition io_take :: "'w trfb_io \<Rightarrow> nat \<Rightarrow> ('w trfb_io, int \<times> bytes) outcome option" where
  "io_take io len =
     (let l = io_rlen io - io_rpos io;
          l = (if len < l then len else l) in
      need (slice (io_rbuf io) (io_rpos io) l) (\<lambda>bs.
        let io = io\<lparr>io_rpos := io_rpos io + l\<rparr>;
            io = (if io_rpos io = io_rlen io then io\<lparr>io_rpos := 0, io_rlen := 0\<rparr> else io) in
        Some (Done (int l, bs) io)))"

text \<open>
  \<^verbatim>\<open>trfb_io_read(io, buf, len, timeout)\<close>: the value returned and the bytes copied to \<^verbatim>\<open>buf\<close>
  (\<open>buf\<close> tells whether the pointer is not null).
\<close>

definition io_read_body ::
  "bool \<Rightarrow> int \<Rightarrow> u32 \<Rightarrow> 'w trfb_io \<Rightarrow> ('w trfb_io, int \<times> bytes) outcome option" where
  "io_read_body buf len timeout io =
     (case io_read io of
        NULL \<Rightarrow> Some (Done (-1, []) (io\<lparr>io_error := Some EINVAL\<rparr>))
      | Ptr rd \<Rightarrow>
          if len < 0 \<or> \<not> buf then Some (Done (-1, []) (io\<lparr>io_error := Some EINVAL\<rparr>))
          else if io_rlen io \<le> io_rpos io then
            (case rd (io_ctx io) TRFB_BUFSIZ timeout of
               None \<Rightarrow> None
             | Some (XErr e, w) \<Rightarrow> Some (Done (-1, []) (io\<lparr>io_ctx := w, io_error := Some e\<rparr>))
             | Some (XTimeout, w) \<Rightarrow> Some (Done (0, []) (io\<lparr>io_ctx := w\<rparr>))
             | Some (XOk xs, w) \<Rightarrow>
                 if xs = [] then Some (Done (0, []) (io\<lparr>io_ctx := w\<rparr>))
                 else need (blit (io_rbuf io) 0 xs) (\<lambda>rb.
                   io_take (io\<lparr>io_ctx := w, io_rbuf := rb, io_rpos := 0,
                              io_rlen := length xs\<rparr>) (nat len)))
          else io_take io (nat len))"

definition trfb_io_read ::
  "'w trfb_io ptr \<Rightarrow> bool \<Rightarrow> int \<Rightarrow> u32 \<Rightarrow> ('w trfb_io ptr, int \<times> bytes) outcome option" where
  "trfb_io_read iop buf len timeout =
     with_io iop (Some (Done (-1, []) NULL)) (io_read_body buf len timeout)"

text \<open>
  \<^verbatim>\<open>trfb_io_flush\<close>. The call \<^verbatim>\<open>memmove(io->wbuf + r, io->wbuf, io->wlen - r)\<close> after a partial
  write moves the first bytes of the buffer up by \<open>r\<close>, as it stands in the source.
\<close>

definition io_flush_body :: "u32 \<Rightarrow> 'w trfb_io \<Rightarrow> ('w trfb_io, int) outcome option" where
  "io_flush_body timeout io =
     (if io_wlen io = 0 then Some (Done 0 io)
      else
        case io_write io of
          NULL \<Rightarrow> Some Undef
        | Ptr wr \<Rightarrow> need (slice (io_wbuf io) 0 (io_wlen io)) (\<lambda>bs.
            (case wr (io_ctx io) bs timeout of
               None \<Rightarrow> None
             | Some (XErr e, w) \<Rightarrow> Some (Done (-1) (io\<lparr>io_ctx := w, io_error := Some e\<rparr>))
             | Some (XTimeout, w) \<Rightarrow> Some (Done 0 (io\<lparr>io_ctx := w\<rparr>))
             | Some (XOk r, w) \<Rightarrow>
                 if r = 0 then Some (Done 0 (io\<lparr>io_ctx := w\<rparr>))
                 else if r < io_wlen io then
                   need (slice (io_wbuf io) 0 (io_wlen io - r)) (\<lambda>head.
                   need (blit (io_wbuf io) r head) (\<lambda>wb.
                     Some (Done (int (io_wlen io - r))
                       (io\<lparr>io_ctx := w, io_wbuf := wb, io_wlen := io_wlen io - r\<rparr>))))
                 else Some (Done 0 (io\<lparr>io_ctx := w, io_wlen := 0\<rparr>)))))"

definition trfb_io_flush :: "'w trfb_io ptr \<Rightarrow> u32 \<Rightarrow> ('w trfb_io ptr, int) outcome option" where
  "trfb_io_flush iop timeout = with_io iop (Some Undef) (io_flush_body timeout)"

text \<open>
  Copying bytes to the end of the write buffer as far as there is room, the number of bytes
  copied: \<^verbatim>\<open>trfb_io_write\<close> does it before and after its flush.
\<close>

definition io_put :: "'w trfb_io \<Rightarrow> bytes \<Rightarrow> ('w trfb_io, nat) outcome option" where
  "io_put io bs =
     (let pos = TRFB_BUFSIZ - io_wlen io;
          pos = (if length bs < pos then length bs else pos) in
      need (blit (io_wbuf io) (io_wlen io) (take pos bs)) (\<lambda>wb.
        Some (Done pos (io\<lparr>io_wbuf := wb, io_wlen := io_wlen io + pos\<rparr>))))"

text \<open>The part of \<^verbatim>\<open>trfb_io_write\<close> from its flush on, when \<open>pos\<close> bytes are in the buffer.\<close>

definition io_write_rest ::
  "u32 \<Rightarrow> bytes \<Rightarrow> nat \<Rightarrow> 'w trfb_io \<Rightarrow> ('w trfb_io, int) outcome option" where
  "io_write_rest timeout bs pos io =
     andthen (io_flush_body timeout io) (\<lambda>r io.
       if r < 0 then Some (Done (-1) io)
       else if io_wlen io < TRFB_BUFSIZ then
         andthen (io_put io (drop pos bs)) (\<lambda>l io. Some (Done (int (pos + l)) io))
       else Some (Done (int pos) io))"

definition io_write_body ::
  "bytes ptr \<Rightarrow> int \<Rightarrow> u32 \<Rightarrow> 'w trfb_io \<Rightarrow> ('w trfb_io, int) outcome option" where
  "io_write_body buf len timeout io =
     (case buf of
        NULL \<Rightarrow> Some (Done (-1) (io\<lparr>io_error := Some EINVAL\<rparr>))
      | Ptr mem \<Rightarrow>
          if len < 0 \<or> io_write io = NULL then Some (Done (-1) (io\<lparr>io_error := Some EINVAL\<rparr>))
          else need (slice mem 0 (nat len)) (\<lambda>bs.
            if io_wlen io < TRFB_BUFSIZ then
              andthen (io_put io bs) (\<lambda>pos io.
                if pos = length bs then Some (Done len io)
                else io_write_rest timeout bs pos io)
            else io_write_rest timeout bs 0 io))"

definition trfb_io_write ::
  "'w trfb_io ptr \<Rightarrow> bytes ptr \<Rightarrow> int \<Rightarrow> u32 \<Rightarrow> ('w trfb_io ptr, int) outcome option" where
  "trfb_io_write iop buf len timeout =
     with_io iop (Some (Done (-1) NULL)) (io_write_body buf len timeout)"

text \<open>Single characters: the functions and the macros of the header.\<close>

definition trfb_io_fgetc :: "'w trfb_io ptr \<Rightarrow> u32 \<Rightarrow> ('w trfb_io ptr, int) outcome option" where
  "trfb_io_fgetc iop timeout =
     andthen (trfb_io_read iop True 1 timeout) (\<lambda>(r, bs) iop.
       if r = 1 then Some (Done (uint (hd bs)) iop) else Some (Done TRFB_EOF iop))"

definition trfb_io_fputc :: "u8 \<Rightarrow> 'w trfb_io ptr \<Rightarrow> u32 \<Rightarrow> ('w trfb_io ptr, int) outcome option" where
  "trfb_io_fputc c iop timeout =
     andthen (trfb_io_write iop (Ptr [c]) 1 timeout) (\<lambda>r iop.
       if r = 1 then Some (Done 1 iop) else Some (Done TRFB_EOF iop))"

definition trfb_io_getc :: "'w trfb_io ptr \<Rightarrow> u32 \<Rightarrow> ('w trfb_io ptr, int) outcome option" where
  "trfb_io_getc iop timeout =
     (case iop of
        NULL \<Rightarrow> Some Undef
      | Ptr io \<Rightarrow>
          if io_rpos io < io_rlen io then
            need (slice (io_rbuf io) (io_rpos io) 1) (\<lambda>bs.
              Some (Done (uint (hd bs)) (Ptr (io\<lparr>io_rpos := io_rpos io + 1\<rparr>))))
          else trfb_io_fgetc iop timeout)"

definition trfb_io_putc :: "u8 \<Rightarrow> 'w trfb_io ptr \<Rightarrow> u32 \<Rightarrow> ('w trfb_io ptr, int) outcome option" where
  "trfb_io_putc c iop timeout =
     (case iop of
        NULL \<Rightarrow> Some Undef
      | Ptr io \<Rightarrow>
          if io_wlen io < TRFB_BUFSIZ then
            need (blit (io_wbuf io) (io_wlen io) [c]) (\<lambda>wb.
              Some (Done (uint c) (Ptr (io\<lparr>io_wbuf := wb, io_wlen := io_wlen io + 1\<rparr>))))
          else trfb_io_fputc c iop timeout)"

text \<open>\<^verbatim>\<open>trfb_io_free\<close> gives the context to the object's own function and clears the object.\<close>

definition trfb_io_free :: "'w trfb_io ptr \<Rightarrow> 'w option" where
  "trfb_io_free iop =
     (case iop of
        NULL \<Rightarrow> None
      | Ptr io \<Rightarrow> (case io_free io of NULL \<Rightarrow> Some (io_ctx io) | Ptr fr \<Rightarrow> Some (fr (io_ctx io))))"

section \<open>Sockets\<close>

text \<open>
  A socket is what its system calls return: a script for each of \<^verbatim>\<open>select\<close>, \<^verbatim>\<open>recv\<close> and \<^verbatim>\<open>send\<close>,
  the bytes the kernel has taken so far, and whether the descriptor is closed. \<^verbatim>\<open>recv\<close> gives at
  most what is asked for and keeps the rest for the next call; a call whose script is at its end
  does not return.
\<close>

datatype sel = SelErr errno | SelTimeout | SelReady
datatype rcv = RcvErr errno | RcvEof | RcvData bytes
datatype snd = SndErr errno | is_SndOk: SndOk nat

record sock =
  sk_sel :: "sel list"
  sk_rcv :: "rcv list"
  sk_snd :: "snd list"
  sk_out :: bytes
  sk_closed :: bool

text \<open>The \<^verbatim>\<open>struct timeval\<close> for a timeout in milliseconds; \<^theory_text>\<open>None\<close> is the null pointer, no timeout.\<close>

definition sock_timeval :: "u32 \<Rightarrow> (u32 \<times> u32) option" where
  "sock_timeval timeout =
     (if timeout \<noteq> 0 then Some (timeout div 1000, 1000 * (timeout mod 1000)) else None)"

text \<open>
  The \<^verbatim>\<open>do ... while (rv < 0)\<close> loop around \<^verbatim>\<open>select\<close>: an error, or whether the socket is ready.
  Without a timeout \<^verbatim>\<open>select\<close> never reports one, and the script entry is passed over.
\<close>

fun sock_select :: "bool \<Rightarrow> sel list \<Rightarrow> ((errno + bool) \<times> sel list) option" where
  "sock_select timed [] = None"
| "sock_select timed (SelErr e # s) = (if e = EINTR then sock_select timed s else Some (Inl e, s))"
| "sock_select timed (SelTimeout # s) = (if timed then Some (Inr False, s) else sock_select timed s)"
| "sock_select timed (SelReady # s) = Some (Inr True, s)"

text \<open>The loop around \<^verbatim>\<open>recv\<close>.\<close>

fun sock_recv :: "nat \<Rightarrow> rcv list \<Rightarrow> (bytes xfer \<times> rcv list) option" where
  "sock_recv len [] = None"
| "sock_recv len (RcvErr e # s) =
     (if e = EAGAIN \<or> e = EINTR then sock_recv len s else Some (XErr e, s))"
| "sock_recv len (RcvEof # s) = Some (XErr EIO, s)"
| "sock_recv len (RcvData bs # s) =
     (let got = take len bs; rest = drop len bs in
      if got = [] then Some (XErr EIO, s)
      else Some (XOk got, if rest = [] then s else RcvData rest # s))"

text \<open>The loop around \<^verbatim>\<open>send\<close>.\<close>

fun sock_send :: "nat \<Rightarrow> snd list \<Rightarrow> (nat xfer \<times> snd list) option" where
  "sock_send len [] = None"
| "sock_send len (SndErr e # s) =
     (if e = EAGAIN \<or> e = EINTR then sock_send len s else Some (XErr e, s))"
| "sock_send len (SndOk n # s) =
     (let k = min n len in if k = 0 then Some (XErr EIO, s) else Some (XOk k, s))"

text \<open>The context of a socket object is a pointer to the descriptor, which may be null.\<close>

definition sock_read :: "sock ptr read_fn" where
  "sock_read ctx len timeout =
     (case ctx of
        NULL \<Rightarrow> Some (XErr EINVAL, ctx)
      | Ptr sk \<Rightarrow>
          (case sock_select (sock_timeval timeout \<noteq> None) (sk_sel sk) of
             None \<Rightarrow> None
           | Some (Inl e, s) \<Rightarrow> Some (XErr e, Ptr (sk\<lparr>sk_sel := s\<rparr>))
           | Some (Inr False, s) \<Rightarrow> Some (XTimeout, Ptr (sk\<lparr>sk_sel := s\<rparr>))
           | Some (Inr True, s) \<Rightarrow>
               (case sock_recv len (sk_rcv sk) of
                  None \<Rightarrow> None
                | Some (r, t) \<Rightarrow> Some (r, Ptr (sk\<lparr>sk_sel := s, sk_rcv := t\<rparr>)))))"

definition sock_write :: "sock ptr write_fn" where
  "sock_write ctx bs timeout =
     (case ctx of
        NULL \<Rightarrow> Some (XErr EINVAL, ctx)
      | Ptr sk \<Rightarrow>
          (case sock_select (sock_timeval timeout \<noteq> None) (sk_sel sk) of
             None \<Rightarrow> None
           | Some (Inl e, s) \<Rightarrow> Some (XErr e, Ptr (sk\<lparr>sk_sel := s\<rparr>))
           | Some (Inr False, s) \<Rightarrow> Some (XTimeout, Ptr (sk\<lparr>sk_sel := s\<rparr>))
           | Some (Inr True, s) \<Rightarrow>
               (case sock_send (length bs) (sk_snd sk) of
                  None \<Rightarrow> None
                | Some (XOk k, t) \<Rightarrow>
                    Some (XOk k, Ptr (sk\<lparr>sk_sel := s, sk_snd := t, sk_out := sk_out sk @ take k bs\<rparr>))
                | Some (r, t) \<Rightarrow> Some (r, Ptr (sk\<lparr>sk_sel := s, sk_snd := t\<rparr>)))))"

definition sock_free :: "sock ptr \<Rightarrow> sock ptr" where
  "sock_free ctx = (case ctx of NULL \<Rightarrow> NULL | Ptr sk \<Rightarrow> Ptr (sk\<lparr>sk_closed := True\<rparr>))"

text \<open>\<^verbatim>\<open>trfb_io_socket_wrap\<close>: the object is zeroed by \<^verbatim>\<open>calloc\<close>; two allocations can fail.\<close>

definition trfb_io_socket_wrap :: "cenv \<Rightarrow> sock \<Rightarrow> sock ptr trfb_io ptr" where
  "trfb_io_socket_wrap e sk =
     (if \<not> struct_ok e then NULL
      else if \<not> alloc_ok e 4 then NULL
      else Ptr \<lparr>io_ctx = Ptr sk, io_error = None,
        io_rbuf = replicate TRFB_BUFSIZ 0, io_rlen = 0, io_rpos = 0,
        io_wbuf = replicate TRFB_BUFSIZ 0, io_wlen = 0,
        io_free = Ptr sock_free, io_read = Ptr sock_read, io_write = Ptr sock_write\<rparr>)"

section \<open>The contract of a transport\<close>

text \<open>
  What \<^verbatim>\<open>trfb.h\<close> asks of the functions behind the pointers: a successful read returns between one
  and \<open>n\<close> bytes, which are the next ones of the peer's stream \<open>inp\<close>; a successful write has
  appended a non-empty prefix of its argument to the stream \<open>outp\<close> that goes to the peer; a
  timeout changes neither, and a failed read takes nothing from the peer's stream.
\<close>

locale transport =
  fixes rd :: "'w read_fn" and wr :: "'w write_fn"
    and inp :: "'w \<Rightarrow> bytes" and outp :: "'w \<Rightarrow> bytes"
  assumes rd_ok: "rd w n t = Some (XOk xs, w') \<Longrightarrow> 0 < n \<Longrightarrow>
      xs \<noteq> [] \<and> length xs \<le> n \<and> inp w = xs @ inp w'"
    and rd_timeout: "rd w n t = Some (XTimeout, w') \<Longrightarrow> inp w' = inp w"
    and rd_error: "rd w n t = Some (XErr e, w') \<Longrightarrow> 0 < n \<Longrightarrow> inp w' = inp w"
    and rd_out: "rd w n t = Some (r, w') \<Longrightarrow> outp w' = outp w"
    and wr_ok: "wr w xs t = Some (XOk k, w') \<Longrightarrow> xs \<noteq> [] \<Longrightarrow>
      0 < k \<and> k \<le> length xs \<and> outp w' = outp w @ take k xs"
    and wr_timeout: "wr w xs t = Some (XTimeout, w') \<Longrightarrow> outp w' = outp w"
    and wr_inp: "wr w xs t = Some (q, w') \<Longrightarrow> inp w' = inp w"

text \<open>
  A transport whose successful writes take everything, as \<^verbatim>\<open>send\<close> on a blocking socket does while
  no signal interrupts it; \<open>full\<close> says that this holds from here on.
\<close>

locale full_transport = transport +
  fixes full :: "'w \<Rightarrow> bool"
  assumes full_wr: "full w \<Longrightarrow> xs \<noteq> [] \<Longrightarrow> length xs \<le> TRFB_BUFSIZ \<Longrightarrow>
      wr w xs t = Some (XOk k, w') \<Longrightarrow> k = length xs"
    and full_rd_inv: "full w \<Longrightarrow> rd w n t = Some (r, w') \<Longrightarrow> full w'"
    and full_wr_inv: "full w \<Longrightarrow> wr w xs t = Some (q, w') \<Longrightarrow> full w'"

text \<open>
  A transport that serves at least \<open>budget\<close> more calls: each read with input left, and each
  write, succeeds or times out, and it times out only finitely often (\<open>patience\<close>).
\<close>

locale live_transport = full_transport +
  fixes budget :: "'w \<Rightarrow> nat" and patience :: "'w \<Rightarrow> nat"
  assumes rd_live: "0 < budget w \<Longrightarrow> 0 < n \<Longrightarrow> inp w \<noteq> [] \<Longrightarrow>
      (\<exists>xs w'. rd w n t = Some (XOk xs, w') \<and> budget w \<le> Suc (budget w')) \<or>
      (\<exists>w'. rd w n t = Some (XTimeout, w') \<and> budget w' = budget w \<and> patience w' < patience w)"
    and wr_live: "0 < budget w \<Longrightarrow> xs \<noteq> [] \<Longrightarrow> length xs \<le> TRFB_BUFSIZ \<Longrightarrow>
      (\<exists>k w'. wr w xs t = Some (XOk k, w') \<and> budget w \<le> Suc (budget w')) \<or>
      (\<exists>w'. wr w xs t = Some (XTimeout, w') \<and> budget w' = budget w)"

section \<open>Well-formed objects and their streams\<close>

definition io_wf :: "'w read_fn \<Rightarrow> 'w write_fn \<Rightarrow> 'w trfb_io \<Rightarrow> bool" where
  "io_wf rd wr io \<longleftrightarrow> io_read io = Ptr rd \<and> io_write io = Ptr wr \<and>
     length (io_rbuf io) = TRFB_BUFSIZ \<and> io_rpos io \<le> io_rlen io \<and> io_rlen io \<le> TRFB_BUFSIZ \<and>
     length (io_wbuf io) = TRFB_BUFSIZ \<and> io_wlen io \<le> TRFB_BUFSIZ"

text \<open>
  \<open>io_buffered\<close>: bytes read from the transport and not yet asked for. \<open>io_pending\<close>: all bytes the
  program can still get. \<open>io_queued\<close>: bytes accepted from the program and not yet written.
\<close>

definition io_buffered :: "'w trfb_io \<Rightarrow> bytes" where
  "io_buffered io = take (io_rlen io - io_rpos io) (drop (io_rpos io) (io_rbuf io))"

definition io_queued :: "'w trfb_io \<Rightarrow> bytes" where
  "io_queued io = take (io_wlen io) (io_wbuf io)"

definition io_pending :: "('w \<Rightarrow> bytes) \<Rightarrow> 'w trfb_io \<Rightarrow> bytes" where
  "io_pending inp io = io_buffered io @ inp (io_ctx io)"

definition io_sent :: "('w \<Rightarrow> bytes) \<Rightarrow> 'w trfb_io \<Rightarrow> bytes" where
  "io_sent outp io = outp (io_ctx io) @ io_queued io"

text \<open>A change of the write side, or of the read side, of an object only.\<close>

definition same_read :: "'w trfb_io \<Rightarrow> 'w trfb_io \<Rightarrow> bool" where
  "same_read io io' \<longleftrightarrow> io_rbuf io' = io_rbuf io \<and> io_rlen io' = io_rlen io \<and> io_rpos io' = io_rpos io"

definition same_write :: "'w trfb_io \<Rightarrow> 'w trfb_io \<Rightarrow> bool" where
  "same_write io io' \<longleftrightarrow> io_wbuf io' = io_wbuf io \<and> io_wlen io' = io_wlen io"

lemma same_read_buffered: "same_read io io' \<Longrightarrow> io_buffered io' = io_buffered io"
  by (simp add: same_read_def io_buffered_def)

lemma same_write_queued: "same_write io io' \<Longrightarrow> io_queued io' = io_queued io"
  by (simp add: same_write_def io_queued_def)

lemma io_take_ok:
  fixes len :: nat
  assumes "io_wf rd wr io"
  defines "l \<equiv> min len (io_rlen io - io_rpos io)"
  shows "\<exists>io'. io_take io len = Some (Done (int l, take l (io_buffered io)) io') \<and>
    io_wf rd wr io' \<and> io_buffered io' = drop l (io_buffered io) \<and>
    io_ctx io' = io_ctx io \<and> same_write io io'"
proof -
  have fit: "io_rpos io + l \<le> io_rlen io" "io_rlen io \<le> length (io_rbuf io)"
    using assms by (auto simp: io_wf_def)
  have len: "(if len < io_rlen io - io_rpos io then len else io_rlen io - io_rpos io) = l"
    by (simp add: l_def)
  have bs: "slice (io_rbuf io) (io_rpos io) l = Some (take l (io_buffered io))"
    using fit by (simp add: slice_def io_buffered_def min_def)
  let ?io = "io\<lparr>io_rpos := io_rpos io + l\<rparr>"
  let ?io' = "if io_rpos ?io = io_rlen ?io then ?io\<lparr>io_rpos := 0, io_rlen := 0\<rparr> else ?io"
  have "io_take io len = Some (Done (int l, take l (io_buffered io)) ?io')"
    by (simp add: io_take_def len bs Let_def)
  moreover have "io_wf rd wr ?io'"
    using assms fit by (auto simp: io_wf_def)
  moreover have "io_buffered ?io' = drop l (io_buffered io)"
    using fit by (auto simp: io_buffered_def drop_take add.commute)
  ultimately show ?thesis
    by (intro exI [of _ ?io']) (auto simp: same_write_def)
qed

lemma io_put_ok:
  fixes bs :: bytes
  assumes "io_wf rd wr io"
  defines "n \<equiv> min (TRFB_BUFSIZ - io_wlen io) (length bs)"
  shows "\<exists>io'. io_put io bs = Some (Done n io') \<and> io_wf rd wr io' \<and>
    io_queued io' = io_queued io @ take n bs \<and> io_ctx io' = io_ctx io \<and> same_read io io' \<and>
    io_wlen io' = io_wlen io + n"
proof -
  let ?w = "io_wbuf io" and ?k = "io_wlen io"
  have fit: "?k + n \<le> length ?w" and n: "n \<le> length bs"
    using assms by (auto simp: io_wf_def)
  have len: "(if length bs < TRFB_BUFSIZ - ?k then length bs else TRFB_BUFSIZ - ?k) = n"
    by (auto simp: n_def)
  let ?wb = "take ?k ?w @ take n bs @ drop (?k + n) ?w"
  let ?io' = "io\<lparr>io_wbuf := ?wb, io_wlen := ?k + n\<rparr>"
  have "blit ?w ?k (take n bs) = Some ?wb"
    using fit n by (simp add: blit_def min_absorb2)
  then have "io_put io bs = Some (Done n ?io')"
    unfolding io_put_def len Let_def by simp
  moreover have "io_queued ?io' = io_queued io @ take n bs"
    using fit n by (simp add: io_queued_def)
  moreover have "io_wf rd wr ?io'"
    using assms fit n by (auto simp: io_wf_def)
  ultimately show ?thesis
    by (intro exI [of _ ?io']) (auto simp: same_read_def)
qed

section \<open>What the buffered operations do\<close>

text \<open>
  A read hands out a prefix of the pending bytes, never more than was asked for, and leaves the rest
  pending; on a timeout or an error it hands out nothing, so that all of them stay. The write side is
  left alone in every case.
\<close>

definition read_spec ::
  "('w \<Rightarrow> bytes) \<Rightarrow> ('w \<Rightarrow> bytes) \<Rightarrow> 'w trfb_io \<Rightarrow> int \<Rightarrow> int \<times> bytes \<Rightarrow> 'w trfb_io \<Rightarrow> bool" where
  "read_spec inp outp io len res io' \<longleftrightarrow>
     (case res of (r, bs) \<Rightarrow>
        r \<le> len \<and> same_write io io' \<and> outp (io_ctx io') = outp (io_ctx io) \<and>
        (0 < r \<longrightarrow> r = int (length bs)) \<and> (r \<le> 0 \<longrightarrow> bs = []) \<and>
        io_pending inp io = bs @ io_pending inp io')"

text \<open>
  The write side: an operation on it leaves what can be read alone, and when it succeeds (\<open>0 \<le> r\<close>)
  and the transport takes everything, exactly the bytes \<open>new\<close> have joined the stream.
\<close>

definition sent_spec ::
  "('w \<Rightarrow> bytes) \<Rightarrow> ('w \<Rightarrow> bytes) \<Rightarrow> ('w \<Rightarrow> bool) \<Rightarrow> 'w trfb_io \<Rightarrow> int \<Rightarrow> bytes \<Rightarrow> 'w trfb_io \<Rightarrow> bool"
  where
  "sent_spec inp outp full io r new io' \<longleftrightarrow>
     same_read io io' \<and> inp (io_ctx io') = inp (io_ctx io) \<and>
     (full (io_ctx io) \<longrightarrow>
       full (io_ctx io') \<and> (0 \<le> r \<longrightarrow> io_sent outp io' = io_sent outp io @ new))"

lemma sent_spec_trans:
  "sent_spec inp outp full io r xs io' \<Longrightarrow> 0 \<le> r \<Longrightarrow> sent_spec inp outp full io' r' ys io'' \<Longrightarrow>
   sent_spec inp outp full io r' (xs @ ys) io''"
  by (simp add: sent_spec_def same_read_def)

lemma sent_spec_pending:
  "sent_spec inp outp full io r xs io' \<Longrightarrow> io_pending inp io' = io_pending inp io"
  by (simp add: sent_spec_def io_pending_def same_read_buffered)

lemma buffered_empty [simp]: "io_rlen io \<le> io_rpos io \<Longrightarrow> io_buffered io = []"
  by (simp add: io_buffered_def)

lemma io_take_spec:
  assumes wf: "io_wf rd wr io" and len: "0 < len" and some: "io_rpos io < io_rlen io"
  shows "\<exists>r bs io'. io_take io (nat len) = Some (Done (r, bs) io') \<and> io_wf rd wr io' \<and>
    read_spec inp outp io len (r, bs) io' \<and> 0 < r \<and> io_ctx io' = io_ctx io"
proof -
  let ?l = "min (nat len) (io_rlen io - io_rpos io)"
  obtain io' where take: "io_take io (nat len) = Some (Done (int ?l, take ?l (io_buffered io)) io')"
    and io': "io_wf rd wr io'" "io_buffered io' = drop ?l (io_buffered io)"
      "io_ctx io' = io_ctx io" "same_write io io'"
    using io_take_ok [OF wf, of "nat len"] by blast
  have "length (io_buffered io) = io_rlen io - io_rpos io"
    using wf by (auto simp: io_buffered_def io_wf_def)
  then have "read_spec inp outp io len (int ?l, take ?l (io_buffered io)) io'"
    using io' len by (auto simp: read_spec_def io_pending_def)
  moreover have "0 < ?l" using len some by auto
  ultimately show ?thesis using take io' by (intro exI [of _ "int ?l"] exI [of _ "take ?l (io_buffered io)"] exI [of _ io']) auto
qed

context transport
begin

lemma read_ok:
  assumes wf: "io_wf rd wr io" and len: "0 < len"
  shows "safe (\<lambda>res io'. io_wf rd wr io' \<and> read_spec inp outp io len res io') (\<lambda>_. False)
    (io_read_body True len t io)"
proof (cases "io_rlen io \<le> io_rpos io")
  case False
  then show ?thesis
    using io_take_spec [OF wf len, of inp outp] wf len by (auto simp: io_read_body_def io_wf_def)
next
  case True
  have rdp: "io_read io = Ptr rd" using wf by (simp add: io_wf_def)
  consider "rd (io_ctx io) TRFB_BUFSIZ t = None"
    | e w where "rd (io_ctx io) TRFB_BUFSIZ t = Some (XErr e, w)"
    | w where "rd (io_ctx io) TRFB_BUFSIZ t = Some (XTimeout, w)"
    | xs w where "rd (io_ctx io) TRFB_BUFSIZ t = Some (XOk xs, w)"
    by (metis option.exhaust surj_pair xfer.exhaust)
  then show ?thesis
  proof cases
    case 1
    with True rdp len show ?thesis by (simp add: io_read_body_def)
  next
    case (2 e w)
    then have "inp w = inp (io_ctx io)" by (rule rd_error) (simp add: TRFB_BUFSIZ_def)
    with 2 True rdp len wf rd_out [OF 2] show ?thesis
      by (simp add: io_read_body_def read_spec_def io_wf_def same_write_def io_pending_def io_buffered_def)
  next
    case (3 w)
    with True rdp len wf rd_out [OF 3] rd_timeout [OF 3] show ?thesis
      by (simp add: io_read_body_def read_spec_def io_wf_def same_write_def io_pending_def io_buffered_def)
  next
    case (4 xs w)
    have xs: "xs \<noteq> []" "length xs \<le> TRFB_BUFSIZ" "inp (io_ctx io) = xs @ inp w"
      using rd_ok [OF 4] by (auto simp: TRFB_BUFSIZ_def)
    have "length (io_rbuf io) = TRFB_BUFSIZ" using wf by (simp add: io_wf_def)
    then have blit: "blit (io_rbuf io) 0 xs = Some (xs @ drop (length xs) (io_rbuf io))"
      using xs by (simp add: blit_def)
    let ?io = "io\<lparr>io_ctx := w, io_rbuf := xs @ drop (length xs) (io_rbuf io), io_rpos := 0,
      io_rlen := length xs\<rparr>"
    have "io_wf rd wr ?io" and "io_rpos ?io < io_rlen ?io"
      using wf xs by (auto simp: io_wf_def)
    from io_take_spec [OF this(1) len this(2), of inp outp]
    obtain r bs io' where t: "io_take ?io (nat len) = Some (Done (r, bs) io')"
      "io_wf rd wr io'" "read_spec inp outp ?io len (r, bs) io'"
      by blast
    have "io_pending inp ?io = io_pending inp io"
      using True xs by (simp add: io_pending_def io_buffered_def)
    then have "read_spec inp outp io len (r, bs) io'"
      using t(3) rd_out [OF 4] by (simp add: read_spec_def same_write_def)
    then show ?thesis
      using True rdp len 4 xs blit t by (simp add: io_read_body_def)
  qed
qed

end


lemma io_put_spec:
  fixes bs :: bytes
  assumes wf: "io_wf rd wr io"
  defines "n \<equiv> min (TRFB_BUFSIZ - io_wlen io) (length bs)"
  shows "\<exists>io'. io_put io bs = Some (Done n io') \<and> io_wf rd wr io' \<and>
    (\<forall>r. sent_spec inp outp full io r (take n bs) io') \<and> io_wlen io' = io_wlen io + n \<and>
    io_ctx io' = io_ctx io"
  using io_put_ok [OF wf, of bs] unfolding n_def
  by (auto simp: sent_spec_def io_sent_def)

context full_transport
begin

lemma flush_ok:
  assumes wf: "io_wf rd wr io"
  shows "safe (\<lambda>r io'. io_wf rd wr io' \<and> sent_spec inp outp full io r [] io' \<and> - 1 \<le> r \<and>
      io_wlen io' \<le> io_wlen io \<and> (full (io_ctx io) \<longrightarrow> r \<le> 0)) (\<lambda>_. False)
    (io_flush_body t io)"
proof (cases "io_wlen io = 0")
  case True
  with wf show ?thesis by (simp add: io_flush_body_def sent_spec_def same_read_def)
next
  case False
  have wrp: "io_write io = Ptr wr" using wf by (simp add: io_wf_def)
  have len: "io_wlen io \<le> TRFB_BUFSIZ" "length (io_wbuf io) = TRFB_BUFSIZ"
    using wf by (auto simp: io_wf_def)
  then have bs: "slice (io_wbuf io) 0 (io_wlen io) = Some (io_queued io)"
    by (simp add: slice_def io_queued_def)
  have q: "length (io_queued io) = io_wlen io" "io_queued io \<noteq> []"
    using len False by (auto simp: io_queued_def TRFB_BUFSIZ_def)
  consider "wr (io_ctx io) (io_queued io) t = None"
    | e w where "wr (io_ctx io) (io_queued io) t = Some (XErr e, w)"
    | w where "wr (io_ctx io) (io_queued io) t = Some (XTimeout, w)"
    | k w where "wr (io_ctx io) (io_queued io) t = Some (XOk k, w)"
    by (metis option.exhaust surj_pair xfer.exhaust)
  then show ?thesis
  proof cases
    case 1
    with False wrp bs show ?thesis by (simp add: io_flush_body_def)
  next
    case (2 e w)
    with False wrp bs wf wr_inp [OF 2] full_wr_inv [OF _ 2] show ?thesis
      by (simp add: io_flush_body_def sent_spec_def io_wf_def same_read_def)
  next
    case (3 w)
    with False wrp bs wf wr_inp [OF 3] full_wr_inv [OF _ 3] wr_timeout [OF 3] show ?thesis
      by (simp add: io_flush_body_def sent_spec_def io_wf_def same_read_def io_sent_def io_queued_def)
  next
    case (4 k w)
    have k: "0 < k" "k \<le> io_wlen io" "outp w = outp (io_ctx io) @ take k (io_queued io)"
      using wr_ok [OF 4] q by auto
    have all: "k = io_wlen io" if "full (io_ctx io)"
      using full_wr [OF that q(2) _ 4] q(1) len(1) by simp
    show ?thesis
    proof (cases "k < io_wlen io")
      case True
      with len k have "slice (io_wbuf io) 0 (io_wlen io - k) = Some (take (io_wlen io - k) (io_wbuf io))"
        by (simp add: slice_def)
      moreover have "\<exists>wb. blit (io_wbuf io) k (take (io_wlen io - k) (io_wbuf io)) = Some wb"
        using len k by (simp add: blit_def)
      ultimately show ?thesis
        using False wrp bs wf 4 k True len all wr_inp [OF 4] blit_length
        by (fastforce simp: io_flush_body_def sent_spec_def io_wf_def same_read_def)
    next
      case kfull: False
      with False wrp bs wf 4 k wr_inp [OF 4] full_wr_inv [OF _ 4] q show ?thesis
        by (simp add: io_flush_body_def sent_spec_def io_wf_def same_read_def io_sent_def)
          (simp add: io_queued_def)
    qed
  qed
qed

end

context full_transport
begin

lemma write_rest_ok:
  assumes wf: "io_wf rd wr io" and pos: "pos \<le> length bs"
  shows "safe (\<lambda>r io'. io_wf rd wr io' \<and> (r = - 1 \<or> int pos \<le> r) \<and> r \<le> int (length bs) \<and>
      sent_spec inp outp full io r (drop pos (take (nat r) bs)) io') (\<lambda>_. False)
    (io_write_rest t bs pos io)"
  unfolding io_write_rest_def
proof (rule safe_andthen [OF flush_ok [OF wf]], elim conjE)
  fix r io1
  assume io1: "io_wf rd wr io1" "sent_spec inp outp full io r [] io1" "- 1 \<le> r"
  let ?n = "min (TRFB_BUFSIZ - io_wlen io1) (length (drop pos bs))"
  obtain io2 where put: "io_put io1 (drop pos bs) = Some (Done ?n io2)" "io_wf rd wr io2"
    "sent_spec inp outp full io1 (int (pos + ?n)) (take ?n (drop pos bs)) io2"
    using io_put_spec [OF io1(1)] by blast
  have "drop pos (take (pos + ?n) bs) = take ?n (drop pos bs)"
    by (simp add: drop_take)
  moreover have "pos + ?n \<le> length bs" using pos by simp
  moreover have "sent_spec inp outp full io (int (pos + ?n)) (take ?n (drop pos bs)) io2" if "0 \<le> r"
    using sent_spec_trans [OF io1(2) that put(3)] by simp
  moreover have "sent_spec inp outp full io (int pos) [] io1" if "0 \<le> r"
    using io1(2) that by (simp add: sent_spec_def)
  moreover have "sent_spec inp outp full io (- 1) bs' io1" if "r < 0" for bs'
    using io1(2) that by (simp add: sent_spec_def)
  ultimately show "safe (\<lambda>r io'. io_wf rd wr io' \<and> (r = - 1 \<or> int pos \<le> r) \<and> r \<le> int (length bs) \<and>
      sent_spec inp outp full io r (drop pos (take (nat r) bs)) io') (\<lambda>_. False)
    (if r < 0 then Some (Done (- 1) io1)
     else if io_wlen io1 < TRFB_BUFSIZ
     then andthen (io_put io1 (drop pos bs)) (\<lambda>l io. Some (Done (int (pos + l)) io))
     else Some (Done (int pos) io1))"
    using put(1,2) io1 pos by (simp del: of_nat_add add: nat_int)
qed

lemma write_ok:
  assumes wf: "io_wf rd wr io" and len: "0 \<le> len" "nat len \<le> length mem"
  shows "safe (\<lambda>r io'. io_wf rd wr io' \<and> - 1 \<le> r \<and> r \<le> len \<and>
      sent_spec inp outp full io r (take (nat r) mem) io') (\<lambda>_. False)
    (io_write_body (Ptr mem) len t io)"
proof -
  let ?bs = "take (nat len) mem"
  have l: "int (length ?bs) = len" using len by simp
  have wrp: "io_write io \<noteq> NULL" using wf by (simp add: io_wf_def)
  let ?n = "min (TRFB_BUFSIZ - io_wlen io) (length ?bs)"
  obtain io1 where put: "io_put io ?bs = Some (Done ?n io1)" "io_wf rd wr io1"
    "\<And>r. sent_spec inp outp full io r (take ?n ?bs) io1"
    using io_put_spec [OF wf, where bs = ?bs] by blast
  have rest: "safe (\<lambda>r io'. io_wf rd wr io' \<and> - 1 \<le> r \<and> r \<le> len \<and>
      sent_spec inp outp full io r (take (nat r) mem) io') (\<lambda>_. False)
    (io_write_rest t ?bs pos io0)"
    if "io_wf rd wr io0" "pos \<le> length ?bs" and pre: "sent_spec inp outp full io (int pos) (take pos ?bs) io0"
      for pos io0
  proof (rule safe_mono [OF write_rest_ok [OF that(1,2)]], elim conjE)
    fix r io'
    assume io': "io_wf rd wr io'" "r = - 1 \<or> int pos \<le> r" "r \<le> int (length ?bs)"
      "sent_spec inp outp full io0 r (drop pos (take (nat r) ?bs)) io'"
    have cut: "take pos ?bs @ drop pos (take (nat r) ?bs) = take (nat r) mem" if "int pos \<le> r"
    proof -
      have "take pos (take (nat r) ?bs) = take pos ?bs" using that by (simp add: min_def)
      moreover have "take (nat r) ?bs = take (nat r) mem" using io'(3) l by (simp add: min_def)
      ultimately show ?thesis by (metis append_take_drop_id)
    qed
    show "io_wf rd wr io' \<and> - 1 \<le> r \<and> r \<le> len \<and>
      sent_spec inp outp full io r (take (nat r) mem) io'"
    proof (cases "r = - 1")
      case True
      with sent_spec_trans [OF pre _ io'(4)] io' l show ?thesis by (simp add: sent_spec_def)
    next
      case False
      with cut io' sent_spec_trans [OF pre _ io'(4)] l show ?thesis by simp
    qed
  qed simp
  show ?thesis
  proof (cases "io_wlen io < TRFB_BUFSIZ")
    case False
    then have "sent_spec inp outp full io 0 [] io"
      by (simp add: sent_spec_def same_read_def)
    with False wrp len rest [OF wf, of 0] show ?thesis
      by (simp add: io_write_body_def slice_def)
  next
    case True
    show ?thesis
    proof (cases "?n = length ?bs")
      case all: True
      with put(3) have "sent_spec inp outp full io len (take (nat len) mem) io1"
        using len(2) by (simp add: min_absorb2)
      with all True wrp len put(1,2) show ?thesis
        by (simp add: io_write_body_def slice_def)
    next
      case some: False
      from rest [OF put(2) min.cobounded2 put(3)]
      have "safe (\<lambda>r io'. io_wf rd wr io' \<and> - 1 \<le> r \<and> r \<le> len \<and>
        sent_spec inp outp full io r (take (nat r) mem) io') (\<lambda>_. False)
        (io_write_rest t ?bs ?n io1)" .
      with some True wrp len put(1) show ?thesis
        by (auto simp: io_write_body_def slice_def)
    qed
  qed
qed
end

section \<open>Progress\<close>

context live_transport
begin

lemma read_live:
  assumes wf: "io_wf rd wr io" and len: "0 < len" and more: "io_pending inp io \<noteq> []"
    and budget: "0 < budget (io_ctx io)"
  shows "\<exists>r bs io'. io_read_body True len t io = Some (Done (r, bs) io') \<and>
    (0 < r \<and> budget (io_ctx io) \<le> Suc (budget (io_ctx io')) \<or>
     r = 0 \<and> budget (io_ctx io') = budget (io_ctx io) \<and>
       patience (io_ctx io') < patience (io_ctx io))"
proof (cases "io_rlen io \<le> io_rpos io")
  case False
  then show ?thesis
    using io_take_spec [OF wf len, of inp outp] wf len by (fastforce simp: io_read_body_def io_wf_def)
next
  case True
  have rdp: "io_read io = Ptr rd" and rlen: "length (io_rbuf io) = TRFB_BUFSIZ"
    using wf by (simp_all add: io_wf_def)
  have "inp (io_ctx io) \<noteq> []" using more True by (simp add: io_pending_def)
  moreover have "0 < TRFB_BUFSIZ" by (simp add: TRFB_BUFSIZ_def)
  ultimately consider
      xs w where "rd (io_ctx io) TRFB_BUFSIZ t = Some (XOk xs, w)" "budget (io_ctx io) \<le> Suc (budget w)"
    | w where "rd (io_ctx io) TRFB_BUFSIZ t = Some (XTimeout, w)"
        "budget w = budget (io_ctx io)" "patience w < patience (io_ctx io)"
    using rd_live [OF budget] by blast
  then show ?thesis
  proof cases
    case (1 xs w)
    have xs: "xs \<noteq> []" "length xs \<le> TRFB_BUFSIZ"
      using rd_ok [OF 1(1)] by (auto simp: TRFB_BUFSIZ_def)
    then have blit: "blit (io_rbuf io) 0 xs = Some (xs @ drop (length xs) (io_rbuf io))"
      using rlen by (simp add: blit_def)
    let ?io = "io\<lparr>io_ctx := w, io_rbuf := xs @ drop (length xs) (io_rbuf io), io_rpos := 0,
      io_rlen := length xs\<rparr>"
    have "io_wf rd wr ?io" and "io_rpos ?io < io_rlen ?io"
      using wf xs by (auto simp: io_wf_def)
    from io_take_spec [OF this(1) len this(2)] True rdp len 1 xs blit show ?thesis
      by (fastforce simp: io_read_body_def)
  next
    case (2 w)
    with True rdp len show ?thesis by (simp add: io_read_body_def)
  qed
qed

lemma write_fits:
  assumes wf: "io_wf rd wr io" and len: "0 \<le> len" "nat len \<le> length mem"
    and fit: "io_wlen io + nat len \<le> TRFB_BUFSIZ" "io_wlen io < TRFB_BUFSIZ"
  shows "\<exists>io'. io_write_body (Ptr mem) len t io = Some (Done len io') \<and>
    io_ctx io' = io_ctx io \<and> io_wlen io' = io_wlen io + nat len"
proof -
  have "min (TRFB_BUFSIZ - io_wlen io) (length (take (nat len) mem)) = nat len"
    using len fit by simp
  with io_put_ok [OF wf, of "take (nat len) mem"] wf len fit show ?thesis
    by (auto simp: io_write_body_def slice_def io_wf_def)
qed

lemma flush_live:
  assumes wf: "io_wf rd wr io" and full: "full (io_ctx io)" and budget: "0 < budget (io_ctx io)"
  shows "\<exists>io'. io_flush_body t io = Some (Done 0 io') \<and>
    budget (io_ctx io) \<le> Suc (budget (io_ctx io')) \<and> io_wlen io' \<le> io_wlen io"
proof (cases "io_wlen io = 0")
  case True
  then show ?thesis by (simp add: io_flush_body_def)
next
  case False
  have wrp: "io_write io = Ptr wr"
    and len: "io_wlen io \<le> TRFB_BUFSIZ" "length (io_wbuf io) = TRFB_BUFSIZ"
    using wf by (auto simp: io_wf_def)
  then have bs: "slice (io_wbuf io) 0 (io_wlen io) = Some (io_queued io)"
    by (simp add: slice_def io_queued_def)
  have q: "length (io_queued io) = io_wlen io" "io_queued io \<noteq> []"
    using len False by (auto simp: io_queued_def TRFB_BUFSIZ_def)
  then consider
      k w where "wr (io_ctx io) (io_queued io) t = Some (XOk k, w)" "budget (io_ctx io) \<le> Suc (budget w)"
    | w where "wr (io_ctx io) (io_queued io) t = Some (XTimeout, w)" "budget w = budget (io_ctx io)"
    using wr_live [OF budget q(2), where t = t] len(1) by auto
  then show ?thesis
  proof cases
    case (1 k w)
    with full_wr [OF full q(2) _ 1(1)] q len False wrp bs show ?thesis
      by (simp add: io_flush_body_def)
  next
    case (2 w)
    with False wrp bs show ?thesis by (simp add: io_flush_body_def)
  qed
qed

end

section \<open>Sockets keep the contract\<close>

text \<open>
  \<open>sock_inp\<close>: what the peer still sends. \<open>sock_full\<close>: every successful \<^verbatim>\<open>send\<close> takes a whole
  buffer. \<open>sock_budget\<close>: on how many more calls the system calls are sure to deliver.
\<close>

fun rcv_data :: "rcv \<Rightarrow> bytes" where
  "rcv_data (RcvData bs) = bs"
| "rcv_data _ = []"

fun rcv_fine :: "rcv \<Rightarrow> bool" where
  "rcv_fine (RcvData bs) = (bs \<noteq> [])"
| "rcv_fine (RcvErr e) = (e = EAGAIN \<or> e = EINTR)"
| "rcv_fine RcvEof = False"

fun snd_full :: "snd \<Rightarrow> bool" where
  "snd_full (SndOk n) = (TRFB_BUFSIZ \<le> n)"
| "snd_full (SndErr e) = True"

fun snd_fine :: "snd \<Rightarrow> bool" where
  "snd_fine (SndOk n) = (0 < n)"
| "snd_fine (SndErr e) = (e = EAGAIN \<or> e = EINTR)"

fun sel_fine :: "sel \<Rightarrow> bool" where
  "sel_fine (SelErr e) = (e = EINTR)"
| "sel_fine _ = True"

definition sock_inp :: "sock ptr \<Rightarrow> bytes" where
  "sock_inp w = (case w of NULL \<Rightarrow> [] | Ptr sk \<Rightarrow> concat (map rcv_data (sk_rcv sk)))"

definition sock_outp :: "sock ptr \<Rightarrow> bytes" where
  "sock_outp w = (case w of NULL \<Rightarrow> [] | Ptr sk \<Rightarrow> sk_out sk)"

definition sock_full :: "sock ptr \<Rightarrow> bool" where
  "sock_full w = (case w of NULL \<Rightarrow> True | Ptr sk \<Rightarrow> list_all snd_full (sk_snd sk))"

definition sel_ready :: "sel list \<Rightarrow> nat" where
  "sel_ready s = (if list_all sel_fine s then length (filter ((=) SelReady) s) else 0)"

definition snd_ready :: "snd list \<Rightarrow> nat" where
  "snd_ready s = (if list_all snd_fine s then length (filter is_SndOk s) else 0)"

definition sock_budget :: "sock ptr \<Rightarrow> nat" where
  "sock_budget w =
     (case w of
        NULL \<Rightarrow> 0
      | Ptr sk \<Rightarrow> if list_all rcv_fine (sk_rcv sk)
                  then min (sel_ready (sk_sel sk)) (snd_ready (sk_snd sk)) else 0)"

definition sock_patience :: "sock ptr \<Rightarrow> nat" where
  "sock_patience w = (case w of NULL \<Rightarrow> 0 | Ptr sk \<Rightarrow> length (filter ((=) SelTimeout) (sk_sel sk)))"

lemma sel_ready_simps [simp]:
  "sel_ready [] = 0"
  "sel_ready (SelErr e # s) = (if e = EINTR then sel_ready s else 0)"
  "sel_ready (SelTimeout # s) = sel_ready s"
  "sel_ready (SelReady # s) = (if list_all sel_fine s then Suc (sel_ready s) else 0)"
  by (simp_all add: sel_ready_def)

lemma sock_select_live:
  "0 < sel_ready s \<Longrightarrow>
   (\<exists>s'. sock_select timed s = Some (Inr True, s') \<and> sel_ready s = Suc (sel_ready s')) \<or>
   (\<exists>s'. sock_select timed s = Some (Inr False, s') \<and> sel_ready s' = sel_ready s \<and>
     length (filter ((=) SelTimeout) s') < length (filter ((=) SelTimeout) s))"
proof (induction timed s rule: sock_select.induct)
  case (3 timed s)
  then show ?case by (cases timed) (auto intro: less_SucI)
qed (auto split: if_splits)

lemma sock_recv_ok:
  "sock_recv n s = Some (XOk xs, s') \<Longrightarrow> xs \<noteq> [] \<and> length xs \<le> n \<and>
     concat (map rcv_data s) = xs @ concat (map rcv_data s')"
  by (induction n s rule: sock_recv.induct) (auto simp: Let_def split: if_splits)

lemma sock_recv_error:
  "sock_recv n s = Some (XErr e, s') \<Longrightarrow> 0 < n \<Longrightarrow> concat (map rcv_data s') = concat (map rcv_data s)"
  by (induction n s rule: sock_recv.induct) (auto simp: Let_def split: if_splits)

lemma sock_recv_no_timeout: "sock_recv n s \<noteq> Some (XTimeout, s')"
  by (induction n s rule: sock_recv.induct) (auto simp: Let_def)

lemma sock_recv_live:
  "list_all rcv_fine s \<Longrightarrow> concat (map rcv_data s) \<noteq> [] \<Longrightarrow> 0 < n \<Longrightarrow>
   \<exists>xs s'. sock_recv n s = Some (XOk xs, s') \<and> list_all rcv_fine s'"
  by (induction n s rule: sock_recv.induct) (auto simp: Let_def)

lemma sock_send_ok:
  "sock_send n s = Some (XOk k, s') \<Longrightarrow> 0 < k \<and> k \<le> n"
  by (induction n s rule: sock_send.induct) (auto simp: Let_def split: if_splits)

lemma sock_send_full:
  "sock_send n s = Some (r, s') \<Longrightarrow> list_all snd_full s \<Longrightarrow>
   list_all snd_full s' \<and> (\<forall>k. r = XOk k \<longrightarrow> n \<le> TRFB_BUFSIZ \<longrightarrow> k = n) \<and> r \<noteq> XTimeout"
  by (induction n s rule: sock_send.induct) (auto simp: Let_def split: if_splits)

lemma sock_send_no_timeout: "sock_send n s \<noteq> Some (XTimeout, s')"
  by (induction n s rule: sock_send.induct) (auto simp: Let_def)

lemma sock_send_live:
  "0 < snd_ready s \<Longrightarrow> 0 < n \<Longrightarrow>
   \<exists>k s'. sock_send n s = Some (XOk k, s') \<and> snd_ready s = Suc (snd_ready s')"
  by (induction n s rule: sock_send.induct) (auto simp: Let_def snd_ready_def split: if_splits)

lemma sock_read_cases:
  assumes "sock_read w n t = Some (r, w')"
  obtains "w = NULL" "r = XErr EINVAL" "w' = NULL"
  | sk s e where "w = Ptr sk" "r = XErr e" "w' = Ptr (sk\<lparr>sk_sel := s\<rparr>)"
  | sk s where "w = Ptr sk" "r = XTimeout" "w' = Ptr (sk\<lparr>sk_sel := s\<rparr>)"
  | sk s u where "w = Ptr sk" "sock_recv n (sk_rcv sk) = Some (r, u)"
      "w' = Ptr (sk\<lparr>sk_sel := s, sk_rcv := u\<rparr>)"
  using assms
  by (auto simp: sock_read_def split: ptr.splits option.splits sum.splits bool.splits)

lemma sock_write_cases:
  assumes "sock_write w bs t = Some (r, w')"
  obtains "w = NULL" "r = XErr EINVAL" "w' = NULL"
  | sk s e where "w = Ptr sk" "r = XErr e" "w' = Ptr (sk\<lparr>sk_sel := s\<rparr>)"
  | sk s where "w = Ptr sk" "r = XTimeout" "w' = Ptr (sk\<lparr>sk_sel := s\<rparr>)"
  | sk s u k where "w = Ptr sk" "r = XOk k" "sock_send (length bs) (sk_snd sk) = Some (XOk k, u)"
      "w' = Ptr (sk\<lparr>sk_sel := s, sk_snd := u, sk_out := sk_out sk @ take k bs\<rparr>)"
  | sk s u e where "w = Ptr sk" "r = XErr e" "sock_send (length bs) (sk_snd sk) = Some (XErr e, u)"
      "w' = Ptr (sk\<lparr>sk_sel := s, sk_snd := u\<rparr>)"
  using assms sock_send_no_timeout
  by (auto simp: sock_write_def split: ptr.splits option.splits sum.splits bool.splits xfer.splits)

interpretation skt: transport sock_read sock_write sock_inp sock_outp
proof unfold_locales
  fix w n t xs w' assume "sock_read w n t = Some (XOk xs, w')"
  then show "xs \<noteq> [] \<and> length xs \<le> n \<and> sock_inp w = xs @ sock_inp w'"
    by (cases rule: sock_read_cases) (auto simp: sock_inp_def dest: sock_recv_ok)
next
  fix w n t w' assume "sock_read w n t = Some (XTimeout, w')"
  then show "sock_inp w' = sock_inp w"
    by (cases rule: sock_read_cases) (auto simp: sock_inp_def sock_recv_no_timeout)
next
  fix w and n :: nat and t e w' assume "sock_read w n t = Some (XErr e, w')" "0 < n"
  then show "sock_inp w' = sock_inp w"
    by (cases rule: sock_read_cases) (auto simp: sock_inp_def dest: sock_recv_error)
next
  fix w n t r w' assume "sock_read w n t = Some (r, w')"
  then show "sock_outp w' = sock_outp w"
    by (cases rule: sock_read_cases) (auto simp: sock_outp_def)
next
  fix w bs t k w' assume "sock_write w bs t = Some (XOk k, w')"
  then show "0 < k \<and> k \<le> length bs \<and> sock_outp w' = sock_outp w @ take k bs"
    by (cases rule: sock_write_cases) (auto simp: sock_outp_def dest: sock_send_ok)
next
  fix w bs t w' assume "sock_write w bs t = Some (XTimeout, w')"
  then show "sock_outp w' = sock_outp w"
    by (cases rule: sock_write_cases) (auto simp: sock_outp_def)
next
  fix w bs t q w' assume "sock_write w bs t = Some (q, w')"
  then show "sock_inp w' = sock_inp w"
    by (cases rule: sock_write_cases) (auto simp: sock_inp_def)
qed

interpretation skf: full_transport sock_read sock_write sock_inp sock_outp sock_full
proof unfold_locales
  fix w bs t k w'
  assume "sock_full w" "length bs \<le> TRFB_BUFSIZ" "sock_write w bs t = Some (XOk k, w')"
  from this(3,1,2) show "k = length bs"
    by (cases rule: sock_write_cases) (auto simp: sock_full_def dest: sock_send_full)
next
  fix w n t r w' assume "sock_full w" "sock_read w n t = Some (r, w')"
  from this(2,1) show "sock_full w'"
    by (cases rule: sock_read_cases) (auto simp: sock_full_def)
next
  fix w bs t q w' assume "sock_full w" "sock_write w bs t = Some (q, w')"
  from this(2,1) show "sock_full w'"
    by (cases rule: sock_write_cases) (auto simp: sock_full_def dest: sock_send_full)
qed

interpretation sk: live_transport sock_read sock_write sock_inp sock_outp sock_full sock_budget
  sock_patience
proof unfold_locales
  fix w t and n :: nat
  assume b: "0 < sock_budget w" and n: "0 < n" and more: "sock_inp w \<noteq> []"
  then obtain s where w: "w = Ptr s" and fine: "list_all rcv_fine (sk_rcv s)"
    and ready: "0 < sel_ready (sk_sel s)"
    by (auto simp: sock_budget_def split: ptr.splits if_splits)
  from sock_recv_live [OF fine _ n] more w obtain xs u
    where recv: "sock_recv n (sk_rcv s) = Some (XOk xs, u)" "list_all rcv_fine u"
    by (auto simp: sock_inp_def)
  from sock_select_live [OF ready, of "sock_timeval t \<noteq> None"] recv w fine
  show "(\<exists>xs w'. sock_read w n t = Some (XOk xs, w') \<and> sock_budget w \<le> Suc (sock_budget w')) \<or>
      (\<exists>w'. sock_read w n t = Some (XTimeout, w') \<and> sock_budget w' = sock_budget w \<and>
        sock_patience w' < sock_patience w)"
    by (auto simp: sock_read_def sock_budget_def sock_patience_def)
next
  fix w and bs :: bytes and t
  assume b: "0 < sock_budget w" and bs: "bs \<noteq> []"
  then obtain s where w: "w = Ptr s" and fine: "list_all rcv_fine (sk_rcv s)"
    and ready: "0 < sel_ready (sk_sel s)" "0 < snd_ready (sk_snd s)"
    by (auto simp: sock_budget_def split: ptr.splits if_splits)
  from sock_send_live [OF ready(2), of "length bs"] bs obtain k u
    where send: "sock_send (length bs) (sk_snd s) = Some (XOk k, u)"
      "snd_ready (sk_snd s) = Suc (snd_ready u)"
    by auto
  from sock_select_live [OF ready(1), of "sock_timeval t \<noteq> None"] send w fine
  show "(\<exists>k w'. sock_write w bs t = Some (XOk k, w') \<and> sock_budget w \<le> Suc (sock_budget w')) \<or>
      (\<exists>w'. sock_write w bs t = Some (XTimeout, w') \<and> sock_budget w' = sock_budget w)"
    by (auto simp: sock_write_def sock_budget_def)
qed

section \<open>Properties\<close>

lemma drop_eq_take:
  "length q - k \<le> length p \<Longrightarrow>
   drop k q = take (length q - k) p \<longleftrightarrow> (\<forall>i < length q - k. q ! (k + i) = p ! i)"
  by (auto simp: list_eq_iff_nth_eq)

lemma safe_map_outcome:
  "safe Q E (map_option (map_outcome f g) m) = safe (\<lambda>a s. Q (g a) (f s)) (\<lambda>s. E (f s)) m"
proof (cases m)
  case (Some x)
  then show ?thesis by (cases x) simp_all
qed simp

lemma safe_with_io [simp]:
  "safe Q E (with_io (Ptr io) n f) = safe (\<lambda>a io'. Q a (Ptr io')) (\<lambda>io'. E (Ptr io')) (f io)"
  by (simp add: with_io_def safe_map_outcome)

text \<open>A connected socket, for the examples: what the peer sends, and how the calls go.\<close>

definition example_io :: "sel list \<Rightarrow> rcv list \<Rightarrow> snd list \<Rightarrow> sock ptr trfb_io" where
  "example_io s r w = deref (trfb_io_socket_wrap easy_env
     \<lparr>sk_sel = s, sk_rcv = r, sk_snd = w, sk_out = [], sk_closed = False\<rparr>)"

lemma example_io_simps [simp]:
  "io_ctx (example_io s r w) = Ptr \<lparr>sk_sel = s, sk_rcv = r, sk_snd = w, sk_out = [], sk_closed = False\<rparr>"
  "io_rbuf (example_io s r w) = replicate TRFB_BUFSIZ 0"
  "io_wbuf (example_io s r w) = replicate TRFB_BUFSIZ 0"
  "io_rlen (example_io s r w) = 0" "io_rpos (example_io s r w) = 0" "io_wlen (example_io s r w) = 0"
  "io_read (example_io s r w) = Ptr sock_read" "io_write (example_io s r w) = Ptr sock_write"
  "io_wf sock_read sock_write (example_io s r w)"
  by (simp_all add: example_io_def trfb_io_socket_wrap_def io_wf_def)

text \<open>
  C7. Reading from a socket object is reading its stream: the bytes returned are the next
  pending ones, in order and at most as many as asked for, whatever the system calls deliver, and the
  others stay pending, also when the call times out or fails. When bytes are left and the system
  calls keep delivering, the call returns some of them or uses up one of the finitely many timeouts.
\<close>

theorem io_read_stream:
  assumes wf: "io_wf sock_read sock_write io" and len: "0 < len"
  shows "safe (\<lambda>res iop. \<exists>io'. iop = Ptr io' \<and> io_wf sock_read sock_write io' \<and>
      read_spec sock_inp sock_outp io len res io') (\<lambda>_. False) (trfb_io_read (Ptr io) True len t) \<and>
    (io_pending sock_inp io \<noteq> [] \<longrightarrow> 0 < sock_budget (io_ctx io) \<longrightarrow>
      (\<exists>r bs io'. trfb_io_read (Ptr io) True len t = Some (Done (r, bs) (Ptr io')) \<and>
        (0 < r \<or> r = 0 \<and> sock_patience (io_ctx io') < sock_patience (io_ctx io))))"
  using skt.read_ok [OF wf len, of t] sk.read_live [OF wf len, of t]
  by (auto simp: trfb_io_read_def with_io_def safe_map_outcome)

lemma io_read_stream_witness:
  "\<exists>r bs io'. trfb_io_read (Ptr (example_io [SelErr EINTR, SelReady] [RcvErr EAGAIN, RcvData [7, 8]]
      [SndOk 1])) True 1 1000 = Some (Done (r, bs) (Ptr io')) \<and> 0 < r"
proof -
  have "io_pending sock_inp (example_io [SelErr EINTR, SelReady] [RcvErr EAGAIN, RcvData [7, 8]] [SndOk 1])
      \<noteq> []"
    by (simp add: io_pending_def sock_inp_def)
  moreover have "0 < sock_budget (io_ctx (example_io [SelErr EINTR, SelReady]
      [RcvErr EAGAIN, RcvData [7, 8]] [SndOk 1]))"
    by (simp add: sock_budget_def snd_ready_def)
  ultimately show ?thesis
    using io_read_stream [of "example_io [SelErr EINTR, SelReady] [RcvErr EAGAIN, RcvData [7, 8]]
      [SndOk 1]" 1 1000] by (auto simp: sock_patience_def)
qed

text \<open>
  C8. Writing and flushing never leave the buffers, whatever \<^verbatim>\<open>send\<close> does, and never disturb the
  read side. While each \<^verbatim>\<open>send\<close> takes all it is given, the bytes written so far followed by the
  ones in the buffer are exactly those the program has written: a write appends the bytes it
  reports and a flush changes nothing, timeouts included; a flush then returns 0 or an error.
\<close>

theorem io_write_stream:
  assumes wf: "io_wf sock_read sock_write io" and len: "0 \<le> len" "nat len \<le> length mem"
  shows "safe (\<lambda>r iop. \<exists>io'. iop = Ptr io' \<and> io_wf sock_read sock_write io' \<and> - 1 \<le> r \<and> r \<le> len \<and>
      sent_spec sock_inp sock_outp sock_full io r (take (nat r) mem) io') (\<lambda>_. False)
      (trfb_io_write (Ptr io) (Ptr mem) len t) \<and>
    safe (\<lambda>r iop. \<exists>io'. iop = Ptr io' \<and> io_wf sock_read sock_write io' \<and> - 1 \<le> r \<and>
      sent_spec sock_inp sock_outp sock_full io r [] io' \<and> (sock_full (io_ctx io) \<longrightarrow> r \<le> 0))
      (\<lambda>_. False) (trfb_io_flush (Ptr io) t)"
  using skf.write_ok [OF wf len, of t] skf.flush_ok [OF wf, of t]
  by (auto simp: trfb_io_write_def trfb_io_flush_def elim: safe_mono)

lemma io_write_stream_witness:
  "safe (\<lambda>r iop. \<exists>io'. iop = Ptr io' \<and> io_wf sock_read sock_write io' \<and> - 1 \<le> r \<and> r \<le> 2 \<and>
      sent_spec sock_inp sock_outp sock_full (example_io [] [] []) r (take (nat r) [1, 2]) io')
     (\<lambda>_. False) (trfb_io_write (Ptr (example_io [] [] [])) (Ptr [1, 2]) 2 1000)"
  using io_write_stream [of "example_io [] [] []" 2 "[1, 2]" 1000] by simp

text \<open>
  C9. After a partial write of \<open>k\<close> bytes the flush keeps the wrong part of its buffer: the
  queue holds the first bytes again and not the rest, so the stream is still the one the program
  wrote only if the queued bytes repeat with period \<open>k\<close>.
\<close>

theorem io_flush_partial:
  assumes wf: "io_wf rd wr io"
    and part: "wr (io_ctx io) (io_queued io) t = Some (XOk k, w)" "0 < k" "k < io_wlen io"
      "outp w = outp (io_ctx io) @ take k (io_queued io)"
  shows "\<exists>io'. trfb_io_flush (Ptr io) t = Some (Done (int (io_wlen io - k)) (Ptr io')) \<and>
    io_queued io' = take (io_wlen io - k) (take k (io_queued io) @ io_queued io) \<and>
    (io_sent outp io' = io_sent outp io \<longleftrightarrow>
      (\<forall>i < io_wlen io - k. io_queued io ! (k + i) = (take k (io_queued io) @ io_queued io) ! i))"
proof -
  have wrp: "io_write io = Ptr wr"
    and len: "io_wlen io \<le> TRFB_BUFSIZ" "length (io_wbuf io) = TRFB_BUFSIZ"
    using wf by (auto simp: io_wf_def)
  let ?q = "io_queued io" and ?n = "io_wlen io" and ?b = "io_wbuf io"
  have q: "?q = take ?n ?b" "length ?q = ?n" using len by (simp_all add: io_queued_def)
  let ?wb = "take k ?b @ take (?n - k) ?b @ drop ?n ?b"
  let ?io' = "io\<lparr>io_ctx := w, io_wbuf := ?wb, io_wlen := ?n - k\<rparr>"
  have "blit ?b k (take (?n - k) ?b) = Some ?wb"
    using len part by (simp add: blit_def)
  then have flush: "io_flush_body t io = Some (Done (int (?n - k)) ?io')"
    using part wrp len q(1) by (simp add: io_flush_body_def slice_def)
  have keep: "io_queued ?io' = take (?n - k) (take k ?q @ ?q)"
  proof -
    have "take (?n - k) (take (?n - k) ?b) = take (?n - k) ?q" by (simp add: q(1) min_def)
    then show ?thesis using len part by (simp add: io_queued_def min_def)
  qed
  have "drop k ?q = take (?n - k) (take k ?q @ ?q) \<longleftrightarrow>
      (\<forall>i < ?n - k. ?q ! (k + i) = (take k ?q @ ?q) ! i)"
    using q(2) part(3) drop_eq_take [of ?q k "take k ?q @ ?q"] by simp
  moreover have "io_sent outp ?io' = io_sent outp io \<longleftrightarrow> drop k ?q = take (?n - k) (take k ?q @ ?q)"
  proof -
    have s1: "io_sent outp io = outp (io_ctx io) @ take k ?q @ drop k ?q"
      by (simp add: io_sent_def)
    have s2: "io_sent outp ?io' = outp (io_ctx io) @ take k ?q @ take (?n - k) (take k ?q @ ?q)"
      using part(4) keep by (simp add: io_sent_def)
    show ?thesis unfolding s1 s2 same_append_eq by (rule eq_commute)
  qed
  ultimately show ?thesis
    using flush keep by (auto simp: trfb_io_flush_def with_io_def)
qed

text \<open>The bytes 1, 2, 3 with a \<^verbatim>\<open>send\<close> that takes one: what follows on the wire is 1 again, not 2.\<close>

lemma io_flush_partial_witness:
  "\<exists>io'. trfb_io_flush (Ptr ((example_io [SelReady] [] [SndOk 1])
       \<lparr>io_wbuf := [1, 2, 3] @ replicate 2045 0, io_wlen := 3\<rparr>)) 1000 = Some (Done 2 (Ptr io')) \<and>
     io_queued io' = [1, 1] \<and> io_sent sock_outp io' \<noteq> [1, 2, 3]"
proof -
  let ?io = "(example_io [SelReady] [] [SndOk 1])\<lparr>io_wbuf := [1, 2, 3] @ replicate 2045 0, io_wlen := 3\<rparr>"
  have q: "io_queued ?io = [1, 2, 3]" and w: "io_wlen ?io = 3"
    by (simp_all add: io_queued_def numeral_eq_Suc)
  have s: "io_sent sock_outp ?io = [1, 2, 3]"
    by (simp only: io_sent_def q) (simp add: sock_outp_def)
  have "io_wf sock_read sock_write ?io" by (simp add: io_wf_def TRFB_BUFSIZ_def)
  moreover have "sock_write (io_ctx ?io) (io_queued ?io) 1000 = Some (XOk 1,
      Ptr \<lparr>sk_sel = [], sk_rcv = [], sk_snd = [], sk_out = [1], sk_closed = False\<rparr>)"
    by (simp only: q) (simp add: sock_write_def sock_timeval_def)
  moreover have "sock_outp (Ptr \<lparr>sk_sel = [], sk_rcv = [], sk_snd = [], sk_out = [1], sk_closed = False\<rparr>) =
      sock_outp (io_ctx ?io) @ take 1 (io_queued ?io)"
    by (simp only: q) (simp add: sock_outp_def)
  ultimately obtain io' where io': "trfb_io_flush (Ptr ?io) 1000 = Some (Done (int (io_wlen ?io - 1)) (Ptr io'))"
    "io_queued io' = take (io_wlen ?io - 1) (take 1 (io_queued ?io) @ io_queued ?io)"
    "io_sent sock_outp io' = io_sent sock_outp ?io \<longleftrightarrow>
      (\<forall>i < io_wlen ?io - 1. io_queued ?io ! (1 + i) = (take 1 (io_queued ?io) @ io_queued ?io) ! i)"
    using io_flush_partial [where io = ?io and k = 1 and t = 1000 and rd = sock_read and
        wr = sock_write and outp = sock_outp] w by (metis less_numeral_extra(1) one_less_numeral_iff semiring_norm(77))
  have "\<not> (\<forall>i < (2::nat). [1, 2, 3 :: u8] ! (1 + i) = ([1] @ [1, 2, 3]) ! i)"
    by (auto intro: exI [of _ 0])
  with io' show ?thesis unfolding q w s by (intro exI [of _ io']) simp
qed

text \<open>
  One character at a time: the \<^verbatim>\<open>getc\<close> macro returns the next pending byte, or \<^verbatim>\<open>TRFB_EOF\<close>
  which no byte equals, and the \<^verbatim>\<open>putc\<close> macro appends its byte to the queue while there is room.
\<close>

theorem io_getc_putc:
  assumes wf: "io_wf sock_read sock_write io"
  shows "safe (\<lambda>c iop. \<exists>io'. iop = Ptr io' \<and> io_wf sock_read sock_write io' \<and>
      (c = TRFB_EOF \<or> (\<exists>b. c = uint b \<and> c < TRFB_EOF \<and>
        io_pending sock_inp io = b # io_pending sock_inp io'))) (\<lambda>_. False) (trfb_io_getc (Ptr io) t) \<and>
    (io_wlen io < TRFB_BUFSIZ \<longrightarrow>
      (\<exists>io'. trfb_io_putc c (Ptr io) t = Some (Done (uint c) (Ptr io')) \<and>
        io_wf sock_read sock_write io' \<and> io_queued io' = io_queued io @ [c]))"
proof (rule conjI)
  have eof: "uint b < TRFB_EOF" for b :: u8
    using uint_bounded [of b] by (simp add: TRFB_EOF_def)
  let ?Q = "\<lambda>c iop. \<exists>io'. iop = Ptr io' \<and> io_wf sock_read sock_write io' \<and>
      (c = TRFB_EOF \<or> (\<exists>b. c = uint b \<and> c < TRFB_EOF \<and>
        io_pending sock_inp io = b # io_pending sock_inp io'))"
  show "safe ?Q (\<lambda>_. False) (trfb_io_getc (Ptr io) t)"
  proof (cases "io_rpos io < io_rlen io")
    case True
    let ?p = "io_rpos io" and ?b = "io_rbuf io"
    have fit: "?p < length ?b" using True wf by (simp add: io_wf_def)
    have bs: "slice ?b ?p 1 = Some [?b ! ?p]"
      using fit by (simp add: slice_def take_Suc_conv_app_nth Cons_nth_drop_Suc [symmetric])
    have "io_buffered io = ?b ! ?p # io_buffered (io\<lparr>io_rpos := Suc ?p\<rparr>)"
      using fit True by (simp add: io_buffered_def Cons_nth_drop_Suc [symmetric] Suc_diff_Suc [symmetric])
    then show ?thesis
      using True wf bs eof [of "?b ! ?p"] by (simp add: trfb_io_getc_def io_wf_def io_pending_def)
  next
    case False
    have "safe ?Q (\<lambda>_. False) (trfb_io_fgetc (Ptr io) t)"
      unfolding trfb_io_fgetc_def trfb_io_read_def
    proof (rule safe_andthen, unfold safe_with_io, rule safe_mono [OF skt.read_ok [OF wf]])
      fix res io'
      assume "io_wf sock_read sock_write io' \<and> read_spec sock_inp sock_outp io 1 res io'"
      then show "\<exists>io''. Ptr io' = Ptr io'' \<and> io_wf sock_read sock_write io'' \<and>
          read_spec sock_inp sock_outp io 1 res io''" by simp
    next
      fix res :: "int \<times> bytes" and iop
      assume "\<exists>io'. iop = Ptr io' \<and> io_wf sock_read sock_write io' \<and>
          read_spec sock_inp sock_outp io 1 res io'"
      then show "safe ?Q (\<lambda>_. False) ((\<lambda>(r, bs) iop.
          if r = 1 then Some (Done (uint (hd bs)) iop) else Some (Done TRFB_EOF iop)) res iop)"
        using eof by (cases "snd res") (auto simp: read_spec_def)
    qed simp_all
    with False show ?thesis by (simp add: trfb_io_getc_def)
  qed
next
  show "io_wlen io < TRFB_BUFSIZ \<longrightarrow>
      (\<exists>io'. trfb_io_putc c (Ptr io) t = Some (Done (uint c) (Ptr io')) \<and>
        io_wf sock_read sock_write io' \<and> io_queued io' = io_queued io @ [c])"
    using wf by (auto simp: trfb_io_putc_def blit_def io_wf_def io_queued_def)
qed

lemma io_getc_putc_witness:
  "\<exists>io'. trfb_io_putc 65 (Ptr (example_io [] [] [])) 0 = Some (Done 65 (Ptr io')) \<and>
     io_wf sock_read sock_write io' \<and> io_queued io' = [65]"
  using io_getc_putc [of "example_io [] [] []" 0 65] by (auto simp: TRFB_BUFSIZ_def io_queued_def)

lemma millis: "x div 1000 * 1000000 + 1000 * (x mod 1000) = x * (1000 :: nat)"
proof -
  have "x div 1000 * 1000000 + 1000 * (x mod 1000) = 1000 * (x div 1000 * 1000 + x mod 1000)"
    by (simp only: distrib_left mult.assoc mult.left_commute)
  also have "\<dots> = x * 1000" by (simp only: div_mult_mod_eq mult.commute [of x])
  finally show ?thesis .
qed

lemma socket_wrap_ok:
  assumes "trfb_io_socket_wrap e sk = Ptr io"
  shows "io_wf sock_read sock_write io \<and> io_pending sock_inp io = sock_inp (Ptr sk) \<and>
    io_sent sock_outp io = sk_out sk \<and> trfb_io_free (Ptr io) = Some (Ptr (sk\<lparr>sk_closed := True\<rparr>))"
  using assms
  by (auto simp: trfb_io_socket_wrap_def trfb_io_free_def io_wf_def io_pending_def io_sent_def
      sock_outp_def io_queued_def sock_free_def split: if_splits)

text \<open>
  The life of a socket object: wrapping succeeds when both allocations do, the object starts
  empty and well formed on the given socket and freeing it closes the socket; and the time-out given
  to \<^verbatim>\<open>select\<close> is a valid \<^verbatim>\<open>struct timeval\<close> of exactly that many milliseconds, none for 0.
\<close>

theorem socket_wrap_spec:
  "(trfb_io_socket_wrap e sk \<noteq> NULL \<longleftrightarrow> struct_ok e \<and> alloc_ok e 4) \<and>
   (case trfb_io_socket_wrap e sk of
      NULL \<Rightarrow> trfb_io_free (trfb_io_socket_wrap e sk) = None
    | Ptr io \<Rightarrow> io_wf sock_read sock_write io \<and> io_pending sock_inp io = sock_inp (Ptr sk) \<and>
        io_sent sock_outp io = sk_out sk \<and>
        trfb_io_free (Ptr io) = Some (Ptr (sk\<lparr>sk_closed := True\<rparr>))) \<and>
   (case sock_timeval timeout of
      None \<Rightarrow> timeout = 0
    | Some (sec, usec) \<Rightarrow> 0 < timeout \<and> usec < 1000000 \<and>
        unat sec * 1000000 + unat usec = unat timeout * 1000)"
proof -
  have "unat (1000 * (timeout mod 1000)) = 1000 * (unat timeout mod 1000)"
    by (simp add: unat_word_ariths unat_mod_distrib)
  moreover have "unat (timeout div 1000) = unat timeout div 1000"
    by (simp add: unat_div_distrib)
  moreover have "unat timeout mod 1000 < 1000" by simp
  moreover have "unat timeout div 1000 * 1000000 + 1000 * (unat timeout mod 1000) = unat timeout * 1000"
    by (rule millis)
  ultimately have "1000 * (timeout mod 1000) < 1000000"
    and "unat (timeout div 1000) * 1000000 + unat (1000 * (timeout mod 1000)) = unat timeout * 1000"
    by (simp add: word_less_nat_alt, simp only:)
  then show ?thesis
    using socket_wrap_ok [of e sk]
    by (auto simp: sock_timeval_def trfb_io_free_def trfb_io_socket_wrap_def word_gt_0 split: ptr.split)
qed

end
