(* ===== verification/Events.thy ===== *)
theory Events
  imports Framebuffer
begin

text \<open>
  The shared part of a server, \<^verbatim>\<open>struct trfb_server\<close> without its list of clients: the framebuffer
  with its lock and its access counter, and the ring buffer of events between the connection
  threads and the application (\<^verbatim>\<open>src/src/server.c\<close>). The text of a cut event is a block of the
  process heap and is named by its address.
\<close>

section \<open>Data\<close>

datatype trfb_event =
    EvNone
  | EvKey (key_down: u8) (key_code: u32)
  | EvPointer (ptr_button: u8) (ptr_x: u32) (ptr_y: u32)
  | EvCutText (cut_len: u64) (cut_text: "nat ptr")

definition TRFB_EVENTS_QUEUE_LEN :: nat where
  "TRFB_EVENTS_QUEUE_LEN = 128"

datatype trfb_state = StSTOPPED | StWORKING | StSTOP | StERROR

definition state_code :: "trfb_state \<Rightarrow> u32" where
  "state_code s = (case s of StSTOPPED \<Rightarrow> 0x0000 | StWORKING \<Rightarrow> 0x0001 | StSTOP \<Rightarrow> 0x0002 | StERROR \<Rightarrow> 0x8000)"

text \<open>
  Blocks of the heap by address; \<open>heap_next\<close> is an address that was never handed out, so that an
  access to a block that was freed is seen.
\<close>

record heap =
  heap_blocks :: "nat \<Rightarrow> bytes option"
  heap_next :: nat

record trfb_server =
  srv_sock :: int
  srv_state :: trfb_state
  srv_fb :: "trfb_framebuffer ptr"
  srv_updated :: u32
  srv_lock :: mtx
  srv_events :: "trfb_event list"
  srv_event_cur :: nat
  srv_event_len :: nat
  srv_heap :: heap

text \<open>A server from \<^verbatim>\<open>calloc\<close>: every byte zero.\<close>

definition zero_server :: trfb_server where
  "zero_server = \<lparr>srv_sock = 0, srv_state = StSTOPPED, srv_fb = NULL, srv_updated = 0,
     srv_lock = MtxRaw, srv_events = replicate TRFB_EVENTS_QUEUE_LEN EvNone,
     srv_event_cur = 0, srv_event_len = 0,
     srv_heap = \<lparr>heap_blocks = (\<lambda>_. None), heap_next = 1\<rparr>\<rparr>"

section \<open>The heap and the locks\<close>

definition heap_alloc :: "cenv \<Rightarrow> nat \<Rightarrow> heap \<Rightarrow> nat ptr \<times> heap" where
  "heap_alloc e n h =
     (case malloc e n of
        NULL \<Rightarrow> (NULL, h)
      | Ptr mem \<Rightarrow> (Ptr (heap_next h),
          \<lparr>heap_blocks = (heap_blocks h)(heap_next h \<mapsto> mem), heap_next = Suc (heap_next h)\<rparr>))"

definition heap_free :: "nat ptr \<Rightarrow> heap \<Rightarrow> heap option" where
  "heap_free p h =
     (case p of
        NULL \<Rightarrow> Some h
      | Ptr a \<Rightarrow> if heap_blocks h a = None then None
                 else Some (h\<lparr>heap_blocks := (heap_blocks h)(a := None)\<rparr>))"

text \<open>
  \<^verbatim>\<open>mtx_lock\<close> and \<^verbatim>\<open>mtx_unlock\<close>. A lock that is held is never given to this thread; that another
  thread gives a lock back before this one gets it is part of the interleaving.
\<close>

fun acquire :: "mtx \<Rightarrow> (mtx, unit) outcome option" where
  "acquire MtxRaw = Some Undef"
| "acquire MtxFree = Some (Done () MtxHeld)"
| "acquire MtxHeld = None"

fun release :: "mtx \<Rightarrow> (mtx, unit) outcome option" where
  "release MtxHeld = Some (Done () MtxFree)"
| "release m = Some Undef"

definition srv_lock_take :: "'z trfb_server_scheme \<Rightarrow> ('z trfb_server_scheme, unit) outcome option" where
  "srv_lock_take s = map_option (map_outcome (\<lambda>m. s\<lparr>srv_lock := m\<rparr>) id) (acquire (srv_lock s))"

definition srv_lock_give :: "'z trfb_server_scheme \<Rightarrow> ('z trfb_server_scheme, unit) outcome option" where
  "srv_lock_give s = map_option (map_outcome (\<lambda>m. s\<lparr>srv_lock := m\<rparr>) id) (release (srv_lock s))"

text \<open>A function that gets the server by its pointer: a value for a null pointer, or the body.\<close>

definition on_server ::
  "'z trfb_server_scheme ptr \<Rightarrow> 'a \<Rightarrow> ('z trfb_server_scheme \<Rightarrow> ('z trfb_server_scheme, 'a) outcome option) \<Rightarrow>
   ('z trfb_server_scheme ptr, 'a) outcome option" where
  "on_server sp null f =
     (case sp of NULL \<Rightarrow> Some (Done null sp) | Ptr s \<Rightarrow> map_option (map_outcome Ptr id) (f s))"

text \<open>Returning a value after giving the server's lock back.\<close>

definition give_and_return ::
  "'a \<Rightarrow> 'z trfb_server_scheme \<Rightarrow> ('z trfb_server_scheme, 'a) outcome option" where
  "give_and_return a s = andthen (srv_lock_give s) (\<lambda>_ s. Some (Done a s))"

section \<open>Events\<close>

text \<open>\<^verbatim>\<open>trfb_event_move\<close>: what the destination and the source hold afterwards.\<close>

definition trfb_event_move ::
  "trfb_event ptr \<Rightarrow> trfb_event ptr \<Rightarrow> int \<times> trfb_event ptr \<times> trfb_event ptr" where
  "trfb_event_move dst src =
     (case (dst, src) of
        (Ptr _, Ptr e) \<Rightarrow> (0, Ptr e, Ptr EvNone)
      | _ \<Rightarrow> (-1, dst, src))"

definition trfb_event_clear :: "trfb_event ptr \<Rightarrow> heap \<Rightarrow> (trfb_event ptr \<times> heap) option" where
  "trfb_event_clear p h =
     (case p of
        NULL \<Rightarrow> Some (p, h)
      | Ptr e \<Rightarrow> map_option (\<lambda>h. (Ptr EvNone, h))
          (case e of EvCutText n text \<Rightarrow> heap_free text h | _ \<Rightarrow> Some h))"

text \<open>
  Adding and polling: both get the server and the event by pointer and may change both, so the
  value is the result together with the event afterwards. A slot of the ring that does not exist
  would be undefined.
\<close>

definition add_event_body ::
  "trfb_event \<Rightarrow> 'z trfb_server_scheme \<Rightarrow> ('z trfb_server_scheme, int \<times> trfb_event ptr) outcome option"
  where
  "add_event_body ev s =
     andthen (srv_lock_take s) (\<lambda>_ s.
       if TRFB_EVENTS_QUEUE_LEN \<le> srv_event_len s then give_and_return (-1, Ptr ev) s
       else
         let i = (srv_event_cur s + srv_event_len s) mod TRFB_EVENTS_QUEUE_LEN in
         if length (srv_events s) \<le> i then Some Undef
         else
           (case trfb_event_move (Ptr (srv_events s ! i)) (Ptr ev) of
              (r, dst, src) \<Rightarrow>
                if r \<noteq> 0 then give_and_return (-1, src) s
                else give_and_return (0, src)
                  (s\<lparr>srv_events := (srv_events s)[i := deref dst],
                     srv_event_len := srv_event_len s + 1\<rparr>)))"

definition trfb_server_add_event ::
  "'z trfb_server_scheme ptr \<Rightarrow> trfb_event ptr \<Rightarrow>
   ('z trfb_server_scheme ptr, int \<times> trfb_event ptr) outcome option" where
  "trfb_server_add_event sp evp =
     (case evp of
        NULL \<Rightarrow> Some (Done (-1, evp) sp)
      | Ptr ev \<Rightarrow> on_server sp (-1, evp) (add_event_body ev))"

definition poll_event_body ::
  "trfb_event \<Rightarrow> 'z trfb_server_scheme \<Rightarrow> ('z trfb_server_scheme, int \<times> trfb_event ptr) outcome option"
  where
  "poll_event_body ev s =
     andthen (srv_lock_take s) (\<lambda>_ s.
       if srv_event_len s = 0 then give_and_return (0, Ptr ev) s
       else
         let i = srv_event_cur s in
         if length (srv_events s) \<le> i then Some Undef
         else
           (case trfb_event_move (Ptr ev) (Ptr (srv_events s ! i)) of
              (r, dst, src) \<Rightarrow>
                if r \<noteq> 0 then give_and_return (0, dst) s
                else give_and_return (1, dst)
                  (s\<lparr>srv_events := (srv_events s)[i := deref src],
                     srv_event_cur := (srv_event_cur s + 1) mod TRFB_EVENTS_QUEUE_LEN,
                     srv_event_len := srv_event_len s - 1\<rparr>)))"

definition trfb_server_poll_event ::
  "'z trfb_server_scheme ptr \<Rightarrow> trfb_event ptr \<Rightarrow>
   ('z trfb_server_scheme ptr, int \<times> trfb_event ptr) outcome option" where
  "trfb_server_poll_event sp evp =
     (case evp of
        NULL \<Rightarrow> Some (Done (0, evp) sp)
      | Ptr ev \<Rightarrow> on_server sp (0, evp) (poll_event_body ev))"

section \<open>The framebuffer's lock and its access counter\<close>

definition fb_lock_set :: "'z trfb_server_scheme \<Rightarrow> trfb_framebuffer \<Rightarrow> mtx \<Rightarrow> 'z trfb_server_scheme" where
  "fb_lock_set s fb m = s\<lparr>srv_fb := Ptr (fb\<lparr>fb_lock := m\<rparr>)\<rparr>"

definition fb_lock_take :: "'z trfb_server_scheme \<Rightarrow> ('z trfb_server_scheme, unit) outcome option" where
  "fb_lock_take s =
     (case srv_fb s of
        NULL \<Rightarrow> Some Undef
      | Ptr fb \<Rightarrow> map_option (map_outcome (fb_lock_set s fb) id) (acquire (fb_lock fb)))"

definition fb_lock_give :: "'z trfb_server_scheme \<Rightarrow> ('z trfb_server_scheme, unit) outcome option" where
  "fb_lock_give s =
     (case srv_fb s of
        NULL \<Rightarrow> Some Undef
      | Ptr fb \<Rightarrow> map_option (map_outcome (fb_lock_set s fb) id) (release (fb_lock fb)))"

definition lock_fb_body :: "int \<Rightarrow> 'z trfb_server_scheme \<Rightarrow> ('z trfb_server_scheme, int) outcome option" where
  "lock_fb_body w s =
     (if srv_fb s = NULL then Some (Done (-1) s)
      else andthen (fb_lock_take s) (\<lambda>_ s.
        if w \<noteq> 0 then Some (Done 0 (s\<lparr>srv_updated := 0\<rparr>))
        else Some (Done 0 (s\<lparr>srv_updated := srv_updated s + 1\<rparr>))))"

definition unlock_fb_body :: "'z trfb_server_scheme \<Rightarrow> ('z trfb_server_scheme, int) outcome option" where
  "unlock_fb_body s =
     (if srv_fb s = NULL then Some (Done (-1) s)
      else andthen (fb_lock_give s) (\<lambda>_ s. Some (Done 0 s)))"

definition updated_body :: "'z trfb_server_scheme \<Rightarrow> ('z trfb_server_scheme, u32) outcome option" where
  "updated_body s =
     andthen (fb_lock_take s) (\<lambda>_ s.
       let r = srv_updated s in
       andthen (fb_lock_give s) (\<lambda>_ s. Some (Done r s)))"

definition trfb_server_lock_fb ::
  "'z trfb_server_scheme ptr \<Rightarrow> int \<Rightarrow> ('z trfb_server_scheme ptr, int) outcome option" where
  "trfb_server_lock_fb sp w = on_server sp (-1) (lock_fb_body w)"

definition trfb_server_unlock_fb ::
  "'z trfb_server_scheme ptr \<Rightarrow> ('z trfb_server_scheme ptr, int) outcome option" where
  "trfb_server_unlock_fb sp = on_server sp (-1) unlock_fb_body"

definition trfb_server_updated ::
  "'z trfb_server_scheme ptr \<Rightarrow> ('z trfb_server_scheme ptr, u32) outcome option" where
  "trfb_server_updated sp = on_server sp 0 updated_body"

section \<open>The ring buffer as a queue\<close>

definition ring_slot :: "'z trfb_server_scheme \<Rightarrow> nat \<Rightarrow> trfb_event" where
  "ring_slot s i = srv_events s ! ((srv_event_cur s + i) mod TRFB_EVENTS_QUEUE_LEN)"

definition srv_queue :: "'z trfb_server_scheme \<Rightarrow> trfb_event list" where
  "srv_queue s = map (ring_slot s) [0..<srv_event_len s]"

text \<open>
  The lock is free between operations, the counters fit the ring, and a slot outside the queue is
  zero: no event, and with it no text pointer, is held twice.
\<close>

definition events_wf :: "'z trfb_server_scheme \<Rightarrow> bool" where
  "events_wf s \<longleftrightarrow> srv_lock s = MtxFree \<and> length (srv_events s) = TRFB_EVENTS_QUEUE_LEN \<and>
     srv_event_cur s < TRFB_EVENTS_QUEUE_LEN \<and> srv_event_len s \<le> TRFB_EVENTS_QUEUE_LEN \<and>
     (\<forall>i < TRFB_EVENTS_QUEUE_LEN. srv_event_len s \<le> i \<longrightarrow> ring_slot s i = EvNone)"

lemma queue_len_pos [simp]: "0 < TRFB_EVENTS_QUEUE_LEN"
  by (simp add: TRFB_EVENTS_QUEUE_LEN_def)

lemma mod_shift_inj:
  assumes "i < n" and "j < n" and "(c + i) mod n = (c + j) mod (n::nat)"
  shows "i = j"
proof -
  have "x = y" if "x \<le> y" "y < n" "(c + x) mod n = (c + y) mod n" for x y
  proof -
    have "n dvd (c + y) - (c + x)"
      using that by (metis mod_eq_dvd_iff_nat add_le_cancel_left)
    then have "n dvd y - x" by simp
    with that show ?thesis by (metis diff_is_0_eq dvd_imp_le le_antisym leD less_imp_diff_less neq0_conv)
  qed
  with assms show ?thesis by (metis nat_le_linear)
qed

lemma ring_index_inj:
  "i < TRFB_EVENTS_QUEUE_LEN \<Longrightarrow> j < TRFB_EVENTS_QUEUE_LEN \<Longrightarrow>
   (c + i) mod TRFB_EVENTS_QUEUE_LEN = (c + j) mod TRFB_EVENTS_QUEUE_LEN \<longleftrightarrow> i = j"
  using mod_shift_inj by blast

lemma length_srv_queue [simp]: "length (srv_queue s) = srv_event_len s"
  by (simp add: srv_queue_def)

lemma lock_simps [simp]:
  "srv_lock s = MtxFree \<Longrightarrow> srv_lock_take s = Some (Done () (s\<lparr>srv_lock := MtxHeld\<rparr>))"
  "srv_lock s = MtxHeld \<Longrightarrow> give_and_return a s = Some (Done a (s\<lparr>srv_lock := MtxFree\<rparr>))"
  by (simp_all add: srv_lock_take_def srv_lock_give_def give_and_return_def)

lemma add_event_full:
  assumes "events_wf s" and "srv_event_len s = TRFB_EVENTS_QUEUE_LEN"
  shows "add_event_body ev s = Some (Done (-1, Ptr ev) s)"
  using assms by (simp add: add_event_body_def events_wf_def)

lemma add_event_room:
  fixes ev :: trfb_event
  assumes wf: "events_wf s" and room: "srv_event_len s < TRFB_EVENTS_QUEUE_LEN"
  defines "i \<equiv> (srv_event_cur s + srv_event_len s) mod TRFB_EVENTS_QUEUE_LEN"
  defines "s' \<equiv> s\<lparr>srv_events := (srv_events s)[i := ev], srv_event_len := srv_event_len s + 1\<rparr>"
  shows "add_event_body ev s = Some (Done (0, Ptr EvNone) s')"
    and "events_wf s'" and "srv_queue s' = srv_queue s @ [ev]"
proof -
  have i: "i < length (srv_events s)" using wf by (simp add: i_def events_wf_def)
  show "add_event_body ev s = Some (Done (0, Ptr EvNone) s')"
    using wf room i
    by (simp add: add_event_body_def events_wf_def trfb_event_move_def i_def [symmetric] s'_def)
  have slot: "ring_slot s' j = (if j = srv_event_len s then ev else ring_slot s j)"
    if "j < TRFB_EVENTS_QUEUE_LEN" for j
    using that room i ring_index_inj [of "srv_event_len s" j "srv_event_cur s"]
    by (auto simp: ring_slot_def s'_def i_def nth_list_update)
  show "events_wf s'"
    using wf room slot by (auto simp: events_wf_def s'_def)
  show "srv_queue s' = srv_queue s @ [ev]"
    using room slot by (simp add: srv_queue_def s'_def)
qed

lemma poll_event_empty:
  assumes "events_wf s" and "srv_queue s = []"
  shows "poll_event_body ev s = Some (Done (0, Ptr ev) s)"
  using assms by (simp add: poll_event_body_def events_wf_def srv_queue_def)

lemma poll_event_item:
  assumes wf: "events_wf s" and q: "srv_queue s = e # es"
  defines "s' \<equiv> s\<lparr>srv_events := (srv_events s)[srv_event_cur s := EvNone],
      srv_event_cur := (srv_event_cur s + 1) mod TRFB_EVENTS_QUEUE_LEN,
      srv_event_len := srv_event_len s - 1\<rparr>"
  shows "poll_event_body ev s = Some (Done (1, Ptr e) s')"
    and "events_wf s'" and "srv_queue s' = es"
proof -
  have len: "srv_event_len s = Suc (length es)"
    using q by (metis length_Cons length_srv_queue)
  have cur: "srv_event_cur s < TRFB_EVENTS_QUEUE_LEN" "srv_event_cur s < length (srv_events s)"
    using wf by (simp_all add: events_wf_def)
  have e: "srv_events s ! srv_event_cur s = e"
    using q cur len by (simp add: srv_queue_def ring_slot_def upt_rec)
  show "poll_event_body ev s = Some (Done (1, Ptr e) s')"
    using wf cur len e
    by (simp add: poll_event_body_def events_wf_def trfb_event_move_def s'_def Let_def)
  have slot: "ring_slot s' j = (if Suc j = TRFB_EVENTS_QUEUE_LEN then EvNone else ring_slot s (Suc j))"
    if "j < TRFB_EVENTS_QUEUE_LEN" for j
  proof (cases "Suc j = TRFB_EVENTS_QUEUE_LEN")
    case True
    then have "srv_event_cur s + 1 + j = srv_event_cur s + TRFB_EVENTS_QUEUE_LEN" by simp
    then have "((srv_event_cur s + 1) mod TRFB_EVENTS_QUEUE_LEN + j) mod TRFB_EVENTS_QUEUE_LEN = srv_event_cur s"
      using cur(1) by (metis mod_add_left_eq mod_add_self2 mod_less)
    then show ?thesis using True cur by (simp add: ring_slot_def s'_def)
  next
    case False
    have "((srv_event_cur s + 1) mod TRFB_EVENTS_QUEUE_LEN + j) mod TRFB_EVENTS_QUEUE_LEN =
        (srv_event_cur s + Suc j) mod TRFB_EVENTS_QUEUE_LEN"
      by (simp add: mod_add_left_eq)
    moreover have "(srv_event_cur s + Suc j) mod TRFB_EVENTS_QUEUE_LEN \<noteq> srv_event_cur s"
      using ring_index_inj [of "Suc j" 0 "srv_event_cur s"] False that cur(1) by auto
    ultimately show ?thesis using False by (simp add: ring_slot_def s'_def)
  qed
  show "events_wf s'"
    using wf len slot by (auto simp: events_wf_def s'_def)
  have "srv_queue s = map (ring_slot s) (0 # map Suc [0..<length es])"
    by (simp add: srv_queue_def len map_Suc_upt upt_conv_Cons del: upt_Suc)
  with q have "es = map (\<lambda>j. ring_slot s (Suc j)) [0..<length es]"
    by (simp add: comp_def)
  moreover have "srv_queue s' = map (ring_slot s') [0..<length es]"
    by (simp add: srv_queue_def s'_def len)
  moreover have "map (ring_slot s') [0..<length es] = map (\<lambda>j. ring_slot s (Suc j)) [0..<length es]"
    using wf len slot by (intro map_cong) (auto simp: events_wf_def)
  ultimately show "srv_queue s' = es" by simp
qed

section \<open>The contract of a bounded queue\<close>

text \<open>
  Producers and the consumer of events see a queue of limited capacity with the calling
  convention of the C functions: the result is \<open>0\<close> and \<open>-1\<close> for an addition, \<open>1\<close> and \<open>0\<close> for a
  poll, and the event handed over is left empty.
\<close>

locale bounded_queue =
  fixes enq deq :: "'e \<Rightarrow> 's \<Rightarrow> ('s, int \<times> 'e ptr) outcome option"
    and items :: "'s \<Rightarrow> 'e list" and inv :: "'s \<Rightarrow> bool" and cap :: nat and none :: 'e
  assumes bound: "inv s \<Longrightarrow> length (items s) \<le> cap"
    and enq_room: "inv s \<Longrightarrow> length (items s) < cap \<Longrightarrow>
      \<exists>s'. enq e s = Some (Done (0, Ptr none) s') \<and> inv s' \<and> items s' = items s @ [e]"
    and enq_full: "inv s \<Longrightarrow> length (items s) = cap \<Longrightarrow> enq e s = Some (Done (-1, Ptr e) s)"
    and deq_item: "inv s \<Longrightarrow> items s = x # xs \<Longrightarrow>
      \<exists>s'. deq e s = Some (Done (1, Ptr x) s') \<and> inv s' \<and> items s' = xs"
    and deq_empty: "inv s \<Longrightarrow> items s = [] \<Longrightarrow> deq e s = Some (Done (0, Ptr e) s)"

text \<open>
  A sequence of additions and polls, as the threads interleave them: the events accepted, the
  events polled and the state at the end; \<^theory_text>\<open>None\<close> if an operation blocks, goes wrong, or polls
  nothing without saying so.
\<close>

datatype 'e queue_op = Add 'e | Poll

fun queue_run ::
  "('e \<Rightarrow> 's \<Rightarrow> ('s, int \<times> 'e ptr) outcome option) \<Rightarrow> ('e \<Rightarrow> 's \<Rightarrow> ('s, int \<times> 'e ptr) outcome option) \<Rightarrow>
   'e \<Rightarrow> 'e queue_op list \<Rightarrow> 's \<Rightarrow> ('e list \<times> 'e list \<times> 's) option" where
  "queue_run enq deq none [] s = Some ([], [], s)"
| "queue_run enq deq none (Add e # ops) s =
     (case enq e s of
        Some (Done (r, _) s') \<Rightarrow>
          map_option (\<lambda>(acc, out, t). (if r = 0 then e # acc else acc, out, t))
            (queue_run enq deq none ops s')
      | _ \<Rightarrow> None)"
| "queue_run enq deq none (Poll # ops) s =
     (case deq none s of
        Some (Done (r, Ptr e) s') \<Rightarrow>
          map_option (\<lambda>(acc, out, t). (acc, if r = 1 then e # out else out, t))
            (queue_run enq deq none ops s')
      | _ \<Rightarrow> None)"

text \<open>The same run on the abstract queue, which drops an addition at its capacity.\<close>

fun abstract_run :: "nat \<Rightarrow> 'e queue_op list \<Rightarrow> 'e list \<Rightarrow> 'e list \<times> 'e list \<times> 'e list" where
  "abstract_run cap [] q = ([], [], q)"
| "abstract_run cap (Add e # ops) q =
     (if length q < cap
      then (case abstract_run cap ops (q @ [e]) of (acc, out, q') \<Rightarrow> (e # acc, out, q'))
      else abstract_run cap ops q)"
| "abstract_run cap (Poll # ops) q =
     (case q of
        [] \<Rightarrow> abstract_run cap ops q
      | e # es \<Rightarrow> (case abstract_run cap ops es of (acc, out, q') \<Rightarrow> (acc, e # out, q')))"

lemma abstract_run_fifo:
  "abstract_run cap ops q = (acc, out, q') \<Longrightarrow> q @ acc = out @ q'"
  by (induction cap ops q arbitrary: acc out q' rule: abstract_run.induct)
    (auto split: if_splits prod.splits list.splits)

context bounded_queue
begin

lemma run_refines:
  "inv s \<Longrightarrow> \<exists>acc out t. queue_run enq deq none ops s = Some (acc, out, t) \<and> inv t \<and>
     abstract_run cap ops (items s) = (acc, out, items t)"
proof (induction ops arbitrary: s)
  case (Cons op ops)
  show ?case
  proof (cases op)
    case (Add e)
    show ?thesis
    proof (cases "length (items s) < cap")
      case True
      with enq_room [OF Cons.prems, of e] obtain s' where
        "enq e s = Some (Done (0, Ptr none) s')" "inv s'" "items s' = items s @ [e]"
        by blast
      with Cons.IH [of s'] Add True show ?thesis by auto
    next
      case False
      with bound [OF Cons.prems] have "length (items s) = cap" by simp
      with enq_full [OF Cons.prems, of e] Cons.IH [OF Cons.prems] Add show ?thesis by auto
    qed
  next
    case Poll
    show ?thesis
    proof (cases "items s")
      case Nil
      with deq_empty [OF Cons.prems, of none] Cons.IH [OF Cons.prems] Poll show ?thesis by auto
    next
      case (Cons x xs)
      with deq_item [OF Cons.prems, of x xs none] obtain s' where
        "deq none s = Some (Done (1, Ptr x) s')" "inv s'" "items s' = xs"
        by blast
      with Cons.IH [of s'] Cons Poll show ?thesis by auto
    qed
  qed
qed simp

end

interpretation ring: bounded_queue add_event_body poll_event_body srv_queue events_wf
  TRFB_EVENTS_QUEUE_LEN EvNone
proof unfold_locales
  fix s :: "'a trfb_server_scheme" and e
  assume wf: "events_wf s"
  then show "length (srv_queue s) \<le> TRFB_EVENTS_QUEUE_LEN" by (simp add: events_wf_def)
  show "length (srv_queue s) < TRFB_EVENTS_QUEUE_LEN \<Longrightarrow>
      \<exists>s'. add_event_body e s = Some (Done (0, Ptr EvNone) s') \<and> events_wf s' \<and>
        srv_queue s' = srv_queue s @ [e]"
    using add_event_room [OF wf, of e] by auto
  show "length (srv_queue s) = TRFB_EVENTS_QUEUE_LEN \<Longrightarrow> add_event_body e s = Some (Done (- 1, Ptr e) s)"
    using add_event_full [OF wf] by simp
  show "srv_queue s = [] \<Longrightarrow> poll_event_body e s = Some (Done (0, Ptr e) s)"
    using poll_event_empty [OF wf] by blast
  show "srv_queue s = x # xs \<Longrightarrow>
      \<exists>s'. poll_event_body e s = Some (Done (1, Ptr x) s') \<and> events_wf s' \<and> srv_queue s' = xs" for x xs
    using poll_event_item [OF wf] by blast
qed

section \<open>Properties\<close>

definition free_server :: trfb_server where
  "free_server = zero_server\<lparr>srv_lock := MtxFree\<rparr>"

lemma free_server_wf [simp]: "events_wf free_server" "srv_queue free_server = []" "srv_event_len free_server = 0"
  by (simp_all add: free_server_def events_wf_def zero_server_def ring_slot_def srv_queue_def)

text \<open>
  C10. The event ring is a queue of capacity 128: whatever the threads add and poll, in whatever
  order, no operation blocks or goes out of bounds, the answers are those of the abstract bounded
  queue, and the events accepted are the events polled followed by those still queued, none lost,
  repeated or reordered.
\<close>

theorem event_queue_fifo:
  fixes s :: "'z trfb_server_scheme"
  assumes "events_wf s"
  shows "\<exists>acc out t. queue_run add_event_body poll_event_body EvNone ops s = Some (acc, out, t) \<and>
    events_wf t \<and> abstract_run 128 ops (srv_queue s) = (acc, out, srv_queue t) \<and>
    srv_queue s @ acc = out @ srv_queue t"
  using ring.run_refines [OF assms, of ops] abstract_run_fifo
  by (fastforce simp: TRFB_EVENTS_QUEUE_LEN_def)

theorem event_queue_fifo_witness:
  "\<exists>t. queue_run add_event_body poll_event_body EvNone
      [Poll, Add (EvKey 1 65), Add (EvKey 0 65), Poll] free_server =
      Some ([EvKey 1 65, EvKey 0 65], [EvKey 1 65], t) \<and> srv_queue t = [EvKey 0 65]"
  using event_queue_fifo [of free_server "[Poll, Add (EvKey 1 65), Add (EvKey 0 65), Poll]"] by auto

text \<open>
  What the caller's event holds afterwards, and the lock: an accepted event is moved (the
  caller's copy is empty), a refused one stays with the caller and nothing changes, a polled event
  replaces the caller's, and every path gives the lock back; null pointers are refused.
\<close>

theorem event_results:
  fixes s :: "'z trfb_server_scheme"
  assumes wf: "events_wf s"
  shows "(if srv_event_len s < TRFB_EVENTS_QUEUE_LEN
      then \<exists>s'. trfb_server_add_event (Ptr s) (Ptr ev) = Some (Done (0, Ptr EvNone) (Ptr s')) \<and>
        events_wf s' \<and> srv_queue s' = srv_queue s @ [ev]
      else trfb_server_add_event (Ptr s) (Ptr ev) = Some (Done (-1, Ptr ev) (Ptr s))) \<and>
    (case srv_queue s of
       [] \<Rightarrow> trfb_server_poll_event (Ptr s) (Ptr ev) = Some (Done (0, Ptr ev) (Ptr s))
     | e # es \<Rightarrow> \<exists>s'. trfb_server_poll_event (Ptr s) (Ptr ev) = Some (Done (1, Ptr e) (Ptr s')) \<and>
         events_wf s' \<and> srv_queue s' = es) \<and>
    trfb_server_add_event (NULL :: 'z trfb_server_scheme ptr) (Ptr ev) = Some (Done (-1, Ptr ev) NULL) \<and>
    trfb_server_add_event (Ptr s) NULL = Some (Done (-1, NULL) (Ptr s)) \<and>
    trfb_server_poll_event (Ptr s) NULL = Some (Done (0, NULL) (Ptr s))"
proof (intro conjI)
  show "if srv_event_len s < TRFB_EVENTS_QUEUE_LEN
      then \<exists>s'. trfb_server_add_event (Ptr s) (Ptr ev) = Some (Done (0, Ptr EvNone) (Ptr s')) \<and>
        events_wf s' \<and> srv_queue s' = srv_queue s @ [ev]
      else trfb_server_add_event (Ptr s) (Ptr ev) = Some (Done (-1, Ptr ev) (Ptr s))"
    using add_event_room [OF wf, of ev] add_event_full [OF wf, of ev] wf
    by (auto simp: trfb_server_add_event_def on_server_def events_wf_def)
  show "case srv_queue s of
       [] \<Rightarrow> trfb_server_poll_event (Ptr s) (Ptr ev) = Some (Done (0, Ptr ev) (Ptr s))
     | e # es \<Rightarrow> \<exists>s'. trfb_server_poll_event (Ptr s) (Ptr ev) = Some (Done (1, Ptr e) (Ptr s')) \<and>
         events_wf s' \<and> srv_queue s' = es"
    using poll_event_item [OF wf] poll_event_empty [OF wf]
    by (auto simp: trfb_server_poll_event_def on_server_def split: list.split)
qed (simp_all add: trfb_server_add_event_def trfb_server_poll_event_def on_server_def)

theorem event_results_witness:
  "\<exists>s'. trfb_server_add_event (Ptr free_server) (Ptr (EvPointer 1 3 4)) =
      Some (Done (0, Ptr EvNone) (Ptr s')) \<and> srv_queue s' = [EvPointer 1 3 4]"
  using event_results [OF free_server_wf(1), of "EvPointer 1 3 4"]
  by (auto simp: TRFB_EVENTS_QUEUE_LEN_def)

text \<open>Each block of text belongs to one queued event only, and is allocated.\<close>

definition event_texts :: "trfb_event \<Rightarrow> nat list" where
  "event_texts e = (case e of EvCutText n (Ptr a) \<Rightarrow> [a] | _ \<Rightarrow> [])"

definition texts_owned :: "'z trfb_server_scheme \<Rightarrow> bool" where
  "texts_owned s \<longleftrightarrow> distinct (concat (map event_texts (srv_queue s))) \<and>
     (\<forall>a \<in> set (concat (map event_texts (srv_queue s))). heap_blocks (srv_heap s) a \<noteq> None)"

lemma queue_heap [simp]: "srv_queue (s\<lparr>srv_heap := h\<rparr>) = srv_queue s"
  by (simp add: srv_queue_def ring_slot_def [abs_def])

lemma poll_and_clear:
  fixes s :: "'z trfb_server_scheme"
  assumes wf: "events_wf s" and own: "texts_owned s" and q: "srv_queue s = e # es"
  shows "\<exists>s' h. poll_event_body ev s = Some (Done (1, Ptr e) s') \<and>
    trfb_event_clear (Ptr e) (srv_heap s') = Some (Ptr EvNone, h) \<and>
    (\<forall>a. heap_blocks h a = (if a \<in> set (event_texts e) then None else heap_blocks (srv_heap s) a)) \<and>
    events_wf (s'\<lparr>srv_heap := h\<rparr>) \<and> texts_owned (s'\<lparr>srv_heap := h\<rparr>) \<and>
    srv_queue (s'\<lparr>srv_heap := h\<rparr>) = es"
proof -
  obtain s' where poll: "poll_event_body ev s = Some (Done (1, Ptr e) s')" "events_wf s'"
    "srv_queue s' = es" "srv_heap s' = srv_heap s"
    using poll_event_item [OF wf q] by auto
  obtain h where h: "trfb_event_clear (Ptr e) (srv_heap s) = Some (Ptr EvNone, h)"
    "\<forall>a. heap_blocks h a = (if a \<in> set (event_texts e) then None else heap_blocks (srv_heap s) a)"
    using own q
    by (cases e)
      (auto simp: trfb_event_clear_def heap_free_def texts_owned_def event_texts_def split: ptr.splits)
  moreover have "events_wf (s'\<lparr>srv_heap := h\<rparr>)"
    using poll(2) by (simp add: events_wf_def ring_slot_def)
  moreover have "texts_owned (s'\<lparr>srv_heap := h\<rparr>)"
    using own q poll(3) h(2) by (auto simp: texts_owned_def)
  ultimately show ?thesis using poll by auto
qed

text \<open>
  No text is freed twice: the application polls the first event and clears it with
  \<^verbatim>\<open>trfb_event_clear\<close>, which frees that event's text and nothing else; the texts of the events that
  remain are still there and still owned once.
\<close>

theorem event_text_ownership:
  fixes s :: "'z trfb_server_scheme"
  assumes wf: "events_wf s" and own: "texts_owned s" and q: "srv_queue s = e # es"
  shows "\<exists>s' h. poll_event_body ev s = Some (Done (1, Ptr e) s') \<and>
    trfb_event_clear (Ptr e) (srv_heap s') = Some (Ptr EvNone, h) \<and>
    (\<forall>a. heap_blocks h a = (if a \<in> set (event_texts e) then None else heap_blocks (srv_heap s) a)) \<and>
    events_wf (s'\<lparr>srv_heap := h\<rparr>) \<and> texts_owned (s'\<lparr>srv_heap := h\<rparr>) \<and>
    srv_queue (s'\<lparr>srv_heap := h\<rparr>) = es"
  by (rule poll_and_clear [OF wf own q])

text \<open>A heap with one text block at address 5, and a queue of one event that owns it.\<close>

definition text_server :: trfb_server where
  "text_server = free_server\<lparr>srv_events := (replicate TRFB_EVENTS_QUEUE_LEN EvNone)[0 := EvCutText 2 (Ptr 5)],
     srv_event_len := 1, srv_heap := \<lparr>heap_blocks = [5 \<mapsto> [104, 105, 0]], heap_next = 6\<rparr>\<rparr>"

theorem event_text_ownership_witness:
  "\<exists>s' h. poll_event_body EvNone text_server = Some (Done (1, Ptr (EvCutText 2 (Ptr 5))) s') \<and>
     trfb_event_clear (Ptr (EvCutText 2 (Ptr 5))) (srv_heap s') = Some (Ptr EvNone, h) \<and>
     heap_blocks h 5 = None \<and> texts_owned (s'\<lparr>srv_heap := h\<rparr>)"
proof -
  have q: "srv_queue text_server = [EvCutText 2 (Ptr 5)]"
    by (simp add: srv_queue_def ring_slot_def text_server_def free_server_def zero_server_def TRFB_EVENTS_QUEUE_LEN_def)
  have "events_wf text_server"
    by (auto simp: events_wf_def ring_slot_def text_server_def free_server_def zero_server_def Suc_le_eq)
  moreover have "texts_owned text_server"
    unfolding texts_owned_def q by (simp add: event_texts_def text_server_def)
  ultimately show ?thesis
    using event_text_ownership [of text_server "EvCutText 2 (Ptr 5)" "[]" EvNone] q
    by (fastforce simp: event_texts_def)
qed

text \<open>Accesses to the framebuffer one after the other, each under its lock; \<open>w\<close> tells a writer.\<close>

fun fb_accesses :: "int list \<Rightarrow> 'z trfb_server_scheme \<Rightarrow> ('z trfb_server_scheme, unit) outcome option" where
  "fb_accesses [] s = Some (Done () s)"
| "fb_accesses (w # ws) s =
     andthen (lock_fb_body w s) (\<lambda>_ s. andthen (unlock_fb_body s) (\<lambda>_ s. fb_accesses ws s))"

definition reads_since_write :: "int list \<Rightarrow> u32 \<Rightarrow> u32" where
  "reads_since_write ws n =
     (if list_all (\<lambda>w. w = 0) ws then n + of_nat (length ws)
      else of_nat (length (takeWhile (\<lambda>w. w = 0) (rev ws))))"

lemma lock_fb_free:
  "srv_fb s = Ptr fb \<Longrightarrow> fb_lock fb = MtxFree \<Longrightarrow>
   lock_fb_body w s = Some (Done 0 (s\<lparr>srv_fb := Ptr (fb\<lparr>fb_lock := MtxHeld\<rparr>),
     srv_updated := (if w \<noteq> 0 then 0 else srv_updated s + 1)\<rparr>))"
  by (simp add: lock_fb_body_def fb_lock_take_def fb_lock_set_def)

lemma unlock_fb_held:
  "srv_fb s = Ptr fb \<Longrightarrow> fb_lock fb = MtxHeld \<Longrightarrow>
   unlock_fb_body s = Some (Done 0 (s\<lparr>srv_fb := Ptr (fb\<lparr>fb_lock := MtxFree\<rparr>)\<rparr>))"
  by (simp add: unlock_fb_body_def fb_lock_give_def fb_lock_set_def)

lemma fb_access_one:
  assumes "srv_fb s = Ptr fb" and "fb_lock fb = MtxFree"
  shows "andthen (lock_fb_body w s) (\<lambda>_ s. andthen (unlock_fb_body s) f) =
    f 0 (s\<lparr>srv_updated := (if w \<noteq> 0 then 0 else srv_updated s + 1)\<rparr>)"
  using assms by (cases s; cases fb) (simp add: lock_fb_free unlock_fb_held)

text \<open>
  \<^verbatim>\<open>trfb_server_lock_fb\<close> and \<^verbatim>\<open>trfb_server_unlock_fb\<close> in pairs leave the framebuffer as it is with
  its lock free, and \<^verbatim>\<open>updated\<close> counts, modulo $2^{32}$, the read accesses since the last write;
  \<^verbatim>\<open>trfb_server_updated\<close> reads it. A second lock while the first is held waits for ever, and
  unlocking a free lock is undefined.
\<close>

theorem fb_access_counter:
  fixes s :: "'z trfb_server_scheme"
  assumes fb: "srv_fb s = Ptr fb" and free: "fb_lock fb = MtxFree"
  shows "fb_accesses ws s = Some (Done () (s\<lparr>srv_updated := reads_since_write ws (srv_updated s)\<rparr>)) \<and>
    trfb_server_updated (Ptr (s\<lparr>srv_updated := reads_since_write ws (srv_updated s)\<rparr>)) = Some (Done (reads_since_write ws (srv_updated s)) (Ptr (s\<lparr>srv_updated := reads_since_write ws (srv_updated s)\<rparr>))) \<and>
    andthen (lock_fb_body w s) (\<lambda>_. lock_fb_body w') = None \<and>
    unlock_fb_body s = Some Undef"
proof (intro conjI)
  show "fb_accesses ws s = Some (Done () (s\<lparr>srv_updated := reads_since_write ws (srv_updated s)\<rparr>))"
    using fb free unfolding reads_since_write_def
  proof (induction ws arbitrary: s)
    case (Cons v ws)
    have all: "takeWhile (\<lambda>w. w = 0) (rev ws @ [v]) = rev ws @ takeWhile (\<lambda>w. w = 0) [v]"
      if "list_all (\<lambda>w. w = 0) ws"
      using that by (intro takeWhile_append2) (simp add: list_all_iff)
    have some: "takeWhile (\<lambda>w. w = 0) (rev ws @ [v]) = takeWhile (\<lambda>w. w = 0) (rev ws)" if wr: "\<not> list_all (\<lambda>w. w = 0) ws"
    proof -
      obtain x where "x \<in> set (rev ws)" "\<not> x = 0" using wr by (auto simp: list_all_iff)
      then show ?thesis by (rule takeWhile_append1)
    qed
    let ?t = "s\<lparr>srv_updated := (if v \<noteq> 0 then 0 else srv_updated s + 1)\<rparr>"
    have "srv_fb ?t = Ptr fb" using Cons.prems by simp
    from Cons.IH [OF this free] show ?case
      using all some by (auto simp: fb_access_one [OF Cons.prems])
  qed simp
  show "andthen (lock_fb_body w s) (\<lambda>_. lock_fb_body w') = None"
    using fb free by (simp add: lock_fb_free) (simp add: lock_fb_body_def fb_lock_take_def)
  show "unlock_fb_body s = Some Undef"
    using fb free by (simp add: unlock_fb_body_def fb_lock_give_def)
  show "trfb_server_updated (Ptr (s\<lparr>srv_updated := reads_since_write ws (srv_updated s)\<rparr>)) = Some (Done (reads_since_write ws (srv_updated s)) (Ptr (s\<lparr>srv_updated := reads_since_write ws (srv_updated s)\<rparr>)))"
    using fb free by (cases s; cases fb) (simp add: trfb_server_updated_def on_server_def
        updated_body_def fb_lock_take_def fb_lock_give_def fb_lock_set_def)
qed

theorem fb_access_counter_witness:
  "\<exists>t. fb_accesses [0, 1, 0, 0] (free_server\<lparr>srv_fb := Ptr (zero_fb\<lparr>fb_lock := MtxFree\<rparr>)\<rparr>) =
     Some (Done () t) \<and> srv_updated t = 2"
  using fb_access_counter [of "free_server\<lparr>srv_fb := Ptr (zero_fb\<lparr>fb_lock := MtxFree\<rparr>)\<rparr>"
      "zero_fb\<lparr>fb_lock := MtxFree\<rparr>" "[0, 1, 0, 0]" 0 0] by (auto simp: reads_since_write_def)

end
