(* ===== verification/Connection.thy ===== *)
theory Connection
  imports Events Protocol Io
begin

unbundle bit_operations_syntax

text \<open>
  The thread that serves one client, \<^verbatim>\<open>src/src/connection.c\<close>. Its world is its own connection, the
  server it shares with the other threads, and what those do meanwhile: a script of stop requests,
  one entry for each time the connection's lock is taken, and a script of changes of the server,
  one for each time a lock of the server is taken.
\<close>

section \<open>Data\<close>

record 'w trfb_connection =
  con_version :: "trfb_protocol option"
  con_state :: trfb_state
  con_name :: bytes
  con_lock :: mtx
  con_fb :: "trfb_framebuffer ptr"
  con_format :: trfb_format
  con_io :: "'w trfb_io ptr"
  con_next :: "nat ptr"

record 'w thread =
  th_con :: "'w trfb_connection"
  th_srv :: trfb_server
  th_stops :: "bool list"
  th_others :: "(trfb_server \<Rightarrow> trfb_server) list"

type_synonym ('w, 'a) act = "'w thread \<Rightarrow> ('w thread, 'a) outcome option"

definition with_con :: "('w trfb_connection \<Rightarrow> 'w trfb_connection) \<Rightarrow> 'w thread \<Rightarrow> 'w thread" where
  "with_con f th = th\<lparr>th_con := f (th_con th)\<rparr>"

section \<open>Locks, and what other threads do before they are taken\<close>

definition stop_request :: "'w thread \<Rightarrow> 'w thread" where
  "stop_request th =
     (case th_stops th of
        [] \<Rightarrow> th
      | b # bs \<Rightarrow> (if b \<and> con_state (th_con th) = StWORKING then with_con (con_state_update (\<lambda>_. StSTOP)) th else th)
          \<lparr>th_stops := bs\<rparr>)"

definition con_lock_take :: "('w, unit) act" where
  "con_lock_take th =
     (let th = stop_request th in
      map_option (map_outcome (\<lambda>m. with_con (con_lock_update (\<lambda>_. m)) th) id)
        (acquire (con_lock (th_con th))))"

definition con_lock_give :: "('w, unit) act" where
  "con_lock_give th =
     map_option (map_outcome (\<lambda>m. with_con (con_lock_update (\<lambda>_. m)) th) id)
       (release (con_lock (th_con th)))"

definition others_act :: "'w thread \<Rightarrow> 'w thread" where
  "others_act th =
     (case th_others th of [] \<Rightarrow> th | f # fs \<Rightarrow> th\<lparr>th_srv := f (th_srv th), th_others := fs\<rparr>)"

text \<open>A call of a function of the server, and of a function of the connection's I/O object.\<close>

definition on_srv ::
  "(trfb_server ptr \<Rightarrow> (trfb_server ptr, 'a) outcome option) \<Rightarrow> ('w, 'a) act" where
  "on_srv f th = map_option (map_outcome (\<lambda>p. th\<lparr>th_srv := deref p\<rparr>) id) (f (Ptr (th_srv th)))"

definition on_io ::
  "('w trfb_io ptr \<Rightarrow> ('w trfb_io ptr, 'a) outcome option) \<Rightarrow> ('w, 'a) act" where
  "on_io f th = map_option (map_outcome (\<lambda>p. with_con (con_io_update (\<lambda>_. p)) th) id)
     (f (con_io (th_con th)))"

text \<open>The macro \<^verbatim>\<open>EXIT_THREAD(s)\<close>.\<close>

definition EXIT_THREAD :: "trfb_state \<Rightarrow> ('w, 'a) act" where
  "EXIT_THREAD s th =
     andthen (con_lock_take th) (\<lambda>_ th.
     andthen (con_lock_give (with_con (con_state_update (\<lambda>_. s)) th)) (\<lambda>_ th.
       Some (Exit th)))"

definition check_stopped :: "('w, unit) act" where
  "check_stopped th =
     andthen (con_lock_take th) (\<lambda>_ th.
       if con_state (th_con th) = StSTOP then
         andthen (con_lock_give (with_con (con_state_update (\<lambda>_. StSTOPPED)) th)) (\<lambda>_ th.
           Some (Exit th))
       else con_lock_give th)"

section \<open>Reading and writing with the stop flag\<close>

partial_function (option) trfb_connection_read ::
  "int \<Rightarrow> 'w thread \<Rightarrow> ('w thread, int \<times> bytes) outcome option" where
  "trfb_connection_read len th =
     andthen (on_io (\<lambda>io. trfb_io_read io True len 1000) th) (\<lambda>r th.
       if 0 < fst r then Some (Done r th)
       else if fst r < 0 then Some (Done (-1, []) th)
       else andthen (check_stopped th) (\<lambda>_ th. trfb_connection_read len th))"

text \<open>\<open>got\<close> are the first \<^verbatim>\<open>pos\<close> bytes of the caller's buffer.\<close>

partial_function (option) read_all_loop ::
  "int \<Rightarrow> bytes \<Rightarrow> 'w thread \<Rightarrow> ('w thread, bytes) outcome option" where
  "read_all_loop len got th =
     (if int (length got) < len then
        andthen (trfb_connection_read (len - int (length got)) th) (\<lambda>r th.
          if fst r < 0 then EXIT_THREAD StERROR th
          else read_all_loop len (got @ snd r) th)
      else Some (Done got th))"

definition trfb_connection_read_all :: "int \<Rightarrow> ('w, bytes) act" where
  "trfb_connection_read_all len th = read_all_loop len [] th"

partial_function (option) trfb_connection_write ::
  "bytes \<Rightarrow> int \<Rightarrow> 'w thread \<Rightarrow> ('w thread, int) outcome option" where
  "trfb_connection_write buf len th =
     andthen (on_io (\<lambda>io. trfb_io_write io (Ptr buf) len 1000) th) (\<lambda>l th.
       if 0 < l then Some (Done l th)
       else if l < 0 then Some (Done (-1) th)
       else andthen (check_stopped th) (\<lambda>_ th. trfb_connection_write buf len th))"

partial_function (option) trfb_connection_flush ::
  "'w thread \<Rightarrow> ('w thread, unit) outcome option" where
  "trfb_connection_flush th =
     andthen (on_io (\<lambda>io. trfb_io_flush io 1000) th) (\<lambda>r th.
       if r < 0 then EXIT_THREAD StERROR th
       else if r = 0 then Some (Done () th)
       else andthen (check_stopped th) (\<lambda>_ th. trfb_connection_flush th))"

partial_function (option) write_all_loop ::
  "bytes \<Rightarrow> int \<Rightarrow> int \<Rightarrow> 'w thread \<Rightarrow> ('w thread, unit) outcome option" where
  "write_all_loop buf len pos th =
     (if pos < len then
        andthen (trfb_connection_write (drop (nat pos) buf) (len - pos) th) (\<lambda>l th.
          if l < 0 then EXIT_THREAD StERROR th
          else write_all_loop buf len (pos + l) th)
      else Some (Done () th))"

definition trfb_connection_write_all :: "bytes \<Rightarrow> int \<Rightarrow> ('w, unit) act" where
  "trfb_connection_write_all buf len th =
     andthen (write_all_loop buf len 0 th) (\<lambda>_ th. trfb_connection_flush th)"

text \<open>
  Four bytes in network byte order. In the source the first one is shifted into the sign bit of an
  \<^verbatim>\<open>int\<close>, which the C standard leaves undefined when it is 128 or more; GCC documents that it does not
  use that, and the result is the value here.
\<close>

definition be32 :: "u8 \<Rightarrow> u8 \<Rightarrow> u8 \<Rightarrow> u8 \<Rightarrow> u32" where
  "be32 a b c d = push_bit 24 (ucast a) OR push_bit 16 (ucast b) OR push_bit 8 (ucast c) OR ucast d"

definition trfb_connection_read_u16 :: "('w, u16) act" where
  "trfb_connection_read_u16 th =
     andthen (trfb_connection_read_all 2 th) (\<lambda>b th. Some (Done (ucast (be16 (b ! 0) (b ! 1))) th))"

text \<open>\<^verbatim>\<open>trfb_connection_read_u32\<close> is declared to return \<^verbatim>\<open>uint16_t\<close>.\<close>

definition trfb_connection_read_u32 :: "('w, u16) act" where
  "trfb_connection_read_u32 th =
     andthen (trfb_connection_read_all 4 th) (\<lambda>b th.
       Some (Done (ucast (be32 (b ! 0) (b ! 1) (b ! 2) (b ! 3))) th))"

section \<open>Negotiation\<close>

text \<open>The bytes of the ServerInit message; the framebuffer is always announced as 32-bit RGB.\<close>

definition server_init :: "trfb_framebuffer \<Rightarrow> bytes" where
  "server_init fb =
     [be16_hi (fb_width fb), be16_lo (fb_width fb), be16_hi (fb_height fb), be16_lo (fb_height fb),
      32, 24, 0, 1, 0x00, 0xff, 0x00, 0xff, 0x00, 0xff, 16, 8, 0, 0, 0, 0,
      0, 0, 0, 4] @ str_bytes ''TEST''"

text \<open>
  The parts of \<^verbatim>\<open>negotiate\<close> after the version is known: the security types and their result (whether
  the client may go on), and the ClientInit and ServerInit messages.
\<close>

definition negotiate_security :: "trfb_protocol \<Rightarrow> ('w, bool) act" where
  "negotiate_security proto th =
     andthen
       (if proto < trfb_v7
        then andthen (trfb_connection_write_all [0, 0, 0, 1] 4 th) (\<lambda>_ th. Some (Done True th))
        else andthen (trfb_connection_write_all [1, 1] 2 th) (\<lambda>_ th.
             andthen (trfb_connection_read_all 1 th) (\<lambda>buf th. Some (Done (buf ! 0 = 1) th))))
       (\<lambda>security th.
         if security \<and> trfb_v8 \<le> proto
         then andthen (trfb_connection_write_all [0, 0, 0, 0] 4 th) (\<lambda>_ th. Some (Done True th))
         else Some (Done security th))"

definition negotiate_init :: "('w, int) act" where
  "negotiate_init th =
     andthen (trfb_connection_read_all 1 th) (\<lambda>_ th.
       (case srv_fb (th_srv th) of
          NULL \<Rightarrow> Some Undef
        | Ptr fb \<Rightarrow> andthen (trfb_connection_write_all (server_init fb) 28 th) (\<lambda>_ th. Some (Done 0 th))))"

text \<open>
  \<^verbatim>\<open>negotiate\<close> works in one buffer of 256 bytes with indeterminate content at the start; only the
  bytes a step reads or writes are written down.
\<close>

definition negotiate :: "cenv \<Rightarrow> ('w, int) act" where
  "negotiate e th =
     (case trfb_msg_protocol_version_encode trfb_v8 (Ptr (map (junk e) [0..<256])) 256 of
        Some (r, Ptr buf, len) \<Rightarrow>
          if r \<noteq> 0 then Some (Done (-1) th)
          else
            andthen (trfb_connection_write_all buf (int len) th) (\<lambda>_ th.
            andthen (trfb_connection_read_all 12 th) (\<lambda>buf th.
              need (trfb_msg_protocol_version_decode trfb_v8 buf 12) (\<lambda>(r, proto).
                if r \<noteq> 0 then Some (Done (-1) th)
                else
                  andthen (negotiate_security proto (with_con (con_version_update (\<lambda>_. Some proto)) th))
                    (\<lambda>security th. if security then negotiate_init th else Some (Done (-1) th)))))
      | _ \<Rightarrow> Some Undef)"

section \<open>Messages\<close>

fun encodings_loop :: "nat \<Rightarrow> ('w, u16 list) act" where
  "encodings_loop 0 th = Some (Done [] th)"
| "encodings_loop (Suc n) th =
     andthen (trfb_connection_read_u32 th) (\<lambda>enc th.
       andthen (encodings_loop n th) (\<lambda>encs th. Some (Done (enc # encs) th)))"

text \<open>\<^verbatim>\<open>SetEncodings\<close> logs the encodings and forgets them; the model returns them.\<close>

definition SetEncodings :: "('w, u16 list) act" where
  "SetEncodings th =
     andthen (trfb_connection_read_all 3 th) (\<lambda>buf th.
       encodings_loop (unat (be16 (buf ! 1) (buf ! 2))) th)"

text \<open>The format in the bytes of a SetPixelFormat message, the type and three padding bytes not counted.\<close>

definition wire_format :: "bytes \<Rightarrow> trfb_format" where
  "wire_format b =
     \<lparr>fmt_bpp = b ! 0, fmt_depth = b ! 1, fmt_big_endian = b ! 2, fmt_true_color = b ! 3,
      fmt_rmax = ucast (be16 (b ! 4) (b ! 5)), fmt_gmax = ucast (be16 (b ! 6) (b ! 7)),
      fmt_bmax = ucast (be16 (b ! 8) (b ! 9)),
      fmt_rshift = b ! 10, fmt_gshift = b ! 11, fmt_bshift = b ! 12\<rparr>"

text \<open>Taking the server's framebuffer lock, working on the framebuffer, and giving it back.\<close>

definition srv_locked :: "(trfb_framebuffer ptr \<Rightarrow> ('w, 'a) act) \<Rightarrow> ('w, 'a) act" where
  "srv_locked f th =
     andthen (on_srv (\<lambda>s. trfb_server_lock_fb s 0) (others_act th)) (\<lambda>_ th.
     andthen (f (srv_fb (th_srv th)) th) (\<lambda>r th.
     andthen (on_srv trfb_server_unlock_fb th) (\<lambda>_ th.
       Some (Done r th))))"

text \<open>
  \<^verbatim>\<open>SetPixelFormat\<close> releases the framebuffer of the connection, whose lock is the byte copy of a held one
  when \<^verbatim>\<open>UpdateRequest\<close> made it, and gives the width of the server's framebuffer for the height too.
\<close>

definition SetPixelFormat :: "cenv \<Rightarrow> ('w, unit) act" where
  "SetPixelFormat e th =
     andthen (trfb_connection_read_all 19 th) (\<lambda>buf th.
       let th = with_con (con_format_update (\<lambda>_. wire_format (drop 3 buf))) th in
       if con_fb (th_con th) \<noteq> NULL \<and> \<not> fb_free_ok (destroy_held e) (con_fb (th_con th)) then Some Undef
       else
       andthen (srv_locked (\<lambda>sfb th.
           (case sfb of
              NULL \<Rightarrow> Some Undef
            | Ptr fb \<Rightarrow>
                need (trfb_framebuffer_create_of_format e (fb_width fb) (fb_width fb)
                        (Ptr (con_format (th_con th)))) (\<lambda>(p, fmt).
                  Some (Done () (with_con (con_fb_update (\<lambda>_. p)) (with_con
                    (con_format_update (\<lambda>_. deref fmt)) th)))))) th) (\<lambda>_ th.
         if con_fb (th_con th) = NULL then EXIT_THREAD StERROR th else Some (Done () th)))"

definition update_copy :: "cenv \<Rightarrow> ('w, unit) act" where
  "update_copy e th =
     (if con_fb (th_con th) \<noteq> NULL then Some (Done () th)
      else
        andthen (srv_locked (\<lambda>sfb th.
            (case sfb of
               NULL \<Rightarrow> Some Undef
             | Ptr fb \<Rightarrow> need (trfb_framebuffer_copy e fb) (\<lambda>p.
                 Some (Done () (with_con (con_fb_update (\<lambda>_. p)) th))))) th) (\<lambda>_ th.
          if con_fb (th_con th) = NULL then EXIT_THREAD StERROR th else Some (Done () th)))"

definition update_convert :: "cenv \<Rightarrow> ('w, unit) act" where
  "update_convert e th =
     andthen (srv_locked (\<lambda>sfb th.
         need (trfb_framebuffer_convert e (con_fb (th_con th)) sfb) (\<lambda>(r, p).
           Some (Done r (with_con (con_fb_update (\<lambda>_. p)) th)))) th) (\<lambda>r th.
       if r \<noteq> 0 then EXIT_THREAD StERROR th else Some (Done () th))"

text \<open>The header of the one rectangle of an answer.\<close>

definition update_header :: "u32 \<Rightarrow> u32 \<Rightarrow> u32 \<Rightarrow> u32 \<Rightarrow> bytes" where
  "update_header xpos ypos width height =
     [0, 0, 0, 1, be16_hi xpos, be16_lo xpos, be16_hi ypos, be16_lo ypos,
      be16_hi width, be16_lo width, be16_hi height, be16_lo height, 0, 0, 0, 0]"

definition UpdateRequest :: "cenv \<Rightarrow> ('w, unit) act" where
  "UpdateRequest e th =
     andthen (trfb_connection_read_all 9 th) (\<lambda>buf th.
       let xpos = be16 (buf ! 1) (buf ! 2); ypos = be16 (buf ! 3) (buf ! 4);
           width = be16 (buf ! 5) (buf ! 6); height = be16 (buf ! 7) (buf ! 8) in
       andthen (update_copy e th) (\<lambda>_ th.
       andthen (update_convert e th) (\<lambda>_ th.
         (case con_fb (th_con th) of
            NULL \<Rightarrow> Some Undef
          | Ptr fb \<Rightarrow>
              let width = (if fb_width fb < width then fb_width fb else width);
                  height = (if fb_height fb < height then fb_height fb else height) in
              if width < xpos \<or> height < ypos then Some (Done () th)
              else
                need (trfb_framebuffer_endian e (Ptr fb) (fmt_big_endian (con_format (th_con th)) \<noteq> 0))
                  (\<lambda>p.
                    let th = with_con (con_fb_update (\<lambda>_. p)) th; fb = deref p in
                    andthen (trfb_connection_write_all (update_header xpos ypos width height) 16 th) (\<lambda>_ th.
                      trfb_connection_write_all (fb_pixels fb)
                        (int (fb_bytes (fb_width fb) (fb_height fb) (fb_bpp fb))) th))))))"

definition send_event :: "trfb_event \<Rightarrow> ('w, unit) act" where
  "send_event ev th =
     andthen (on_srv (\<lambda>s. trfb_server_add_event s (Ptr ev)) (others_act th)) (\<lambda>_ th. Some (Done () th))"

definition KeyEvent :: "('w, unit) act" where
  "KeyEvent th =
     andthen (trfb_connection_read_all 7 th) (\<lambda>buf th.
       send_event (EvKey (buf ! 0) (be32 (buf ! 3) (buf ! 4) (buf ! 5) (buf ! 6))) th)"

definition PointerEvent :: "('w, unit) act" where
  "PointerEvent th =
     andthen (trfb_connection_read_all 5 th) (\<lambda>buf th.
       send_event (EvPointer (buf ! 0) (be16 (buf ! 1) (buf ! 2)) (be16 (buf ! 3) (buf ! 4))) th)"

text \<open>
  \<^verbatim>\<open>ClientCutText\<close>: the length is an \<^verbatim>\<open>int\<close> that is widened to \<^verbatim>\<open>size_t\<close> with its sign, one more byte
  than that is allocated, and the byte after the text is left as it is.
\<close>

definition ClientCutText :: "cenv \<Rightarrow> ('w, unit) act" where
  "ClientCutText e th =
     andthen (trfb_connection_read_all 7 th) (\<lambda>buf th.
       let len = scast (be32 (buf ! 3) (buf ! 4) (buf ! 5) (buf ! 6)) :: u64;
           (p, h) = heap_alloc e (unat (len + 1)) (srv_heap (th_srv th));
           th = th\<lparr>th_srv := (th_srv th)\<lparr>srv_heap := h\<rparr>\<rparr> in
       (case p of
          NULL \<Rightarrow> EXIT_THREAD StERROR th
        | Ptr a \<Rightarrow>
            andthen (trfb_connection_read_all (sint len) th) (\<lambda>text th.
              need (Option.bind (heap_blocks (srv_heap (th_srv th)) a) (\<lambda>mem. blit mem 0 text)) (\<lambda>mem.
                let h = srv_heap (th_srv th);
                    th = th\<lparr>th_srv := (th_srv th)\<lparr>srv_heap :=
                      h\<lparr>heap_blocks := (heap_blocks h)(a \<mapsto> mem)\<rparr>\<rparr>\<rparr> in
                send_event (EvCutText len p) th))))"

section \<open>The thread\<close>

definition ignore_result :: "('w, 'a) act \<Rightarrow> ('w, unit) act" where
  "ignore_result f th = andthen (f th) (\<lambda>_ th. Some (Done () th))"

definition msg_types :: "cenv \<Rightarrow> (u8 \<times> ('w, unit) act) list" where
  "msg_types e =
     [(0, SetPixelFormat e), (2, ignore_result SetEncodings), (3, UpdateRequest e),
      (4, KeyEvent), (5, PointerEvent), (6, ClientCutText e)]"

partial_function (option) connection_loop :: "cenv \<Rightarrow> 'w thread \<Rightarrow> ('w thread, unit) outcome option" where
  "connection_loop e th =
     andthen (check_stopped th) (\<lambda>_ th.
     andthen (trfb_connection_read 1 th) (\<lambda>r th.
       if fst r < 0 then EXIT_THREAD StERROR th
       else if fst r = 1 then
         andthen (case map_of (msg_types e) (snd r ! 0) of
             None \<Rightarrow> EXIT_THREAD StERROR th
           | Some process \<Rightarrow> process th) (\<lambda>_ th. connection_loop e th)
       else connection_loop e th))"

definition connection :: "cenv \<Rightarrow> ('w, unit) act" where
  "connection e th =
     andthen (con_lock_take th) (\<lambda>_ th.
     andthen (con_lock_give (with_con (con_state_update (\<lambda>_. StWORKING)) th)) (\<lambda>_ th.
     andthen (negotiate e th) (\<lambda>r th.
       if r \<noteq> 0 then EXIT_THREAD StERROR th else connection_loop e th)))"

end
