(* ===== verification/Connection_Wire.thy ===== *)
theory Connection_Wire
  imports Connection "HOL-Library.Sublist"
begin

text \<open>
  The language that a client speaks, as a specification of its own: the handshake, the messages with the
  events they stand for, and the division of a byte stream into messages, which is unique.
\<close>

section \<open>The handshake\<close>

text \<open>What a client says after its version, and what it is told, for version \<open>v\<close>.\<close>

definition handshake_in :: "trfb_protocol \<Rightarrow> u8 \<Rightarrow> bytes" where
  "handshake_in v client_init = (if v < trfb_v7 then [] else [1]) @ [client_init]"

definition handshake_out :: "trfb_protocol \<Rightarrow> trfb_framebuffer \<Rightarrow> bytes" where
  "handshake_out v fb =
     (if v < trfb_v7 then [0, 0, 0, 1] else [1, 1]) @
     (if trfb_v8 \<le> v then [0, 0, 0, 0] else []) @ server_init fb"

section \<open>Lengths of cut texts\<close>

text \<open>Four bytes of a message that make a length: an \<^verbatim>\<open>int\<close> that has become a \<^verbatim>\<open>size_t\<close>.\<close>

definition cut_length :: "bytes \<Rightarrow> u64" where
  "cut_length b = scast (be32 (b ! 3) (b ! 4) (b ! 5) (b ! 6))"

lemma sint_scast_u32: "sint (scast (w :: u32) :: u64) = sint w"
  by (rule sint_up_scast) (simp add: is_up)

lemma cut_length_small:
  assumes "0 \<le> sint (cut_length b)"
  shows "nat (sint (cut_length b)) < unat (cut_length b + 1)"
    and "unat (cut_length b) = nat (sint (cut_length b))"
proof -
  have s: "sint (cut_length b) = sint (be32 (b ! 3) (b ! 4) (b ! 5) (b ! 6))"
    by (simp add: cut_length_def sint_scast_u32)
  have "sint (be32 (b ! 3) (b ! 4) (b ! 5) (b ! 6)) < 2 ^ (32 - 1)"
    using sint_lt [of "be32 (b ! 3) (b ! 4) (b ! 5) (b ! 6)"] by simp
  with s have lt: "sint (cut_length b) < 2 ^ 31" by simp
  have "uint (cut_length b) = take_bit 64 (sint (cut_length b))"
    by (simp add: uint_sint)
  also have "\<dots> = sint (cut_length b)"
    using assms lt by (intro take_bit_int_eq_self) auto
  finally show u: "unat (cut_length b) = nat (sint (cut_length b))"
    by (metis unat_eq_nat_uint)
  then have "unat (cut_length b) < 2 ^ 31" using lt assms by simp
  then have "unat (cut_length b + 1) = unat (cut_length b) + 1"
    by (simp add: unat_word_ariths)
  with u show "nat (sint (cut_length b)) < unat (cut_length b + 1)" by simp
qed

section \<open>The messages in a stream\<close>

text \<open>
  \<open>wire ty b evs\<close>: \<open>b\<close> is what follows the type \<open>ty\<close> in a message of a client, and \<open>evs\<close> are the events it
  stands for. \<open>client_stream s evs r\<close>: the stream \<open>s\<close> is a row of messages, which stand for \<open>evs\<close>, and the
  rest \<open>r\<close>.
\<close>

inductive wire :: "u8 \<Rightarrow> bytes \<Rightarrow> trfb_event list \<Rightarrow> bool" where
  pixel_format: "length b = 19 \<Longrightarrow> wire 0 b []"
| encodings: "length b = 3 \<Longrightarrow> length c = 4 * unat (be16 (b ! 1) (b ! 2)) \<Longrightarrow> wire 2 (b @ c) []"
| update_request: "length b = 9 \<Longrightarrow> wire 3 b []"
| key: "length b = 7 \<Longrightarrow> wire 4 b [EvKey (b ! 0) (be32 (b ! 3) (b ! 4) (b ! 5) (b ! 6))]"
| pointer: "length b = 5 \<Longrightarrow> wire 5 b [EvPointer (b ! 0) (be16 (b ! 1) (b ! 2)) (be16 (b ! 3) (b ! 4))]"
| cut_text: "length b = 7 \<Longrightarrow> length msg = nat (sint (cut_length b)) \<Longrightarrow>
    wire 6 (b @ msg) [EvCutText (cut_length b) (Ptr a)]"

inductive client_stream :: "bytes \<Rightarrow> trfb_event list \<Rightarrow> bytes \<Rightarrow> bool" where
  none: "client_stream s [] s"
| message: "wire ty b evs \<Longrightarrow> client_stream s evs' r \<Longrightarrow> client_stream (ty # b @ s) (evs @ evs') r"

text \<open>The events of a stream but for the addresses of the texts.\<close>

fun plain :: "trfb_event \<Rightarrow> trfb_event" where
  "plain (EvCutText n p) = EvCutText n NULL"
| "plain ev = ev"

inductive_simps wire_simps:
  "wire 0 b evs" "wire 2 b evs" "wire 3 b evs" "wire 4 b evs" "wire 5 b evs" "wire 6 b evs"

inductive_cases client_streamE: "client_stream s evs r"

lemma wire_head:
  assumes "wire ty b evs" "wire ty b' evs'" "b @ s = b' @ s'"
  shows "b = b' \<and> map plain evs = map plain evs'"
  using assms(1)
proof cases
  case (encodings h c)
  then have "wire 2 b' evs'" using assms(2) by simp
  then obtain h' c' where h': "b' = h' @ c'" "length h' = 3" "length c' = 4 * unat (be16 (h' ! 1) (h' ! 2))" "evs' = []"
    unfolding wire_simps by (elim exE conjE) (rule that, simp_all)
  with encodings assms(3) have "h @ c @ s = h' @ c' @ s'" by simp
  moreover have "length h = length h'" using encodings h' by simp
  ultimately have "h = h'" by simp
  with encodings h' assms(3) show ?thesis by simp
next
  case (cut_text h msg a)
  then obtain h' msg' a' where h': "b' = h' @ msg'" "length h' = 7" "length msg' = nat (sint (cut_length h'))"
      "evs' = [EvCutText (cut_length h') (Ptr a')]"
    using assms(2) by (auto simp: wire_simps)
  with cut_text assms(3) have "h @ msg @ s = h' @ msg' @ s'" by simp
  moreover have "length h = length h'" using cut_text h' by simp
  ultimately have "h = h'" by simp
  with cut_text h' assms(3) show ?thesis by simp
qed (use assms in \<open>auto simp: wire_simps\<close>)

lemma client_stream_unique:
  "client_stream s evs r \<Longrightarrow> client_stream s evs' r' \<Longrightarrow>
   prefix (map plain evs) (map plain evs') \<or> prefix (map plain evs') (map plain evs)"
proof (induction arbitrary: evs' rule: client_stream.induct)
  case (message ty b evs s evs1 r)
  from message.prems consider "evs' = []"
    | b2 evs2 evs3 s2 where "wire ty b2 evs2" "b @ s = b2 @ s2" "evs' = evs2 @ evs3" "client_stream s2 evs3 r'"
    by (auto elim: client_streamE)
  then show ?case
  proof cases
    case 2
    with wire_head [OF message.hyps(1) 2(1,2)] message.IH [of evs3] show ?thesis by auto
  qed simp
qed simp

text \<open>
  A message of which only the part \<open>b\<close> was taken in: no message of its type is a part of \<open>b\<close>, unless it is
  all of \<open>b\<close> and has no event or is the head of a cut text.
\<close>

definition cut_short :: "u8 \<Rightarrow> bytes \<Rightarrow> bool" where
  "cut_short ty b \<longleftrightarrow> (\<forall>b' c evs. b = b' @ c \<longrightarrow> wire ty b' evs \<longrightarrow> c = [] \<and> (evs = [] \<or> ty = 6 \<and> length b = 7))"

lemma cut_short_fixed:
  "length b < 7 \<Longrightarrow> cut_short 4 b" "length b < 5 \<Longrightarrow> cut_short 5 b"
  "length b \<le> 9 \<Longrightarrow> cut_short 3 b" "length b \<le> 19 \<Longrightarrow> cut_short 0 b"
  by (auto simp: cut_short_def wire_simps)

lemma cut_short_other: "ty \<notin> {0, 2, 3, 4, 5, 6} \<Longrightarrow> cut_short ty b"
  by (auto simp: cut_short_def elim: wire.cases)

lemma cut_short_head: "length b < 3 \<Longrightarrow> cut_short 2 b" "length b \<le> 7 \<Longrightarrow> cut_short 6 b"
  by (auto simp: cut_short_def wire_simps)

lemma cut_short_encodings:
  assumes "length h = 3" "length c < 4 * unat (be16 (h ! 1) (h ! 2))"
  shows "cut_short 2 (h @ c)"
  unfolding cut_short_def
proof (intro allI impI)
  fix b d evs assume b: "h @ c = b @ d" "wire 2 b evs"
  then obtain h' c' where h': "b = h' @ c'" "length h' = 3" "length c' = 4 * unat (be16 (h' ! 1) (h' ! 2))"
    unfolding wire_simps by (elim exE conjE) (rule that, simp_all)
  with b(1) assms(1) have "h = h'" "c = c' @ d" by simp_all
  with h' assms(2) show "d = [] \<and> (evs = [] \<or> 2 = (6 :: u8) \<and> length (h @ c) = 7)" by simp
qed

lemma cut_short_text:
  assumes "length h = 7" "length c < nat (sint (cut_length h))"
  shows "cut_short 6 (h @ c)"
  unfolding cut_short_def
proof (intro allI impI)
  fix b d evs assume b: "h @ c = b @ d" "wire 6 b evs"
  then obtain h' c' where h': "b = h' @ c'" "length h' = 7" "length c' = nat (sint (cut_length h'))"
    by (auto simp: wire_simps)
  with b(1) assms(1) have "h = h'" "c = c' @ d" by simp_all
  with h' assms(2) show "d = [] \<and> (evs = [] \<or> 6 = (6 :: u8) \<and> length (h @ c) = 7)" by simp
qed

text \<open>What a thread has taken in after its last whole message: nothing, or a message cut short.\<close>

definition begun :: "bytes \<Rightarrow> bool" where
  "begun s \<longleftrightarrow> s = [] \<or> (\<exists>ty b. s = ty # b \<and> cut_short ty b)"

section \<open>Clients that ask for no shift of 32 or more\<close>

text \<open>The shifts in a SetPixelFormat message at the start of \<open>bs\<close> are less than 32.\<close>

definition shifts_fine :: "bytes \<Rightarrow> bool" where
  "shifts_fine bs \<longleftrightarrow> (19 \<le> length bs \<longrightarrow> bs ! 13 < 32 \<and> bs ! 14 < 32 \<and> bs ! 15 < 32)"

text \<open>
  \<open>polite_row\<close>: in the division of the stream into messages, every SetPixelFormat message asks for shifts
  of less than 32. \<open>polite\<close>: this holds of what follows the handshake.
\<close>

definition polite_row :: "bytes \<Rightarrow> bool" where
  "polite_row s \<longleftrightarrow> (\<forall>evs r. client_stream s evs (0 # r) \<longrightarrow> shifts_fine r)"

definition polite :: "bytes \<Rightarrow> bool" where
  "polite s \<longleftrightarrow> (\<forall>msg ci r. length msg = 12 \<longrightarrow> s = (msg @ handshake_in (client_version msg) ci) @ r \<longrightarrow>
     polite_row r)"

lemma polite_head: "polite_row (0 # r) \<Longrightarrow> shifts_fine r"
  using client_stream.none [of "0 # r"] by (auto simp: polite_row_def)

lemma polite_next: "polite_row (ty # b @ s) \<Longrightarrow> wire ty b evs \<Longrightarrow> polite_row s"
  using client_stream.message unfolding polite_row_def by blast

lemma polite_start:
  "polite ((msg @ handshake_in (client_version msg) ci) @ r) \<Longrightarrow> length msg = 12 \<Longrightarrow> polite_row r"
  unfolding polite_def by blast

lemma client_stream_length: "client_stream s evs r \<Longrightarrow> length r \<le> length s"
  by (induction rule: client_stream.induct) auto

lemma polite_short: "length s \<le> 32 \<Longrightarrow> polite s"
  by (auto simp: polite_def polite_row_def shifts_fine_def handshake_in_def dest!: client_stream_length)

end
