(* ===== verification/Connection_Steps.thy ===== *)
theory Connection_Steps
  imports Connection_Wire
begin

text \<open>
  What the functions of \<^verbatim>\<open>Connection\<close> do over any transport that keeps the contract of \<^verbatim>\<open>Io\<close>: from a
  well-formed thread none of them is undefined, each exchanges exactly the bytes its message has,
  and a thread that ends has said so in its state with its lock free.
\<close>

section \<open>Well-formed threads\<close>

text \<open>
  A framebuffer within the sizes for which no 32-bit byte count wraps, whatever the depth and also
  for the square that \<open>SetPixelFormat\<close> creates.
\<close>

definition fb_small :: "trfb_framebuffer \<Rightarrow> bool" where
  "fb_small fb \<longleftrightarrow> fb_wf fb \<and> 0 < fb_width fb \<and> fb_width fb \<le> 0x7fff \<and>
     0 < fb_height fb \<and> fb_height fb \<le> 0x7fff"

definition srv_ok :: "'z trfb_server_scheme \<Rightarrow> bool" where
  "srv_ok s \<longleftrightarrow> events_wf s \<and> (\<exists>fb. srv_fb s = Ptr fb \<and> fb_small fb \<and> fb_lock fb = MtxFree)"

text \<open>
  \<open>con_ok\<close>: what holds between the steps of the thread. The other threads keep the server well
  formed.
\<close>

definition con_ok :: "'w read_fn \<Rightarrow> 'w write_fn \<Rightarrow> 'w thread \<Rightarrow> bool" where
  "con_ok rd wr th \<longleftrightarrow>
     (\<exists>io. con_io (th_con th) = Ptr io \<and> io_wf rd wr io) \<and> con_lock (th_con th) = MtxFree \<and>
     srv_ok (th_srv th) \<and> (\<forall>f \<in> set (th_others th). \<forall>s. srv_ok s \<longrightarrow> srv_ok (f s)) \<and>
     (\<forall>fb. con_fb (th_con th) = Ptr fb \<longrightarrow> fb_small fb \<and> fb_lock fb \<noteq> MtxRaw)"

definition th_io :: "'w thread \<Rightarrow> 'w trfb_io" where
  "th_io th = deref (con_io (th_con th))"

text \<open>A thread that has ended has said so in its state and holds no lock.\<close>

definition ended :: "'w thread \<Rightarrow> bool" where
  "ended th \<longleftrightarrow> con_state (th_con th) \<in> {StERROR, StSTOPPED} \<and> con_lock (th_con th) = MtxFree \<and>
     srv_ok (th_srv th)"

text \<open>What it has taken from its client since the state \<open>th\<close> satisfies \<open>P\<close>.\<close>

definition ended_after :: "('w \<Rightarrow> bytes) \<Rightarrow> (bytes \<Rightarrow> bool) \<Rightarrow> 'w thread \<Rightarrow> 'w thread \<Rightarrow> bool" where
  "ended_after inp P th t \<longleftrightarrow> ended t \<and>
     (\<exists>b. P b \<and> io_pending inp (th_io th) = b @ io_pending inp (th_io t))"

lemma ended_after_ended: "ended_after inp P th t \<Longrightarrow> ended t"
  by (simp add: ended_after_def)

lemma ended_after_mono:
  "ended_after inp P th t \<Longrightarrow> (\<And>b. P b \<Longrightarrow> P' b) \<Longrightarrow> ended_after inp P' th t"
  by (auto simp: ended_after_def)

lemma safe_ended: "safe Q (ended_after inp P th) m \<Longrightarrow> safe Q ended m"
  by (erule safe_mono) (auto dest: ended_after_ended)

text \<open>Nothing has changed but the I/O object and the stop requests still to come.\<close>

definition only_io :: "'w thread \<Rightarrow> 'w thread \<Rightarrow> bool" where
  "only_io th th' \<longleftrightarrow> th_srv th' = th_srv th \<and> th_others th' = th_others th \<and>
     con_fb (th_con th') = con_fb (th_con th) \<and> con_format (th_con th') = con_format (th_con th) \<and>
     con_version (th_con th') = con_version (th_con th) \<and>
     con_state (th_con th') = con_state (th_con th) \<and> con_lock (th_con th') = con_lock (th_con th) \<and>
     con_name (th_con th') = con_name (th_con th) \<and> con_next (th_con th') = con_next (th_con th)"

lemma only_io_trans: "only_io a b \<Longrightarrow> only_io b c \<Longrightarrow> only_io a c"
  by (simp add: only_io_def)

lemma only_io_refl [simp]: "only_io th th"
  by (simp add: only_io_def)

lemma only_io_set [simp]: "only_io th (with_con (con_io_update (\<lambda>_. p)) th)"
  by (simp add: only_io_def with_con_def)

lemma con_ok_io:
  "con_ok rd wr th \<Longrightarrow> con_io (th_con th) = Ptr (th_io th) \<and> io_wf rd wr (th_io th)"
  by (auto simp: con_ok_def th_io_def)

lemma con_ok_set_io:
  "con_ok rd wr th \<Longrightarrow> io_wf rd wr io \<Longrightarrow> con_ok rd wr (with_con (con_io_update (\<lambda>_. Ptr io)) th)"
  by (simp add: con_ok_def with_con_def)

lemma con_ok_ended: "con_ok rd wr th \<Longrightarrow> con_state (th_con th) \<in> {StERROR, StSTOPPED} \<Longrightarrow> ended th"
  by (simp add: con_ok_def ended_def)

lemma th_io_set [simp]: "th_io (with_con (con_io_update (\<lambda>_. Ptr io)) th) = io"
  by (simp add: th_io_def with_con_def)

section \<open>Ending and the stop flag\<close>

lemma EXIT_THREAD_safe:
  assumes "con_ok rd wr th" and "s \<in> {StERROR, StSTOPPED}"
    and "\<And>t. ended t \<Longrightarrow> th_io t = th_io th \<Longrightarrow> E t"
  shows "safe Q E (EXIT_THREAD s th)"
proof -
  have "safe Q (\<lambda>t. ended t \<and> th_io t = th_io th) (EXIT_THREAD s th)"
    using assms(1,2)
    by (auto simp: EXIT_THREAD_def con_lock_take_def con_lock_give_def stop_request_def with_con_def
        con_ok_def ended_def th_io_def Let_def split: list.split)
  then show ?thesis by (rule safe_mono) (use assms(3) in auto)
qed

lemma check_stopped_eq:
  assumes "con_lock (th_con th) = MtxFree"
  defines "t \<equiv> stop_request th"
  shows "check_stopped th =
    Some (if con_state (th_con t) = StSTOP
      then Exit (with_con (con_state_update (\<lambda>_. StSTOPPED)) t) else Done () t)"
proof -
  have lock: "con_lock (th_con t) = MtxFree"
    using assms(1) by (auto simp: t_def stop_request_def with_con_def split: list.split)
  then show ?thesis
    by (cases t; cases "th_con t")
      (simp add: check_stopped_def con_lock_take_def con_lock_give_def t_def [symmetric] with_con_def)
qed

lemma check_stopped_safe:
  assumes "con_ok rd wr th"
  shows "safe (\<lambda>_ th'. con_ok rd wr th' \<and> only_io th th' \<and> th_io th' = th_io th)
    (\<lambda>t. ended t \<and> th_io t = th_io th) (check_stopped th)"
proof -
  have "con_lock (th_con th) = MtxFree" using assms by (simp add: con_ok_def)
  moreover have "con_ok rd wr (stop_request th)" "th_io (stop_request th) = th_io th"
    using assms by (auto simp: stop_request_def with_con_def con_ok_def th_io_def split: list.split)
  moreover have "only_io th (stop_request th)" if "con_state (th_con (stop_request th)) \<noteq> StSTOP"
    using that by (auto simp: stop_request_def with_con_def only_io_def split: list.split list.split_asm)
  ultimately show ?thesis
    by (auto simp: check_stopped_eq ended_def con_ok_def with_con_def th_io_def)
qed

lemma safe_on_io:
  "safe Q E (on_io f th) = safe (\<lambda>a p. Q a (with_con (con_io_update (\<lambda>_. p)) th))
     (\<lambda>p. E (with_con (con_io_update (\<lambda>_. p)) th)) (f (con_io (th_con th)))"
  by (simp add: on_io_def safe_map_outcome)

section \<open>Streams of a thread\<close>

text \<open>
  \<open>talks th ins outs th'\<close>: between the two states the thread has taken exactly \<open>ins\<close> from its
  client, and, while the transport takes all it is given, exactly \<open>outs\<close> has joined the stream
  that goes to the client.
\<close>

definition talks ::
  "('w \<Rightarrow> bytes) \<Rightarrow> ('w \<Rightarrow> bytes) \<Rightarrow> ('w \<Rightarrow> bool) \<Rightarrow> 'w thread \<Rightarrow> bytes \<Rightarrow> bytes \<Rightarrow> 'w thread \<Rightarrow> bool" where
  "talks inp outp full th ins outs th' \<longleftrightarrow>
     io_pending inp (th_io th) = ins @ io_pending inp (th_io th') \<and>
     (full (io_ctx (th_io th)) \<longrightarrow> full (io_ctx (th_io th')) \<and>
       io_sent outp (th_io th') = io_sent outp (th_io th) @ outs)"

lemma talks_trans:
  "talks inp outp full a i q b \<Longrightarrow> talks inp outp full b i' q' c \<Longrightarrow>
   talks inp outp full a (i @ i') (q @ q') c"
  by (simp add: talks_def)

lemma talks_none: "th_io th' = th_io th \<Longrightarrow> talks inp outp full th [] [] th'"
  by (simp add: talks_def)

lemma talks_cong:
  "talks inp outp full th i q th' \<Longrightarrow> th_io t = th_io th \<Longrightarrow> th_io t' = th_io th' \<Longrightarrow>
   talks inp outp full t i q t'"
  by (simp add: talks_def)

lemma ended_after_step:
  "talks inp outp full th i q t \<Longrightarrow> ended_after inp P t u \<Longrightarrow> (\<And>b. P b \<Longrightarrow> P' (i @ b)) \<Longrightarrow>
   ended_after inp P' th u"
  unfolding talks_def ended_after_def by fastforce

lemma talks_ended:
  "talks inp outp full th i q t \<Longrightarrow> ended u \<Longrightarrow> th_io u = th_io t \<Longrightarrow> P i \<Longrightarrow> ended_after inp P th u"
  by (auto simp: talks_def ended_after_def)

lemma talks_sent_spec:
  "sent_spec inp outp full (th_io th) r bs io' \<Longrightarrow> 0 \<le> r \<Longrightarrow>
   talks inp outp full th [] bs (with_con (con_io_update (\<lambda>_. Ptr io')) th)"
  using sent_spec_pending [of inp outp full "th_io th" r bs io']
  by (simp add: talks_def sent_spec_def)

text \<open>A step that only uses the I/O object, and the exchange it makes.\<close>

definition io_step ::
  "'w read_fn \<Rightarrow> 'w write_fn \<Rightarrow> ('w \<Rightarrow> bytes) \<Rightarrow> ('w \<Rightarrow> bytes) \<Rightarrow> ('w \<Rightarrow> bool) \<Rightarrow>
   'w thread \<Rightarrow> bytes \<Rightarrow> bytes \<Rightarrow> 'w thread \<Rightarrow> bool" where
  "io_step rd wr inp outp full th ins outs th' \<longleftrightarrow>
     con_ok rd wr th' \<and> only_io th th' \<and> talks inp outp full th ins outs th'"

lemma io_step_trans:
  "io_step rd wr inp outp full a i q b \<Longrightarrow> io_step rd wr inp outp full b i' q' c \<Longrightarrow>
   io_step rd wr inp outp full a (i @ i') (q @ q') c"
  by (auto simp: io_step_def elim: only_io_trans talks_trans)

text \<open>The thread has ended, and taken nothing more from its client.\<close>

abbreviation quits :: "('w \<Rightarrow> bytes) \<Rightarrow> 'w thread \<Rightarrow> 'w thread \<Rightarrow> bool" where
  "quits inp \<equiv> ended_after inp (\<lambda>b. b = [])"

lemma io_step_check:
  "con_ok rd wr th \<Longrightarrow>
   safe (\<lambda>_ th'. io_step rd wr inp outp full th [] [] th') (quits inp th) (check_stopped th)"
  by (rule safe_mono [OF check_stopped_safe]) (auto simp: io_step_def talks_none ended_after_def)

lemma io_step_quit:
  "io_step rd wr inp outp full th [] q t \<Longrightarrow> quits inp t u \<Longrightarrow> quits inp th u"
  by (auto simp: io_step_def elim: ended_after_step)

context full_transport
begin

abbreviation io_stepL :: "'w thread \<Rightarrow> bytes \<Rightarrow> bytes \<Rightarrow> 'w thread \<Rightarrow> bool" where
  "io_stepL \<equiv> io_step rd wr inp outp full"

lemma check_andthen:
  assumes t: "io_stepL th [] [] t" and f: "\<And>u. io_stepL th [] [] u \<Longrightarrow> safe Q (quits inp th) (f () u)"
  shows "safe Q (quits inp th) (andthen (check_stopped t) f)"
proof (rule safe_andthen)
  have "con_ok rd wr t" using t by (simp add: io_step_def)
  from io_step_check [OF this] show "safe (\<lambda>_ u. io_stepL t [] [] u) (quits inp th) (check_stopped t)"
    by (rule safe_mono) (use io_step_quit [OF t] in auto)
  show "safe Q (quits inp th) (f x u)" if "io_stepL t [] [] u" for x u
    using f io_step_trans [OF t that] by simp
qed

lemma take_ctx: "io_take io n = Some (Done r io') \<Longrightarrow> io_ctx io' = io_ctx io"
  by (auto simp: io_take_def need_def Let_def split: option.splits if_splits)

lemma read_full:
  assumes "io_wf rd wr io" and "full (io_ctx io)" and "io_read_body True len t io = Some (Done r io')"
  shows "full (io_ctx io')"
  using assms
  by (auto simp: io_read_body_def io_wf_def need_def full_rd_inv dest!: take_ctx
      split: option.splits xfer.splits prod.splits if_splits)

lemma read_talks:
  assumes ok: "con_ok rd wr th" and len: "0 < len"
  shows "safe (\<lambda>r th'. io_stepL th (snd r) [] th' \<and> (fst r < 0 \<and> snd r = [] \<or>
      0 \<le> fst r \<and> fst r = int (length (snd r)) \<and> fst r \<le> len)) E
    (on_io (\<lambda>io. trfb_io_read io True len t) th)"
proof -
  note io = con_ok_io [OF ok]
  have "safe (\<lambda>_ io'. full (io_ctx (th_io th)) \<longrightarrow> full (io_ctx io')) (\<lambda>_. True)
      (io_read_body True len t (th_io th))"
    using read_ok [OF conjunct2 [OF io] len, of t] read_full [OF conjunct2 [OF io]]
    by (cases "io_read_body True len t (th_io th)" rule: option.exhaust;
        cases "the (io_read_body True len t (th_io th))") auto
  from safe_conj [OF read_ok [OF conjunct2 [OF io] len, of t] this]
  show ?thesis
    unfolding safe_on_io conjunct1 [OF io] trfb_io_read_def safe_with_io
    by (rule safe_mono)
      (auto simp: read_spec_def io_step_def talks_def io_sent_def same_write_queued split: prod.splits
        intro: con_ok_set_io [OF ok])
qed

lemma connection_read_safe:
  assumes ok: "con_ok rd wr th" and len: "0 < len"
  shows "safe (\<lambda>r th'. io_stepL th (snd r) [] th' \<and> (fst r < 0 \<and> snd r = [] \<or>
      0 < fst r \<and> fst r = int (length (snd r)) \<and> fst r \<le> len)) (quits inp th)
    (trfb_connection_read len th)"
proof (rule safe_some)
  let ?Q = "\<lambda>len th r th'. io_stepL th (snd r) [] th' \<and> (fst r < 0 \<and> snd r = [] \<or>
      0 < fst r \<and> fst r = int (length (snd r)) \<and> fst r \<le> len)"
  fix y assume "trfb_connection_read len th = Some y"
  then have "con_ok rd wr th \<longrightarrow> 0 < len \<longrightarrow> safe (?Q len th) (quits inp th) (Some y)"
  proof (rule trfb_connection_read.raw_induct [rotated], intro impI)
    fix f :: "int \<Rightarrow> 'w thread \<Rightarrow> ('w thread, int \<times> bytes) outcome option" and len th y
    assume IH: "\<And>len th y. f len th = Some y \<Longrightarrow>
        con_ok rd wr th \<longrightarrow> 0 < len \<longrightarrow> safe (?Q len th) (quits inp th) (Some y)"
      and body: "andthen (on_io (\<lambda>io. trfb_io_read io True len 1000) th) (\<lambda>r th.
       if 0 < fst r then Some (Done r th)
       else if fst r < 0 then Some (Done (-1, []) th)
       else andthen (check_stopped th) (\<lambda>_ th. f len th)) = Some y"
      and ok: "con_ok rd wr th" and len: "0 < len"
    have loop: "safe (?Q len t) (quits inp t) (f len t)" if "con_ok rd wr t" for t
    proof (rule safe_some)
      fix y assume "f len t = Some y"
      from IH [OF this] that len show "safe (?Q len t) (quits inp t) (Some y)" by blast
    qed
    have again: "safe (?Q len th) (quits inp th) (andthen (check_stopped t) (\<lambda>_. f len))"
      if t: "io_stepL th [] [] t" for t
    proof (rule check_andthen [OF t])
      fix u assume u: "io_stepL th [] [] u"
      show "safe (?Q len th) (quits inp th) (f len u)"
      proof (rule safe_mono [OF loop])
        show "con_ok rd wr u" using u by (simp add: io_step_def)
        show "?Q len th r v" if "?Q len u r v" for r v
          using that io_step_trans [OF u, of "snd r" "[]" v] by auto
      qed (rule io_step_quit [OF u])
    qed
    show "safe (?Q len th) (quits inp th) (Some y)"
      unfolding body [symmetric]
      by (rule safe_andthen [OF read_talks [OF ok len]]) (use again in auto)
  qed
  with ok len show "safe (?Q len th) (quits inp th) (Some y)" by blast
qed
end

context full_transport
begin

lemma read_all_loop_safe:
  assumes "con_ok rd wr th" and "int (length got) \<le> len"
  shows "safe (\<lambda>bs th'. \<exists>new. bs = got @ new \<and> int (length bs) = len \<and> io_stepL th new [] th')
    (ended_after inp (\<lambda>b. int (length got) + int (length b) < len) th) (read_all_loop len got th)"
proof (rule safe_some)
  let ?Q = "\<lambda>len got th bs th'. \<exists>new. bs = got @ new \<and> int (length bs) = len \<and> io_stepL th new [] th'"
  let ?E = "\<lambda>len got. ended_after inp (\<lambda>b. int (length got) + int (length b) < len)"
  fix y assume "read_all_loop len got th = Some y"
  then have "con_ok rd wr th \<longrightarrow> int (length got) \<le> len \<longrightarrow> safe (?Q len got th) (?E len got th) (Some y)"
  proof (rule read_all_loop.raw_induct [rotated], intro impI)
    fix f :: "int \<Rightarrow> bytes \<Rightarrow> 'w thread \<Rightarrow> ('w thread, bytes) outcome option" and len got th y
    assume IH: "\<And>len got th y. f len got th = Some y \<Longrightarrow>
        con_ok rd wr th \<longrightarrow> int (length got) \<le> len \<longrightarrow> safe (?Q len got th) (?E len got th) (Some y)"
      and body: "(if int (length got) < len then
        andthen (trfb_connection_read (len - int (length got)) th) (\<lambda>r th.
          if fst r < 0 then EXIT_THREAD StERROR th
          else f len (got @ snd r) th)
      else Some (Done got th)) = Some y"
      and ok: "con_ok rd wr th" and le: "int (length got) \<le> len"
    have loop: "safe (?Q len got t) (?E len got t) (f len got t)"
      if "con_ok rd wr t" "int (length got) \<le> len" for t got
    proof (rule safe_some)
      fix y assume "f len got t = Some y"
      from IH [OF this] that show "safe (?Q len got t) (?E len got t) (Some y)" by blast
    qed
    have again: "safe (?Q len got th) (?E len got th) (f len (got @ bs) t)"
      if t: "io_stepL th bs [] t" and bs: "int (length bs) \<le> len - int (length got)" for t bs
    proof (rule safe_mono [OF loop])
      show "con_ok rd wr t" using t by (simp add: io_step_def)
      show "?Q len got th r v" if v: "?Q len (got @ bs) t r v" for r v
      proof -
        obtain new where "r = (got @ bs) @ new" "int (length r) = len" "io_stepL t new [] v" using v by blast
        with io_step_trans [OF t, of new "[]" v] show ?thesis by (intro exI [of _ "bs @ new"]) simp
      qed
      show "?E len got th u" if "?E len (got @ bs) t u" for u
        using t that by (auto simp: io_step_def ac_simps elim: ended_after_step)
    qed (use bs in auto)
    have leave: "safe (?Q len got th) (?E len got th) (EXIT_THREAD StERROR t)"
      if "io_stepL th [] [] t" "int (length got) < len" for t
      using that by (intro EXIT_THREAD_safe [of rd wr]) (auto simp: io_step_def elim: talks_ended)
    show "safe (?Q len got th) (?E len got th) (Some y)"
    proof (cases "int (length got) < len")
      case True
      then have "0 < len - int (length got)" by simp
      have "safe (?Q len got th) (?E len got th)
          (andthen (trfb_connection_read (len - int (length got)) th) (\<lambda>r th.
            if fst r < 0 then EXIT_THREAD StERROR th else f len (got @ snd r) th))"
      proof (rule safe_andthen [OF safe_mono [OF connection_read_safe [OF ok \<open>0 < _\<close>]]], assumption)
        show "?E len got th u" if "quits inp th u" for u
          using that by (rule ended_after_mono) (use True in simp)
      qed (use True in \<open>auto intro: again leave\<close>)
      with True body show ?thesis by simp
    next
      case False
      with ok le body show ?thesis
        by (auto simp: io_step_def talks_none)
    qed
  qed
  with assms show "safe (?Q len got th) (?E len got th) (Some y)" by blast
qed

lemma read_all_safe:
  assumes "con_ok rd wr th" and "0 \<le> len"
  shows "safe (\<lambda>bs th'. int (length bs) = len \<and> io_stepL th bs [] th')
    (ended_after inp (\<lambda>b. int (length b) < len) th) (trfb_connection_read_all len th)"
  unfolding trfb_connection_read_all_def
  by (rule safe_mono [OF read_all_loop_safe]) (use assms in auto)
end

context full_transport
begin

text \<open>The outcome of a failed write: nothing was taken from the client.\<close>

abbreviation stuckL :: "'w thread \<Rightarrow> 'w thread \<Rightarrow> bool" where
  "stuckL th t \<equiv> con_ok rd wr t \<and> io_pending inp (th_io th) = io_pending inp (th_io t)"

lemma io_step_stuck: "io_stepL th [] q t \<Longrightarrow> stuckL t u \<Longrightarrow> stuckL th u"
  by (simp add: io_step_def talks_def)

lemma stuck_exit: "con_ok rd wr t \<Longrightarrow> io_pending inp (th_io th) = io_pending inp (th_io t) \<Longrightarrow>
    safe Q (quits inp th) (EXIT_THREAD StERROR t)"
  by (rule EXIT_THREAD_safe [of rd wr]) (simp_all add: ended_after_def)

lemma write_talks:
  assumes ok: "con_ok rd wr th" and len: "0 \<le> len" "nat len \<le> length buf"
  shows "safe (\<lambda>l th'. l < 0 \<and> stuckL th th' \<or>
      0 \<le> l \<and> l \<le> len \<and> io_stepL th [] (take (nat l) buf) th') E
    (on_io (\<lambda>io. trfb_io_write io (Ptr buf) len t) th)"
proof -
  note io = con_ok_io [OF ok]
  show ?thesis
    unfolding safe_on_io conjunct1 [OF io] trfb_io_write_def safe_with_io
    by (rule safe_mono [OF write_ok [OF conjunct2 [OF io] len]])
      (auto simp: io_step_def intro: con_ok_set_io [OF ok] talks_sent_spec dest: sent_spec_pending)
qed

lemma flush_talks:
  assumes ok: "con_ok rd wr th"
  shows "safe (\<lambda>r th'. r < 0 \<and> stuckL th th' \<or> 0 \<le> r \<and> io_stepL th [] [] th') E
    (on_io (\<lambda>io. trfb_io_flush io t) th)"
proof -
  note io = con_ok_io [OF ok]
  show ?thesis
    unfolding safe_on_io conjunct1 [OF io] trfb_io_flush_def safe_with_io
    by (rule safe_mono [OF flush_ok [OF conjunct2 [OF io]]])
      (auto simp: io_step_def intro: con_ok_set_io [OF ok] talks_sent_spec dest: sent_spec_pending)
qed

lemma connection_write_safe:
  assumes "con_ok rd wr th" and "0 \<le> len" and "nat len \<le> length buf"
  shows "safe (\<lambda>l th'. l < 0 \<and> stuckL th th' \<or>
      0 < l \<and> l \<le> len \<and> io_stepL th [] (take (nat l) buf) th') (quits inp th)
    (trfb_connection_write buf len th)"
proof (rule safe_some)
  let ?Q = "\<lambda>buf len th l th'. l < 0 \<and> stuckL th th' \<or>
      0 < l \<and> l \<le> len \<and> io_stepL th [] (take (nat l) buf) th'"
  fix y assume "trfb_connection_write buf len th = Some y"
  then have "con_ok rd wr th \<longrightarrow> 0 \<le> len \<and> nat len \<le> length buf \<longrightarrow> safe (?Q buf len th) (quits inp th) (Some y)"
  proof (rule trfb_connection_write.raw_induct [rotated], intro impI)
    fix f :: "bytes \<Rightarrow> int \<Rightarrow> 'w thread \<Rightarrow> ('w thread, int) outcome option" and buf len th y
    assume IH: "\<And>buf len th y. f buf len th = Some y \<Longrightarrow>
        con_ok rd wr th \<longrightarrow> 0 \<le> len \<and> nat len \<le> length buf \<longrightarrow> safe (?Q buf len th) (quits inp th) (Some y)"
      and body: "andthen (on_io (\<lambda>io. trfb_io_write io (Ptr buf) len 1000) th) (\<lambda>l th.
       if 0 < l then Some (Done l th)
       else if l < 0 then Some (Done (-1) th)
       else andthen (check_stopped th) (\<lambda>_ th. f buf len th)) = Some y"
      and ok: "con_ok rd wr th" and len: "0 \<le> len \<and> nat len \<le> length buf"
    have loop: "safe (?Q buf len t) (quits inp t) (f buf len t)" if "con_ok rd wr t" for t
    proof (rule safe_some)
      fix y assume "f buf len t = Some y"
      from IH [OF this] that len show "safe (?Q buf len t) (quits inp t) (Some y)" by blast
    qed
    have again: "safe (?Q buf len th) (quits inp th) (andthen (check_stopped t) (\<lambda>_. f buf len))"
      if t: "io_stepL th [] [] t" for t
    proof (rule check_andthen [OF t])
      fix u assume u: "io_stepL th [] [] u"
      show "safe (?Q buf len th) (quits inp th) (f buf len u)"
      proof (rule safe_mono [OF loop])
        show "con_ok rd wr u" using u by (simp add: io_step_def)
        show "?Q buf len th l v" if "?Q buf len u l v" for l v
          using that io_step_trans [OF u, of "[]" "take (nat l) buf" v] io_step_stuck [OF u] by auto
      qed (rule io_step_quit [OF u])
    qed
    show "safe (?Q buf len th) (quits inp th) (Some y)"
      unfolding body [symmetric]
      by (rule safe_andthen [OF write_talks [OF ok]]) (use len again in auto)
  qed
  with assms show "safe (?Q buf len th) (quits inp th) (Some y)" by blast
qed

lemma connection_flush_safe:
  assumes "con_ok rd wr th"
  shows "safe (\<lambda>_ th'. io_stepL th [] [] th') (quits inp th) (trfb_connection_flush th)"
proof (rule safe_some)
  let ?Q = "\<lambda>th (_ :: unit) th'. io_stepL th [] [] th'"
  fix y assume "trfb_connection_flush th = Some y"
  then have "con_ok rd wr th \<longrightarrow> safe (?Q th) (quits inp th) (Some y)"
  proof (rule trfb_connection_flush.raw_induct [rotated], intro impI)
    fix f :: "'w thread \<Rightarrow> ('w thread, unit) outcome option" and th y
    assume IH: "\<And>th y. f th = Some y \<Longrightarrow> con_ok rd wr th \<longrightarrow> safe (?Q th) (quits inp th) (Some y)"
      and body: "andthen (on_io (\<lambda>io. trfb_io_flush io 1000) th) (\<lambda>r th.
       if r < 0 then EXIT_THREAD StERROR th
       else if r = 0 then Some (Done () th)
       else andthen (check_stopped th) (\<lambda>_ th. f th)) = Some y"
      and ok: "con_ok rd wr th"
    have loop: "safe (?Q t) (quits inp t) (f t)" if "con_ok rd wr t" for t
    proof (rule safe_some)
      fix y assume "f t = Some y"
      from IH [OF this] that show "safe (?Q t) (quits inp t) (Some y)" by blast
    qed
    have again: "safe (?Q th) (quits inp th) (andthen (check_stopped t) (\<lambda>_. f))"
      if t: "io_stepL th [] [] t" for t
    proof (rule check_andthen [OF t])
      fix u assume u: "io_stepL th [] [] u"
      show "safe (?Q th) (quits inp th) (f u)"
      proof (rule safe_mono [OF loop])
        show "con_ok rd wr u" using u by (simp add: io_step_def)
        show "?Q th l v" if "?Q u l v" for l v
          using io_step_trans [OF u that] by simp
      qed (rule io_step_quit [OF u])
    qed
    show "safe (?Q th) (quits inp th) (Some y)"
      unfolding body [symmetric]
      by (rule safe_andthen [OF flush_talks [OF ok]]) (auto intro: again stuck_exit)
  qed
  with assms show "safe (?Q th) (quits inp th) (Some y)" by blast
qed

lemma write_all_loop_safe:
  assumes "con_ok rd wr th" and "0 \<le> pos" "pos \<le> len" "nat len \<le> length buf"
  shows "safe (\<lambda>_ th'. io_stepL th [] (drop (nat pos) (take (nat len) buf)) th') (quits inp th)
    (write_all_loop buf len pos th)"
proof (rule safe_some)
  let ?Q = "\<lambda>buf len pos th (_ :: unit) th'. io_stepL th [] (drop (nat pos) (take (nat len) buf)) th'"
  fix y assume "write_all_loop buf len pos th = Some y"
  then have "con_ok rd wr th \<longrightarrow> 0 \<le> pos \<and> pos \<le> len \<and> nat len \<le> length buf \<longrightarrow>
      safe (?Q buf len pos th) (quits inp th) (Some y)"
  proof (rule write_all_loop.raw_induct [rotated], intro impI)
    fix f :: "bytes \<Rightarrow> int \<Rightarrow> int \<Rightarrow> 'w thread \<Rightarrow> ('w thread, unit) outcome option" and buf len pos th y
    assume IH: "\<And>buf len pos th y. f buf len pos th = Some y \<Longrightarrow>
        con_ok rd wr th \<longrightarrow> 0 \<le> pos \<and> pos \<le> len \<and> nat len \<le> length buf \<longrightarrow>
        safe (?Q buf len pos th) (quits inp th) (Some y)"
      and body: "(if pos < len then
        andthen (trfb_connection_write (drop (nat pos) buf) (len - pos) th) (\<lambda>l th.
          if l < 0 then EXIT_THREAD StERROR th
          else f buf len (pos + l) th)
      else Some (Done () th)) = Some y"
      and ok: "con_ok rd wr th" and pos: "0 \<le> pos \<and> pos \<le> len \<and> nat len \<le> length buf"
    have loop: "safe (?Q buf len p t) (quits inp t) (f buf len p t)"
      if "con_ok rd wr t" "0 \<le> p" "p \<le> len" for t p
    proof (rule safe_some)
      fix y assume "f buf len p t = Some y"
      from IH [OF this] that pos show "safe (?Q buf len p t) (quits inp t) (Some y)" by blast
    qed
    have again: "safe (?Q buf len pos th) (quits inp th) (f buf len (pos + l) t)"
      if t: "io_stepL th [] (take (nat l) (drop (nat pos) buf)) t" and l: "0 < l" "l \<le> len - pos" for t l
    proof (rule safe_mono [OF loop])
      show "con_ok rd wr t" using t by (simp add: io_step_def)
      have split: "take (nat l) (drop (nat pos) buf) @ drop (nat (pos + l)) (take (nat len) buf) =
          drop (nat pos) (take (nat len) buf)"
      proof -
        have "take (nat l) (drop (nat pos) buf) = take (nat l) (drop (nat pos) (take (nat len) buf))"
          using l pos by (simp add: drop_take min_absorb1 nat_diff_distrib [symmetric])
        moreover have "drop (nat (pos + l)) (take (nat len) buf) =
            drop (nat l) (drop (nat pos) (take (nat len) buf))"
          using l pos by (simp add: nat_add_distrib add.commute)
        ultimately show ?thesis by (simp only: append_take_drop_id)
      qed
      show "?Q buf len pos th r v" if "?Q buf len (pos + l) t r v" for r v
        using io_step_trans [OF t that] unfolding split by simp
    qed (use l pos io_step_quit [OF t] in auto)
    show "safe (?Q buf len pos th) (quits inp th) (Some y)"
    proof (cases "pos < len")
      case True
      have "safe (?Q buf len pos th) (quits inp th)
          (andthen (trfb_connection_write (drop (nat pos) buf) (len - pos) th) (\<lambda>l th.
            if l < 0 then EXIT_THREAD StERROR th else f buf len (pos + l) th))"
        by (rule safe_andthen [OF connection_write_safe [OF ok]])
          (use pos True in \<open>auto intro: again stuck_exit\<close>)
      with True body show ?thesis by simp
    next
      case False
      with ok pos body show ?thesis by (auto simp: io_step_def talks_none)
    qed
  qed
  with assms show "safe (?Q buf len pos th) (quits inp th) (Some y)" by blast
qed

lemma write_all_safe:
  assumes "con_ok rd wr th" and "0 \<le> len" "nat len \<le> length buf"
  shows "safe (\<lambda>_ th'. io_stepL th [] (take (nat len) buf) th') (quits inp th)
    (trfb_connection_write_all buf len th)"
  unfolding trfb_connection_write_all_def
proof (rule safe_andthen [OF write_all_loop_safe])
  fix t assume t: "io_stepL th [] (drop (nat 0) (take (nat len) buf)) t"
  show "safe (\<lambda>_ th'. io_stepL th [] (take (nat len) buf) th') (quits inp th) (trfb_connection_flush t)"
  proof (rule safe_mono [OF connection_flush_safe])
    show "con_ok rd wr t" using t by (simp add: io_step_def)
    show "io_stepL th [] (take (nat len) buf) u" if "io_stepL t [] [] u" for u
      using io_step_trans [OF t that] by simp
    show "quits inp th u" if "quits inp t u" for u
      using io_step_quit [OF t that] .
  qed
qed (use assms in auto)

end

section \<open>The handshake\<close>

definition set_version :: "trfb_protocol \<Rightarrow> 'w thread \<Rightarrow> 'w thread" where
  "set_version v = with_con (con_version_update (\<lambda>_. Some v))"

lemma length_server_init [simp]: "length (server_init fb) = 28"
  by (simp add: server_init_def str_bytes_def)

lemma set_version_simps [simp]:
  "con_ok rd wr (set_version v th) = con_ok rd wr th" "th_io (set_version v th) = th_io th"
  "th_srv (set_version v th) = th_srv th" "th_others (set_version v th) = th_others th"
  "con_fb (th_con (set_version v th)) = con_fb (th_con th)"
  "con_version (th_con (set_version v th)) = Some v"
  "con_state (th_con (set_version v th)) = con_state (th_con th)"
  "con_format (th_con (set_version v th)) = con_format (th_con th)"
  by (simp_all add: set_version_def with_con_def con_ok_def th_io_def)

text \<open>
  The state after a handshake that ended with result \<open>r\<close>: the version the client has asked for is
  chosen and the exchange is the one of that version; a client that wants security is turned away.
\<close>

definition negotiated ::
  "'w read_fn \<Rightarrow> 'w write_fn \<Rightarrow> ('w \<Rightarrow> bytes) \<Rightarrow> ('w \<Rightarrow> bytes) \<Rightarrow> ('w \<Rightarrow> bool) \<Rightarrow>
   'w thread \<Rightarrow> int \<Rightarrow> 'w thread \<Rightarrow> bool" where
  "negotiated rd wr inp outp full th r th' \<longleftrightarrow>
     (\<exists>msg fb. length msg = 12 \<and> srv_fb (th_srv th) = Ptr fb \<and>
       con_ok rd wr th' \<and> only_io (set_version (client_version msg) th) th' \<and>
       (r = 0 \<and> (\<exists>ci. talks inp outp full th
            (msg @ handshake_in (client_version msg) ci)
            (version_bytes trfb_v8 @ handshake_out (client_version msg) fb) th') \<or>
        r = -1 \<and> trfb_v7 \<le> client_version msg \<and> (\<exists>sec. sec \<noteq> 1 \<and> talks inp outp full th
            (msg @ [sec]) (version_bytes trfb_v8 @ [1, 1]) th')))"

context full_transport
begin

lemma read_all_step:
  assumes t: "io_stepL th I Q t" and len: "0 \<le> len"
    and rest: "\<And>bs u. int (length bs) = len \<Longrightarrow> io_stepL th (I @ bs) Q u \<Longrightarrow> safe R E (f bs u)"
    and out: "\<And>u. ended_after inp (\<lambda>b. \<exists>c. b = I @ c \<and> int (length c) < len) th u \<Longrightarrow> E u"
  shows "safe R E (andthen (trfb_connection_read_all len t) f)"
proof (rule safe_andthen)
  have "con_ok rd wr t" and talk: "talks inp outp full th I Q t" using t by (simp_all add: io_step_def)
  from read_all_safe [OF this(1) len]
  show "safe (\<lambda>bs u. int (length bs) = len \<and> io_stepL t bs [] u) E (trfb_connection_read_all len t)"
    by (rule safe_mono) (auto intro!: out ended_after_step [OF talk])
  fix bs u assume u: "int (length bs) = len \<and> io_stepL t bs [] u"
  then show "safe R E (f bs u)"
    using rest io_step_trans [OF t conjunct2 [OF u]] by simp
qed

lemma write_all_step:
  assumes t: "io_stepL th I Q t" and len: "0 \<le> len" "nat len \<le> length buf"
    and rest: "\<And>u. io_stepL th I (Q @ take (nat len) buf) u \<Longrightarrow> safe R E (f () u)"
    and out: "\<And>u. ended_after inp (\<lambda>b. b = I) th u \<Longrightarrow> E u"
  shows "safe R E (andthen (trfb_connection_write_all buf len t) f)"
proof (rule safe_andthen)
  have "con_ok rd wr t" and talk: "talks inp outp full th I Q t" using t by (simp_all add: io_step_def)
  from write_all_safe [OF this(1) len]
  show "safe (\<lambda>_ u. io_stepL t [] (take (nat len) buf) u) E (trfb_connection_write_all buf len t)"
    by (rule safe_mono) (auto intro!: out ended_after_step [OF talk])
  fix x u assume u: "io_stepL t [] (take (nat len) buf) u"
  then show "safe R E (f x u)"
    using rest io_step_trans [OF t u] by simp
qed

lemma io_step_self: "con_ok rd wr th \<Longrightarrow> io_stepL th [] [] th"
  by (simp add: io_step_def talks_none)

lemma io_step_ok: "io_stepL th i q t \<Longrightarrow> con_ok rd wr t"
  by (simp add: io_step_def)

lemma negotiated_intro:
  assumes one: "io_stepL th msg (version_bytes trfb_v8) a" and two: "io_stepL (set_version v a) i q b"
    and v: "v = client_version msg" and fb: "length msg = 12" "srv_fb (th_srv th) = Ptr fb"
    and res: "r = 0 \<and> (\<exists>ci. i = handshake_in v ci) \<and> q = handshake_out v fb \<or>
      r = -1 \<and> trfb_v7 \<le> v \<and> (\<exists>sec. sec \<noteq> 1 \<and> i = [sec]) \<and> q = [1, 1]"
  shows "negotiated rd wr inp outp full th r b"
proof -
  have "talks inp outp full th (msg @ i) (version_bytes trfb_v8 @ q) b"
    using one two by (intro talks_trans [of _ _ _ th _ _ a]) (auto simp: io_step_def elim: talks_cong)
  moreover have "only_io (set_version v th) b"
    using one two by (simp add: io_step_def only_io_def)
      (simp add: set_version_def with_con_def)
  ultimately show ?thesis
    using res v fb io_step_ok [OF two] unfolding negotiated_def
    by (intro exI [of _ msg] exI [of _ fb]) auto
qed

lemma negotiate_security_safe:
  assumes ok: "con_ok rd wr th"
  shows "safe (\<lambda>b t. if b
      then io_stepL th (if v < trfb_v7 then [] else [1])
        ((if v < trfb_v7 then [0, 0, 0, 1] else [1, 1]) @ (if trfb_v8 \<le> v then [0, 0, 0, 0] else [])) t
      else trfb_v7 \<le> v \<and> (\<exists>sec. sec \<noteq> 1 \<and> io_stepL th [sec] [1, 1] t)) (ended_after inp (\<lambda>b. length b \<le> 1) th)
    (negotiate_security v th)"
  unfolding negotiate_security_def
proof (rule safe_andthen)
  show "safe (\<lambda>b t. if b
      then io_stepL th (if v < trfb_v7 then [] else [1]) (if v < trfb_v7 then [0, 0, 0, 1] else [1, 1]) t
      else trfb_v7 \<le> v \<and> (\<exists>sec. sec \<noteq> 1 \<and> io_stepL th [sec] [1, 1] t)) (ended_after inp (\<lambda>b. length b \<le> 1) th)
    (if v < trfb_v7
        then andthen (trfb_connection_write_all [0, 0, 0, 1] 4 th) (\<lambda>_ th. Some (Done True th))
        else andthen (trfb_connection_write_all [1, 1] 2 th) (\<lambda>_ th.
             andthen (trfb_connection_read_all 1 th) (\<lambda>buf th. Some (Done (buf ! 0 = 1) th))))"
    by (auto intro!: write_all_step [OF io_step_self [OF ok]] read_all_step
        simp: not_less length_Suc_conv numeral_eq_Suc elim!: ended_after_mono) blast
next
  fix security t
  assume t: "if security
      then io_stepL th (if v < trfb_v7 then [] else [1]) (if v < trfb_v7 then [0, 0, 0, 1] else [1, 1]) t
      else trfb_v7 \<le> v \<and> (\<exists>sec. sec \<noteq> 1 \<and> io_stepL th [sec] [1, 1] t)"
  show "safe (\<lambda>b t. if b
      then io_stepL th (if v < trfb_v7 then [] else [1])
        ((if v < trfb_v7 then [0, 0, 0, 1] else [1, 1]) @ (if trfb_v8 \<le> v then [0, 0, 0, 0] else [])) t
      else trfb_v7 \<le> v \<and> (\<exists>sec. sec \<noteq> 1 \<and> io_stepL th [sec] [1, 1] t)) (ended_after inp (\<lambda>b. length b \<le> 1) th)
    (if security \<and> trfb_v8 \<le> v
         then andthen (trfb_connection_write_all [0, 0, 0, 0] 4 t) (\<lambda>_ th. Some (Done True th))
         else Some (Done security t))"
  proof (cases "security \<and> trfb_v8 \<le> v")
    case True
    with t have st: "io_stepL th (if v < trfb_v7 then [] else [1])
        (if v < trfb_v7 then [0, 0, 0, 1] else [1, 1]) t"
      by simp
    show ?thesis
      unfolding if_P [OF True]
      by (rule write_all_step [OF st]) (use True in \<open>auto elim!: ended_after_mono\<close>)
  qed (use t in auto)
qed

lemma negotiate_init_safe:
  assumes ok: "con_ok rd wr th" and fb: "srv_fb (th_srv th) = Ptr fb"
  shows "safe (\<lambda>r t. r = 0 \<and> (\<exists>ci. io_stepL th [ci] (server_init fb) t))
    (ended_after inp (\<lambda>b. length b \<le> 1) th) (negotiate_init th)"
  unfolding negotiate_init_def
proof (rule read_all_step [OF io_step_self [OF ok]])
  fix bs u assume bs: "int (length bs) = 1" and "io_stepL th ([] @ bs) [] u"
  then obtain ci where u: "io_stepL th [ci] [] u" by (cases bs) auto
  then have "srv_fb (th_srv u) = Ptr fb" using fb by (simp add: io_step_def only_io_def)
  then show "safe (\<lambda>r t. r = 0 \<and> (\<exists>ci. io_stepL th [ci] (server_init fb) t))
      (ended_after inp (\<lambda>b. length b \<le> 1) th)
      (case srv_fb (th_srv u) of NULL \<Rightarrow> Some Undef
       | Ptr fb \<Rightarrow> andthen (trfb_connection_write_all (server_init fb) 28 u) (\<lambda>_ th. Some (Done 0 th)))"
    by (auto intro!: write_all_step [OF u] elim!: ended_after_mono)
qed (auto elim!: ended_after_mono)

lemma negotiate_safe:
  assumes ok: "con_ok rd wr th"
  shows "safe (negotiated rd wr inp outp full th)
    (ended_after inp (\<lambda>b. length b \<le> 14) th) (negotiate e th)"
proof -
  obtain fb where fb: "srv_fb (th_srv th) = Ptr fb"
    using ok by (auto simp: con_ok_def srv_ok_def)
  have enc: "trfb_msg_protocol_version_encode trfb_v8 (Ptr (map (junk e) [0..<256])) 256 =
      Some (0, Ptr (version_bytes trfb_v8 @ drop 12 (map (junk e) [0..<256])), 12)"
    by (rule encode_ok) simp_all
  let ?R = "negotiated rd wr inp outp full th" and ?E = "ended_after inp (\<lambda>b. length b \<le> 14) th"
  let ?rest = "\<lambda>security th. if security then negotiate_init th else Some (Done (-1) th)"
  have rest: "safe ?R ?E (andthen (negotiate_security v (set_version v a)) ?rest)"
    if a: "io_stepL th msg (version_bytes trfb_v8) a" and len: "length msg = 12"
      and v: "v = client_version msg" for msg v a
  proof (rule safe_andthen)
    have aok: "con_ok rd wr (set_version v a)" and talk: "talks inp outp full th msg (version_bytes trfb_v8) (set_version v a)"
      using a by (auto simp: io_step_def elim: talks_cong)
    show "safe (\<lambda>b t. if b
      then io_stepL (set_version v a) (if v < trfb_v7 then [] else [1])
        ((if v < trfb_v7 then [0, 0, 0, 1] else [1, 1]) @ (if trfb_v8 \<le> v then [0, 0, 0, 0] else [])) t
      else trfb_v7 \<le> v \<and> (\<exists>sec. sec \<noteq> 1 \<and> io_stepL (set_version v a) [sec] [1, 1] t)) ?E
      (negotiate_security v (set_version v a))"
      by (rule safe_mono [OF negotiate_security_safe [OF aok, of v]], assumption)
        (auto simp: len elim: ended_after_step [OF talk])
    fix security t
    assume t: "if security
      then io_stepL (set_version v a) (if v < trfb_v7 then [] else [1])
        ((if v < trfb_v7 then [0, 0, 0, 1] else [1, 1]) @ (if trfb_v8 \<le> v then [0, 0, 0, 0] else [])) t
      else trfb_v7 \<le> v \<and> (\<exists>sec. sec \<noteq> 1 \<and> io_stepL (set_version v a) [sec] [1, 1] t)"
    show "safe ?R ?E (?rest security t)"
    proof (cases security)
      case False
      with t obtain sec where "trfb_v7 \<le> v" "sec \<noteq> 1" "io_stepL (set_version v a) [sec] [1, 1] t"
        by auto
      with negotiated_intro [OF a this(3) v len fb, of "-1"] False show ?thesis by auto
    next
      case True
      with t have t': "io_stepL (set_version v a) (if v < trfb_v7 then [] else [1])
        ((if v < trfb_v7 then [0, 0, 0, 1] else [1, 1]) @ (if trfb_v8 \<le> v then [0, 0, 0, 0] else [])) t"
        by simp
      then have "con_ok rd wr t" "srv_fb (th_srv t) = Ptr fb"
        using a fb by (simp_all add: io_step_def only_io_def)
      have talk': "talks inp outp full th (msg @ (if v < trfb_v7 then [] else [1])) (version_bytes trfb_v8 @
          ((if v < trfb_v7 then [0, 0, 0, 1] else [1, 1]) @ (if trfb_v8 \<le> v then [0, 0, 0, 0] else []))) t"
        using talks_trans [OF talk] t' by (simp only: io_step_def)
      from negotiate_init_safe [OF \<open>con_ok rd wr t\<close> \<open>srv_fb (th_srv t) = Ptr fb\<close>]
      have "safe ?R ?E (negotiate_init t)"
      proof (rule safe_mono)
        show "?E u" if "ended_after inp (\<lambda>b. length b \<le> 1) t u" for u
          using that len by (auto elim: ended_after_step [OF talk'])
        fix r :: int and u assume "r = 0 \<and> (\<exists>ci. io_stepL t [ci] (server_init fb) u)"
        then obtain ci where r: "r = 0" and u: "io_stepL t [ci] (server_init fb) u" by blast
        show "?R r u"
          by (rule negotiated_intro [OF a io_step_trans [OF t' u] v len fb])
            (auto simp: r handshake_in_def handshake_out_def)
      qed
      with True show ?thesis by simp
    qed
  qed
  show ?thesis
    unfolding negotiate_def enc
    by (auto intro!: write_all_step [OF io_step_self [OF ok]] read_all_step
        rest [unfolded set_version_def] simp: decode_total elim!: ended_after_mono)
qed
end

section \<open>Framebuffers of a connection\<close>

lemma fb_small_area:
  assumes "fb_small fb" and "fb_bpp_ok b"
  shows "fb_area (fb_width fb) (fb_height fb) b < 2 ^ 32"
  using assms by (intro small_area) (auto simp: fb_small_def)

lemma fb_small_shape: "fb_small fb \<Longrightarrow> fb_shape fb" "fb_small fb \<Longrightarrow> fb_bpp_ok (fb_bpp fb)"
  by (auto simp: fb_small_def fb_wf_def fb_shape_def)

lemma fb_small_bytes:
  "fb_small fb \<Longrightarrow> fb_bytes (fb_width fb) (fb_height fb) (fb_bpp fb) = length (fb_pixels fb)"
  using fb_bytes_eq [OF fb_small_area] fb_small_shape by (simp add: fb_shape_length)

lemma fb_small_lock [simp]: "fb_small (fb\<lparr>fb_lock := m\<rparr>) = fb_small fb"
proof -
  have "fb_small (fb\<lparr>fb_lock := m\<rparr>)" if "fb_small fb" for m and fb
    using that fb_normed_frame [where fb = fb and l = m and fp = "fb_free_pixels fb" and px = "fb_pixels fb" and w = "fb_width fb" and h = "fb_height fb"]
    by (simp add: fb_small_def fb_wf_def fb_shape_def fb_shifts_def)
  from this [of fb m] this [of "fb\<lparr>fb_lock := m\<rparr>" "fb_lock fb"] show ?thesis by auto
qed

lemma fb_small_sized:
  assumes "fb_small dst" and "fb_small src" and "fb_shape (sized dst src fp p)"
  shows "fb_small (sized dst src fp p)"
proof -
  have "fb_normed (sized dst src fp p)"
    using assms(1) fb_normed_frame [where fb = dst and l = "fb_lock dst" and fp = fp and px = p and w = "fb_width src" and h = "fb_height src"]
    by (simp add: fb_small_def fb_wf_def)
  with assms show ?thesis by (simp add: fb_small_def fb_wf_def)
qed

lemma copy_small:
  assumes "fb_small fb"
  shows "\<exists>p. trfb_framebuffer_copy e fb = Some p \<and> (p = NULL \<or> (\<exists>fp. p = Ptr (fb\<lparr>fb_free_pixels := fp\<rparr>)))"
proof (cases "struct_ok e \<and> alloc_ok e (length (fb_pixels fb))")
  case True
  have "length (fb_pixels fb) = fb_area (fb_width fb) (fb_height fb) (fb_bpp fb) mod 2 ^ 32"
    using fb_small_area [OF assms fb_small_shape(2) [OF assms]] fb_small_shape [OF assms]
    by (simp add: fb_shape_length)
  from copy_result [OF fb_small_shape(1) [OF assms] _ _ this] True show ?thesis by auto
next
  case False
  with fb_small_bytes [OF assms] fb_small_shape [OF assms] show ?thesis
    by (auto simp: trfb_framebuffer_copy_def malloc_def fb_bpp_ok_def)
qed

text \<open>What a framebuffer \<open>fb\<close> shows of another one when its pixels are read in byte order \<open>be\<close>.\<close>

definition shows_of :: "cenv \<Rightarrow> bool \<Rightarrow> trfb_framebuffer \<Rightarrow> trfb_framebuffer \<Rightarrow> bool" where
  "shows_of e be fb src \<longleftrightarrow> fb_width fb = fb_width src \<and> fb_height fb = fb_height src \<and>
     (\<forall>x y. in_fb src x y \<longrightarrow> trfb_framebuffer_get_pixel (e\<lparr>host_be := be\<rparr>) fb x y =
       (if same_format fb src then trfb_framebuffer_get_pixel e src x y
        else Option.bind (trfb_framebuffer_get_pixel e src x y) (recolor fb)))"

lemma convert_small:
  assumes dst: "fb_small dst" and src: "fb_small src"
  shows "\<exists>r dst'. trfb_framebuffer_convert e (Ptr dst) (Ptr src) = Some (r, Ptr dst') \<and> fb_small dst' \<and>
    same_format dst' dst \<and> fb_lock dst' = fb_lock dst \<and> (r = 0 \<longrightarrow> shows_of e (host_be e) dst' src)"
proof (cases "fb_width dst = fb_width src \<and> fb_height dst = fb_height src \<or>
    alloc_ok e (fb_area (fb_width src) (fb_height src) (fb_bpp dst))")
  case True
  have "fb_wf dst" "fb_wf src" "0 < fb_width src" "0 < fb_height src" "0 < fb_width dst" "0 < fb_height dst"
    using assms by (auto simp: fb_small_def)
  from convert_ok [OF this fb_small_area [OF src fb_small_shape(2) [OF dst]] True]
  obtain fp p where conv: "trfb_framebuffer_convert e (Ptr dst) (Ptr src) = Some (0, Ptr (sized dst src fp p))"
    and shape: "fb_shape (sized dst src fp p)"
    and px: "\<And>x y. in_fb src x y \<Longrightarrow> trfb_framebuffer_get_pixel e (sized dst src fp p) x y =
      (if same_format dst src then trfb_framebuffer_get_pixel e src x y
       else Option.bind (trfb_framebuffer_get_pixel e src x y) (recolor dst))"
    by blast
  have "e\<lparr>host_be := host_be e\<rparr> = e" by simp
  with px have "shows_of e (host_be e) (sized dst src fp p) src"
    by (simp add: shows_of_def)
  moreover have "same_format (sized dst src fp p) dst" "fb_lock (sized dst src fp p) = fb_lock dst"
    by (simp_all add: same_format_def)
  ultimately show ?thesis using conv fb_small_sized [OF dst src shape] by blast
next
  case False
  have "trfb_framebuffer_convert e (Ptr dst) (Ptr src) = Some (-1, Ptr dst)"
    using convert_no_memory [OF fb_small_shape(1) [OF dst] fb_small_shape(1) [OF src] _ _ _ _
        fb_small_area [OF src fb_small_shape(2) [OF dst]] False] assms by (simp add: fb_small_def)
  with dst show ?thesis by (auto simp: same_format_def)
qed

lemma fb_small_pixels:
  assumes "fb_small fb" and "length px = length (fb_pixels fb)"
  shows "fb_small (fb\<lparr>fb_pixels := px\<rparr>)"
  using assms set_norms_pixels [of px fb] fb_shape_pixels [of fb px] by (auto simp: fb_small_def fb_wf_def)

lemma endian_small:
  assumes fb: "fb_small fb" and sh: "shows_of e (host_be e) fb src"
  shows "\<exists>px. trfb_framebuffer_endian e (Ptr fb) be = Some (Ptr (fb\<lparr>fb_pixels := px\<rparr>)) \<and>
    fb_small (fb\<lparr>fb_pixels := px\<rparr>) \<and> shows_of e be (fb\<lparr>fb_pixels := px\<rparr>) src"
proof -
  note shape = fb_small_shape [OF fb]
  obtain px where px: "trfb_framebuffer_endian e (Ptr fb) be = Some (Ptr (fb\<lparr>fb_pixels := px\<rparr>))"
    "length px = length (fb_pixels fb)"
    and load: "\<And>k. k < unat (fb_width fb) * unat (fb_height fb) \<Longrightarrow>
      load be (unat (fb_bpp fb)) px k = load (host_be e) (unat (fb_bpp fb)) (fb_pixels fb) k"
    using endian_ok [OF shape(1) fb_small_area [OF fb shape(2)]] by blast
  have "trfb_framebuffer_get_pixel (e\<lparr>host_be := be\<rparr>) (fb\<lparr>fb_pixels := px\<rparr>) x y =
      trfb_framebuffer_get_pixel (e\<lparr>host_be := host_be e\<rparr>) fb x y" if "in_fb src x y" for x y
  proof -
    have "in_fb fb x y" using that sh by (simp add: shows_of_def in_fb_def)
    then show ?thesis
      using load [OF pixel_index_bound [OF shape(1)]] shape(2)
      by (simp add: get_pixel_eq trfb_fb_get_pixel_def)
  qed
  with sh have "shows_of e be (fb\<lparr>fb_pixels := px\<rparr>) src"
    by (simp add: shows_of_def)
  with px fb_small_pixels [OF fb px(2)] show ?thesis by blast
qed

lemma fresh_small:
  "fresh_of_format fmt w h fb \<Longrightarrow> 0 < w \<Longrightarrow> w \<le> 0x7fff \<Longrightarrow> 0 < h \<Longrightarrow> h \<le> 0x7fff \<Longrightarrow> fb_small fb"
  by (simp add: fresh_of_format_def fb_small_def)

section \<open>Calls of the server\<close>

lemma others_act_ok:
  "con_ok rd wr th \<Longrightarrow> con_ok rd wr (others_act th)"
  by (auto simp: others_act_def con_ok_def split: list.split)

lemma others_act_simps [simp]:
  "th_con (others_act th) = th_con th" "th_io (others_act th) = th_io th" "th_stops (others_act th) = th_stops th"
  by (auto simp: others_act_def th_io_def split: list.split)

lemma th_io_srv [simp]: "th_io (th\<lparr>th_srv := s\<rparr>) = th_io th"
  by (simp add: th_io_def)

lemma srv_locked_eq:
  assumes fb: "srv_fb (th_srv (others_act th)) = Ptr fb" "fb_lock fb = MtxFree"
  defines "t \<equiv> (others_act th)\<lparr>th_srv := (th_srv (others_act th))\<lparr>srv_fb := Ptr (fb\<lparr>fb_lock := MtxHeld\<rparr>),
      srv_updated := srv_updated (th_srv (others_act th)) + 1\<rparr>\<rparr>"
  assumes f: "f (Ptr (fb\<lparr>fb_lock := MtxHeld\<rparr>)) t = Some (Done r u)" and u: "th_srv u = th_srv t"
  shows "srv_locked f th = Some (Done r (u\<lparr>th_srv := (th_srv (others_act th))
    \<lparr>srv_updated := srv_updated (th_srv (others_act th)) + 1\<rparr>\<rparr>))"
proof -
  let ?s = "th_srv (others_act th)"
  have "on_srv (\<lambda>s. trfb_server_lock_fb s 0) (others_act th) = Some (Done 0 t)"
    using fb by (simp add: on_srv_def trfb_server_lock_fb_def on_server_def lock_fb_free t_def)
  moreover have "srv_fb (th_srv t) = Ptr (fb\<lparr>fb_lock := MtxHeld\<rparr>)" by (simp add: t_def)
  moreover have "on_srv trfb_server_unlock_fb u = Some (Done 0 (u\<lparr>th_srv := ?s\<lparr>srv_updated := srv_updated ?s + 1\<rparr>\<rparr>))"
    using u fb by (cases ?s; cases fb)
      (simp add: on_srv_def trfb_server_unlock_fb_def on_server_def unlock_fb_held t_def)
  ultimately show ?thesis using f by (simp add: srv_locked_def)
qed

section \<open>What each message does\<close>

text \<open>An event has reached the queue, if there was room when the lock was taken.\<close>

definition event_delivered :: "trfb_event \<Rightarrow> 'w thread \<Rightarrow> 'w thread \<Rightarrow> bool" where
  "event_delivered ev th th' \<longleftrightarrow>
     srv_queue (th_srv th') =
       (let s = th_srv (others_act th) in
        if srv_event_len s < TRFB_EVENTS_QUEUE_LEN then srv_queue s @ [ev] else srv_queue s)"

lemma send_event_ok:
  assumes ok: "con_ok rd wr th"
  shows "\<exists>s'. send_event ev th = Some (Done () ((others_act th)\<lparr>th_srv := s'\<rparr>)) \<and>
    con_ok rd wr ((others_act th)\<lparr>th_srv := s'\<rparr>) \<and> event_delivered ev th ((others_act th)\<lparr>th_srv := s'\<rparr>)"
proof -
  let ?s = "th_srv (others_act th)"
  have ok': "con_ok rd wr (others_act th)" using ok by (rule others_act_ok)
  then have wf: "events_wf ?s" and srv: "srv_ok ?s" by (auto simp: con_ok_def srv_ok_def)
  have keep: "con_ok rd wr ((others_act th)\<lparr>th_srv := s'\<rparr>)"
    if "events_wf s'" "srv_fb s' = srv_fb ?s" for s'
    using ok' that by (auto simp: con_ok_def srv_ok_def)
  show ?thesis
  proof (cases "srv_event_len ?s < TRFB_EVENTS_QUEUE_LEN")
    case True
    from add_event_room [OF wf True, of ev] keep True show ?thesis
      by (auto simp: send_event_def on_srv_def trfb_server_add_event_def on_server_def
          event_delivered_def intro!: exI)
  next
    case False
    with wf have "srv_event_len ?s = TRFB_EVENTS_QUEUE_LEN" by (simp add: events_wf_def)
    from add_event_full [OF wf this, of ev] keep [OF wf refl] False show ?thesis
      by (auto simp: send_event_def on_srv_def trfb_server_add_event_def on_server_def
          event_delivered_def intro!: exI [of _ ?s])
  qed
qed

lemma others_act_cong:
  "th_srv t = th_srv th \<Longrightarrow> th_others t = th_others th \<Longrightarrow>
   th_srv (others_act t) = th_srv (others_act th)"
  by (simp add: others_act_def split: list.split)

lemma event_delivered_cong:
  "th_srv t = th_srv th \<Longrightarrow> th_others t = th_others th \<Longrightarrow>
   event_delivered ev t th' = event_delivered ev th th'"
  using others_act_cong [of t th] by (simp add: event_delivered_def)

text \<open>\<open>message th ins th'\<close>: a message of the client was taken in, nothing was sent.\<close>

definition message ::
  "'w read_fn \<Rightarrow> 'w write_fn \<Rightarrow> ('w \<Rightarrow> bytes) \<Rightarrow> ('w \<Rightarrow> bytes) \<Rightarrow> ('w \<Rightarrow> bool) \<Rightarrow>
   'w thread \<Rightarrow> bytes \<Rightarrow> 'w thread \<Rightarrow> bool" where
  "message rd wr inp outp full th ins th' \<longleftrightarrow>
     con_ok rd wr th' \<and> talks inp outp full th ins [] th'"

context full_transport
begin

abbreviation messageL :: "'w thread \<Rightarrow> bytes \<Rightarrow> 'w thread \<Rightarrow> bool" where
  "messageL \<equiv> message rd wr inp outp full"

lemma send_event_step:
  assumes t: "io_stepL th bs [] t"
  shows "safe (\<lambda>_ u. messageL th bs u \<and> event_delivered ev th u) E (send_event ev t)"
proof -
  obtain s' where s: "send_event ev t = Some (Done () ((others_act t)\<lparr>th_srv := s'\<rparr>))"
    "con_ok rd wr ((others_act t)\<lparr>th_srv := s'\<rparr>)" "event_delivered ev t ((others_act t)\<lparr>th_srv := s'\<rparr>)"
    using send_event_ok [OF io_step_ok [OF t]] by blast
  have "talks inp outp full th bs [] ((others_act t)\<lparr>th_srv := s'\<rparr>)"
    using t by (auto simp: io_step_def elim: talks_cong)
  with s t event_delivered_cong [of t th] show ?thesis
    by (simp add: message_def io_step_def only_io_def)
qed

lemma KeyEvent_safe:
  assumes ok: "con_ok rd wr th"
  shows "safe (\<lambda>_ t. \<exists>b. length b = 7 \<and> messageL th b t \<and>
      event_delivered (EvKey (b ! 0) (be32 (b ! 3) (b ! 4) (b ! 5) (b ! 6))) th t)
    (ended_after inp (\<lambda>b. length b < 7) th) (KeyEvent th)"
  unfolding KeyEvent_def
proof (rule read_all_step [OF io_step_self [OF ok]])
  fix bs u assume bs: "int (length bs) = 7" and "io_stepL th ([] @ bs) [] u"
  then have u: "io_stepL th bs [] u" by simp
  show "safe (\<lambda>_ t. \<exists>b. length b = 7 \<and> messageL th b t \<and>
      event_delivered (EvKey (b ! 0) (be32 (b ! 3) (b ! 4) (b ! 5) (b ! 6))) th t)
      (ended_after inp (\<lambda>b. length b < 7) th) (send_event (EvKey (bs ! 0) (be32 (bs ! 3) (bs ! 4) (bs ! 5) (bs ! 6))) u)"
    by (rule safe_mono [OF send_event_step [OF u]]) (use bs in auto)
qed (auto elim!: ended_after_mono)

lemma PointerEvent_safe:
  assumes ok: "con_ok rd wr th"
  shows "safe (\<lambda>_ t. \<exists>b. length b = 5 \<and> messageL th b t \<and>
      event_delivered (EvPointer (b ! 0) (be16 (b ! 1) (b ! 2)) (be16 (b ! 3) (b ! 4))) th t)
    (ended_after inp (\<lambda>b. length b < 5) th) (PointerEvent th)"
  unfolding PointerEvent_def
proof (rule read_all_step [OF io_step_self [OF ok]])
  fix bs u assume bs: "int (length bs) = 5" and "io_stepL th ([] @ bs) [] u"
  then have u: "io_stepL th bs [] u" by simp
  show "safe (\<lambda>_ t. \<exists>b. length b = 5 \<and> messageL th b t \<and>
      event_delivered (EvPointer (b ! 0) (be16 (b ! 1) (b ! 2)) (be16 (b ! 3) (b ! 4))) th t)
    (ended_after inp (\<lambda>b. length b < 5) th) (send_event (EvPointer (bs ! 0) (be16 (bs ! 1) (bs ! 2)) (be16 (bs ! 3) (bs ! 4))) u)"
    by (rule safe_mono [OF send_event_step [OF u]]) (use bs in auto)
qed (auto elim!: ended_after_mono)

lemma encodings_loop_safe:
  "io_stepL th I [] t \<Longrightarrow>
   safe (\<lambda>encs u. length encs = n \<and> (\<exists>b. length b = 4 * n \<and> io_stepL th (I @ b) [] u))
     (ended_after inp (\<lambda>b. \<exists>c. b = I @ c \<and> length c < 4 * n) th) (encodings_loop n t)"
proof (induction n arbitrary: I t)
  case 0
  then show ?case by simp
next
  case (Suc n)
  let ?R = "\<lambda>encs u. length encs = Suc n \<and> (\<exists>b. length b = 4 + 4 * n \<and> io_stepL th (I @ b) [] u)"
  let ?E = "ended_after inp (\<lambda>b. \<exists>c. b = I @ c \<and> length c < 4 + 4 * n) th"
  have next_one: "safe ?R ?E (andthen (encodings_loop n u) (\<lambda>encs th. Some (Done (enc # encs) th)))"
    if "length b = 4" and u: "io_stepL th (I @ b) [] u" for b u enc
  proof (rule safe_andthen [OF safe_mono [OF Suc.IH [OF u]]], assumption)
    show "?E v" if "ended_after inp (\<lambda>d. \<exists>c. d = (I @ b) @ c \<and> length c < 4 * n) th v" for v
      using that \<open>length b = 4\<close> by (auto elim!: ended_after_mono)
    fix encs :: "u16 list" and v assume "length encs = n \<and> (\<exists>c. length c = 4 * n \<and> io_stepL th ((I @ b) @ c) [] v)"
    then obtain c where "length encs = n" "length c = 4 * n" "io_stepL th (I @ b @ c) [] v" by auto
    with that(1) show "safe ?R ?E (Some (Done (enc # encs) v))"
      by (auto intro!: exI [of _ "b @ c"])
  qed
  have "safe (\<lambda>_ u. \<exists>b. length b = 4 \<and> io_stepL th (I @ b) [] u) ?E (trfb_connection_read_u32 t)"
    unfolding trfb_connection_read_u32_def
    by (rule read_all_step [OF Suc.prems]) (auto elim!: ended_after_mono)
  then have "safe ?R ?E (encodings_loop (Suc n) t)"
    unfolding encodings_loop.simps by (rule safe_andthen) (auto intro: next_one)
  then show ?case by simp
qed

lemma SetEncodings_safe:
  assumes ok: "con_ok rd wr th"
  shows "safe (\<lambda>_ t. \<exists>b c. length b = 3 \<and> length c = 4 * unat (be16 (b ! 1) (b ! 2)) \<and>
      io_stepL th (b @ c) [] t) (ended_after inp (cut_short 2) th) (SetEncodings th)"
  unfolding SetEncodings_def
proof (rule read_all_step [OF io_step_self [OF ok]])
  fix bs u assume "int (length bs) = 3" and "io_stepL th ([] @ bs) [] u"
  then have bs: "length bs = 3" and u: "io_stepL th bs [] u" by auto
  show "safe (\<lambda>_ t. \<exists>b c. length b = 3 \<and> length c = 4 * unat (be16 (b ! 1) (b ! 2)) \<and>
      io_stepL th (b @ c) [] t) (ended_after inp (cut_short 2) th)
      (encodings_loop (unat (be16 (bs ! 1) (bs ! 2))) u)"
    by (rule safe_mono [OF encodings_loop_safe [OF u]])
      (use bs in \<open>auto elim!: ended_after_mono intro: cut_short_encodings\<close>)
qed (auto elim!: ended_after_mono intro: cut_short_head)

end

text \<open>
  The block of a cut text: fresh, of one byte more than the length, with the text at its start.
\<close>

definition text_stored :: "u64 \<Rightarrow> bytes \<Rightarrow> 'w thread \<Rightarrow> 'w thread \<Rightarrow> bool" where
  "text_stored n msg th u \<longleftrightarrow>
     (\<exists>h. th_srv u = (th_srv th)\<lparr>srv_heap := h\<rparr> \<and> th_others u = th_others th \<and>
       (\<exists>rest. heap_blocks h = (heap_blocks (srv_heap (th_srv th)))
           (heap_next (srv_heap (th_srv th)) \<mapsto> msg @ rest) \<and> length (msg @ rest) = unat (n + 1)))"

lemma con_ok_heap:
  "con_ok rd wr th \<Longrightarrow> con_ok rd wr (th\<lparr>th_srv := (th_srv th)\<lparr>srv_heap := h\<rparr>\<rparr>)"
  by (simp add: con_ok_def srv_ok_def events_wf_def ring_slot_def)

context full_transport
begin

lemma read_all_upto:
  assumes "con_ok rd wr th"
  shows "safe (\<lambda>bs t. length bs = nat len \<and> io_stepL th bs [] t)
    (ended_after inp (\<lambda>b. length b < nat len) th) (trfb_connection_read_all len th)"
proof (cases "0 \<le> len")
  case True
  show ?thesis
    by (rule safe_mono [OF read_all_safe [OF assms True]]) (auto elim!: ended_after_mono)
next
  case False
  then have "trfb_connection_read_all len th = Some (Done [] th)"
    by (simp add: trfb_connection_read_all_def read_all_loop.simps)
  with False io_step_self [OF assms] show ?thesis by simp
qed

lemma ClientCutText_safe:
  assumes ok: "con_ok rd wr th"
  shows "safe (\<lambda>_ t. \<exists>b msg u. length b = 7 \<and> length msg = nat (sint (cut_length b)) \<and>
      messageL th (b @ msg) t \<and> text_stored (cut_length b) msg th u \<and>
      event_delivered (EvCutText (cut_length b) (Ptr (heap_next (srv_heap (th_srv th))))) u t)
    (ended_after inp (cut_short 6) th) (ClientCutText e th)"
  (is "safe ?R ?E _")
  unfolding ClientCutText_def cut_length_def [symmetric]
proof (rule read_all_step [OF io_step_self [OF ok]])
  fix b t assume "int (length b) = 7" and "io_stepL th ([] @ b) [] t"
  then have b: "length b = 7" and t: "io_stepL th b [] t" by auto
  let ?n = "cut_length b" and ?h = "srv_heap (th_srv th)"
  let ?a = "heap_next ?h"
  have srv: "th_srv t = th_srv th" "th_others t = th_others th" and talk: "talks inp outp full th b [] t"
    using t by (auto simp: io_step_def only_io_def)
  show "safe ?R ?E
      (let len = ?n; (p, h) = heap_alloc e (unat (len + 1)) (srv_heap (th_srv t));
           th = t\<lparr>th_srv := (th_srv t)\<lparr>srv_heap := h\<rparr>\<rparr>
       in case p of NULL \<Rightarrow> EXIT_THREAD StERROR th
          | Ptr a \<Rightarrow> andthen (trfb_connection_read_all (sint len) th) (\<lambda>text th.
              need (Option.bind (heap_blocks (srv_heap (th_srv th)) a) (\<lambda>mem. blit mem 0 text)) (\<lambda>mem.
                let h = srv_heap (th_srv th);
                    th = th\<lparr>th_srv := (th_srv th)\<lparr>srv_heap :=
                      h\<lparr>heap_blocks := (heap_blocks h)(a \<mapsto> mem)\<rparr>\<rparr>\<rparr>
                in send_event (EvCutText len p) th)))"
  proof (cases "malloc e (unat (?n + 1))")
    case NULL
    then have "heap_alloc e (unat (?n + 1)) ?h = (NULL, ?h)"
      by (simp add: heap_alloc_def)
    have "safe ?R ?E (EXIT_THREAD StERROR (t\<lparr>th_srv := (th_srv t)\<lparr>srv_heap := ?h\<rparr>\<rparr>))"
      by (rule EXIT_THREAD_safe [OF con_ok_heap [OF io_step_ok [OF t], of ?h]])
        (use b in \<open>auto intro!: talks_ended [OF talk] cut_short_head\<close>)
    with \<open>heap_alloc e (unat (?n + 1)) ?h = (NULL, ?h)\<close> show ?thesis
      by (simp add: srv Let_def)
  next
    case (Ptr mem)
    let ?h1 = "\<lparr>heap_blocks = (heap_blocks ?h)(?a \<mapsto> mem), heap_next = Suc ?a\<rparr>"
    let ?t1 = "t\<lparr>th_srv := (th_srv t)\<lparr>srv_heap := ?h1\<rparr>\<rparr>"
    have len: "length mem = unat (?n + 1)"
      using Ptr by (auto simp: malloc_def split: if_splits)
    have alloc: "heap_alloc e (unat (?n + 1)) ?h = (Ptr ?a, ?h1)"
      using Ptr by (simp add: heap_alloc_def)
    have ok1: "con_ok rd wr ?t1" by (rule con_ok_heap [OF io_step_ok [OF t]])
    have "safe ?R ?E (andthen (trfb_connection_read_all (sint ?n) ?t1) (\<lambda>text th.
              need (Option.bind (heap_blocks (srv_heap (th_srv th)) ?a) (\<lambda>mem. blit mem 0 text)) (\<lambda>mem.
                let h = srv_heap (th_srv th);
                    th = th\<lparr>th_srv := (th_srv th)\<lparr>srv_heap :=
                      h\<lparr>heap_blocks := (heap_blocks h)(?a \<mapsto> mem)\<rparr>\<rparr>\<rparr>
                in send_event (EvCutText ?n (Ptr ?a)) th)))"
    proof (rule safe_andthen [OF safe_mono [OF read_all_upto [OF ok1]]], assumption)
      have "talks inp outp full th b [] ?t1" using talk by (auto elim: talks_cong)
      then show "?E u" if "ended_after inp (\<lambda>c. length c < nat (sint ?n)) ?t1 u" for u
        using that b by (auto intro: cut_short_text elim!: ended_after_step)
      fix msg u assume "length msg = nat (sint ?n) \<and> io_stepL ?t1 msg [] u"
      then have msg: "length msg = nat (sint ?n)" and u: "io_stepL ?t1 msg [] u" by auto
      have srvu: "th_srv u = (th_srv th)\<lparr>srv_heap := ?h1\<rparr>" "th_others u = th_others th"
        using u srv by (auto simp: io_step_def only_io_def)
      have fits: "length msg \<le> length mem"
        using cut_length_small(1) [of b] msg len by (cases "0 \<le> sint ?n") auto
      let ?mem = "msg @ drop (length msg) mem"
      have blit: "blit mem 0 msg = Some ?mem" using fits by (simp add: blit_def)
      let ?v = "u\<lparr>th_srv := (th_srv u)\<lparr>srv_heap := ?h1\<lparr>heap_blocks := (heap_blocks ?h1)(?a \<mapsto> ?mem)\<rparr>\<rparr>\<rparr>"
      have okv: "con_ok rd wr ?v" by (rule con_ok_heap [OF io_step_ok [OF u]])
      from send_event_ok [OF okv, of "EvCutText ?n (Ptr ?a)"] obtain w where
        w: "send_event (EvCutText ?n (Ptr ?a)) ?v = Some (Done () ((others_act ?v)\<lparr>th_srv := w\<rparr>))"
        "con_ok rd wr ((others_act ?v)\<lparr>th_srv := w\<rparr>)"
        "event_delivered (EvCutText ?n (Ptr ?a)) ?v ((others_act ?v)\<lparr>th_srv := w\<rparr>)"
        by blast
      have stored: "text_stored ?n msg th ?v"
        unfolding text_stored_def using srvu fits len
        by (intro exI [of _ "?h1\<lparr>heap_blocks := (heap_blocks ?h1)(?a \<mapsto> ?mem)\<rparr>"]) auto
      have "talks inp outp full th b [] t" "talks inp outp full t msg [] u"
        using t u by (auto simp: io_step_def elim: talks_cong)
      then have "talks inp outp full th (b @ msg) [] u"
        using talks_trans [of inp outp full th b "[]" t msg "[]" u] by simp
      then have "messageL th (b @ msg) ((others_act ?v)\<lparr>th_srv := w\<rparr>)"
        using w(2) by (auto simp: message_def elim: talks_cong)
      with b msg w stored show "safe ?R ?E
          (need (Option.bind (heap_blocks (srv_heap (th_srv u)) ?a) (\<lambda>mem. blit mem 0 msg)) (\<lambda>mem.
                let h = srv_heap (th_srv u);
                    th = u\<lparr>th_srv := (th_srv u)\<lparr>srv_heap :=
                      h\<lparr>heap_blocks := (heap_blocks h)(?a \<mapsto> mem)\<rparr>\<rparr>\<rparr>
                in send_event (EvCutText ?n (Ptr ?a)) th))"
        by (auto simp: srvu blit Let_def)
    qed
    then show ?thesis by (simp add: srv alloc Let_def)
  qed
qed (auto elim!: ended_after_mono intro: cut_short_head)
end

lemma srv_ok_fb:
  "con_ok rd wr th \<Longrightarrow> \<exists>fb. srv_fb (th_srv (others_act th)) = Ptr fb \<and> fb_lock fb = MtxFree \<and> fb_small fb"
  using others_act_ok [of rd wr th] by (auto simp: con_ok_def srv_ok_def)

lemma srv_ok_updated [simp]: "srv_ok (s\<lparr>srv_updated := n\<rparr>) = srv_ok s"
  by (simp add: srv_ok_def events_wf_def ring_slot_def)

text \<open>A change of the connection while the server's framebuffer was locked for it.\<close>

definition after_lock :: "('w trfb_connection \<Rightarrow> 'w trfb_connection) \<Rightarrow> 'w thread \<Rightarrow> 'w thread" where
  "after_lock g th = (with_con g (others_act th))
     \<lparr>th_srv := (th_srv (others_act th))\<lparr>srv_updated := srv_updated (th_srv (others_act th)) + 1\<rparr>\<rparr>"

lemma srv_locked_set:
  assumes fb: "srv_fb (th_srv (others_act th)) = Ptr fb" "fb_lock fb = MtxFree"
    and f: "\<And>t. th_con t = th_con th \<Longrightarrow> f (Ptr (fb\<lparr>fb_lock := MtxHeld\<rparr>)) t = Some (Done r (with_con g t))"
  shows "srv_locked f th = Some (Done r (after_lock g th))"
proof -
  have "srv_locked f th = Some (Done r ((with_con g
      ((others_act th)\<lparr>th_srv := (th_srv (others_act th))\<lparr>srv_fb := Ptr (fb\<lparr>fb_lock := MtxHeld\<rparr>),
        srv_updated := srv_updated (th_srv (others_act th)) + 1\<rparr>\<rparr>))
      \<lparr>th_srv := (th_srv (others_act th))\<lparr>srv_updated := srv_updated (th_srv (others_act th)) + 1\<rparr>\<rparr>))"
    by (rule srv_locked_eq [OF fb], rule f) (simp_all add: with_con_def)
  then show ?thesis by (simp add: after_lock_def with_con_def)
qed

lemma after_lock_simps [simp]:
  "th_con (after_lock g th) = g (th_con th)"
  "srv_fb (th_srv (after_lock g th)) = srv_fb (th_srv (others_act th))"
  by (simp_all add: after_lock_def with_con_def th_io_def)

lemma after_lock_ok:
  assumes "con_ok rd wr th" and "con_io (g (th_con th)) = con_io (th_con th)"
    and "con_lock (g (th_con th)) = con_lock (th_con th)"
    and "\<And>fb. con_fb (g (th_con th)) = Ptr fb \<Longrightarrow> fb_small fb \<and> fb_lock fb \<noteq> MtxRaw"
  shows "con_ok rd wr (after_lock g th)"
  using others_act_ok [OF assms(1)] assms(2-4)
  by (simp add: con_ok_def after_lock_def with_con_def)

context full_transport
begin

lemma free_held: "con_ok rd wr th \<Longrightarrow> fb_free_ok True (con_fb (th_con th))"
  by (cases "con_fb (th_con th)"; cases "fb_lock (deref (con_fb (th_con th)))") (auto simp: con_ok_def)

lemma SetPixelFormat_safe:
  assumes ok: "con_ok rd wr th" and fine: "shifts_fine (io_pending inp (th_io th))"
    and free: "fb_free_ok (destroy_held e) (con_fb (th_con th))"
  shows "safe (\<lambda>_ t. \<exists>b fb sfb. length b = 19 \<and> messageL th b t \<and> con_fb (th_con t) = Ptr fb \<and>
      srv_fb (th_srv t) = Ptr sfb \<and>
      con_format (th_con t) = (wire_format (drop 3 b))\<lparr>fmt_bpp := b ! 3 div 8\<rparr> \<and>
      fresh_of_format (con_format (th_con t)) (fb_width sfb) (fb_width sfb) fb)
    (ended_after inp (\<lambda>b. length b \<le> 19) th) (SetPixelFormat e th)"
  (is "safe ?R ?E _")
  unfolding SetPixelFormat_def
proof (rule read_all_step [OF io_step_self [OF ok]])
  fix b t assume "int (length b) = 19" and "io_stepL th ([] @ b) [] t"
  then have b: "length b = 19" and t: "io_stepL th b [] t" by auto
  let ?fmt = "wire_format (drop 3 b)"
  let ?t = "with_con (con_format_update (\<lambda>_. ?fmt)) t"
  have ok': "con_ok rd wr ?t" "th_io ?t = th_io t"
    using io_step_ok [OF t] by (simp_all add: con_ok_def with_con_def th_io_def)
  obtain sfb where sfb: "srv_fb (th_srv (others_act ?t)) = Ptr sfb" "fb_lock sfb = MtxFree" "fb_small sfb"
    using srv_ok_fb [OF ok'(1)] by blast
  have "io_pending inp (th_io th) = b @ io_pending inp (th_io t)"
    using t by (simp add: io_step_def talks_def)
  with fine b have sh: "b ! 13 < 32" "b ! 14 < 32" "b ! 15 < 32"
    by (simp_all add: shifts_fine_def nth_append)
  have shifts: "unat (fmt_rshift ?fmt) < 32" "unat (fmt_gshift ?fmt) < 32" "unat (fmt_bshift ?fmt) < 32"
    using sh b by (simp_all add: wire_format_def word_less_nat_alt)
  have w: "0 < fb_width sfb" "fb_width sfb \<le> 0x7fff" using sfb(3) by (simp_all add: fb_small_def)
  have bpp: "fmt_bpp ?fmt = b ! 3" using b by (simp add: wire_format_def)
  let ?fmt' = "?fmt\<lparr>fmt_bpp := b ! 3 div 8\<rparr>"
  obtain p where p: "trfb_framebuffer_create_of_format e (fb_width sfb) (fb_width sfb) (Ptr ?fmt) = Some (p, Ptr ?fmt')"
    and pfb: "p = NULL \<or> (\<exists>fb. p = Ptr fb \<and> fresh_of_format ?fmt' (fb_width sfb) (fb_width sfb) fb)"
    using create_of_format_fresh [OF shifts, of e "fb_width sfb" "fb_width sfb"] unfolding bpp by blast
  have small: "fb_small fb \<and> fb_lock fb \<noteq> MtxRaw" if "p = Ptr fb" for fb
    using pfb that fresh_small [OF _ w w] by (metis fresh_of_format_def mtx.distinct(1) ptr.distinct(1) ptr.inject)
  let ?g = "con_fb_update (\<lambda>_. p) \<circ> con_format_update (\<lambda>_. ?fmt')"
  let ?u = "after_lock ?g ?t"
  let ?f = "\<lambda>sfb th. case sfb of NULL \<Rightarrow> Some Undef
     | Ptr fb \<Rightarrow> need (trfb_framebuffer_create_of_format e (fb_width fb) (fb_width fb)
         (Ptr (con_format (th_con th)))) (\<lambda>(p, fmt).
           Some (Done () (with_con (con_fb_update (\<lambda>_. p)) (with_con
             (con_format_update (\<lambda>_. deref fmt)) th))))"
  have "srv_locked ?f ?t = Some (Done () ?u)"
    by (rule srv_locked_set [OF sfb(1,2)]) (simp add: p with_con_def)
  moreover have oku: "con_ok rd wr ?u"
    by (rule after_lock_ok [OF ok'(1)]) (use small in \<open>auto simp: with_con_def\<close>)
  moreover have io: "th_io ?u = th_io t" by (simp add: th_io_def with_con_def)
  moreover have "messageL th b ?u"
    using oku t io by (auto simp: message_def io_step_def elim: talks_cong)
  moreover have "talks inp outp full th b [] ?u"
    using t io by (auto simp: io_step_def elim: talks_cong)
  then have "safe ?R ?E (EXIT_THREAD StERROR ?u)"
    by (intro EXIT_THREAD_safe [OF oku]) (auto simp: b elim: talks_ended)
  moreover have "fb_free_ok (destroy_held e) (con_fb (th_con ?t))"
    using free t by (simp add: io_step_def only_io_def with_con_def)
  ultimately show "safe ?R ?E (let th = ?t in
      if con_fb (th_con th) \<noteq> NULL \<and> \<not> fb_free_ok (destroy_held e) (con_fb (th_con th)) then Some Undef
      else andthen (srv_locked ?f th) (\<lambda>_ th.
         if con_fb (th_con th) = NULL then EXIT_THREAD StERROR th else Some (Done () th)))"
    using pfb b sfb(1) by (auto simp: with_con_def)
qed (auto elim!: ended_after_mono)

text \<open>The release of a framebuffer that may not be released.\<close>

lemma SetPixelFormat_undef:
  assumes "trfb_connection_read_all 19 th = Some (Done b t)"
    and "\<not> fb_free_ok (destroy_held e) (con_fb (th_con t))"
  shows "SetPixelFormat e th = Some Undef"
  using assms by (cases "con_fb (th_con t)") (simp_all add: SetPixelFormat_def Let_def with_con_def)
end

text \<open>
  The answer to the update request \<open>b\<close>: nothing when the corner is outside, and otherwise the header
  with the clamped rectangle, followed by all pixels of the framebuffer \<open>fb\<close>, which shows the
  server's framebuffer \<open>src\<close> in byte order \<open>be\<close>.
\<close>

definition update_answer ::
  "cenv \<Rightarrow> bool \<Rightarrow> bytes \<Rightarrow> trfb_framebuffer \<Rightarrow> trfb_framebuffer \<Rightarrow> bytes \<Rightarrow> bool" where
  "update_answer e be b fb src outs \<longleftrightarrow>
     (let x = be16 (b ! 1) (b ! 2); y = be16 (b ! 3) (b ! 4);
          w = min (fb_width src) (be16 (b ! 5) (b ! 6)); h = min (fb_height src) (be16 (b ! 7) (b ! 8)) in
      if w < x \<or> h < y then outs = []
      else outs = update_header x y w h @ fb_pixels fb \<and> shows_of e be fb src)"

text \<open>
  The format of the framebuffer that answers a client: that of its framebuffer, and that of the server's
  one when it has none.
\<close>

definition client_format :: "'w thread \<Rightarrow> trfb_framebuffer \<Rightarrow> bool" where
  "client_format th fb \<longleftrightarrow>
     (case con_fb (th_con th) of
        Ptr old \<Rightarrow> same_format fb old
      | NULL \<Rightarrow> (\<exists>sfb. srv_fb (th_srv (others_act th)) = Ptr sfb \<and> same_format fb sfb))"

lemma client_format_cong:
  "con_fb (th_con t) = con_fb (th_con th) \<Longrightarrow> th_srv t = th_srv th \<Longrightarrow> th_others t = th_others th \<Longrightarrow>
   client_format t = client_format th"
  using others_act_cong [of t th] by (intro ext) (simp add: client_format_def cong: ptr.case_cong)

lemma shows_of_lock: "shows_of e be fb (src\<lparr>fb_lock := m\<rparr>) = shows_of e be fb src"
proof -
  have px: "trfb_framebuffer_get_pixel e (src\<lparr>fb_lock := m\<rparr>) x y = trfb_framebuffer_get_pixel e src x y"
    for x y
    by (simp add: trfb_framebuffer_get_pixel_def trfb_fb_get_pixel_def pixel_index_def pixel_color_def)
  have "in_fb (src\<lparr>fb_lock := m\<rparr>) x y = in_fb src x y" for x y
    by (simp add: in_fb_def)
  moreover have "same_format fb (src\<lparr>fb_lock := m\<rparr>) = same_format fb src"
    by (simp add: same_format_def)
  ultimately show ?thesis by (simp add: shows_of_def px)
qed

lemma fb_small_free: "fb_small fb \<Longrightarrow> fb_small (fb\<lparr>fb_free_pixels := fp\<rparr>)"
  using fb_normed_frame [where fb = fb and l = "fb_lock fb" and fp = fp and px = "fb_pixels fb" and
      w = "fb_width fb" and h = "fb_height fb"]
  by (simp add: fb_small_def fb_wf_def fb_shape_def fb_shifts_def)

lemma length_update_header [simp]: "length (update_header x y w h) = 16"
  by (simp add: update_header_def)

lemma th_io_con_fb [simp]: "th_io (with_con (con_fb_update f) th) = th_io th"
  by (simp add: th_io_def with_con_def)

lemma con_ok_set_fb:
  "con_ok rd wr th \<Longrightarrow> fb_small fb \<Longrightarrow> fb_lock fb \<noteq> MtxRaw \<Longrightarrow> con_ok rd wr (with_con (con_fb_update (\<lambda>_. Ptr fb)) th)"
  by (simp add: con_ok_def with_con_def)

context full_transport
begin

lemma update_copy_safe:
  assumes ok: "con_ok rd wr th"
  shows "safe (\<lambda>_ t. con_ok rd wr t \<and> th_io t = th_io th \<and> con_format (th_con t) = con_format (th_con th) \<and>
      (\<exists>fb. con_fb (th_con t) = Ptr fb \<and> client_format th fb)) (quits inp th) (update_copy e th)"
  (is "safe ?R ?E _")
proof (cases "con_fb (th_con th) = NULL")
  case False
  then obtain fb where "con_fb (th_con th) = Ptr fb" by (cases "con_fb (th_con th)") auto
  with ok show ?thesis by (simp add: update_copy_def client_format_def same_format_def)
next
  case True
  obtain sfb where sfb: "srv_fb (th_srv (others_act th)) = Ptr sfb" "fb_lock sfb = MtxFree" "fb_small sfb"
    using srv_ok_fb [OF ok] by blast
  then have held: "fb_small (sfb\<lparr>fb_lock := MtxHeld\<rparr>)" by simp
  from copy_small [OF this, of e] obtain p
    where p: "trfb_framebuffer_copy e (sfb\<lparr>fb_lock := MtxHeld\<rparr>) = Some p"
      "p = NULL \<or> (\<exists>fp. p = Ptr (sfb\<lparr>fb_lock := MtxHeld, fb_free_pixels := fp\<rparr>))"
    by blast
  have small: "fb_small fb \<and> fb_lock fb = MtxHeld \<and> same_format fb sfb" if "p = Ptr fb" for fb
    using p(2) that fb_small_free [OF held] by (auto simp: same_format_def)
  let ?u = "after_lock (con_fb_update (\<lambda>_. p)) th"
  have "srv_locked (\<lambda>sfb th. (case sfb of
               NULL \<Rightarrow> Some Undef
             | Ptr fb \<Rightarrow> need (trfb_framebuffer_copy e fb) (\<lambda>p.
                 Some (Done () (with_con (con_fb_update (\<lambda>_. p)) th))))) th = Some (Done () ?u)"
    by (rule srv_locked_set [OF sfb(1,2)]) (simp add: p(1))
  moreover have oku: "con_ok rd wr ?u"
    by (rule after_lock_ok [OF ok]) (use small in auto)
  moreover have io: "th_io ?u = th_io th" by (simp add: th_io_def)
  moreover have "safe ?R ?E (EXIT_THREAD StERROR ?u)"
    by (rule EXIT_THREAD_safe [OF oku]) (simp_all add: io ended_after_def)
  moreover have "?R () ?u" if "p \<noteq> NULL"
    using that oku io small True sfb(1) by (cases p) (auto simp: client_format_def)
  ultimately show ?thesis using True by (auto simp: update_copy_def)
qed

lemma update_convert_safe:
  assumes ok: "con_ok rd wr th" and dst: "con_fb (th_con th) = Ptr dst"
  shows "safe (\<lambda>_ t. con_ok rd wr t \<and> th_io t = th_io th \<and> con_format (th_con t) = con_format (th_con th) \<and>
      (\<exists>fb src. con_fb (th_con t) = Ptr fb \<and> srv_fb (th_srv t) = Ptr src \<and> same_format fb dst \<and>
        shows_of e (host_be e) fb src)) (quits inp th) (update_convert e th)"
  (is "safe ?R ?E _")
proof -
  obtain src where src: "srv_fb (th_srv (others_act th)) = Ptr src" "fb_lock src = MtxFree" "fb_small src"
    using srv_ok_fb [OF ok] by blast
  have small: "fb_small dst" "fb_small (src\<lparr>fb_lock := MtxHeld\<rparr>)" "fb_lock dst \<noteq> MtxRaw"
    using ok dst src by (auto simp: con_ok_def)
  from convert_small [OF this(1,2), of e] obtain r dst'
    where conv: "trfb_framebuffer_convert e (Ptr dst) (Ptr (src\<lparr>fb_lock := MtxHeld\<rparr>)) = Some (r, Ptr dst')"
      "fb_small dst'" "r = 0 \<longrightarrow> shows_of e (host_be e) dst' (src\<lparr>fb_lock := MtxHeld\<rparr>)"
      "same_format dst' dst" "fb_lock dst' = fb_lock dst"
    by blast
  have shown: "r = 0 \<longrightarrow> shows_of e (host_be e) dst' src"
    using conv(3) by (simp add: shows_of_lock)
  let ?u = "after_lock (con_fb_update (\<lambda>_. Ptr dst')) th"
  have "srv_locked (\<lambda>sfb th.
         need (trfb_framebuffer_convert e (con_fb (th_con th)) sfb) (\<lambda>(r, p).
           Some (Done r (with_con (con_fb_update (\<lambda>_. p)) th)))) th = Some (Done r ?u)"
    by (rule srv_locked_set [OF src(1,2)]) (simp add: dst conv(1))
  moreover have oku: "con_ok rd wr ?u"
    by (rule after_lock_ok [OF ok]) (use conv small in auto)
  moreover have io: "th_io ?u = th_io th" by (simp add: th_io_def)
  moreover have "safe ?R ?E (EXIT_THREAD StERROR ?u)"
    by (rule EXIT_THREAD_safe [OF oku]) (simp_all add: io ended_after_def)
  ultimately show ?thesis using shown conv(4) src(1) by (auto simp: update_convert_def)
qed

text \<open>Two writes, one after the other, and what is done once the framebuffer of the client shows that of the server.\<close>

lemma write_both_safe:
  assumes ok: "con_ok rd wr u" and hdr: "length hdr = 16"
  shows "safe (\<lambda>_ v. io_stepL u [] (hdr @ px) v) (quits inp u)
    (andthen (trfb_connection_write_all hdr 16 u) (\<lambda>_ th. trfb_connection_write_all px (int (length px)) th))"
proof (rule write_all_step [OF io_step_self [OF ok]])
  fix v assume "io_stepL u [] ([] @ take (nat 16) hdr) v"
  then have v: "io_stepL u [] hdr v" using hdr by simp
  show "safe (\<lambda>_ v. io_stepL u [] (hdr @ px) v) (quits inp u) (trfb_connection_write_all px (int (length px)) v)"
    by (rule safe_mono [OF write_all_safe [OF io_step_ok [OF v]]])
      (use io_step_trans [OF v] io_step_quit [OF v] in fastforce)+
qed (use hdr in simp_all)

lemma update_answer_safe:
  assumes v: "con_ok rd wr v" "talks inp outp full th b [] v" "con_format (th_con v) = con_format (th_con th)"
    and fb: "con_fb (th_con v) = Ptr fb" "srv_fb (th_srv v) = Ptr src" "shows_of e (host_be e) fb src"
    and cf: "client_format th fb" and b: "length b = 9"
  shows "safe (\<lambda>_ t. con_ok rd wr t \<and> (\<exists>fb src outs. talks inp outp full th b outs t \<and>
      con_fb (th_con t) = Ptr fb \<and> srv_fb (th_srv t) = Ptr src \<and> client_format th fb \<and>
      update_answer e (fmt_big_endian (con_format (th_con th)) \<noteq> 0) b fb src outs))
    (ended_after inp (\<lambda>b. length b \<le> 9) th)
    (let width = (if fb_width fb < be16 (b ! 5) (b ! 6) then fb_width fb else be16 (b ! 5) (b ! 6));
         height = (if fb_height fb < be16 (b ! 7) (b ! 8) then fb_height fb else be16 (b ! 7) (b ! 8)) in
     if width < be16 (b ! 1) (b ! 2) \<or> height < be16 (b ! 3) (b ! 4) then Some (Done () v)
     else need (trfb_framebuffer_endian e (Ptr fb) (fmt_big_endian (con_format (th_con v)) \<noteq> 0))
       (\<lambda>p. let th = with_con (con_fb_update (\<lambda>_. p)) v; fb = deref p in
         andthen (trfb_connection_write_all (update_header (be16 (b ! 1) (b ! 2)) (be16 (b ! 3) (b ! 4)) width height) 16 th) (\<lambda>_ th.
           trfb_connection_write_all (fb_pixels fb)
             (int (fb_bytes (fb_width fb) (fb_height fb) (fb_bpp fb))) th)))"
    (is "safe ?R ?E _")
proof -
  let ?x = "be16 (b ! 1) (b ! 2)" and ?y = "be16 (b ! 3) (b ! 4)"
  let ?w = "be16 (b ! 5) (b ! 6)" and ?h = "be16 (b ! 7) (b ! 8)"
  let ?be = "fmt_big_endian (con_format (th_con th)) \<noteq> 0"
  let ?W = "min (fb_width src) ?w" and ?H = "min (fb_height src) ?h"
  have dims: "fb_width fb = fb_width src" "fb_height fb = fb_height src"
    using fb(3) by (simp_all add: shows_of_def)
  have clamp: "(if fb_width fb < ?w then fb_width fb else ?w) = ?W" "(if fb_height fb < ?h then fb_height fb else ?h) = ?H"
    by (auto simp: dims min_def)
  show ?thesis
  proof (cases "?W < ?x \<or> ?H < ?y")
    case True
    then have "update_answer e ?be b fb src []" by (simp add: update_answer_def)
    with v fb cf have "?R () v" by blast
    with True show ?thesis unfolding clamp Let_def by simp
  next
    case False
    have small: "fb_small fb" "fb_lock fb \<noteq> MtxRaw" using v(1) fb(1) by (simp_all add: con_ok_def)
    obtain px where px: "trfb_framebuffer_endian e (Ptr fb) ?be = Some (Ptr (fb\<lparr>fb_pixels := px\<rparr>))"
      "fb_small (fb\<lparr>fb_pixels := px\<rparr>)" "shows_of e ?be (fb\<lparr>fb_pixels := px\<rparr>) src"
      using endian_small [OF small(1) fb(3)] by blast
    let ?fb = "fb\<lparr>fb_pixels := px\<rparr>" and ?hd = "update_header ?x ?y ?W ?H"
    let ?u = "with_con (con_fb_update (\<lambda>_. Ptr ?fb)) v"
    have u: "con_ok rd wr ?u" "th_io ?u = th_io v" "con_fb (th_con ?u) = Ptr ?fb" "srv_fb (th_srv ?u) = Ptr src"
      using con_ok_set_fb [OF v(1) px(2)] small(2) fb(2) by (simp_all add: with_con_def th_io_def)
    have talk: "talks inp outp full th b [] ?u" using v(2) u(2) by (auto elim: talks_cong)
    have answer: "update_answer e ?be b ?fb src (?hd @ px)" using False px(3) by (simp add: update_answer_def)
    have format: "client_format th ?fb" using cf by (auto simp: client_format_def split: ptr.splits)
    have answered: "?R () t" if t: "io_stepL ?u [] (?hd @ px) t" for t
    proof -
      have "talks inp outp full th (b @ []) ([] @ (?hd @ px)) t"
        using talk t by (intro talks_trans [of _ _ _ th _ _ ?u]) (auto simp: io_step_def)
      moreover have "con_fb (th_con t) = Ptr ?fb" "srv_fb (th_srv t) = Ptr src" "con_ok rd wr t"
        using t u by (simp_all add: io_step_def only_io_def)
      ultimately show ?thesis using answer format by auto
    qed
    have gone: "?E t" if "quits inp ?u t" for t
      using that b by (auto elim!: ended_after_step [OF talk])
    have "safe ?R ?E (andthen (trfb_connection_write_all ?hd 16 ?u) (\<lambda>_ th.
        trfb_connection_write_all px (int (length px)) th))"
      by (rule safe_mono [OF write_both_safe [OF u(1)]]) (use answered gone in simp_all)
    moreover have "fb_bytes (fb_width ?fb) (fb_height ?fb) (fb_bpp ?fb) = length px"
      using fb_small_bytes [OF px(2)] by simp
    ultimately show ?thesis
      unfolding clamp Let_def using False px(1) v(3) by simp
  qed
qed

lemma UpdateRequest_safe:
  assumes ok: "con_ok rd wr th"
  shows "safe (\<lambda>_ t. con_ok rd wr t \<and> (\<exists>b fb src outs. length b = 9 \<and> talks inp outp full th b outs t \<and>
      con_fb (th_con t) = Ptr fb \<and> srv_fb (th_srv t) = Ptr src \<and> client_format th fb \<and>
      update_answer e (fmt_big_endian (con_format (th_con th)) \<noteq> 0) b fb src outs))
    (ended_after inp (\<lambda>b. length b \<le> 9) th) (UpdateRequest e th)"
  (is "safe ?R ?E _")
  unfolding UpdateRequest_def Let_def [of "be16 _ _"]
proof (rule read_all_step [OF io_step_self [OF ok]])
  fix b t assume "int (length b) = 9" and "io_stepL th ([] @ b) [] t"
  then have b: "length b = 9" and t: "io_stepL th b [] t" by auto
  have fmt: "con_format (th_con t) = con_format (th_con th)" and io: "talks inp outp full th b [] t"
    and cf: "client_format t = client_format th"
    using t client_format_cong [of t th] by (simp_all add: io_step_def only_io_def)
  have gone: "?E u" if "quits inp s u" "th_io s = th_io t" for s u
    using that b io by (auto simp: ended_after_def talks_def)
  show "safe ?R ?E (andthen (update_copy e t) (\<lambda>_ th. andthen (update_convert e th) (\<lambda>_ th.
      case con_fb (th_con th) of NULL \<Rightarrow> Some Undef
      | Ptr fb \<Rightarrow>
          let width = (if fb_width fb < be16 (b ! 5) (b ! 6) then fb_width fb else be16 (b ! 5) (b ! 6));
              height = (if fb_height fb < be16 (b ! 7) (b ! 8) then fb_height fb else be16 (b ! 7) (b ! 8)) in
          if width < be16 (b ! 1) (b ! 2) \<or> height < be16 (b ! 3) (b ! 4) then Some (Done () th)
          else need (trfb_framebuffer_endian e (Ptr fb) (fmt_big_endian (con_format (th_con th)) \<noteq> 0))
            (\<lambda>p. let th = with_con (con_fb_update (\<lambda>_. p)) th; fb = deref p in
              andthen (trfb_connection_write_all (update_header (be16 (b ! 1) (b ! 2)) (be16 (b ! 3) (b ! 4)) width height) 16 th) (\<lambda>_ th.
                trfb_connection_write_all (fb_pixels fb)
                  (int (fb_bytes (fb_width fb) (fb_height fb) (fb_bpp fb))) th)))))"
    (is "safe _ _ (andthen _ (\<lambda>_ th. andthen _ (\<lambda>_ th. ?rest th)))")
  proof (rule safe_andthen [OF safe_mono [OF update_copy_safe [OF io_step_ok [OF t]]]], assumption)
    show "?E u" if "quits inp t u" for u using gone [OF that] by simp
    fix u assume u: "con_ok rd wr u \<and> th_io u = th_io t \<and> con_format (th_con u) = con_format (th_con t) \<and>
      (\<exists>fb. con_fb (th_con u) = Ptr fb \<and> client_format t fb)"
    then obtain dst where dst: "con_fb (th_con u) = Ptr dst" "client_format th dst" using cf by auto
    show "safe ?R ?E (andthen (update_convert e u) (\<lambda>_ th. ?rest th))"
    proof (rule safe_andthen [OF safe_mono [OF update_convert_safe [OF _ dst(1)]]])
      show "?E v" if "quits inp u v" for v using gone [OF that] u by simp
      fix v assume "con_ok rd wr v \<and> th_io v = th_io u \<and> con_format (th_con v) = con_format (th_con u) \<and>
        (\<exists>fb src. con_fb (th_con v) = Ptr fb \<and> srv_fb (th_srv v) = Ptr src \<and> same_format fb dst \<and> shows_of e (host_be e) fb src)"
      then obtain fb src where v: "con_ok rd wr v" "th_io v = th_io u" "con_format (th_con v) = con_format (th_con u)"
        and fb: "con_fb (th_con v) = Ptr fb" "srv_fb (th_srv v) = Ptr src" "shows_of e (host_be e) fb src"
        and same: "same_format fb dst" by blast
      have cfb: "client_format th fb"
        using dst(2) same by (auto simp: client_format_def same_format_def split: ptr.splits)
      have talk: "talks inp outp full th b [] v" using io u v(2) by (auto elim: talks_cong)
      have "con_format (th_con v) = con_format (th_con th)" using v(3) u fmt by simp
      show "safe ?R ?E (?rest v)"
        unfolding fb(1) ptr.case
        by (rule safe_mono [OF update_answer_safe [OF v(1) talk \<open>con_format (th_con v) = con_format (th_con th)\<close> fb cfb b]])
          (use b in auto)
    qed (use u in simp)
  qed
qed (auto elim!: ended_after_mono)
end

section \<open>The whole thread\<close>

text \<open>A whole message of type \<open>ty\<close> was taken in.\<close>

definition handled :: "'w read_fn \<Rightarrow> 'w write_fn \<Rightarrow> ('w \<Rightarrow> bytes) \<Rightarrow> u8 \<Rightarrow> 'w thread \<Rightarrow> 'w thread \<Rightarrow> bool" where
  "handled rd wr inp ty th th' \<longleftrightarrow> con_ok rd wr th' \<and>
     (\<exists>b evs. wire ty b evs \<and> io_pending inp (th_io th) = b @ io_pending inp (th_io th'))"

lemma handled_polite:
  "handled rd wr inp ty th th' \<Longrightarrow> polite_row (ty # io_pending inp (th_io th)) \<Longrightarrow>
   polite_row (io_pending inp (th_io th'))"
  by (auto simp: handled_def intro: polite_next)

context full_transport
begin

lemma handled_by:
  "safe R E m \<Longrightarrow> (\<And>a t. R a t \<Longrightarrow> handled rd wr inp ty th t) \<Longrightarrow> (\<And>t. E t \<Longrightarrow> E' t) \<Longrightarrow>
   safe (\<lambda>_ t. handled rd wr inp ty th t) E' m"
  by (erule safe_mono) simp_all

lemma handledI:
  "con_ok rd wr t \<Longrightarrow> talks inp outp full th b outs t \<Longrightarrow> wire ty b evs \<Longrightarrow> handled rd wr inp ty th t"
  unfolding handled_def talks_def by blast

lemma process_safe:
  assumes ok: "con_ok rd wr th" and process: "map_of (msg_types e) ty = Some f"
    and fine: "ty = 0 \<Longrightarrow> shifts_fine (io_pending inp (th_io th))"
    and free: "ty = 0 \<Longrightarrow> fb_free_ok (destroy_held e) (con_fb (th_con th))"
  shows "safe (\<lambda>_ t. handled rd wr inp ty th t) (ended_after inp (cut_short ty) th) (f th)"
proof -
  consider "ty = 0" "f = SetPixelFormat e" | "ty = 2" "f = ignore_result SetEncodings"
    | "ty = 3" "f = UpdateRequest e" | "ty = 4" "f = KeyEvent" | "ty = 5" "f = PointerEvent"
    | "ty = 6" "f = ClientCutText e"
    using process by (auto simp: msg_types_def split: if_splits)
  then show ?thesis
  proof cases
    case 1
    show ?thesis unfolding 1
      by (rule handled_by [OF SetPixelFormat_safe [OF ok fine [OF 1(1)] free [OF 1(1)]]])
        (auto simp: message_def intro: handledI wire.pixel_format cut_short_fixed elim: ended_after_mono)
  next
    case 2
    have "safe (\<lambda>_ t. handled rd wr inp 2 th t) (ended_after inp (cut_short 2) th) (ignore_result SetEncodings th)"
      unfolding ignore_result_def
      by (rule safe_andthen [OF handled_by [OF SetEncodings_safe [OF ok]]])
        (auto simp: io_step_def simp del: One_nat_def intro: handledI wire.encodings)
    with 2 show ?thesis by simp
  next
    case 3
    show ?thesis unfolding 3
      by (rule handled_by [OF UpdateRequest_safe [OF ok]])
        (auto intro: handledI wire.update_request cut_short_fixed elim: ended_after_mono)
  next
    case 4
    show ?thesis unfolding 4
      by (rule handled_by [OF KeyEvent_safe [OF ok]])
        (auto simp: message_def intro: handledI wire.key cut_short_fixed elim: ended_after_mono)
  next
    case 5
    show ?thesis unfolding 5
      by (rule handled_by [OF PointerEvent_safe [OF ok]])
        (auto simp: message_def intro: handledI wire.pointer cut_short_fixed elim: ended_after_mono)
  next
    case 6
    show ?thesis unfolding 6
      by (rule handled_by [OF ClientCutText_safe [OF ok]])
        (auto simp: message_def intro: handledI wire.cut_text)
  qed
qed

lemma connection_loop_safe:
  assumes "con_ok rd wr th" and "polite_row (io_pending inp (th_io th))" and "destroy_held e"
  shows "safe (\<lambda>_ _. False) ended (connection_loop e th)"
proof (rule safe_some)
  fix y assume "connection_loop e th = Some y"
  then have "con_ok rd wr th \<longrightarrow> polite_row (io_pending inp (th_io th)) \<longrightarrow> destroy_held e \<longrightarrow>
    safe (\<lambda>_ _. False) ended (Some y)"
  proof (rule connection_loop.raw_induct [rotated], intro impI)
    fix f :: "cenv \<Rightarrow> 'w thread \<Rightarrow> ('w thread, unit) outcome option" and e th y
    assume IH: "\<And>e th y. f e th = Some y \<Longrightarrow> con_ok rd wr th \<longrightarrow>
        polite_row (io_pending inp (th_io th)) \<longrightarrow> destroy_held e \<longrightarrow> safe (\<lambda>_ _. False) ended (Some y)"
      and body: "andthen (check_stopped th) (\<lambda>_ th.
     andthen (trfb_connection_read 1 th) (\<lambda>r th.
       if fst r < 0 then EXIT_THREAD StERROR th
       else if fst r = 1 then
         andthen (case map_of (msg_types e) (snd r ! 0) of
             None \<Rightarrow> EXIT_THREAD StERROR th
           | Some process \<Rightarrow> process th) (\<lambda>_ th. f e th)
       else f e th)) = Some y"
      and ok: "con_ok rd wr th" and pol: "polite_row (io_pending inp (th_io th))" and lax: "destroy_held e"
    have loop: "safe (\<lambda>_ _. False) ended (f e t)" if "con_ok rd wr t" "polite_row (io_pending inp (th_io t))" for t
    proof (rule safe_some)
      fix y assume "f e t = Some y"
      from IH [OF this] that lax show "safe (\<lambda>_ _. False) ended (Some y)" by blast
    qed
    have one: "safe (\<lambda>_ _. False) ended (andthen (case map_of (msg_types e) ty of
             None \<Rightarrow> EXIT_THREAD StERROR t
           | Some process \<Rightarrow> process t) (\<lambda>_ th. f e th))"
      if t: "con_ok rd wr t" "polite_row (ty # io_pending inp (th_io t))" for ty t
    proof (rule safe_andthen)
      have free: "fb_free_ok (destroy_held e) (con_fb (th_con t))" using free_held [OF t(1)] lax by simp
      show "safe (\<lambda>_ u. handled rd wr inp ty t u) ended (case map_of (msg_types e) ty of
             None \<Rightarrow> EXIT_THREAD StERROR t | Some process \<Rightarrow> process t)"
      proof (cases "map_of (msg_types e :: (u8 \<times> ('w, unit) act) list) ty")
        case None
        then show ?thesis by (simp add: EXIT_THREAD_safe [OF t(1)])
      next
        case (Some process)
        have fine: "shifts_fine (io_pending inp (th_io t))" if "ty = 0"
          using t(2) that polite_head by simp
        have "safe (\<lambda>_ u. handled rd wr inp ty t u) ended (process t)"
          by (rule safe_mono [OF process_safe [OF t(1) Some fine free]]) (auto dest: ended_after_ended)
        with Some show ?thesis by simp
      qed
      fix u assume u: "handled rd wr inp ty t u"
      show "safe (\<lambda>_ _. False) ended (f e u)"
        using u handled_polite [OF u t(2)] by (intro loop) (auto simp: handled_def)
    qed
    show "safe (\<lambda>_ _. False) ended (Some y)"
      unfolding body [symmetric]
    proof (rule safe_andthen [OF safe_mono [OF io_step_check [OF ok]]], assumption, erule ended_after_ended)
      fix t assume t: "io_stepL th [] [] t"
      show "safe (\<lambda>_ _. False) ended (andthen (trfb_connection_read 1 t) (\<lambda>r th.
       if fst r < 0 then EXIT_THREAD StERROR th
       else if fst r = 1 then
         andthen (case map_of (msg_types e) (snd r ! 0) of
             None \<Rightarrow> EXIT_THREAD StERROR th
           | Some process \<Rightarrow> process th) (\<lambda>_ th. f e th)
       else f e th))"
      proof (rule safe_andthen [OF safe_mono [OF connection_read_safe [OF io_step_ok [OF t], of 1]]], simp,
          assumption, erule ended_after_ended)
        fix r :: "int \<times> bytes" and u
        assume r: "io_stepL t (snd r) [] u \<and> (fst r < 0 \<and> snd r = [] \<or>
          0 < fst r \<and> fst r = int (length (snd r)) \<and> fst r \<le> 1)"
        show "safe (\<lambda>_ _. False) ended
       (if fst r < 0 then EXIT_THREAD StERROR u
       else if fst r = 1 then
         andthen (case map_of (msg_types e) (snd r ! 0) of
             None \<Rightarrow> EXIT_THREAD StERROR u
           | Some process \<Rightarrow> process u) (\<lambda>_ th. f e th)
       else f e u)"
        proof (cases "fst r < 0")
          case True
          from r have "con_ok rd wr u" by (simp add: io_step_def)
          with True show ?thesis by (simp add: EXIT_THREAD_safe)
        next
          case False
          with r have one_byte: "fst r = 1" "length (snd r) = 1" and u: "io_stepL t (snd r) [] u" by auto
          then obtain ty where ty: "snd r = [ty]" by (cases "snd r") auto
          have "polite_row (ty # io_pending inp (th_io u))"
            using pol t u ty by (simp add: io_step_def talks_def)
          with one [OF io_step_ok [OF u]] one_byte(1) ty show ?thesis by simp
        qed
      qed
    qed
  qed
  with assms show "safe (\<lambda>_ _. False) ended (Some y)" by blast
qed

lemma connection_safe:
  assumes ok: "con_ok rd wr th" and pol: "polite (io_pending inp (th_io th))" and lax: "destroy_held e"
  shows "safe (\<lambda>_ _. False) ended (connection e th)"
proof -
  let ?t = "stop_request th"
  let ?u = "with_con (con_state_update (\<lambda>_. StWORKING)) ?t"
  have t: "con_lock (th_con ?t) = MtxFree" "con_ok rd wr ?u" "th_io ?u = th_io th"
    using ok by (auto simp: stop_request_def with_con_def con_ok_def th_io_def split: list.split)
  have start: "connection e th = andthen (negotiate e ?u) (\<lambda>r th.
      if r \<noteq> 0 then EXIT_THREAD StERROR th else connection_loop e th)"
    using t(1) by (cases ?t; cases "th_con ?t")
      (simp add: connection_def con_lock_take_def con_lock_give_def with_con_def)
  show ?thesis
    unfolding start
  proof (rule safe_andthen [OF safe_mono [OF negotiate_safe [OF t(2)]]], assumption, erule ended_after_ended)
    fix r v assume n: "negotiated rd wr inp outp full ?u r v"
    then have v: "con_ok rd wr v" by (auto simp: negotiated_def)
    show "safe (\<lambda>_ _. False) ended (if r \<noteq> 0 then EXIT_THREAD StERROR v else connection_loop e v)"
    proof (cases "r = 0")
      case True
      then obtain msg ci where msg: "length msg = 12"
        "io_pending inp (th_io th) = (msg @ handshake_in (client_version msg) ci) @ io_pending inp (th_io v)"
        using n t(3) by (auto simp: negotiated_def talks_def)
      have "polite_row (io_pending inp (th_io v))" using pol unfolding msg(2) by (rule polite_start) (rule msg)
      with True v lax show ?thesis by (simp add: connection_loop_safe)
    qed (simp add: EXIT_THREAD_safe [OF v])
  qed
qed
end

end
