(* ===== verification/Connection_Props.thy ===== *)
theory Connection_Props
  imports Connection_Steps
begin

text \<open>
  Progress of the handshake over a transport that keeps serving, and the properties of a connection
  over a socket.
\<close>

section \<open>Progress of the handshake\<close>

text \<open>
  The client has sent \<open>n\<close> more bytes at least, the transport serves \<open>k\<close> more calls, and there is room
  for all that the handshake writes.
\<close>

definition can_go ::
  "'w read_fn \<Rightarrow> 'w write_fn \<Rightarrow> ('w \<Rightarrow> bytes) \<Rightarrow> ('w \<Rightarrow> bool) \<Rightarrow> ('w \<Rightarrow> nat) \<Rightarrow>
   nat \<Rightarrow> nat \<Rightarrow> nat \<Rightarrow> 'w thread \<Rightarrow> bool" where
  "can_go rd wr inp full budget n k w th \<longleftrightarrow>
     con_ok rd wr th \<and> n \<le> length (io_pending inp (th_io th)) \<and> full (io_ctx (th_io th)) \<and>
     k \<le> budget (io_ctx (th_io th)) \<and> io_wlen (th_io th) + w \<le> TRFB_BUFSIZ"

text \<open>The only way for a thread to end while its calls go on: it found a request to stop.\<close>

definition halted :: "'w thread \<Rightarrow> bool" where
  "halted th \<longleftrightarrow> con_state (th_con th) = StSTOPPED"

context live_transport
begin

abbreviation can_goL :: "nat \<Rightarrow> nat \<Rightarrow> nat \<Rightarrow> 'w thread \<Rightarrow> bool" where
  "can_goL \<equiv> can_go rd wr inp full budget"

lemma io_read_settles:
  assumes go: "can_goL (Suc n) (Suc k) w th" and len: "0 < len"
  shows "settles (\<lambda>r t. 0 < fst r \<and> fst r = int (length (snd r)) \<and> fst r \<le> len \<and>
      can_goL (Suc n - length (snd r)) k w t \<or>
      fst r = 0 \<and> can_goL (Suc n) (Suc k) w t \<and> patience (io_ctx (th_io t)) < patience (io_ctx (th_io th)))
    halted (on_io (\<lambda>io. trfb_io_read io True len t) th)"
proof -
  have ok: "con_ok rd wr th" and wf: "io_wf rd wr (th_io th)" and io: "con_io (th_con th) = Ptr (th_io th)"
    using go con_ok_io by (auto simp: can_go_def)
  have more: "io_pending inp (th_io th) \<noteq> []" and b: "0 < budget (io_ctx (th_io th))"
    using go by (auto simp: can_go_def)
  obtain r bs io' where run: "io_read_body True len t (th_io th) = Some (Done (r, bs) io')"
    and live: "0 < r \<and> budget (io_ctx (th_io th)) \<le> Suc (budget (io_ctx io')) \<or>
      r = 0 \<and> budget (io_ctx io') = budget (io_ctx (th_io th)) \<and>
       patience (io_ctx io') < patience (io_ctx (th_io th))"
    using read_live [OF wf len more b] by blast
  have spec: "io_wf rd wr io'" "read_spec inp outp (th_io th) len (r, bs) io'"
    using read_ok [OF wf len, of t] run by auto
  have "full (io_ctx io')"
    using read_full [OF wf _ run] go by (simp add: can_go_def)
  with spec live go con_ok_set_io [OF ok spec(1)] have
    "0 < r \<and> r = int (length bs) \<and> r \<le> len \<and>
      can_goL (Suc n - length bs) k w (with_con (con_io_update (\<lambda>_. Ptr io')) th) \<or>
     r = 0 \<and> can_goL (Suc n) (Suc k) w (with_con (con_io_update (\<lambda>_. Ptr io')) th) \<and>
      patience (io_ctx io') < patience (io_ctx (th_io th))"
    by (auto simp: can_go_def read_spec_def same_write_def)
  then show ?thesis
    using run by (simp add: on_io_def io trfb_io_read_def with_io_def)
qed

lemma check_stopped_settles:
  assumes "can_goL n k w th"
  shows "settles (\<lambda>_ t. can_goL n k w t \<and> th_io t = th_io th) halted (check_stopped th)"
proof -
  have ok: "con_ok rd wr th" "con_lock (th_con th) = MtxFree"
    using assms by (auto simp: can_go_def con_ok_def)
  have "settles (\<lambda>_ _. True) halted (check_stopped th)"
    using check_stopped_eq [OF ok(2)] by (simp add: halted_def with_con_def)
  from settles_conj [OF this check_stopped_safe [OF ok(1)]] show ?thesis
    by (rule settles_mono) (use assms in \<open>auto simp: can_go_def\<close>)
qed

lemma connection_read_settles:
  "can_goL (Suc n) (Suc k) w th \<Longrightarrow> 0 < len \<Longrightarrow>
   settles (\<lambda>r t. 0 < fst r \<and> fst r = int (length (snd r)) \<and> fst r \<le> len \<and>
      can_goL (Suc n - length (snd r)) k w t) halted (trfb_connection_read len th)"
  (is "_ \<Longrightarrow> _ \<Longrightarrow> settles ?R _ _")
proof (induction "patience (io_ctx (th_io th))" arbitrary: th rule: less_induct)
  case less
  show ?case
    unfolding trfb_connection_read.simps [of len th]
  proof (rule settles_andthen [OF io_read_settles [OF less.prems]])
    fix r :: "int \<times> bytes" and t
    assume r: "0 < fst r \<and> fst r = int (length (snd r)) \<and> fst r \<le> len \<and>
      can_goL (Suc n - length (snd r)) k w t \<or>
      fst r = 0 \<and> can_goL (Suc n) (Suc k) w t \<and> patience (io_ctx (th_io t)) < patience (io_ctx (th_io th))"
    show "settles ?R halted (if 0 < fst r then Some (Done r t)
       else if fst r < 0 then Some (Done (-1, []) t)
       else andthen (check_stopped t) (\<lambda>_ th. trfb_connection_read len th))"
    proof (cases "fst r = 0")
      case True
      with r have t: "can_goL (Suc n) (Suc k) w t"
        and lt: "patience (io_ctx (th_io t)) < patience (io_ctx (th_io th))" by auto
      have "settles ?R halted (andthen (check_stopped t) (\<lambda>_ th. trfb_connection_read len th))"
        by (rule settles_andthen [OF check_stopped_settles [OF t]])
          (use less.hyps less.prems(2) lt in auto)
      with True show ?thesis by simp
    qed (use r in auto)
  qed
qed

lemma read_all_loop_settles:
  "can_goL n k w th \<Longrightarrow> m \<le> n \<Longrightarrow> m \<le> k \<Longrightarrow> len = int (length got) + int m \<Longrightarrow>
   settles (\<lambda>_ t. can_goL (n - m) (k - m) w t) halted (read_all_loop len got th)"
proof (induction m arbitrary: n k th got rule: less_induct)
  case (less m)
  show ?case
  proof (cases m)
    case 0
    with less.prems show ?thesis by (simp add: read_all_loop.simps)
  next
    case (Suc m')
    then obtain n' k' where nk: "n = Suc n'" "k = Suc k'"
      using less.prems by (metis Suc_le_D)
    have lt: "int (length got) < len" using less.prems Suc by simp
    have "settles (\<lambda>_ t. can_goL (n - m) (k - m) w t) halted
        (andthen (trfb_connection_read (len - int (length got)) th) (\<lambda>r th.
          if fst r < 0 then EXIT_THREAD StERROR th else read_all_loop len (got @ snd r) th))"
    proof (rule settles_andthen [OF connection_read_settles])
      fix r :: "int \<times> bytes" and t
      assume r: "0 < fst r \<and> fst r = int (length (snd r)) \<and> fst r \<le> len - int (length got) \<and>
        can_goL (Suc n' - length (snd r)) k' w t"
      let ?l = "length (snd r)"
      have l: "0 < ?l" "?l \<le> m" using r less.prems by auto
      have k': "m - ?l \<le> k'" and m': "m - ?l < m" using l less.prems nk by linarith+
      have "settles (\<lambda>_ t. can_goL (n - ?l - (m - ?l)) (k' - (m - ?l)) w t) halted
          (read_all_loop len (got @ snd r) t)"
        by (rule less.IH [OF m' _ _ k']) (use l r nk less.prems in auto)
      then have "settles (\<lambda>_ t. can_goL (n - m) (k - m) w t) halted (read_all_loop len (got @ snd r) t)"
      proof (rule settles_mono)
        have "n - ?l - (m - ?l) = n - m" "k - m \<le> k' - (m - ?l)" using l nk less.prems by linarith+
        then show "can_goL (n - m) (k - m) w u" if "can_goL (n - ?l - (m - ?l)) (k' - (m - ?l)) w u" for u
          using that by (simp add: can_go_def)
      qed simp
      with r show "settles (\<lambda>_ t. can_goL (n - m) (k - m) w t) halted
          (if fst r < 0 then EXIT_THREAD StERROR t else read_all_loop len (got @ snd r) t)"
        by simp
    qed (use less.prems lt nk in auto)
    with lt show ?thesis by (simp add: read_all_loop.simps)
  qed
qed

lemma read_all_settles:
  "can_goL (m + n) (m + k) w th \<Longrightarrow>
   settles (\<lambda>_ t. can_goL n k w t) halted (trfb_connection_read_all (int m) th)"
  using read_all_loop_settles [of "m + n" "m + k" w th m "int m" "[]"]
  by (simp add: trfb_connection_read_all_def)
end

context live_transport
begin

lemma io_write_settles:
  assumes go: "can_goL n k (m + w) th" and len: "0 < m" "m \<le> length buf"
  shows "settles (\<lambda>l t. l = int m \<and> can_goL n k w t) halted
    (on_io (\<lambda>io. trfb_io_write io (Ptr buf) (int m) t) th)"
proof -
  have ok: "con_ok rd wr th" and wf: "io_wf rd wr (th_io th)" and io: "con_io (th_con th) = Ptr (th_io th)"
    using go con_ok_io by (auto simp: can_go_def)
  have fit: "io_wlen (th_io th) + nat (int m) \<le> TRFB_BUFSIZ" "io_wlen (th_io th) < TRFB_BUFSIZ"
    using go len unfolding can_go_def by linarith+
  obtain io' where run: "io_write_body (Ptr buf) (int m) t (th_io th) = Some (Done (int m) io')"
    and same: "io_ctx io' = io_ctx (th_io th)" "io_wlen io' = io_wlen (th_io th) + m"
    using write_fits [OF wf _ _ fit, where t = t and mem = buf] len by auto
  have spec: "io_wf rd wr io'" "sent_spec inp outp full (th_io th) (int m) (take m buf) io'"
    using write_ok [OF wf, of "int m" buf t] run len by auto
  then have "io_pending inp io' = io_pending inp (th_io th)" by (auto dest: sent_spec_pending)
  with spec same go con_ok_set_io [OF ok spec(1)] show ?thesis
    by (simp add: on_io_def io trfb_io_write_def with_io_def run can_go_def)
qed

lemma io_flush_settles:
  assumes go: "can_goL n (Suc k) w th"
  shows "settles (\<lambda>r t. r = 0 \<and> can_goL n k w t) halted (on_io (\<lambda>io. trfb_io_flush io t) th)"
proof -
  have ok: "con_ok rd wr th" and wf: "io_wf rd wr (th_io th)" and io: "con_io (th_con th) = Ptr (th_io th)"
    using go con_ok_io by (auto simp: can_go_def)
  have full: "full (io_ctx (th_io th))" and b: "0 < budget (io_ctx (th_io th))"
    using go by (auto simp: can_go_def)
  obtain io' where run: "io_flush_body t (th_io th) = Some (Done 0 io')"
    and live: "budget (io_ctx (th_io th)) \<le> Suc (budget (io_ctx io'))" "io_wlen io' \<le> io_wlen (th_io th)"
    using flush_live [OF wf full b] by blast
  have spec: "io_wf rd wr io'" "sent_spec inp outp full (th_io th) 0 [] io'"
    using flush_ok [OF wf, of t] run by auto
  have "io_pending inp io' = io_pending inp (th_io th)" "full (io_ctx io')"
    using sent_spec_pending [OF spec(2)] spec(2) full by (simp_all add: sent_spec_def)
  with spec live go con_ok_set_io [OF ok spec(1)] show ?thesis
    by (simp add: on_io_def io trfb_io_flush_def with_io_def run can_go_def)
qed

lemma write_all_settles:
  assumes go: "can_goL n (Suc k) (m + w) th" and buf: "0 < m" "m \<le> length buf" "len = int m"
  shows "settles (\<lambda>_ t. can_goL n k w t) halted (trfb_connection_write_all buf len th)"
proof -
  have out: "settles (\<lambda>l t. l = int m \<and> can_goL n (Suc k) w t) halted
      (trfb_connection_write buf (int m) th)"
    unfolding trfb_connection_write.simps [of buf "int m" th]
    by (rule settles_andthen [OF io_write_settles [OF go buf(1,2)]]) (use buf in auto)
  have flush: "settles (\<lambda>_ t. can_goL n k w t) halted (trfb_connection_flush t)"
    if "can_goL n (Suc k) w t" for t
    unfolding trfb_connection_flush.simps [of t]
    by (rule settles_andthen [OF io_flush_settles [OF that]]) simp
  have "settles (\<lambda>_ t. can_goL n (Suc k) w t) halted (write_all_loop buf len 0 th)"
  proof -
    have "settles (\<lambda>_ t. can_goL n (Suc k) w t) halted
        (andthen (trfb_connection_write buf (int m) th) (\<lambda>l th.
          if l < 0 then EXIT_THREAD StERROR th else write_all_loop buf len (0 + l) th))"
      by (rule settles_andthen [OF out]) (use buf in \<open>auto simp: write_all_loop.simps\<close>)
    then show ?thesis
      using buf by (subst write_all_loop.simps) simp
  qed
  then show ?thesis
    unfolding trfb_connection_write_all_def by (rule settles_andthen) (rule flush)
qed

lemma can_go_less:
  "can_goL n k w th \<Longrightarrow> n' \<le> n \<Longrightarrow> k' \<le> k \<Longrightarrow> w' \<le> w \<Longrightarrow> can_goL n' k' w' th"
  by (auto simp: can_go_def)

lemma read_all_settles':
  assumes "can_goL n k w th" and "len = int m" and "m + n' \<le> n" and "m + k' \<le> k"
  shows "settles (\<lambda>bs t. length bs = m \<and> can_goL n' k' w t) halted (trfb_connection_read_all len th)"
proof -
  have go: "can_goL (m + n') (m + k') w th" using assms by (auto intro: can_go_less)
  have "con_ok rd wr th" using assms(1) by (simp add: can_go_def)
  from settles_conj [OF read_all_settles [OF go] read_all_safe [OF this]] show ?thesis
    unfolding assms(2) by (rule settles_mono) auto
qed

lemma set_version_can_go [simp]: "can_goL n k w (set_version v th) = can_goL n k w th"
  by (simp add: can_go_def)

lemma negotiate_security_settles:
  assumes t: "can_goL 2 5 38 t"
  shows "settles (\<lambda>_ t. can_goL 1 2 30 t) halted (negotiate_security v t)"
  unfolding negotiate_security_def
proof (rule settles_andthen [where Q' = "\<lambda>_ t. can_goL 1 3 34 t"])
  have "settles (\<lambda>_ t. can_goL 1 3 34 t) halted
      (andthen (trfb_connection_write_all [0, 0, 0, 1] 4 t) (\<lambda>_ th. Some (Done True th)))"
    by (rule settles_andthen [OF write_all_settles [where n = 2 and k = 4 and m = 4 and w = 34]])
      (use t in \<open>auto intro: can_go_less\<close>)
  moreover have "settles (\<lambda>_ t. can_goL 1 3 34 t) halted
      (andthen (trfb_connection_write_all [1, 1] 2 t) (\<lambda>_ th.
           andthen (trfb_connection_read_all 1 th) (\<lambda>buf th. Some (Done (buf ! 0 = 1) th))))"
  proof (rule settles_andthen [OF write_all_settles [where n = 2 and k = 4 and m = 2 and w = 36]])
    fix u assume u: "can_goL 2 4 36 u"
    show "settles (\<lambda>_ t. can_goL 1 3 34 t) halted
        (andthen (trfb_connection_read_all 1 u) (\<lambda>buf th. Some (Done (buf ! 0 = 1) th)))"
      by (rule settles_andthen [OF read_all_settles' [OF u, where m = 1 and n' = 1 and k' = 3]])
        (auto intro: can_go_less)
  qed (use t in auto)
  ultimately show "settles (\<lambda>_ t. can_goL 1 3 34 t) halted
     (if v < trfb_v7
      then andthen (trfb_connection_write_all [0, 0, 0, 1] 4 t) (\<lambda>_ th. Some (Done True th))
      else andthen (trfb_connection_write_all [1, 1] 2 t) (\<lambda>_ th.
           andthen (trfb_connection_read_all 1 th) (\<lambda>buf th. Some (Done (buf ! 0 = 1) th))))"
    by simp
next
  fix s u assume u: "can_goL 1 3 34 u"
  have "settles (\<lambda>_ t. can_goL 1 2 30 t) halted
      (andthen (trfb_connection_write_all [0, 0, 0, 0] 4 u) (\<lambda>_ th. Some (Done True th)))"
    by (rule settles_andthen [OF write_all_settles [where n = 1 and k = 2 and m = 4 and w = 30]])
      (use u in auto)
  then show "settles (\<lambda>_ t. can_goL 1 2 30 t) halted (if s \<and> trfb_v8 \<le> v
       then andthen (trfb_connection_write_all [0, 0, 0, 0] 4 u) (\<lambda>_ th. Some (Done True th))
       else Some (Done s u))"
    using can_go_less [OF u] by simp
qed

lemma negotiate_init_settles:
  assumes t: "can_goL 1 2 30 t"
  shows "settles (\<lambda>_ _. True) halted (negotiate_init t)"
  unfolding negotiate_init_def
proof (rule settles_andthen [OF read_all_settles' [OF t, where m = 1 and n' = 0 and k' = 1]])
  fix bs :: bytes and u assume "length bs = 1 \<and> can_goL 0 1 30 u"
  then have u: "can_goL 0 1 30 u" by simp
  then obtain fb where fb: "srv_fb (th_srv u) = Ptr fb"
    by (auto simp: can_go_def con_ok_def srv_ok_def)
  have "settles (\<lambda>_ _. True) halted
      (andthen (trfb_connection_write_all (server_init fb) 28 u) (\<lambda>_ th. Some (Done 0 th)))"
    by (rule settles_andthen [OF write_all_settles [where n = 0 and k = 0 and m = 28 and w = 2]])
      (use u in auto)
  then show "settles (\<lambda>_ _. True) halted
      (case srv_fb (th_srv u) of NULL \<Rightarrow> Some Undef
       | Ptr fb \<Rightarrow> andthen (trfb_connection_write_all (server_init fb) 28 u) (\<lambda>_ th. Some (Done 0 th)))"
    by (simp add: fb)
qed auto

text \<open>Fourteen bytes from the client and eighteen calls of the transport are enough.\<close>

lemma negotiate_settles:
  assumes go: "can_goL 14 18 50 th"
  shows "settles (\<lambda>_ _. True) halted (negotiate e th)"
proof -
  have enc: "trfb_msg_protocol_version_encode trfb_v8 (Ptr (map (junk e) [0..<256])) 256 =
      Some (0, Ptr (version_bytes trfb_v8 @ drop 12 (map (junk e) [0..<256])), 12)"
    by (rule encode_ok) simp_all
  let ?rest = "\<lambda>security th. if security then negotiate_init th else Some (Done (-1) th)"
  have rest: "settles (\<lambda>_ _. True) halted (andthen (negotiate_security v (set_version v t)) ?rest)"
    if "can_goL 2 5 38 t" for v t
    by (rule settles_andthen [OF negotiate_security_settles]) (use that in \<open>auto intro: negotiate_init_settles\<close>)
  have tail: "settles (\<lambda>_ _. True) halted
      (andthen (trfb_connection_read_all 12 t) (\<lambda>buf th.
              need (trfb_msg_protocol_version_decode trfb_v8 buf 12) (\<lambda>(r, proto).
                if r \<noteq> 0 then Some (Done (-1) th)
                else
                  andthen (negotiate_security proto (with_con (con_version_update (\<lambda>_. Some proto)) th)) ?rest)))"
    if t: "can_goL 14 17 38 t" for t
  proof (rule settles_andthen [OF read_all_settles' [OF t, where m = 12 and n' = 2 and k' = 5]])
    fix bs :: bytes and u assume "length bs = 12 \<and> can_goL 2 5 38 u"
    then show "settles (\<lambda>_ _. True) halted
       (need (trfb_msg_protocol_version_decode trfb_v8 bs 12) (\<lambda>(r, proto).
                if r \<noteq> 0 then Some (Done (-1) u)
                else
                  andthen (negotiate_security proto (with_con (con_version_update (\<lambda>_. Some proto)) u)) ?rest))"
      using rest by (simp add: decode_total set_version_def)
  qed auto
  have "settles (\<lambda>_ _. True) halted
      (andthen (trfb_connection_write_all (version_bytes trfb_v8 @ drop 12 (map (junk e) [0..<256])) (int 12) th)
        (\<lambda>_ th. andthen (trfb_connection_read_all 12 th) (\<lambda>buf th.
              need (trfb_msg_protocol_version_decode trfb_v8 buf 12) (\<lambda>(r, proto).
                if r \<noteq> 0 then Some (Done (-1) th)
                else
                  andthen (negotiate_security proto (with_con (con_version_update (\<lambda>_. Some proto)) th)) ?rest))))"
    by (rule settles_andthen [OF write_all_settles [where n = 14 and k = 17 and m = 12 and w = 38]])
      (use go tail in auto)
  then show ?thesis
    unfolding negotiate_def enc by simp
qed

end

section \<open>Properties\<close>

text \<open>A connection over a socket script, for the examples, at a server with one pixel.\<close>

definition example_thread :: "sel list \<Rightarrow> rcv list \<Rightarrow> snd list \<Rightarrow> sock ptr thread" where
  "example_thread s r w =
     \<lparr>th_con = \<lparr>con_version = None, con_state = StWORKING, con_name = [], con_lock = MtxFree,
        con_fb = NULL, con_format = \<lparr>fmt_bpp = 0, fmt_depth = 0, fmt_big_endian = 0, fmt_true_color = 0,
          fmt_rmax = 0, fmt_gmax = 0, fmt_bmax = 0, fmt_rshift = 0, fmt_gshift = 0, fmt_bshift = 0\<rparr>,
        con_io = Ptr (example_io s r w), con_next = NULL\<rparr>,
      th_srv = free_server\<lparr>srv_fb := Ptr (fb888\<lparr>fb_lock := MtxFree\<rparr>)\<rparr>,
      th_stops = [], th_others = []\<rparr>"

lemma example_thread_simps [simp]:
  "th_io (example_thread s r w) = example_io s r w" "con_fb (th_con (example_thread s r w)) = NULL"
  "th_stops (example_thread s r w) = []" "th_others (example_thread s r w) = []"
  "con_state (th_con (example_thread s r w)) = StWORKING"
  "con_lock (th_con (example_thread s r w)) = MtxFree"
  by (simp_all add: example_thread_def th_io_def)

lemma fb888_small: "fb_small fb888"
  by (simp add: fb_small_def fb_wf_def fb_std_shifts fb_std_normed)

lemma example_thread_ok [simp]: "con_ok sock_read sock_write (example_thread s r w)"
proof -
  show ?thesis
    using fb888_small
    by (auto simp: con_ok_def srv_ok_def example_thread_def free_server_def zero_server_def
        events_wf_def ring_slot_def)
qed

lemma example_pending: "io_pending sock_inp (example_io s r w) = concat (map rcv_data r)"
  by (simp add: io_pending_def sock_inp_def)

text \<open>
  C11. The thread of a connection has no undefined behaviour, whatever its client sends, however the
  system calls of its socket deliver it and whatever the other threads do to the server in between,
  under three conditions: no SetPixelFormat message of the client asks for a shift of 32 or more (its
  other messages may have any bytes); the framebuffers of the server and of the connection stay well
  formed and within 32767 pixels each way; and \<^verbatim>\<open>mtx_destroy\<close> leaves a mutex alone whose bytes say that
  it is held, because a SetPixelFormat message after an update request destroys the byte copy of a held
  mutex. Then the thread never returns, and if it ends, it ends in the state ERROR or STOPPED with its
  lock free. The shift of a byte of 128 or more into the sign bit of an \<^verbatim>\<open>int\<close> counts as defined, as in GCC.
\<close>

theorem connection_memory_safe:
  assumes "con_ok sock_read sock_write th" and "polite (io_pending sock_inp (th_io th))" and "destroy_held e"
  shows "safe (\<lambda>_ _. False) ended (connection e th)"
  by (rule skf.connection_safe [OF assms])

theorem connection_memory_safe_witness:
  "safe (\<lambda>_ _. False) ended
     (connection easy_env (example_thread [SelReady] [RcvData [82, 70, 66], RcvErr EIO] [SndErr EIO]))"
  by (rule connection_memory_safe) (simp_all add: example_pending polite_short)

text \<open>
  C15. The handshake. When it succeeds, exactly these bytes were taken from the client: a version
  message, its security type 1 unless that version is 3, and one ClientInit byte; and, as long as every
  \<^verbatim>\<open>send\<close> takes all it is given (\<open>sock_full\<close>; after a partial one the bytes are damaged, C9), exactly these
  were sent to it: the server's version, what its own version's handshake prescribes, and the
  ServerInit of the server's framebuffer. It fails only for another security type. It does come to an
  end when the client has sent its 14 bytes and the socket serves 18 more calls.
\<close>

theorem handshake_transcript:
  assumes "con_ok sock_read sock_write th"
  shows "safe (negotiated sock_read sock_write sock_inp sock_outp sock_full th) ended (negotiate e th) \<and>
    (can_go sock_read sock_write sock_inp sock_full sock_budget 14 18 50 th \<longrightarrow> negotiate e th \<noteq> None)"
  using safe_ended [OF skf.negotiate_safe [OF assms]] sk.negotiate_settles
  by (auto simp: settles_def)

theorem handshake_transcript_witness:
  "negotiate easy_env (example_thread (replicate 18 SelReady) [RcvData (replicate 14 1)]
     (replicate 18 (SndOk 2048))) \<noteq> None"
proof -
  have "can_go sock_read sock_write sock_inp sock_full sock_budget 14 18 50
      (example_thread (replicate 18 SelReady) [RcvData (replicate 14 1)] (replicate 18 (SndOk 2048)))"
    by (simp add: can_go_def example_pending sock_full_def sock_budget_def snd_ready_def sel_ready_def
        TRFB_BUFSIZ_def list_all_iff)
  then show ?thesis
    using handshake_transcript [OF example_thread_ok, of "replicate 18 SelReady" "[RcvData (replicate 14 1)]"
      "replicate 18 (SndOk 2048)" easy_env] by blast
qed

end
