(* ===== verification/Connection_Alone.thy ===== *)
theory Connection_Alone
  imports Connection_Props
begin

text \<open>
  What the calls of a connection keep: the queue of the server while no other thread works on it, and
  that nobody asks the connection to stop; then a call that is served comes back.
\<close>

section \<open>Calls of the server and of the I/O object\<close>

lemma give_and_return_returns: "returns (give_and_return a s)"
  unfolding give_and_return_def srv_lock_give_def by (cases "srv_lock s") simp_all

lemma add_event_returns: "returns (trfb_server_add_event (Ptr s) (Ptr ev))"
  unfolding trfb_server_add_event_def on_server_def ptr.case rets_map add_event_body_def srv_lock_take_def
  by (rule rets_andthen [where Q' = "\<lambda>_ _. True"])
    (cases "srv_lock s", simp_all add: Let_def trfb_event_move_def give_and_return_returns)

lemma io_take_returns: "returns (io_take io n)"
  unfolding io_take_def Let_def by (rule rets_need) simp

lemma io_read_returns: "returns (trfb_io_read p buf len timeout)"
proof (cases p)
  case (Ptr io)
  have "returns (io_read_body buf len timeout io)"
    unfolding io_read_body_def
    by (auto simp: io_take_returns intro!: rets_need split: ptr.split option.split prod.split xfer.split)
  with Ptr show ?thesis by (simp add: trfb_io_read_def with_io_def rets_map)
qed (simp add: trfb_io_read_def with_io_def)

lemma io_flush_body_returns: "returns (io_flush_body timeout io)"
  unfolding io_flush_body_def
  by (auto intro!: rets_need split: ptr.split option.split prod.split xfer.split)

lemma io_flush_returns: "returns (trfb_io_flush p timeout)"
  by (cases p) (simp_all add: trfb_io_flush_def with_io_def rets_map io_flush_body_returns)

lemma io_put_returns: "returns (io_put io bs)"
  unfolding io_put_def Let_def by (rule rets_need) simp

lemma io_write_rest_returns: "returns (io_write_rest timeout bs pos io)"
  unfolding io_write_rest_def
  by (auto intro!: rets_andthen [OF io_flush_body_returns] rets_andthen [OF io_put_returns])

lemma io_write_returns: "returns (trfb_io_write p buf len timeout)"
proof (cases p)
  case (Ptr io)
  have "returns (io_write_body buf len timeout io)"
    unfolding io_write_body_def
    by (auto intro!: rets_need rets_andthen [OF io_put_returns] io_write_rest_returns split: ptr.split)
  with Ptr show ?thesis by (simp add: trfb_io_write_def with_io_def rets_map)
qed (simp add: trfb_io_write_def with_io_def)

lemmas io_returns = io_read_returns io_write_returns io_flush_returns

section \<open>Idle threads and the queue\<close>

text \<open>No other thread acts any more, and the queue of the server is \<open>q\<close>.\<close>

definition still :: "trfb_event list \<Rightarrow> 'w thread \<Rightarrow> bool" where
  "still q th \<longleftrightarrow> th_others th = [] \<and> srv_queue (th_srv th) = q"

lemma others_act_idle: "th_others th = [] \<Longrightarrow> others_act th = th"
  by (simp add: others_act_def)

lemma still_only_io: "only_io th t \<Longrightarrow> still q t = still q th"
  by (simp add: still_def only_io_def)

lemma still_con [simp]: "still q (with_con g th) = still q th"
  by (simp add: still_def with_con_def)

lemma queue_frame [simp]:
  "srv_queue (s\<lparr>srv_fb := p\<rparr>) = srv_queue s" "srv_queue (s\<lparr>srv_updated := n\<rparr>) = srv_queue s"
  by (simp_all add: srv_queue_def ring_slot_def [abs_def])

lemma lock_fb_queue: "keeps (\<lambda>p. srv_queue (deref p) = srv_queue s) (trfb_server_lock_fb (Ptr s) w)"
proof (cases "srv_fb s")
  case (Ptr fb)
  then show ?thesis
    by (cases "fb_lock fb")
      (simp_all add: trfb_server_lock_fb_def on_server_def rets_map lock_fb_body_def fb_lock_take_def fb_lock_set_def)
qed (simp add: trfb_server_lock_fb_def on_server_def lock_fb_body_def)

lemma unlock_fb_queue: "keeps (\<lambda>p. srv_queue (deref p) = srv_queue s) (trfb_server_unlock_fb (Ptr s))"
proof (cases "srv_fb s")
  case (Ptr fb)
  then show ?thesis
    by (cases "fb_lock fb")
      (simp_all add: trfb_server_unlock_fb_def on_server_def rets_map unlock_fb_body_def fb_lock_give_def fb_lock_set_def)
qed (simp add: trfb_server_unlock_fb_def on_server_def unlock_fb_body_def)

lemma on_srv_still:
  assumes "still q th" "keeps (\<lambda>p. srv_queue (deref p) = srv_queue (th_srv th)) (f (Ptr (th_srv th)))"
  shows "keeps (still q) (on_srv f th)"
  unfolding on_srv_def rets_map using assms by (auto simp: still_def elim: rets_mono)

lemma lock_fb_still: "still q th \<Longrightarrow> keeps (still q) (on_srv (\<lambda>s. trfb_server_lock_fb s w) th)"
  by (rule on_srv_still) (auto intro: lock_fb_queue)

lemma unlock_fb_still: "still q th \<Longrightarrow> keeps (still q) (on_srv trfb_server_unlock_fb th)"
  by (rule on_srv_still) (auto intro: unlock_fb_queue)

lemma srv_locked_still:
  fixes th :: "'w thread"
  assumes "still q th" "\<And>p t. still q t \<Longrightarrow> keeps (still q) (f p t)"
  shows "keeps (still q) (srv_locked f th)"
  unfolding srv_locked_def
proof (rule rets_andthen [OF lock_fb_still])
  show "still q (others_act th)" using assms(1) by (simp add: still_def others_act_idle)
  fix r and t :: "'w thread" assume "still q t"
  from assms(2) [OF this]
  show "keeps (still q) (andthen (f (srv_fb (th_srv t)) t) (\<lambda>r th. andthen (on_srv trfb_server_unlock_fb th)
      (\<lambda>_ th. Some (Done r th))))"
    by (rule rets_andthen) (rule rets_andthen [OF unlock_fb_still], auto)
qed

text \<open>The queue after an event, which is dropped when the queue is full.\<close>

definition enqueue :: "trfb_event list \<Rightarrow> trfb_event \<Rightarrow> trfb_event list" where
  "enqueue q ev = (if length q < TRFB_EVENTS_QUEUE_LEN then q @ [ev] else q)"

lemma event_delivered_idle:
  "event_delivered ev th t \<Longrightarrow> th_others th = [] \<Longrightarrow> srv_queue (th_srv t) = enqueue (srv_queue (th_srv th)) ev"
  by (simp add: event_delivered_def others_act_idle enqueue_def Let_def)

abbreviation idle_then :: "trfb_event list \<Rightarrow> ('w thread, 'a) outcome option \<Rightarrow> bool" where
  "idle_then q \<equiv> rets (\<lambda>_ t. th_others t = []) (still q)"

lemma idle_thenI: "keeps (still q) m \<Longrightarrow> idle_then q m"
  by (erule rets_mono) (simp_all add: still_def)

lemma send_event_idle: "th_others th = [] \<Longrightarrow> idle_then q (send_event ev th)"
  unfolding send_event_def on_srv_def
  by (rule rets_andthen [where Q' = "\<lambda>_ t. th_others t = []"])
    (simp_all add: rets_map others_act_idle rets_mono [OF add_event_returns])

lemma stop_request_still [simp]: "still q (stop_request th) = still q th"
  by (auto simp: stop_request_def still_def with_con_def split: list.split)

section \<open>What reading and writing keep\<close>

text \<open>The thread as it leaves with the state \<open>s\<close>.\<close>

definition gone :: "trfb_state \<Rightarrow> 'w thread \<Rightarrow> 'w thread" where
  "gone s th = with_con (con_lock_update (\<lambda>_. MtxFree)) (with_con (con_state_update (\<lambda>_. s)) (stop_request th))"

text \<open>
  An invariant of the thread that neither its I/O object nor a look at the stop flag breaks, and what
  it gives for a thread that leaves: reading and writing keep it.
\<close>

locale thread_invariant =
  fixes I E :: "'w thread \<Rightarrow> bool"
  assumes io_kept: "I th \<Longrightarrow> I (with_con (con_io_update (\<lambda>_. p)) th)"
    and version_kept: "I th \<Longrightarrow> I (set_version v th)"
    and look_kept: "I th \<Longrightarrow> con_state (th_con (stop_request th)) \<noteq> StSTOP \<Longrightarrow>
      I (with_con (con_lock_update (\<lambda>_. MtxFree)) (stop_request th))"
    and stop_gone: "I th \<Longrightarrow> con_state (th_con (stop_request th)) = StSTOP \<Longrightarrow> E (gone StSTOPPED th)"
    and error_gone: "I th \<Longrightarrow> E (gone StERROR th)"
begin

abbreviation kept :: "('w thread, 'a) outcome option \<Rightarrow> bool" where
  "kept \<equiv> rets (\<lambda>_. I) E"

lemma on_io_kept: "I th \<Longrightarrow> returns (f (con_io (th_con th))) \<Longrightarrow> kept (on_io f th)"
  unfolding on_io_def rets_map by (erule rets_mono) (simp_all add: io_kept)

lemma EXIT_THREAD_kept: "I th \<Longrightarrow> kept (EXIT_THREAD StERROR th)"
  using error_gone [of th]
  by (cases "con_lock (th_con (stop_request th))")
    (simp_all add: EXIT_THREAD_def con_lock_take_def con_lock_give_def gone_def with_con_def Let_def)

lemma check_stopped_kept: "I th \<Longrightarrow> kept (check_stopped th)"
  using stop_gone [of th] look_kept [of th]
  by (cases "con_lock (th_con (stop_request th))")
    (simp_all add: check_stopped_def con_lock_take_def con_lock_give_def gone_def with_con_def Let_def)

lemma retry_kept: "I t \<Longrightarrow> (\<And>u. I u \<Longrightarrow> kept (f u)) \<Longrightarrow> kept (andthen (check_stopped t) (\<lambda>_. f))"
  by (rule rets_andthen [OF check_stopped_kept])

lemma read_kept: "I th \<Longrightarrow> kept (trfb_connection_read len th)"
proof (rule rets_some)
  fix y assume "trfb_connection_read len th = Some y" "I th"
  then show "kept (Some y)"
  proof (induction rule: trfb_connection_read.raw_induct [rotated, consumes 1])
    case (1 self len th y)
    have loop: "kept (self len t)" if "I t" for t
      by (rule rets_some, rule 1(1), assumption, rule that)
    show ?case
      unfolding 1(2) [symmetric]
      by (rule rets_andthen [OF on_io_kept [OF 1(3) io_read_returns]]) (simp add: retry_kept loop)
  qed
qed

lemma read_all_kept: "I th \<Longrightarrow> kept (trfb_connection_read_all len th)"
  unfolding trfb_connection_read_all_def
proof (rule rets_some)
  fix y assume "read_all_loop len [] th = Some y" "I th"
  then show "kept (Some y)"
  proof (induction rule: read_all_loop.raw_induct [rotated, consumes 1])
    case (1 self len got th y)
    have loop: "kept (self len g t)" if "I t" for g t
      by (rule rets_some, rule 1(1), assumption, rule that)
    have "kept (andthen (trfb_connection_read (len - int (length got)) th) (\<lambda>r th.
          if fst r < 0 then EXIT_THREAD StERROR th else self len (got @ snd r) th))"
      by (rule rets_andthen [OF read_kept [OF 1(3)]]) (simp add: loop EXIT_THREAD_kept)
    then show ?case unfolding 1(2) [symmetric] using 1(3) by simp
  qed
qed

lemma write_kept: "I th \<Longrightarrow> kept (trfb_connection_write buf len th)"
proof (rule rets_some)
  fix y assume "trfb_connection_write buf len th = Some y" "I th"
  then show "kept (Some y)"
  proof (induction rule: trfb_connection_write.raw_induct [rotated, consumes 1])
    case (1 self buf len th y)
    have loop: "kept (self buf len t)" if "I t" for t
      by (rule rets_some, rule 1(1), assumption, rule that)
    show ?case
      unfolding 1(2) [symmetric]
      by (rule rets_andthen [OF on_io_kept [OF 1(3) io_write_returns]]) (simp add: retry_kept loop)
  qed
qed

lemma flush_kept: "I th \<Longrightarrow> kept (trfb_connection_flush th)"
proof (rule rets_some)
  fix y assume "trfb_connection_flush th = Some y" "I th"
  then show "kept (Some y)"
  proof (induction rule: trfb_connection_flush.raw_induct [rotated, consumes 1])
    case (1 self th y)
    have loop: "kept (self t)" if "I t" for t
      by (rule rets_some, rule 1(1), assumption, rule that)
    show ?case
      unfolding 1(2) [symmetric]
      by (rule rets_andthen [OF on_io_kept [OF 1(3) io_flush_returns]])
        (simp add: retry_kept loop EXIT_THREAD_kept)
  qed
qed

lemma write_all_loop_kept: "I th \<Longrightarrow> kept (write_all_loop buf len pos th)"
proof (rule rets_some)
  fix y assume "write_all_loop buf len pos th = Some y" "I th"
  then show "kept (Some y)"
  proof (induction rule: write_all_loop.raw_induct [rotated, consumes 1])
    case (1 self buf len pos th y)
    have loop: "kept (self buf len p t)" if "I t" for p t
      by (rule rets_some, rule 1(1), assumption, rule that)
    have "kept (andthen (trfb_connection_write (drop (nat pos) buf) (len - pos) th) (\<lambda>l th.
          if l < 0 then EXIT_THREAD StERROR th else self buf len (pos + l) th))"
      by (rule rets_andthen [OF write_kept [OF 1(3)]]) (simp add: loop EXIT_THREAD_kept)
    then show ?case unfolding 1(2) [symmetric] using 1(3) by simp
  qed
qed

lemma write_all_kept: "I th \<Longrightarrow> kept (trfb_connection_write_all buf len th)"
  unfolding trfb_connection_write_all_def
  by (rule rets_andthen [OF write_all_loop_kept]) (assumption, rule flush_kept)

lemma read_u32_kept: "I th \<Longrightarrow> kept (trfb_connection_read_u32 th)"
  unfolding trfb_connection_read_u32_def by (rule rets_andthen [OF read_all_kept]) simp_all

lemma encodings_loop_kept: "I th \<Longrightarrow> kept (encodings_loop n th)"
proof (induction n arbitrary: th)
  case (Suc n)
  show ?case
    unfolding encodings_loop.simps
    by (rule rets_andthen [OF read_u32_kept [OF Suc.prems]], rule rets_andthen [OF Suc.IH]) simp_all
qed simp

lemma SetEncodings_kept: "I th \<Longrightarrow> kept (ignore_result SetEncodings th)"
  unfolding ignore_result_def SetEncodings_def
  by (rule rets_andthen, rule rets_andthen [OF read_all_kept]) (assumption, erule encodings_loop_kept, simp)

lemma negotiate_security_kept: "I th \<Longrightarrow> kept (negotiate_security v th)"
  unfolding negotiate_security_def
  by (rule rets_andthen [where Q' = "\<lambda>_. I"])
    (auto intro!: rets_andthen [OF write_all_kept] rets_andthen [OF read_all_kept])

lemma negotiate_init_kept: "I th \<Longrightarrow> kept (negotiate_init th)"
  unfolding negotiate_init_def
  by (rule rets_andthen [OF read_all_kept]) (auto intro!: rets_andthen [OF write_all_kept] split: ptr.split)

lemma negotiate_kept: "I th \<Longrightarrow> kept (negotiate e th)"
  unfolding negotiate_def set_version_def [symmetric]
  by (auto intro!: rets_andthen [OF write_all_kept] rets_andthen [OF read_all_kept] rets_need
      rets_andthen [OF negotiate_security_kept] negotiate_init_kept version_kept
      split: option.split prod.split ptr.split)

end

interpretation quiet: thread_invariant "still q" "still q"
  by unfold_locales (simp_all add: gone_def set_version_def)

text \<open>Nobody has asked the connection to stop, or will.\<close>

definition unasked :: "'w thread \<Rightarrow> bool" where
  "unasked th \<longleftrightarrow> th_stops th = [] \<and> con_state (th_con th) \<noteq> StSTOP"

definition failed :: "'w thread \<Rightarrow> bool" where
  "failed th \<longleftrightarrow> con_state (th_con th) = StERROR"

interpretation left_alone: thread_invariant unasked failed
  by unfold_locales (auto simp: unasked_def failed_def gone_def stop_request_def with_con_def set_version_def)

section \<open>Calls that come back\<close>

lemma halted_failed: "halted t \<Longrightarrow> \<not> failed t"
  by (simp add: halted_def failed_def)

text \<open>A call of a connection that is left alone, comes to an end and is served by its socket returns.\<close>

lemma call_returns:
  assumes "settles Q halted m" "rets (\<lambda>_. unasked) failed m" "safe Q' E m"
  shows "\<exists>a t. m = Some (Done a t) \<and> Q a t \<and> unasked t \<and> Q' a t"
proof -
  obtain y where m: "m = Some y" using assms(1) by (auto simp: settles_def)
  show ?thesis
  proof (cases y)
    case (Exit t)
    with assms m halted_failed [of t] show ?thesis by simp
  qed (use assms m in simp_all)
qed

context live_transport
begin

lemma io_step_reads:
  assumes "io_stepL th bs [] t"
  shows "io_pending inp (th_io th) = bs @ io_pending inp (th_io t)" "th_srv t = th_srv th" "th_others t = th_others th"
  using assms by (simp_all add: io_step_def talks_def only_io_def)

lemma read_goes:
  assumes "can_goL (m + n) (m + k) w th" "unasked th"
  shows "\<exists>bs t. trfb_connection_read_all (int m) th = Some (Done bs t) \<and> length bs = m \<and> can_goL n k w t \<and>
    unasked t \<and> io_stepL th bs [] t"
proof -
  have ok: "con_ok rd wr th" using assms(1) by (simp add: can_go_def)
  from call_returns [OF read_all_settles [OF assms(1)] left_alone.read_all_kept [OF assms(2)] read_all_safe [OF ok]]
  show ?thesis by auto
qed

end

end
