(* ===== verification/Connection_Messages.thy ===== *)
theory Connection_Messages
  imports Connection_Alone
begin

text \<open>
  The messages of a client over a socket: what each one takes from the stream, what it sends and what
  it changes, and how a connection notices that it is asked to stop.
\<close>

section \<open>Progress of messages without an answer\<close>

context live_transport
begin

lemma send_event_settles:
  assumes "can_goL n k w th"
  shows "settles (\<lambda>_ _. True) halted (send_event ev th)"
proof -
  have "con_ok rd wr th" using assms by (simp add: can_go_def)
  from send_event_ok [OF this, of ev] show ?thesis by auto
qed

lemma KeyEvent_settles:
  assumes "can_goL 7 7 w th"
  shows "settles (\<lambda>_ _. True) halted (KeyEvent th)"
  unfolding KeyEvent_def
  by (rule settles_andthen [OF read_all_settles' [OF assms, where m = 7 and n' = 0 and k' = 0]])
    (auto intro: send_event_settles)

lemma PointerEvent_settles:
  assumes "can_goL 5 5 w th"
  shows "settles (\<lambda>_ _. True) halted (PointerEvent th)"
  unfolding PointerEvent_def
  by (rule settles_andthen [OF read_all_settles' [OF assms, where m = 5 and n' = 0 and k' = 0]])
    (auto intro: send_event_settles)

end

section \<open>Keys and pointers\<close>

text \<open>
  A KeyEvent message is 7 bytes and a PointerEvent message 5; each becomes one event with the
  fields of the message in network byte order, which joins the queue of the server unless the queue is
  full; nothing is sent. Both come to an end when the client has sent the message and the socket serves
  a call for each of its bytes.
\<close>

theorem input_messages_spec:
  assumes "con_ok sock_read sock_write th"
  shows "safe (\<lambda>_ t. \<exists>b. length b = 7 \<and> message sock_read sock_write sock_inp sock_outp sock_full th b t \<and>
        event_delivered (EvKey (b ! 0) (be32 (b ! 3) (b ! 4) (b ! 5) (b ! 6))) th t) ended (KeyEvent th) \<and>
      safe (\<lambda>_ t. \<exists>b. length b = 5 \<and> message sock_read sock_write sock_inp sock_outp sock_full th b t \<and>
        event_delivered (EvPointer (b ! 0) (be16 (b ! 1) (b ! 2)) (be16 (b ! 3) (b ! 4))) th t) ended
      (PointerEvent th) \<and>
      (can_go sock_read sock_write sock_inp sock_full sock_budget 7 7 w th \<longrightarrow> KeyEvent th \<noteq> None) \<and>
      (can_go sock_read sock_write sock_inp sock_full sock_budget 5 5 w th \<longrightarrow> PointerEvent th \<noteq> None)"
  using safe_ended [OF skf.KeyEvent_safe [OF assms]]
    safe_ended [OF skf.PointerEvent_safe [OF assms]] sk.KeyEvent_settles [of w th]
    sk.PointerEvent_settles [of w th]
  by (simp_all add: settles_def)

text \<open>A connection whose client has sent some bytes.\<close>

definition fed :: "bytes \<Rightarrow> sock ptr thread" where
  "fed bs = example_thread (replicate 20 SelReady) [RcvData bs] (replicate 20 (SndOk 2048))"

lemma fed_ok [simp]: "con_ok sock_read sock_write (fed bs)"
  by (simp add: fed_def)

lemma fed_fb [simp]: "con_fb (th_con (fed bs)) = NULL"
  by (simp add: fed_def)

lemma fed_unasked [simp]: "unasked (fed bs)"
  by (simp add: fed_def unasked_def)

lemma fed_pending: "io_pending sock_inp (th_io (fed bs)) = bs"
  by (simp add: fed_def example_pending)

lemma fed_can_go:
  "0 < n \<Longrightarrow> n \<le> length bs \<Longrightarrow> k \<le> 20 \<Longrightarrow> can_go sock_read sock_write sock_inp sock_full sock_budget n k 0 (fed bs)"
  by (cases "bs = []")
    (simp_all add: fed_pending can_go_def, simp_all add: fed_def sock_full_def sock_budget_def snd_ready_def
      sel_ready_def TRFB_BUFSIZ_def list_all_iff)

theorem input_messages_spec_witness:
  "KeyEvent (fed [1, 0, 0, 0, 0, 255, 27]) \<noteq> None \<and>
   safe (\<lambda>_ t. \<exists>b. length b = 7 \<and>
        message sock_read sock_write sock_inp sock_outp sock_full (fed [1, 0, 0, 0, 0, 255, 27]) b t \<and>
        event_delivered (EvKey (b ! 0) (be32 (b ! 3) (b ! 4) (b ! 5) (b ! 6))) (fed [1, 0, 0, 0, 0, 255, 27]) t)
     ended (KeyEvent (fed [1, 0, 0, 0, 0, 255, 27]))"
  using input_messages_spec [OF fed_ok, of "[1, 0, 0, 0, 0, 255, 27]" 0]
    fed_can_go [of 7 "[1, 0, 0, 0, 0, 255, 27]" 7] by simp

section \<open>Cut texts\<close>

text \<open>
  C16. A ClientCutText message with the length \<open>n\<close> of an \<^verbatim>\<open>int\<close>: the text is the next \<open>n\<close> bytes of the
  stream, none for a negative \<open>n\<close>; it stands at the start of a fresh block of \<open>n + 1\<close> bytes, counted
  modulo 2 to the power of 64, which belongs to the event that joins the queue, unless that is full.
  So the length -1 gives an event of length 18446744073709551615 on a block without a byte.
\<close>

theorem cut_text_spec:
  assumes "con_ok sock_read sock_write th"
  shows "safe (\<lambda>_ t. \<exists>b msg u. length b = 7 \<and> length msg = nat (sint (cut_length b)) \<and>
      message sock_read sock_write sock_inp sock_outp sock_full th (b @ msg) t \<and>
      text_stored (cut_length b) msg th u \<and>
      event_delivered (EvCutText (cut_length b) (Ptr (heap_next (srv_heap (th_srv th))))) u t) ended
    (ClientCutText e th)"
  by (rule safe_ended [OF skf.ClientCutText_safe [OF assms]])

theorem cut_text_spec_witness:
  "safe (\<lambda>_ t. \<exists>b msg u. length b = 7 \<and> length msg = nat (sint (cut_length b)) \<and>
      message sock_read sock_write sock_inp sock_outp sock_full (fed [0, 0, 0, 255, 255, 255, 255]) (b @ msg) t \<and>
      text_stored (cut_length b) msg (fed [0, 0, 0, 255, 255, 255, 255]) u \<and>
      event_delivered (EvCutText (cut_length b)
        (Ptr (heap_next (srv_heap (th_srv (fed [0, 0, 0, 255, 255, 255, 255])))))) u t) ended
    (ClientCutText easy_env (fed [0, 0, 0, 255, 255, 255, 255])) \<and> cut_length [0, 0, 0, 255, 255, 255, 255] = -1"
  using cut_text_spec [OF fed_ok, of "[0, 0, 0, 255, 255, 255, 255]" easy_env]
  by (simp add: cut_length_def be32_def)

section \<open>Pixel formats\<close>

text \<open>The format that the 19 bytes of a message ask for, with its depth in bytes.\<close>

definition asked_format :: "bytes \<Rightarrow> trfb_format" where
  "asked_format b =
     (let big = (\<lambda>i. of_nat (256 * unat (b ! i) + unat (b ! Suc i))) in
      \<lparr>fmt_bpp = b ! 3 div 8, fmt_depth = b ! 4, fmt_big_endian = b ! 5, fmt_true_color = b ! 6,
       fmt_rmax = big 7, fmt_gmax = big 9, fmt_bmax = big 11,
       fmt_rshift = b ! 13, fmt_gshift = b ! 14, fmt_bshift = b ! 15\<rparr>)"

lemma be16_value: "(ucast (be16 h l) :: u16) = of_nat (256 * unat h + unat l)"
  by (metis of_nat_unat unat_be16 mult.commute)

lemma wire_format_asked: "length b = 19 \<Longrightarrow> (wire_format (drop 3 b))\<lparr>fmt_bpp := b ! 3 div 8\<rparr> = asked_format b"
  by (simp add: wire_format_def asked_format_def be16_value Let_def del: of_nat_add of_nat_mult)

text \<open>
  C17. A SetPixelFormat message is 19 bytes, nothing is sent, and its shifts must be less than 32. The
  connection then keeps the format of the message with its depth in bytes, and has a new framebuffer of
  that format: black, with a free lock, the masks and shifts that were asked for, the norms that follow
  from the masks, the width of the server's framebuffer, and that width for the height as well. The
  framebuffer it had before must be one that may be released; when its lock is the byte copy of a held
  one and \<^verbatim>\<open>mtx_destroy\<close> does not leave that alone, a complete message makes the behaviour undefined.
\<close>

theorem set_pixel_format_spec:
  assumes "con_ok sock_read sock_write th"
  shows "(shifts_fine (io_pending sock_inp (th_io th)) \<and> fb_free_ok (destroy_held e) (con_fb (th_con th)) \<longrightarrow>
    safe (\<lambda>_ t. \<exists>b fb sfb. length b = 19 \<and> message sock_read sock_write sock_inp sock_outp sock_full th b t \<and>
      con_fb (th_con t) = Ptr fb \<and> srv_fb (th_srv t) = Ptr sfb \<and>
      con_format (th_con t) = asked_format b \<and>
      fresh_of_format (con_format (th_con t)) (fb_width sfb) (fb_width sfb) fb) ended
    (SetPixelFormat e th)) \<and>
    (\<not> fb_free_ok (destroy_held e) (con_fb (th_con th)) \<and>
      can_go sock_read sock_write sock_inp sock_full sock_budget 19 19 w th \<and> unasked th \<longrightarrow>
      SetPixelFormat e th = Some Undef)"
proof (intro conjI impI; elim conjE)
  show "SetPixelFormat e th = Some Undef"
    if held: "\<not> fb_free_ok (destroy_held e) (con_fb (th_con th))"
      and go: "can_go sock_read sock_write sock_inp sock_full sock_budget 19 19 w th" and asked: "unasked th"
  proof -
    obtain bs t where t: "trfb_connection_read_all 19 th = Some (Done bs t)"
      "io_step sock_read sock_write sock_inp sock_outp sock_full th bs [] t"
      using sk.read_goes [of 19 0 0 w th] go asked by auto
    then have "con_fb (th_con t) = con_fb (th_con th)" by (simp add: io_step_def only_io_def)
    with held show ?thesis by (intro skf.SetPixelFormat_undef [OF t(1)]) simp
  qed
qed (rule safe_mono [OF safe_ended [OF skf.SetPixelFormat_safe [OF assms]]], auto simp: wire_format_asked)

text \<open>A client that asks for the format of a message, and one whose framebuffer is the copy of a held one.\<close>

definition true_color_message :: bytes where
  "true_color_message = [0, 0, 0, 32, 24, 0, 1, 0, 255, 0, 255, 0, 255, 16, 8, 0, 0, 0, 0]"

definition copied :: trfb_framebuffer where
  "copied = fb888\<lparr>fb_lock := MtxHeld\<rparr>"

theorem set_pixel_format_spec_witness:
  "safe (\<lambda>_ t. \<exists>b fb sfb. length b = 19 \<and>
      message sock_read sock_write sock_inp sock_outp sock_full (fed true_color_message) b t \<and>
      con_fb (th_con t) = Ptr fb \<and> srv_fb (th_srv t) = Ptr sfb \<and>
      con_format (th_con t) = asked_format b \<and>
      fresh_of_format (con_format (th_con t)) (fb_width sfb) (fb_width sfb) fb) ended
    (SetPixelFormat easy_env (fed true_color_message)) \<and>
   SetPixelFormat (easy_env\<lparr>destroy_held := False\<rparr>)
     (with_con (con_fb_update (\<lambda>_. Ptr copied)) (fed true_color_message)) = Some Undef"
proof
  let ?e = "easy_env\<lparr>destroy_held := False\<rparr>"
  let ?th = "with_con (con_fb_update (\<lambda>_. Ptr copied)) (fed true_color_message)"
  show "safe (\<lambda>_ t. \<exists>b fb sfb. length b = 19 \<and>
      message sock_read sock_write sock_inp sock_outp sock_full (fed true_color_message) b t \<and>
      con_fb (th_con t) = Ptr fb \<and> srv_fb (th_srv t) = Ptr sfb \<and>
      con_format (th_con t) = asked_format b \<and>
      fresh_of_format (con_format (th_con t)) (fb_width sfb) (fb_width sfb) fb) ended
    (SetPixelFormat easy_env (fed true_color_message))"
    using set_pixel_format_spec [OF fed_ok, of true_color_message easy_env]
    by (simp add: fed_pending shifts_fine_def true_color_message_def)
  have ok: "con_ok sock_read sock_write ?th"
    using fed_ok [of true_color_message] fb888_small by (auto simp: con_ok_def with_con_def copied_def)
  moreover have "can_go sock_read sock_write sock_inp sock_full sock_budget 19 19 0 ?th"
    using fed_can_go [of 19 true_color_message 19] ok
    by (simp add: can_go_def true_color_message_def)
  moreover have "unasked ?th" using fed_unasked by (simp add: unasked_def with_con_def)
  ultimately show "SetPixelFormat ?e ?th = Some Undef"
    using set_pixel_format_spec [of ?th ?e 0] by (simp add: copied_def with_con_def)
qed

section \<open>Update requests\<close>

lemma shows_of_pixels:
  assumes "fb_small fb" "shows_of e be fb src"
  shows "length (fb_pixels fb) = unat (fb_width src) * unat (fb_height src) * unat (fb_bpp fb)"
  using assms by (auto simp: fb_small_def fb_wf_def fb_shape_def shows_of_def)

text \<open>
  C18. An update request is 9 bytes. When its corner lies outside of the server's framebuffer or of the
  clamped size, nothing is sent. Otherwise what is sent, as long as every \<^verbatim>\<open>send\<close> takes all it is given
  (\<open>sock_full\<close>), is the header of one rectangle, with the corner and the clamped size, and then the pixels
  of the whole framebuffer of the connection, whatever the size of the rectangle. These show the server's
  framebuffer in the byte order that the client asked for and in the depth, masks and shifts that the
  connection's framebuffer had before the request, or the server's one when it had none.
\<close>

theorem update_request_spec:
  assumes "con_ok sock_read sock_write th"
  shows "safe (\<lambda>_ t. con_ok sock_read sock_write t \<and> (\<exists>b fb src outs. length b = 9 \<and>
      talks sock_inp sock_outp sock_full th b outs t \<and>
      con_fb (th_con t) = Ptr fb \<and> srv_fb (th_srv t) = Ptr src \<and>
      (case con_fb (th_con th) of
         Ptr old \<Rightarrow> same_format fb old
       | NULL \<Rightarrow> (\<exists>sfb. srv_fb (th_srv (others_act th)) = Ptr sfb \<and> same_format fb sfb)) \<and>
      update_answer e (fmt_big_endian (con_format (th_con th)) \<noteq> 0) b fb src outs \<and>
      (outs = [] \<or> length outs = 16 + unat (fb_width src) * unat (fb_height src) * unat (fb_bpp fb)))) ended
    (UpdateRequest e th)"
  unfolding client_format_def [symmetric]
proof (rule safe_mono [OF safe_ended [OF skf.UpdateRequest_safe [OF assms]]], elim conjE exE, intro conjI)
  fix t b fb src outs
  assume t: "con_ok sock_read sock_write t" "length b = 9" "talks sock_inp sock_outp sock_full th b outs t"
    "con_fb (th_con t) = Ptr fb" "srv_fb (th_srv t) = Ptr src" "client_format th fb"
    "update_answer e (fmt_big_endian (con_format (th_con th)) \<noteq> 0) b fb src outs"
  have "fb_small fb" using t by (simp add: con_ok_def)
  then have "outs = [] \<or> length outs = 16 + unat (fb_width src) * unat (fb_height src) * unat (fb_bpp fb)"
    using t(7) shows_of_pixels [of fb] by (auto simp: update_answer_def Let_def split: if_splits)
  with t show "\<exists>b fb src outs. length b = 9 \<and> talks sock_inp sock_outp sock_full th b outs t \<and>
      con_fb (th_con t) = Ptr fb \<and> srv_fb (th_srv t) = Ptr src \<and> client_format th fb \<and>
      update_answer e (fmt_big_endian (con_format (th_con th)) \<noteq> 0) b fb src outs \<and>
      (outs = [] \<or> length outs = 16 + unat (fb_width src) * unat (fb_height src) * unat (fb_bpp fb))"
    by blast
qed assumption

theorem update_request_spec_witness:
  "safe (\<lambda>_ t. con_ok sock_read sock_write t \<and> (\<exists>b fb src outs. length b = 9 \<and>
      talks sock_inp sock_outp sock_full (fed [0, 0, 0, 0, 0, 0, 1, 0, 1]) b outs t \<and>
      con_fb (th_con t) = Ptr fb \<and> srv_fb (th_srv t) = Ptr src \<and>
      same_format fb fb888 \<and>
      update_answer easy_env (fmt_big_endian (con_format (th_con (fed [0, 0, 0, 0, 0, 0, 1, 0, 1]))) \<noteq> 0)
        b fb src outs \<and>
      (outs = [] \<or> length outs = 16 + unat (fb_width src) * unat (fb_height src) * unat (fb_bpp fb)))) ended
    (UpdateRequest easy_env (fed [0, 0, 0, 0, 0, 0, 1, 0, 1]))"
proof -
  have "srv_fb (th_srv (others_act (fed [0, 0, 0, 0, 0, 0, 1, 0, 1]))) = Ptr (fb888\<lparr>fb_lock := MtxFree\<rparr>)"
    by (simp add: others_act_def fed_def example_thread_def)
  moreover have "same_format fb (fb888\<lparr>fb_lock := MtxFree\<rparr>) = same_format fb fb888" for fb
    by (simp add: same_format_def)
  ultimately show ?thesis
    using update_request_spec [OF fed_ok, of "[0, 0, 0, 0, 0, 0, 1, 0, 1]" easy_env] by simp
qed

section \<open>Stop requests\<close>

text \<open>A client that is silent: nothing is buffered, and \<^verbatim>\<open>select\<close> times out \<open>n\<close> times.\<close>

definition silent :: "nat \<Rightarrow> sock ptr thread \<Rightarrow> bool" where
  "silent n th \<longleftrightarrow> con_ok sock_read sock_write th \<and> io_rlen (th_io th) \<le> io_rpos (th_io th) \<and>
     (\<exists>sk s. io_ctx (th_io th) = Ptr sk \<and> sk_sel sk = replicate n SelTimeout @ s)"

text \<open>The server asks the connection to stop after it has looked \<open>n\<close> times.\<close>

definition asked_after :: "nat \<Rightarrow> 'w thread \<Rightarrow> bool" where
  "asked_after n th \<longleftrightarrow> con_state (th_con th) = StWORKING \<and>
     (\<exists>rest. th_stops th = replicate n False @ True # rest)"

definition stopped_by :: "('w thread, 'a) outcome option \<Rightarrow> bool" where
  "stopped_by m \<longleftrightarrow> (\<exists>t. m = Some (Exit t) \<and> con_state (th_con t) = StSTOPPED \<and> con_lock (th_con t) = MtxFree)"

lemma stopped_andthen: "stopped_by m \<Longrightarrow> stopped_by (andthen m f)"
  by (auto simp: stopped_by_def)

lemma check_asked_now:
  "con_lock (th_con th) = MtxFree \<Longrightarrow> asked_after 0 th \<Longrightarrow> stopped_by (check_stopped th)"
  by (auto simp: check_stopped_eq asked_after_def stopped_by_def stop_request_def with_con_def)

lemma check_asked_later:
  assumes "con_lock (th_con th) = MtxFree" "asked_after (Suc n) th"
  shows "\<exists>t. check_stopped th = Some (Done () t) \<and> asked_after n t \<and> th_con t = th_con th \<and>
    th_srv t = th_srv th \<and> th_others t = th_others th"
  using assms by (auto simp: check_stopped_eq asked_after_def stop_request_def with_con_def)

lemma silent_read:
  assumes "silent (Suc n) th" "0 \<le> len"
  shows "\<exists>t. on_io (\<lambda>io. trfb_io_read io True len 1000) th = Some (Done (0, []) t) \<and> silent n t \<and>
    th_stops t = th_stops th \<and> con_state (th_con t) = con_state (th_con th)"
proof -
  obtain sk s where sk: "io_ctx (th_io th) = Ptr sk" "sk_sel sk = SelTimeout # replicate n SelTimeout @ s"
    using assms(1) by (auto simp: silent_def)
  have ok: "con_ok sock_read sock_write th" and e: "io_rlen (th_io th) \<le> io_rpos (th_io th)"
    using assms(1) by (auto simp: silent_def)
  have io: "con_io (th_con th) = Ptr (th_io th)" "io_wf sock_read sock_write (th_io th)"
    using con_ok_io [OF ok] by simp_all
  let ?io = "(th_io th)\<lparr>io_ctx := Ptr (sk\<lparr>sk_sel := replicate n SelTimeout @ s\<rparr>)\<rparr>"
  have "io_read_body True len 1000 (th_io th) = Some (Done (0, []) ?io)"
    using io(2) e assms(2) sk by (simp add: io_read_body_def io_wf_def sock_read_def sock_timeval_def)
  then have run: "on_io (\<lambda>io. trfb_io_read io True len 1000) th =
      Some (Done (0, []) (with_con (con_io_update (\<lambda>_. Ptr ?io)) th))"
    using io(1) by (simp add: on_io_def trfb_io_read_def with_io_def)
  have "io_wf sock_read sock_write ?io" using io(2) by (simp add: io_wf_def)
  then have "con_ok sock_read sock_write (with_con (con_io_update (\<lambda>_. Ptr ?io)) th)" by (rule con_ok_set_io [OF ok])
  then have "silent n (with_con (con_io_update (\<lambda>_. Ptr ?io)) th)" using e by (simp add: silent_def)
  with run show ?thesis by (auto simp: with_con_def)
qed

lemma silent_cong:
  "silent n th \<Longrightarrow> th_con t = th_con th \<Longrightarrow> th_srv t = th_srv th \<Longrightarrow> th_others t = th_others th \<Longrightarrow> silent n t"
  by (simp add: silent_def con_ok_def th_io_def)

lemma read_stopped:
  "silent (Suc n) th \<Longrightarrow> asked_after n th \<Longrightarrow> 0 \<le> len \<Longrightarrow> stopped_by (trfb_connection_read len th)"
proof (induction n arbitrary: th)
  case (0 th)
  then obtain t where t: "on_io (\<lambda>io. trfb_io_read io True len 1000) th = Some (Done (0, []) t)" "silent 0 t"
    "asked_after 0 t" using silent_read [of 0 th len] by (auto simp: asked_after_def)
  then have "stopped_by (check_stopped t)" by (intro check_asked_now) (auto simp: silent_def con_ok_def)
  with t show ?case by (subst trfb_connection_read.simps) (simp add: stopped_andthen)
next
  case (Suc n)
  then obtain t where t: "on_io (\<lambda>io. trfb_io_read io True len 1000) th = Some (Done (0, []) t)" "silent (Suc n) t"
    "asked_after (Suc n) t" using silent_read [of "Suc n" th len] by (auto simp: asked_after_def)
  then have "con_lock (th_con t) = MtxFree" by (simp add: silent_def con_ok_def)
  from check_asked_later [OF this t(3)] obtain u where u: "check_stopped t = Some (Done () u)" "asked_after n u"
    "silent (Suc n) u" using silent_cong [OF t(2)] by blast
  have "stopped_by (trfb_connection_read len u)" by (rule Suc.IH [OF u(3,2) Suc.prems(3)])
  with t u show ?case by (subst trfb_connection_read.simps) simp
qed

text \<open>
  C19. A connection whose client is silent obeys a request to stop, whenever that comes: between two
  messages or while it waits for the rest of one, each time \<^verbatim>\<open>select\<close> has timed out after a second it
  looks at its state, and when the server has set it to STOP the thread ends in the state STOPPED with
  its lock free.
\<close>

theorem stop_request_obeyed:
  assumes a: "asked_after n th"
  shows "(silent n th \<longrightarrow> stopped_by (connection_loop e th)) \<and>
    (silent (Suc n) th \<and> 0 < len \<longrightarrow> stopped_by (trfb_connection_read_all len th))"
proof (intro conjI impI)
  show "stopped_by (connection_loop e th)" if s: "silent n th"
  proof -
    have lock: "con_lock (th_con th) = MtxFree" using s by (simp add: silent_def con_ok_def)
    show ?thesis
    proof (cases n)
      case 0
      with check_asked_now [OF lock] a show ?thesis
        by (subst connection_loop.simps) (simp add: stopped_andthen)
    next
      case (Suc m)
      from check_asked_later [OF lock a [unfolded Suc]] obtain u
        where u: "check_stopped th = Some (Done () u)" "asked_after m u" "silent (Suc m) u"
        using silent_cong [OF s [unfolded Suc]] by blast
      then have "stopped_by (trfb_connection_read 1 u)" by (intro read_stopped) auto
      with u show ?thesis by (subst connection_loop.simps) (simp add: stopped_andthen)
    qed
  qed
  show "stopped_by (trfb_connection_read_all len th)"
    if w: "silent (Suc n) th \<and> 0 < len"
    using read_stopped [of n th len] a w
    by (simp add: trfb_connection_read_all_def read_all_loop.simps stopped_andthen)
qed

theorem stop_request_obeyed_witness:
  "stopped_by (connection_loop easy_env ((example_thread [SelTimeout] [] [])\<lparr>th_stops := [False, True]\<rparr>))"
proof -
  have "silent 1 ((example_thread [SelTimeout] [] [])\<lparr>th_stops := [False, True]\<rparr>)"
    by (rule silent_cong [of 1 "example_thread [SelTimeout] [] []"]) (auto simp: silent_def)
  moreover have "asked_after 1 ((example_thread [SelTimeout] [] [])\<lparr>th_stops := [False, True]\<rparr>)"
    by (simp add: asked_after_def)
  ultimately show ?thesis using stop_request_obeyed by blast
qed

end
