(* ===== verification/Connection_Session.thy ===== *)
theory Connection_Session
  imports Connection_Messages
begin

text \<open>
  The thread of a connection as a whole: it takes the stream of its client apart into messages, and the
  queue of the server gets the events of those messages, in their order and nothing else.
\<close>

section \<open>Messages and the queue\<close>

lemma SetPixelFormat_still: "still q th \<Longrightarrow> keeps (still q) (SetPixelFormat e th)"
  unfolding SetPixelFormat_def Let_def
  by (rule rets_andthen [OF quiet.read_all_kept], assumption, split if_split, intro conjI impI, simp,
      rule rets_andthen, rule srv_locked_still)
    (auto simp: quiet.EXIT_THREAD_kept intro!: rets_need split: ptr.split)

lemma update_copy_still: "still q th \<Longrightarrow> keeps (still q) (update_copy e th)"
  unfolding update_copy_def
  by (split if_split, intro conjI impI, simp, rule rets_andthen, rule srv_locked_still)
    (auto simp: quiet.EXIT_THREAD_kept intro!: rets_need split: ptr.split)

lemma update_convert_still: "still q th \<Longrightarrow> keeps (still q) (update_convert e th)"
  unfolding update_convert_def
  by (rule rets_andthen, rule srv_locked_still)
    (auto simp: quiet.EXIT_THREAD_kept intro!: rets_need split: ptr.split)

lemma UpdateRequest_still: "still q th \<Longrightarrow> keeps (still q) (UpdateRequest e th)"
  unfolding UpdateRequest_def Let_def
  by (rule rets_andthen [OF quiet.read_all_kept], assumption, rule rets_andthen [OF update_copy_still], assumption,
      rule rets_andthen [OF update_convert_still])
    (auto intro!: rets_need rets_andthen [OF quiet.write_all_kept] quiet.write_all_kept split: ptr.split)

lemma KeyEvent_idle: "still q th \<Longrightarrow> idle_then q (KeyEvent th)"
  unfolding KeyEvent_def
  by (rule rets_andthen [OF quiet.read_all_kept], assumption, rule send_event_idle) (simp add: still_def)

lemma PointerEvent_idle: "still q th \<Longrightarrow> idle_then q (PointerEvent th)"
  unfolding PointerEvent_def
  by (rule rets_andthen [OF quiet.read_all_kept], assumption, rule send_event_idle) (simp add: still_def)

lemma heap_still [simp]: "still q (th\<lparr>th_srv := (th_srv th)\<lparr>srv_heap := h\<rparr>\<rparr>) = still q th"
  by (simp add: still_def srv_queue_def ring_slot_def [abs_def])

lemma ClientCutText_idle: "still q th \<Longrightarrow> idle_then q (ClientCutText e th)"
  unfolding ClientCutText_def Let_def
  by (rule rets_andthen [OF quiet.read_all_kept], assumption, simp only: case_prod_unfold split: ptr.split,
      intro conjI impI allI)
    (simp add: quiet.EXIT_THREAD_kept [THEN idle_thenI],
      auto intro!: rets_need rets_andthen [OF quiet.read_all_kept] send_event_idle, simp add: still_def)

text \<open>What a message has done that has been served completely.\<close>

definition served :: "'w read_fn \<Rightarrow> 'w write_fn \<Rightarrow> ('w \<Rightarrow> bytes) \<Rightarrow> u8 \<Rightarrow> 'w thread \<Rightarrow> 'w thread \<Rightarrow> bool" where
  "served rd wr inp ty th t \<longleftrightarrow> con_ok rd wr t \<and> th_others t = [] \<and>
     (\<exists>b evs. wire ty b evs \<and> io_pending inp (th_io th) = b @ io_pending inp (th_io t) \<and>
       srv_queue (th_srv t) = foldl enqueue (srv_queue (th_srv th)) evs)"

text \<open>
  What was taken in is a row of whole messages and perhaps a message cut short, and the events so far
  are exactly those of the row.
\<close>

definition streamed :: "('w \<Rightarrow> bytes) \<Rightarrow> 'w thread \<Rightarrow> 'w thread \<Rightarrow> bool" where
  "streamed inp th t \<longleftrightarrow> (\<exists>evs part. begun part \<and>
     client_stream (io_pending inp (th_io th)) evs (part @ io_pending inp (th_io t)) \<and>
     srv_queue (th_srv t) = foldl enqueue (srv_queue (th_srv th)) evs)"

lemma streamed_part:
  assumes "srv_queue (th_srv t) = srv_queue (th_srv th)" "begun part"
    "io_pending inp (th_io th) = part @ io_pending inp (th_io t)"
  shows "streamed inp th t"
  unfolding streamed_def using assms client_stream.none [of "io_pending inp (th_io th)"]
  by (intro exI [of _ "[]"] exI [of _ part]) simp

lemma streamed_quit:
  "quits inp th t \<Longrightarrow> srv_queue (th_srv t) = srv_queue (th_srv th) \<Longrightarrow> streamed inp th t"
  using streamed_part [of t th "[]" inp] by (simp add: ended_after_def begun_def)

lemma streamed_cut:
  assumes "ended_after inp (cut_short ty) u t" "io_pending inp (th_io th) = ty # io_pending inp (th_io u)"
    "srv_queue (th_srv t) = srv_queue (th_srv th)"
  shows "streamed inp th t"
proof -
  obtain b where "cut_short ty b" "io_pending inp (th_io u) = b @ io_pending inp (th_io t)"
    using assms(1) by (auto simp: ended_after_def)
  then show ?thesis using assms(2,3) streamed_part [of t th "ty # b" inp] by (simp add: begun_def)
qed

lemma streamed_message:
  assumes "io_pending inp (th_io th) = ty # io_pending inp (th_io u)" "srv_queue (th_srv u) = srv_queue (th_srv th)"
    "served rd wr inp ty u v" "streamed inp v t"
  shows "streamed inp th t"
proof -
  obtain b evs where b: "wire ty b evs" "io_pending inp (th_io u) = b @ io_pending inp (th_io v)"
    "srv_queue (th_srv v) = foldl enqueue (srv_queue (th_srv u)) evs"
    using assms(3) by (auto simp: served_def)
  obtain evs' part where r: "begun part"
    "client_stream (io_pending inp (th_io v)) evs' (part @ io_pending inp (th_io t))"
    "srv_queue (th_srv t) = foldl enqueue (srv_queue (th_srv v)) evs'"
    using assms(4) by (auto simp: streamed_def)
  show ?thesis
    unfolding streamed_def using client_stream.message [OF b(1) r(2)] b r(1,3) assms(1,2)
    by (intro exI [of _ "evs @ evs'"] exI [of _ part]) simp
qed

context full_transport
begin

abbreviation servedL :: "u8 \<Rightarrow> 'w thread \<Rightarrow> 'w thread \<Rightarrow> bool" where
  "servedL \<equiv> served rd wr inp"

abbreviation cut_offL :: "u8 \<Rightarrow> 'w thread \<Rightarrow> 'w thread \<Rightarrow> bool" where
  "cut_offL ty th t \<equiv> ended_after inp (cut_short ty) th t \<and> srv_queue (th_srv t) = srv_queue (th_srv th)"

lemma served_by:
  assumes "safe R (ended_after inp P th) m" "rets I (still (srv_queue (th_srv th))) m"
    and "\<And>a t. R a t \<Longrightarrow> I a t \<Longrightarrow> servedL ty th t" and "\<And>b. P b \<Longrightarrow> cut_short ty b"
  shows "safe (\<lambda>_. servedL ty th) (cut_offL ty th) m"
  by (rule safe_mono [OF safe_rets [OF assms(1,2)]])
    (auto simp: still_def intro: assms(3) ended_after_mono assms(4))

lemma servedI:
  "con_ok rd wr t \<Longrightarrow> talks inp outp full th b outs t \<Longrightarrow> wire ty b evs \<Longrightarrow> th_others t = [] \<Longrightarrow>
   srv_queue (th_srv t) = foldl enqueue (srv_queue (th_srv th)) evs \<Longrightarrow> servedL ty th t"
  unfolding served_def talks_def by blast

lemma process_served:
  assumes ok: "con_ok rd wr th" and process: "map_of (msg_types e) ty = Some f"
    and fine: "ty = 0 \<Longrightarrow> shifts_fine (io_pending inp (th_io th))" and idle: "th_others th = []"
    and free: "fb_free_ok (destroy_held e) (con_fb (th_con th))"
  shows "safe (\<lambda>_. servedL ty th) (cut_offL ty th) (f th)"
proof -
  have st: "still (srv_queue (th_srv th)) th" using idle by (simp add: still_def)
  consider "ty = 0" "f = SetPixelFormat e" | "ty = 2" "f = ignore_result SetEncodings"
    | "ty = 3" "f = UpdateRequest e" | "ty = 4" "f = KeyEvent" | "ty = 5" "f = PointerEvent"
    | "ty = 6" "f = ClientCutText e"
    using process by (auto simp: msg_types_def split: if_splits)
  then show ?thesis
  proof cases
    case 1
    show ?thesis unfolding 1
      by (rule served_by [OF SetPixelFormat_safe [OF ok fine [OF 1(1)] free] SetPixelFormat_still [OF st]])
        (auto simp: still_def message_def intro: servedI wire.pixel_format cut_short_fixed)
  next
    case 2
    have "safe (\<lambda>_ t. \<exists>b c. length b = 3 \<and> length c = 4 * unat (be16 (b ! 1) (b ! 2)) \<and>
        io_stepL th (b @ c) [] t) (ended_after inp (cut_short 2) th) (ignore_result SetEncodings th)"
      unfolding ignore_result_def by (rule safe_andthen [OF SetEncodings_safe [OF ok]]) simp
    then show ?thesis unfolding 2
      by (rule served_by [OF _ quiet.SetEncodings_kept [OF st]])
        (auto simp: still_def io_step_def simp del: One_nat_def intro: servedI wire.encodings)
  next
    case 3
    show ?thesis unfolding 3
      by (rule served_by [OF UpdateRequest_safe [OF ok] UpdateRequest_still [OF st]])
        (auto simp: still_def intro: servedI wire.update_request cut_short_fixed)
  next
    case 4
    show ?thesis unfolding 4
      by (rule served_by [OF KeyEvent_safe [OF ok] KeyEvent_idle [OF st]])
        (auto simp: message_def event_delivered_idle [OF _ idle] intro: servedI wire.key cut_short_fixed)
  next
    case 5
    show ?thesis unfolding 5
      by (rule served_by [OF PointerEvent_safe [OF ok] PointerEvent_idle [OF st]])
        (auto simp: message_def event_delivered_idle [OF _ idle] intro: servedI wire.pointer cut_short_fixed)
  next
    case 6
    show ?thesis unfolding 6
    proof (rule served_by [OF ClientCutText_safe [OF ok] ClientCutText_idle [OF st]])
      fix t
      assume "\<exists>b msg u. length b = 7 \<and> length msg = nat (sint (cut_length b)) \<and>
        messageL th (b @ msg) t \<and> text_stored (cut_length b) msg th u \<and>
        event_delivered (EvCutText (cut_length b) (Ptr (heap_next (srv_heap (th_srv th))))) u t"
        and "th_others t = []"
      then obtain b msg u where b: "length b = 7" "length msg = nat (sint (cut_length b))"
        "messageL th (b @ msg) t" "th_others t = []" and u: "text_stored (cut_length b) msg th u"
        "event_delivered (EvCutText (cut_length b) (Ptr (heap_next (srv_heap (th_srv th))))) u t" by blast
      have "th_others u = []" "srv_queue (th_srv u) = srv_queue (th_srv th)"
        using u(1) idle by (auto simp: text_stored_def srv_queue_def ring_slot_def [abs_def])
      with b event_delivered_idle [OF u(2)] show "servedL 6 th t"
        by (auto simp: message_def intro: servedI wire.cut_text)
    qed simp
  qed
qed


text \<open>The end of a thread that has served some messages completely and perhaps begun another.\<close>

abbreviation session_end :: "'w thread \<Rightarrow> 'w thread \<Rightarrow> bool" where
  "session_end th t \<equiv> ended t \<and> streamed inp th t"

lemma leave_session:
  assumes "con_ok rd wr t" "still (srv_queue (th_srv th)) t"
    and "\<And>u. ended u \<Longrightarrow> th_io u = th_io t \<Longrightarrow> srv_queue (th_srv u) = srv_queue (th_srv th) \<Longrightarrow> streamed inp th u"
  shows "safe Q (session_end th) (EXIT_THREAD StERROR t)"
proof -
  have "safe Q (\<lambda>u. ended u \<and> th_io u = th_io t) (EXIT_THREAD StERROR t)"
    by (rule EXIT_THREAD_safe [OF assms(1)]) simp_all
  from safe_mono [OF safe_rets [OF this quiet.EXIT_THREAD_kept [OF assms(2)]]] assms(3) show ?thesis
    by (simp add: still_def)
qed

lemma safe_still:
  assumes "safe Q (quits inp th) m" "keeps (still (srv_queue (th_srv th))) m"
  shows "safe (\<lambda>a t. Q a t \<and> still (srv_queue (th_srv th)) t) (session_end th) m"
  by (rule safe_mono [OF safe_rets [OF assms]])
    (auto simp: still_def intro: streamed_quit dest: ended_after_ended)

lemma message_session:
  assumes u: "con_ok rd wr u" "still (srv_queue (th_srv th)) u"
    and head: "io_pending inp (th_io th) = ty # io_pending inp (th_io u)"
    and pol: "polite_row (io_pending inp (th_io th))" and lax: "destroy_held e"
    and loop: "\<And>t. con_ok rd wr t \<Longrightarrow> polite_row (io_pending inp (th_io t)) \<Longrightarrow> th_others t = [] \<Longrightarrow>
      safe (\<lambda>_ _. False) (session_end t) (f t)"
  shows "safe (\<lambda>_ _. False) (session_end th) (andthen (case map_of (msg_types e) ty of
      None \<Rightarrow> EXIT_THREAD StERROR u | Some process \<Rightarrow> process u) (\<lambda>_. f))"
proof (rule safe_andthen)
  have idle: "th_others u = []" and q: "srv_queue (th_srv u) = srv_queue (th_srv th)"
    using u(2) by (simp_all add: still_def)
  have fine: "shifts_fine (io_pending inp (th_io u))" if "ty = 0"
    using pol head that polite_head by simp
  have free: "fb_free_ok (destroy_held e) (con_fb (th_con u))" using free_held [OF u(1)] lax by simp
  show "safe (\<lambda>_. servedL ty u) (session_end th) (case map_of (msg_types e) ty of
      None \<Rightarrow> EXIT_THREAD StERROR u | Some process \<Rightarrow> process u)"
  proof (cases "map_of (msg_types e :: (u8 \<times> ('w, unit) act) list) ty")
    case None
    then have "cut_short ty []" by (intro cut_short_other) (auto simp: msg_types_def split: if_splits)
    then have "safe (\<lambda>_. servedL ty u) (session_end th) (EXIT_THREAD StERROR u)"
      by (intro leave_session [OF u]) (rule streamed_part [where part = "[ty]"], simp_all add: begun_def head)
    with None show ?thesis by simp
  next
    case (Some process)
    have "safe (\<lambda>_. servedL ty u) (session_end th) (process u)"
      by (rule safe_mono [OF process_served [OF u(1) Some fine idle free]])
        (use streamed_cut [OF _ head] q in \<open>auto dest: ended_after_ended\<close>)
    with Some show ?thesis by simp
  qed
  fix t assume t: "servedL ty u t"
  then obtain b evs where b: "wire ty b evs" "io_pending inp (th_io u) = b @ io_pending inp (th_io t)"
    by (auto simp: served_def)
  then have "polite_row (io_pending inp (th_io t))" using pol head polite_next by simp
  moreover have "con_ok rd wr t" "th_others t = []" using t by (simp_all add: served_def)
  ultimately have "safe (\<lambda>_ _. False) (session_end t) (f t)" by (intro loop)
  then show "safe (\<lambda>_ _. False) (session_end th) (f t)"
    by (rule safe_mono) (auto intro: streamed_message [OF head q t])
qed

lemma session_safe:
  assumes "con_ok rd wr th" "polite_row (io_pending inp (th_io th))" "th_others th = []" "destroy_held e"
  shows "safe (\<lambda>_ _. False) (\<lambda>t. ended t \<and> streamed inp th t) (connection_loop e th)"
proof (rule safe_some)
  let ?E = "\<lambda>th t. ended t \<and> streamed inp th t"
  fix y assume "connection_loop e th = Some y"
  then have "con_ok rd wr th \<and> polite_row (io_pending inp (th_io th)) \<and> th_others th = [] \<and> destroy_held e \<longrightarrow>
    safe (\<lambda>_ _. False) (?E th) (Some y)"
  proof (rule connection_loop.raw_induct [rotated], intro impI, elim conjE)
    fix f :: "cenv \<Rightarrow> 'w thread \<Rightarrow> ('w thread, unit) outcome option" and e th y
    assume IH: "\<And>e th y. f e th = Some y \<Longrightarrow> con_ok rd wr th \<and> polite_row (io_pending inp (th_io th)) \<and>
        th_others th = [] \<and> destroy_held e \<longrightarrow> safe (\<lambda>_ _. False) (?E th) (Some y)"
      and body: "andthen (check_stopped th) (\<lambda>_ th.
     andthen (trfb_connection_read 1 th) (\<lambda>r th.
       if fst r < 0 then EXIT_THREAD StERROR th
       else if fst r = 1 then
         andthen (case map_of (msg_types e) (snd r ! 0) of
             None \<Rightarrow> EXIT_THREAD StERROR th
           | Some process \<Rightarrow> process th) (\<lambda>_ th. f e th)
       else f e th)) = Some y"
      and ok: "con_ok rd wr th" and pol: "polite_row (io_pending inp (th_io th))" and idle: "th_others th = []"
      and lax: "destroy_held e"
    let ?q = "srv_queue (th_srv th)"
    have st: "still ?q th" using idle by (simp add: still_def)
    have loop: "safe (\<lambda>_ _. False) (?E t) (f e t)"
      if "con_ok rd wr t" "polite_row (io_pending inp (th_io t))" "th_others t = []" for t
    proof (rule safe_some)
      fix y assume "f e t = Some y"
      from IH [OF this] that lax show "safe (\<lambda>_ _. False) (?E t) (Some y)" by blast
    qed
    show "safe (\<lambda>_ _. False) (?E th) (Some y)"
      unfolding body [symmetric]
    proof (rule safe_andthen [OF safe_still [OF io_step_check [OF ok] quiet.check_stopped_kept [OF st]]], elim conjE)
      fix t assume t: "io_stepL th [] [] t" "still ?q t"
      have first: "safe (\<lambda>r u. io_stepL t (snd r) [] u \<and> (fst r < 0 \<and> snd r = [] \<or>
          0 < fst r \<and> fst r = int (length (snd r)) \<and> fst r \<le> 1)) (quits inp th) (trfb_connection_read 1 t)"
        by (rule safe_mono [OF connection_read_safe [OF io_step_ok [OF t(1)]]]) (auto intro: io_step_quit [OF t(1)])
      show "safe (\<lambda>_ _. False) (?E th) (andthen (trfb_connection_read 1 t) (\<lambda>r th.
       if fst r < 0 then EXIT_THREAD StERROR th
       else if fst r = 1 then
         andthen (case map_of (msg_types e) (snd r ! 0) of
             None \<Rightarrow> EXIT_THREAD StERROR th
           | Some process \<Rightarrow> process th) (\<lambda>_ th. f e th)
       else f e th))"
      proof (rule safe_andthen [OF safe_still [OF first quiet.read_kept [OF t(2)]]], elim conjE)
        fix r :: "int \<times> bytes" and u
        assume step: "io_stepL t (snd r) [] u" and u: "still ?q u"
          and r: "fst r < 0 \<and> snd r = [] \<or> 0 < fst r \<and> fst r = int (length (snd r)) \<and> fst r \<le> 1"
        show "safe (\<lambda>_ _. False) (?E th)
          (if fst r < 0 then EXIT_THREAD StERROR u
           else if fst r = 1 then
             andthen (case map_of (msg_types e) (snd r ! 0) of
                 None \<Rightarrow> EXIT_THREAD StERROR u
               | Some process \<Rightarrow> process u) (\<lambda>_ th. f e th)
           else f e u)"
        proof (cases "fst r < 0")
          case True
          then have "quits inp th v" if "ended v" "th_io v = th_io u" for v
            using r step that t(1) by (auto simp: ended_after_def io_step_def talks_def)
          then have "safe (\<lambda>_ _. False) (?E th) (EXIT_THREAD StERROR u)"
            by (intro leave_session [OF io_step_ok [OF step] u] streamed_quit)
          with True show ?thesis by simp
        next
          case False
          with r have one: "fst r = 1" "length (snd r) = 1" by auto
          then obtain ty where ty: "snd r = [ty]" by (cases "snd r") auto
          have "io_pending inp (th_io th) = ty # io_pending inp (th_io u)"
            using t(1) step ty by (simp add: io_step_def talks_def)
          from message_session [where e = e and f = "f e", OF io_step_ok [OF step] u this pol lax loop]
          show ?thesis by (simp only: one(1) ty nth_Cons_0) simp
        qed
      qed
    qed
  qed
  with assms show "safe (\<lambda>_ _. False) (?E th) (Some y)" by blast
qed

end

section \<open>The whole conversation\<close>

text \<open>
  The events of a client that has said \<open>s\<close> when the thread ends with \<open>s'\<close> not taken in: none when that is
  within the handshake, and else exactly those of the whole messages after it, of which the last may
  have been cut short.
\<close>

definition conversation :: "bytes \<Rightarrow> trfb_event list \<Rightarrow> bytes \<Rightarrow> bool" where
  "conversation s evs s' \<longleftrightarrow>
     evs = [] \<and> (\<exists>b. length b \<le> 14 \<and> s = b @ s') \<or>
     (\<exists>msg ci r part. length msg = 12 \<and> s = (msg @ handshake_in (client_version msg) ci) @ r \<and>
       begun part \<and> client_stream r evs (part @ s'))"

context full_transport
begin

abbreviation conversedL :: "'w thread \<Rightarrow> 'w thread \<Rightarrow> bool" where
  "conversedL th t \<equiv> ended t \<and> (\<exists>evs. conversation (io_pending inp (th_io th)) evs (io_pending inp (th_io t)) \<and>
     srv_queue (th_srv t) = foldl enqueue (srv_queue (th_srv th)) evs)"

lemma conversed_none:
  assumes "ended_after inp (\<lambda>b. length b \<le> 14) th t" "still (srv_queue (th_srv th)) t"
  shows "conversedL th t"
  using assms by (auto simp: ended_after_def still_def conversation_def intro!: exI [of _ "[]"])

lemma conversation_safe:
  assumes ok: "con_ok rd wr th" and pol: "polite (io_pending inp (th_io th))" and idle: "th_others th = []"
    and lax: "destroy_held e"
  shows "safe (\<lambda>_ _. False) (conversedL th) (connection e th)"
proof -
  let ?u = "with_con (con_state_update (\<lambda>_. StWORKING)) (stop_request th)" and ?E = "conversedL th"
  have u: "con_ok rd wr ?u" "th_io ?u = th_io th" and lock: "con_lock (th_con (stop_request th)) = MtxFree"
    using ok by (auto simp: stop_request_def with_con_def con_ok_def th_io_def split: list.split)
  have st: "still (srv_queue (th_srv th)) ?u" using idle by simp (simp add: still_def)
  have start: "connection e th = andthen (negotiate e ?u) (\<lambda>r th.
      if r \<noteq> 0 then EXIT_THREAD StERROR th else connection_loop e th)"
    using lock by (cases "stop_request th"; cases "th_con (stop_request th)")
      (simp add: connection_def con_lock_take_def con_lock_give_def with_con_def)
  have out: "?E t" if "ended_after inp (\<lambda>b. length b \<le> 14) ?u t" "still (srv_queue (th_srv th)) t" for t
    using that u(2) by (intro conversed_none) (simp_all add: ended_after_def)
  show ?thesis
    unfolding start
  proof (rule safe_andthen)
    show "safe (\<lambda>r v. negotiated rd wr inp outp full ?u r v \<and> still (srv_queue (th_srv th)) v) ?E (negotiate e ?u)"
      by (rule safe_mono [OF safe_rets [OF negotiate_safe [OF u(1)] quiet.negotiate_kept [OF st]]])
        (simp, rule out, simp_all)
    fix r v assume "negotiated rd wr inp outp full ?u r v \<and> still (srv_queue (th_srv th)) v"
    then have n: "negotiated rd wr inp outp full ?u r v" and v: "still (srv_queue (th_srv th)) v" by auto
    have okv: "con_ok rd wr v" using n by (auto simp: negotiated_def)
    obtain msg where msg: "length msg = 12"
      and taken: "r = 0 \<and> (\<exists>ci. io_pending inp (th_io th) =
          (msg @ handshake_in (client_version msg) ci) @ io_pending inp (th_io v)) \<or>
        r = -1 \<and> (\<exists>sec. io_pending inp (th_io th) = (msg @ [sec]) @ io_pending inp (th_io v))"
      using n u(2) by (auto simp: negotiated_def talks_def)
    show "safe (\<lambda>_ _. False) ?E (if r \<noteq> 0 then EXIT_THREAD StERROR v else connection_loop e v)"
    proof (cases "r = 0")
      case False
      then obtain sec where sec: "io_pending inp (th_io th) = (msg @ [sec]) @ io_pending inp (th_io v)"
        using taken by auto
      have "ended_after inp (\<lambda>b. length b \<le> 14) ?u t" if "ended t" "th_io t = th_io v" for t
        using that sec msg u(2) unfolding ended_after_def by (intro conjI exI [of _ "msg @ [sec]"]) simp_all
      then have "safe (\<lambda>_ _. False) (ended_after inp (\<lambda>b. length b \<le> 14) ?u) (EXIT_THREAD StERROR v)"
        by (intro EXIT_THREAD_safe [OF okv]) simp_all
      then have "safe (\<lambda>_ _. False) ?E (EXIT_THREAD StERROR v)"
        by (rule safe_mono [OF safe_rets [OF _ quiet.EXIT_THREAD_kept [OF v]]]) (simp, rule out, simp_all)
      with False show ?thesis by simp
    next
      case True
      then obtain ci where ci: "io_pending inp (th_io th) =
          (msg @ handshake_in (client_version msg) ci) @ io_pending inp (th_io v)"
        using taken by auto
      have "polite_row (io_pending inp (th_io v))" using pol unfolding ci by (rule polite_start) (rule msg)
      with v okv lax have "safe (\<lambda>_ _. False) (session_end v) (connection_loop e v)"
        by (intro session_safe) (simp_all add: still_def)
      then have "safe (\<lambda>_ _. False) ?E (connection_loop e v)"
      proof (rule safe_mono)
        fix t assume "session_end v t"
        then obtain evs part where t: "ended t" "begun part"
          "client_stream (io_pending inp (th_io v)) evs (part @ io_pending inp (th_io t))"
          "srv_queue (th_srv t) = foldl enqueue (srv_queue (th_srv th)) evs"
          using v by (auto simp: streamed_def still_def)
        moreover have "conversation (io_pending inp (th_io th)) evs (io_pending inp (th_io t))"
          unfolding conversation_def using msg ci t(2,3) by blast
        ultimately show "?E t" by blast
      qed
      with True show ?thesis by simp
    qed
  qed
qed

end

section \<open>Sessions that go on\<close>

text \<open>A message of the keyboard or the mouse: its type, its bytes and its event.\<close>

fun input_ok :: "u8 \<times> bytes \<Rightarrow> bool" where
  "input_ok (ty, b) \<longleftrightarrow> ty = 4 \<and> length b = 7 \<or> ty = 5 \<and> length b = 5"

fun input_event :: "u8 \<times> bytes \<Rightarrow> trfb_event" where
  "input_event (ty, b) =
     (if ty = 4 then EvKey (b ! 0) (be32 (b ! 3) (b ! 4) (b ! 5) (b ! 6))
      else EvPointer (b ! 0) (be16 (b ! 1) (b ! 2)) (be16 (b ! 3) (b ! 4)))"

fun input_bytes :: "(u8 \<times> bytes) list \<Rightarrow> bytes" where
  "input_bytes [] = []"
| "input_bytes ((ty, b) # ms) = ty # b @ input_bytes ms"

lemma send_event_unasked: "th_others th = [] \<Longrightarrow> unasked th \<Longrightarrow> rets (\<lambda>_. unasked) failed (send_event ev th)"
  unfolding send_event_def on_srv_def
  by (rule rets_andthen [where Q' = "\<lambda>_. unasked"])
    (simp_all add: rets_map others_act_idle unasked_def rets_mono [OF add_event_returns])

context live_transport
begin

lemma send_event_goes:
  assumes "can_goL n k w th"
  shows "settles (\<lambda>_ t. can_goL n k w t) halted (send_event ev th)"
proof -
  have "con_ok rd wr th" using assms by (simp add: can_go_def)
  from send_event_ok [OF this, of ev] assms show ?thesis by (auto simp: can_go_def)
qed

lemma loop_turn:
  assumes "can_goL (Suc n) (Suc k) w th" "unasked th"
  shows "\<exists>ty t. connection_loop e th = andthen (case map_of (msg_types e) ty of
      None \<Rightarrow> EXIT_THREAD StERROR t | Some process \<Rightarrow> process t) (\<lambda>_ th. connection_loop e th) \<and>
    can_goL n k w t \<and> unasked t \<and> io_stepL th [ty] [] t"
proof -
  have ok: "con_ok rd wr th" using assms(1) by (simp add: can_go_def)
  have look: "check_stopped th = Some (Done () th)"
    using ok assms(2) by (simp add: con_ok_def check_stopped_eq unasked_def stop_request_def)
  from call_returns [OF connection_read_settles [OF assms(1), of 1] left_alone.read_kept [OF assms(2)]
      connection_read_safe [OF ok, of 1]]
  obtain r t where t: "trfb_connection_read 1 th = Some (Done r t)" "unasked t"
    and r: "0 < fst r" "fst r = int (length (snd r))" "fst r \<le> 1" "can_goL (Suc n - length (snd r)) k w t"
      "io_stepL th (snd r) [] t" by auto
  then have one: "fst r = 1" "length (snd r) = 1" by linarith+
  then obtain ty where ty: "snd r = [ty]" by (cases "snd r") auto
  have "connection_loop e th = andthen (case map_of (msg_types e) ty of
      None \<Rightarrow> EXIT_THREAD StERROR t | Some process \<Rightarrow> process t) (\<lambda>_ th. connection_loop e th)"
    by (subst connection_loop.simps) (simp add: look t(1) one ty)
  with t r one ty show ?thesis by auto
qed

lemma event_goes:
  assumes "can_goL (length b + n) (length b + k) w t" "unasked t" "th_others t = []"
    and "io_pending inp (th_io t) = b @ rest"
  shows "\<exists>u. andthen (trfb_connection_read_all (int (length b)) t) (\<lambda>bs. send_event (f bs)) = Some (Done () u) \<and>
    can_goL n k w u \<and> unasked u \<and> th_others u = [] \<and> io_pending inp (th_io u) = rest \<and>
    srv_queue (th_srv u) = enqueue (srv_queue (th_srv t)) (f b)"
proof -
  obtain bs v where v: "trfb_connection_read_all (int (length b)) t = Some (Done bs v)" "length bs = length b"
    "can_goL n k w v" "unasked v" "io_stepL t bs [] v" using read_goes [OF assms(1,2)] by blast
  note io = io_step_reads [OF v(5)]
  have bs: "bs = b" "io_pending inp (th_io v) = rest" using io(1) assms(4) v(2) by simp_all
  have idle: "th_others v = []" and srv: "th_srv v = th_srv t" using io(2,3) assms(3) by simp_all
  have ok: "con_ok rd wr v" using v(3) by (simp add: can_go_def)
  obtain s where s: "send_event (f b) v = Some (Done () (v\<lparr>th_srv := s\<rparr>))" "con_ok rd wr (v\<lparr>th_srv := s\<rparr>)"
    "event_delivered (f b) v (v\<lparr>th_srv := s\<rparr>)"
    using send_event_ok [OF ok, of "f b"] unfolding others_act_idle [OF idle] by blast
  have "srv_queue s = enqueue (srv_queue (th_srv t)) (f b)"
    using event_delivered_idle [OF s(3) idle] srv by simp
  with v s bs idle show ?thesis by (auto simp: can_go_def unasked_def)
qed

lemma input_goes:
  assumes "can_goL (length b + n) (length b + k) w t" "unasked t" "th_others t = []" "input_ok (ty, b)"
    and "io_pending inp (th_io t) = b @ rest"
  shows "\<exists>process u. map_of (msg_types e) ty = Some process \<and> process t = Some (Done () u) \<and> can_goL n k w u \<and>
    unasked u \<and> th_others u = [] \<and> io_pending inp (th_io u) = rest \<and>
    srv_queue (th_srv u) = enqueue (srv_queue (th_srv t)) (input_event (ty, b))"
proof -
  note goes = event_goes [OF assms(1-3,5)]
  from assms(4) consider "ty = 4" "length b = 7" | "ty = 5" "length b = 5" by auto
  then show ?thesis
  proof cases
    case 1
    then show ?thesis
      using goes [of "\<lambda>b. EvKey (b ! 0) (be32 (b ! 3) (b ! 4) (b ! 5) (b ! 6))"]
      by (auto simp: msg_types_def KeyEvent_def)
  next
    case 2
    then show ?thesis
      using goes [of "\<lambda>b. EvPointer (b ! 0) (be16 (b ! 1) (b ! 2)) (be16 (b ! 3) (b ! 4))"]
      by (auto simp: msg_types_def PointerEvent_def)
  qed
qed

lemma input_session:
  "can_goL (Suc (length (input_bytes ms))) (Suc (length (input_bytes ms))) w th \<Longrightarrow> unasked th \<Longrightarrow>
   th_others th = [] \<Longrightarrow> list_all input_ok ms \<Longrightarrow> io_pending inp (th_io th) = input_bytes ms @ ty # rest \<Longrightarrow>
   map_of (msg_types e :: (u8 \<times> ('w, unit) act) list) ty = None \<Longrightarrow>
   \<exists>t. connection_loop e th = Some (Exit t) \<and> ended t \<and> con_state (th_con t) = StERROR \<and>
     srv_queue (th_srv t) = foldl enqueue (srv_queue (th_srv th)) (map input_event ms)"
proof (induction ms arbitrary: th)
  case (Nil th)
  from loop_turn [of 0 0 w th e] Nil.prems(1,2) obtain x t
    where t: "connection_loop e th = andthen (case map_of (msg_types e) x of
      None \<Rightarrow> EXIT_THREAD StERROR t | Some process \<Rightarrow> process t) (\<lambda>_ th. connection_loop e th)"
    "unasked t" "io_stepL th [x] [] t" by auto
  note io = io_step_reads [OF t(3)]
  have lock: "con_lock (th_con t) = MtxFree" using io_step_ok [OF t(3)] by (simp add: con_ok_def)
  have "x = ty" using io(1) Nil.prems(5) by simp
  then have "connection_loop e th = andthen (EXIT_THREAD StERROR t :: ('w thread, unit) outcome option)
      (\<lambda>_ th. connection_loop e th)"
    using t(1) Nil.prems(6) by simp
  then show ?case
    using io(2) lock t(2) io_step_ok [OF t(3)]
    by (simp add: ended_def con_ok_def EXIT_THREAD_def con_lock_take_def con_lock_give_def stop_request_def unasked_def with_con_def)
next
  case (Cons m ms th)
  obtain ty' b where m: "m = (ty', b)" by (cases m)
  then have go: "can_goL (Suc (length b + Suc (length (input_bytes ms)))) (Suc (length b + Suc (length (input_bytes ms)))) w th"
    using Cons.prems(1) by simp
  from loop_turn [OF go Cons.prems(2), of e] obtain x t
    where t: "connection_loop e th = andthen (case map_of (msg_types e) x of
      None \<Rightarrow> EXIT_THREAD StERROR t | Some process \<Rightarrow> process t) (\<lambda>_ th. connection_loop e th)"
    "can_goL (length b + Suc (length (input_bytes ms))) (length b + Suc (length (input_bytes ms))) w t"
    "unasked t" "io_stepL th [x] [] t" by blast
  note io = io_step_reads [OF t(4)]
  have x: "x = ty'" "io_pending inp (th_io t) = b @ input_bytes ms @ ty # rest" "th_others t = []"
    and srv: "th_srv t = th_srv th"
    using io Cons.prems(3,5) m by simp_all
  have "input_ok (ty', b)" using Cons.prems(4) m by simp
  from input_goes [OF t(2,3) x(3) this x(2), of e] obtain process u where
    u: "map_of (msg_types e) ty' = Some process" "process t = Some (Done () u)"
    "can_goL (Suc (length (input_bytes ms))) (Suc (length (input_bytes ms))) w u" "unasked u" "th_others u = []"
    "io_pending inp (th_io u) = input_bytes ms @ ty # rest"
    "srv_queue (th_srv u) = enqueue (srv_queue (th_srv t)) (input_event m)"
    using m by blast
  have "connection_loop e th = connection_loop e u" using t(1) u(1,2) x(1) by simp
  moreover from Cons.IH [OF u(3-5) _ u(6) Cons.prems(6)] Cons.prems(4)
  obtain v where "connection_loop e u = Some (Exit v)" "ended v" "con_state (th_con v) = StERROR"
    "srv_queue (th_srv v) = foldl enqueue (srv_queue (th_srv u)) (map input_event ms)" by auto
  ultimately show ?case using u(7) srv m by simp
qed

end

section \<open>Sessions over a socket\<close>

lemma fed_session [simp]: "srv_queue (th_srv (fed bs)) = []" "th_others (fed bs) = []"
proof -
  show "th_others (fed bs) = []" by (simp add: fed_def)
  show "srv_queue (th_srv (fed bs)) = []" by (simp add: fed_def example_thread_def)
qed

text \<open>
  C12. The thread of a connection turns its client's stream into events, as long as no other thread works
  on the server, no SetPixelFormat message of the client asks for a shift of 32 or more, the framebuffers
  stay within 32767 pixels each way and \<^verbatim>\<open>mtx_destroy\<close> leaves a held mutex alone (C11): it is never
  undefined and never returns, and if it ends, then what it has taken from the stream is a part of the
  handshake, or the handshake, a row of whole messages and perhaps one cut short, and the queue of the
  server has gained exactly the events of that row, in order, where an event that finds the queue full is
  dropped. (A message is also cut short when a cut text of no bytes finds no memory. That the thread does
  end, for keys and the mouse, is C13.)
\<close>

theorem connection_refines_stream:
  assumes "con_ok sock_read sock_write th" "polite (io_pending sock_inp (th_io th))" "th_others th = []"
    and "destroy_held e"
  shows "safe (\<lambda>_ _. False) (\<lambda>t. ended t \<and>
      (\<exists>evs. conversation (io_pending sock_inp (th_io th)) evs (io_pending sock_inp (th_io t)) \<and>
      srv_queue (th_srv t) = foldl enqueue (srv_queue (th_srv th)) evs)) (connection e th)"
  by (rule skf.conversation_safe [OF assms])

theorem connection_refines_stream_witness:
  "safe (\<lambda>_ _. False) (\<lambda>t. ended t \<and>
      (\<exists>evs. conversation (replicate 14 1 @ [5, 0, 0, 7]) evs (io_pending sock_inp (th_io t)) \<and>
      srv_queue (th_srv t) = foldl enqueue [] evs)) (connection easy_env (fed (replicate 14 1 @ [5, 0, 0, 7])))"
  using connection_refines_stream [OF fed_ok, of "replicate 14 1 @ [5, 0, 0, 7]" easy_env]
  by (simp add: fed_pending polite_short)



end
