(* ===== verification/Server.thy ===== *)
theory Server
  imports Connection
begin

unbundle bit_operations_syntax

text \<open>
  The life of a server and of its clients: \<^verbatim>\<open>src/src/trfb.c\<close>, the thread and the start and stop
  functions of \<^verbatim>\<open>src/src/server.c\<close>, and the creation and release of connections in
  \<^verbatim>\<open>src/src/connection.c\<close>. Connections are structures of the process heap, named by their
  addresses and linked by \<^verbatim>\<open>next\<close>. What the other threads do is a script: the steps they make
  before each time this thread takes a lock or waits for a thread. An empty script means that
  they never do anything more, and a call that waits for them then does not return.
\<close>

section \<open>Data\<close>

type_synonym conn = "sock ptr trfb_connection"

datatype thrd = ThrdCreated | ThrdRunning | ThrdExited

text \<open>
  The steps of other threads: the thread of the connection at an address runs its first statements,
  which set its state to WORKING, or ends in a state, or gives its connection a framebuffer; a thread
  sets the state of the server; the thread of the server exits.
\<close>

datatype other_step =
    Starts nat
  | Ends nat trfb_state
  | SetsFb nat "trfb_framebuffer ptr"
  | SetsState trfb_state
  | ServerExits

text \<open>
  An answer of \<^verbatim>\<open>accept\<close>: an error, or a socket with the length of the peer's address, the allocator
  during the creation of the connection, the host and port names from the two calls of
  \<^verbatim>\<open>getnameinfo\<close>, the number from \<^verbatim>\<open>rand\<close> and whether \<^verbatim>\<open>thrd_create\<close> succeeds.
\<close>

datatype accept_answer =
    AcceptErr
  | Accepted (acc_sock: sock) (acc_addrlen: nat) (acc_env: cenv)
      (acc_names: "(bytes \<times> bytes) option \<times> (bytes \<times> bytes) option") (acc_rand: nat) (acc_thread: bool)

text \<open>
  \<open>sw_copies\<close>: whether clients ask for updates before they set a format, so that the framebuffer of their
  connection is a copy of the server's, made while that was locked; \<open>sw_lax\<close>: whether \<^verbatim>\<open>mtx_destroy\<close> leaves
  such a copy of a held mutex alone; \<open>sw_released\<close>: what was released with the connections that were freed.
\<close>

record server_world = trfb_server +
  sw_clients :: "nat ptr"
  sw_thread :: "thrd option"
  sw_cons :: "nat \<Rightarrow> conn option"
  sw_threads :: "nat \<Rightarrow> thrd"
  sw_next :: nat
  sw_listen :: bool
  sw_select :: "sel list"
  sw_accept :: "accept_answer list"
  sw_others :: "other_step list list"
  sw_freed :: "nat list"
  sw_released :: "(fb_release list \<times> sock ptr option) list"
  sw_lax :: bool
  sw_copies :: bool

type_synonym 'a sact = "server_world \<Rightarrow> (server_world, 'a) outcome option"

section \<open>Other threads, locks and waiting for a thread\<close>

text \<open>
  A thread of a connection ends in the state ERROR at any time, and in the state STOPPED after it
  was asked to stop (\<^verbatim>\<open>check_stopped\<close>). The lock of a framebuffer that it sets (\<^verbatim>\<open>SetPixelFormat\<close>,
  \<^verbatim>\<open>UpdateRequest\<close>) is a new one, or the copy of a held one.
\<close>

fun others_step :: "other_step \<Rightarrow> server_world \<Rightarrow> server_world" where
  "others_step (Starts a) s =
     (case sw_cons s a of
        None \<Rightarrow> s
      | Some c \<Rightarrow>
          if sw_threads s a = ThrdCreated
          then s\<lparr>sw_cons := (sw_cons s)(a \<mapsto> c\<lparr>con_state := StWORKING\<rparr>),
                 sw_threads := (sw_threads s)(a := ThrdRunning)\<rparr>
          else s)"
| "others_step (Ends a st) s =
     (case sw_cons s a of
        None \<Rightarrow> s
      | Some c \<Rightarrow>
          if sw_threads s a = ThrdRunning \<and> (st = StERROR \<or> st = StSTOPPED \<and> con_state c = StSTOP)
          then s\<lparr>sw_cons := (sw_cons s)(a \<mapsto> c\<lparr>con_state := st\<rparr>),
                 sw_threads := (sw_threads s)(a := ThrdExited)\<rparr>
          else s)"
| "others_step (SetsFb a p) s =
     (case sw_cons s a of
        None \<Rightarrow> s
      | Some c \<Rightarrow>
          if sw_threads s a = ThrdRunning \<and> fb_free_ok (sw_copies s) p
          then s\<lparr>sw_cons := (sw_cons s)(a \<mapsto> c\<lparr>con_fb := p\<rparr>)\<rparr>
          else s)"
| "others_step (SetsState st) s = s\<lparr>srv_state := st\<rparr>"
| "others_step ServerExits s = s\<lparr>sw_thread := map_option (\<lambda>_. ThrdExited) (sw_thread s)\<rparr>"

definition others :: "server_world \<Rightarrow> server_world" where
  "others s = (case sw_others s of [] \<Rightarrow> s | ch # chs \<Rightarrow> fold others_step ch (s\<lparr>sw_others := chs\<rparr>))"

definition lock_server :: "unit sact" where
  "lock_server s = srv_lock_take (others s)"

text \<open>The connection at an address; an address that was freed is an error.\<close>

definition con_of :: "nat \<Rightarrow> server_world \<Rightarrow> (conn \<Rightarrow> (server_world, 'a) outcome option) \<Rightarrow>
    (server_world, 'a) outcome option" where
  "con_of a s f = need (sw_cons s a) f"

definition set_con :: "nat \<Rightarrow> conn \<Rightarrow> server_world \<Rightarrow> server_world" where
  "set_con a c s = s\<lparr>sw_cons := (sw_cons s)(a \<mapsto> c)\<rparr>"

definition lock_con :: "nat \<Rightarrow> unit sact" where
  "lock_con a s =
     (let s = others s in
      con_of a s (\<lambda>c. map_option (map_outcome (\<lambda>m. set_con a (c\<lparr>con_lock := m\<rparr>) s) id) (acquire (con_lock c))))"

definition unlock_con :: "nat \<Rightarrow> unit sact" where
  "unlock_con a s =
     con_of a s (\<lambda>c. map_option (map_outcome (\<lambda>m. set_con a (c\<lparr>con_lock := m\<rparr>) s) id) (release (con_lock c)))"

text \<open>\<^verbatim>\<open>thrd_join\<close> waits until the thread has exited.\<close>

fun join_with :: "(server_world \<Rightarrow> bool) \<Rightarrow> other_step list list \<Rightarrow> unit sact" where
  "join_with exited [] s = (if exited s then Some (Done () (s\<lparr>sw_others := []\<rparr>)) else None)"
| "join_with exited (ch # chs) s =
     (if exited s then Some (Done () (s\<lparr>sw_others := ch # chs\<rparr>))
      else join_with exited chs (fold others_step ch s))"

definition join_con :: "nat \<Rightarrow> unit sact" where
  "join_con a s = con_of a s (\<lambda>_. join_with (\<lambda>s. sw_threads s a = ThrdExited) (sw_others s) s)"

section \<open>Connections\<close>

text \<open>A structure of zero bytes, for which no protocol version is a value.\<close>

definition zero_con :: conn where
  "zero_con = \<lparr>con_version = None, con_state = StSTOPPED, con_name = [], con_lock = MtxRaw,
     con_fb = NULL, con_format = \<lparr>fmt_bpp = 0, fmt_depth = 0, fmt_big_endian = 0, fmt_true_color = 0,
       fmt_rmax = 0, fmt_gmax = 0, fmt_bmax = 0, fmt_rshift = 0, fmt_gshift = 0, fmt_bshift = 0\<rparr>,
     con_io = NULL, con_next = NULL\<rparr>"

fun decimal :: "nat \<Rightarrow> bytes" where
  "decimal n = (if n < 10 then [of_nat (48 + n)] else decimal (n div 10) @ [of_nat (48 + n mod 10)])"

declare decimal.simps [simp del]

text \<open>The name of a client, cut to the 63 characters that \<^verbatim>\<open>snprintf\<close> leaves in \<^verbatim>\<open>name[64]\<close>.\<close>

definition client_name :: "(bytes \<times> bytes) option \<times> (bytes \<times> bytes) option \<Rightarrow> nat \<Rightarrow> bytes" where
  "client_name names rnd =
     take 63 (case (case fst names of None \<Rightarrow> snd names | Some n \<Rightarrow> Some n) of
        None \<Rightarrow> str_bytes ''C-'' @ decimal (rnd mod 1000000)
      | Some (host, port) \<Rightarrow> host @ str_bytes '':'' @ port)"

text \<open>
  \<^verbatim>\<open>trfb_connection_create\<close>: the connection of a thread that was created, if there is one. The
  peer's address is copied into the 16 bytes of a \<^verbatim>\<open>struct sockaddr\<close> with the length that \<^verbatim>\<open>accept\<close>
  gave; more bytes than that do not fit.
\<close>

definition trfb_connection_create ::
  "sock \<Rightarrow> nat \<Rightarrow> cenv \<Rightarrow> (bytes \<times> bytes) option \<times> (bytes \<times> bytes) option \<Rightarrow> nat \<Rightarrow> bool \<Rightarrow>
   conn ptr option" where
  "trfb_connection_create sk addrlen e names rnd thread_ok =
     (if \<not> struct_ok e then Some NULL
      else case trfb_io_socket_wrap e sk of
        NULL \<Rightarrow> Some NULL
      | Ptr io \<Rightarrow>
          if 16 < addrlen then None
          else if \<not> thread_ok then Some NULL
          else Some (Ptr (zero_con\<lparr>con_io := Ptr io, con_fb := NULL,
            con_lock := (if mtx_ok e then MtxFree else MtxRaw), con_next := NULL,
            con_state := StWORKING, con_name := client_name names rnd\<rparr>)))"

text \<open>
  \<^verbatim>\<open>trfb_connection_free\<close>: the framebuffer and the I/O object are released, which closes the socket; the
  lock is destroyed, which must not be held, and so is the structure.
\<close>

definition con_releases :: "conn \<Rightarrow> fb_release list \<times> sock ptr option" where
  "con_releases c = (trfb_framebuffer_free (con_fb c), trfb_io_free (con_io c))"

definition trfb_connection_free :: "nat \<Rightarrow> unit sact" where
  "trfb_connection_free a s =
     con_of a s (\<lambda>c.
       if fb_free_ok (sw_lax s) (con_fb c) \<and> con_lock c = MtxFree
       then Some (Done () (s\<lparr>sw_cons := (sw_cons s)(a := None), sw_freed := sw_freed s @ [a],
         sw_released := sw_released s @ [con_releases c]\<rparr>))
       else Some Undef)"

section \<open>The thread of the server\<close>

partial_function (option) request_stops :: "nat ptr \<Rightarrow> server_world \<Rightarrow> (server_world, unit) outcome option" where
  "request_stops p s =
     (case p of
        NULL \<Rightarrow> Some (Done () s)
      | Ptr a \<Rightarrow>
          andthen (lock_con a s) (\<lambda>_ s.
          andthen (con_of a s (\<lambda>c. unlock_con a
              (if con_state c = StWORKING then set_con a (c\<lparr>con_state := StSTOP\<rparr>) s else s))) (\<lambda>_ s.
          andthen (con_of a s (\<lambda>c. Some (Done (con_next c) s))) (\<lambda>p s. request_stops p s))))"

partial_function (option) count_stopping ::
  "nat ptr \<Rightarrow> nat \<Rightarrow> server_world \<Rightarrow> (server_world, nat) outcome option" where
  "count_stopping p work s =
     (case p of
        NULL \<Rightarrow> Some (Done work s)
      | Ptr a \<Rightarrow>
          andthen (lock_con a s) (\<lambda>_ s.
          andthen (con_of a s (\<lambda>c. andthen (unlock_con a s) (\<lambda>_ s.
            Some (Done (con_next c, if con_state c = StSTOP then work + 1 else work) s)))) (\<lambda>r s.
          count_stopping (fst r) (snd r) s)))"

partial_function (option) join_all :: "nat ptr \<Rightarrow> server_world \<Rightarrow> (server_world, unit) outcome option" where
  "join_all p s =
     (case p of
        NULL \<Rightarrow> Some (Done () s)
      | Ptr a \<Rightarrow>
          andthen (join_con a s) (\<lambda>_ s.
          andthen (con_of a s (\<lambda>c. Some (Done (con_next c) s))) (\<lambda>p s. join_all p s)))"

partial_function (option) free_all :: "nat ptr \<Rightarrow> server_world \<Rightarrow> (server_world, unit) outcome option" where
  "free_all p s =
     (case p of
        NULL \<Rightarrow> Some (Done () s)
      | Ptr a \<Rightarrow>
          andthen (con_of a s (\<lambda>c. Some (Done (con_next c) s))) (\<lambda>p s.
          andthen (trfb_connection_free a s) (\<lambda>_ s. free_all p s)))"

partial_function (option) wait_stopped :: "nat ptr \<Rightarrow> server_world \<Rightarrow> (server_world, unit) outcome option" where
  "wait_stopped conns s =
     (if conns = NULL then Some (Done () s)
      else
        andthen (count_stopping conns 0 s) (\<lambda>work s.
          if work \<noteq> 0 then wait_stopped conns s
          else andthen (join_all conns s) (\<lambda>_ s. free_all conns s)))"

definition stop_all_connections :: "unit sact" where
  "stop_all_connections s =
     andthen (lock_server s) (\<lambda>_ s.
       let connections = sw_clients s in
       andthen (srv_lock_give (s\<lparr>sw_clients := NULL\<rparr>)) (\<lambda>_ s.
       andthen (request_stops connections s) (\<lambda>_ s.
         wait_stopped connections s)))"

text \<open>The macro \<^verbatim>\<open>EXIT_THREAD(s)\<close> of the server's thread.\<close>

definition server_exit :: "trfb_state \<Rightarrow> unit sact" where
  "server_exit st s =
     andthen (stop_all_connections s) (\<lambda>_ s.
     andthen (lock_server s) (\<lambda>_ s.
     andthen (srv_lock_give (s\<lparr>srv_state := st\<rparr>)) (\<lambda>_ s.
       Some (Exit s))))"

text \<open>Accepting a client and putting it at the head of the list.\<close>

definition accept_client :: "unit sact" where
  "accept_client s =
     (case sw_accept s of
        [] \<Rightarrow> None
      | AcceptErr # as \<Rightarrow> Some (Done () (s\<lparr>sw_accept := as\<rparr>))
      | Accepted sk addrlen e names rnd thread_ok # as \<Rightarrow>
          need (trfb_connection_create sk addrlen e names rnd thread_ok) (\<lambda>p.
            let s = s\<lparr>sw_accept := as\<rparr> in
            (case p of
               NULL \<Rightarrow> Some (Done () s)
             | Ptr c \<Rightarrow>
                 let a = sw_next s;
                     s = s\<lparr>sw_next := Suc a, sw_cons := (sw_cons s)(a \<mapsto> c),
                           sw_threads := (sw_threads s)(a := ThrdCreated)\<rparr> in
                 andthen (lock_server s) (\<lambda>_ s.
                   con_of a s (\<lambda>c. srv_lock_give
                     ((set_con a (c\<lparr>con_next := sw_clients s\<rparr>) s)\<lparr>sw_clients := Ptr a\<rparr>))))))"

text \<open>Reaping clients that no longer work. \<^verbatim>\<open>prev\<close> is never assigned in the loop.\<close>

partial_function (option) reap :: "nat ptr \<Rightarrow> nat ptr \<Rightarrow> server_world \<Rightarrow> (server_world, unit) outcome option" where
  "reap prev p s =
     (case p of
        NULL \<Rightarrow> Some (Done () s)
      | Ptr a \<Rightarrow>
          andthen (lock_con a s) (\<lambda>_ s.
          andthen (con_of a s (\<lambda>c. andthen (unlock_con a s) (\<lambda>_ s. Some (Done (con_state c) s)))) (\<lambda>st s.
          andthen
            (if st \<noteq> StWORKING then
               andthen (join_con a s) (\<lambda>_ s.
               con_of a s (\<lambda>c.
               andthen
                 (case prev of
                    Ptr b \<Rightarrow> con_of b s (\<lambda>d. Some (Done () (set_con b (d\<lparr>con_next := con_next c\<rparr>) s)))
                  | NULL \<Rightarrow> Some (Done () (s\<lparr>sw_clients := con_next c\<rparr>))) (\<lambda>_ s.
               andthen (trfb_connection_free a s) (\<lambda>_ s. Some (Done (con_next c) s)))))
             else con_of a s (\<lambda>c. Some (Done (con_next c) s))) (\<lambda>p s.
          reap prev p s))))"

partial_function (option) server_loop :: "server_world \<Rightarrow> (server_world, unit) outcome option" where
  "server_loop s =
     andthen (lock_server s) (\<lambda>_ s.
       if srv_state s = StSTOP then andthen (srv_lock_give s) (\<lambda>_ s. server_exit StSTOPPED s)
       else
         andthen (srv_lock_give s) (\<lambda>_ s.
         andthen
           (case sw_select s of
              [] \<Rightarrow> None
            | SelErr _ # rs \<Rightarrow> server_exit StERROR (s\<lparr>sw_select := rs\<rparr>)
            | SelTimeout # rs \<Rightarrow> Some (Done () (s\<lparr>sw_select := rs\<rparr>))
            | SelReady # rs \<Rightarrow> accept_client (s\<lparr>sw_select := rs\<rparr>)) (\<lambda>_ s.
         andthen (reap NULL (sw_clients s) s) (\<lambda>_ s. server_loop s))))"

text \<open>The function \<^verbatim>\<open>server\<close> that the thread runs.\<close>

definition server :: "unit sact" where
  "server s =
     andthen (lock_server s) (\<lambda>_ s.
     andthen (srv_lock_give (s\<lparr>srv_state := StWORKING\<rparr>)) (\<lambda>_ s.
       if \<not> sw_listen s then server_exit StERROR s else server_loop s))"

section \<open>What the application calls\<close>

text \<open>\<^verbatim>\<open>trfb_server_create\<close> returns the server, with no client yet.\<close>

definition trfb_server_create :: "cenv \<Rightarrow> nat \<Rightarrow> nat \<Rightarrow> u32 \<Rightarrow> trfb_server ptr option" where
  "trfb_server_create e width height bpp =
     (if 0xffff < width \<or> 0xffff < height then Some NULL
      else if \<not> struct_ok e then Some NULL
      else
        let S = zero_server\<lparr>srv_sock := -1, srv_state := StSTOPPED\<rparr> in
        map_option (\<lambda>fb.
          if fb = NULL then NULL
          else Ptr (S\<lparr>srv_fb := fb, srv_lock := (if mtx_ok e then MtxFree else MtxRaw)\<rparr>))
          (trfb_framebuffer_create e (of_nat width) (of_nat height) (ucast bpp)))"

definition trfb_server_get_state :: "trfb_state sact" where
  "trfb_server_get_state S =
     andthen (lock_server S) (\<lambda>_ S.
       let res = srv_state S in
       andthen (srv_lock_give S) (\<lambda>_ S. Some (Done res S)))"

definition trfb_server_set_socket :: "int \<Rightarrow> int sact" where
  "trfb_server_set_socket sk s =
     andthen (lock_server s) (\<lambda>_ s.
       if srv_state s \<noteq> StSTOPPED then give_and_return (-1) s
       else give_and_return 0 (s\<lparr>srv_sock := sk\<rparr>))"

text \<open>
  \<^verbatim>\<open>trfb_server_bind\<close>: the addresses that \<^verbatim>\<open>getaddrinfo\<close> finds (\<^theory_text>\<open>None\<close> when it fails), each with the
  answer of \<^verbatim>\<open>socket\<close> and whether \<^verbatim>\<open>bind\<close> succeeds; the sockets that were closed are returned too.
\<close>

fun bind_loop :: "(int \<times> bool) list \<Rightarrow> int list \<Rightarrow> (int \<times> int list) sact" where
  "bind_loop [] closed s = Some (Done (-1, closed) s)"
| "bind_loop ((sk, bound) # addrs) closed s =
     (if sk < 0 then bind_loop addrs closed s
      else if bound then andthen (trfb_server_set_socket sk s) (\<lambda>r s. Some (Done (r, closed) s))
      else bind_loop addrs (closed @ [sk]) s)"

definition trfb_server_bind :: "(int \<times> bool) list option \<Rightarrow> (int \<times> int list) sact" where
  "trfb_server_bind found s =
     (case found of None \<Rightarrow> Some (Done (-1, []) s) | Some addrs \<Rightarrow> bind_loop addrs [] s)"

text \<open>\<^verbatim>\<open>trfb_server_start\<close>; \<open>thread_ok\<close> is whether \<^verbatim>\<open>thrd_create\<close> succeeds.\<close>

partial_function (option) start_loop :: "server_world \<Rightarrow> (server_world, int) outcome option" where
  "start_loop s =
     andthen (lock_server s) (\<lambda>_ s.
       if srv_state s = StWORKING then give_and_return 0 s
       else if srv_state s \<noteq> StSTOPPED then give_and_return (-1) s
       else andthen (srv_lock_give s) (\<lambda>_ s. start_loop s))"

definition trfb_server_start :: "bool \<Rightarrow> int sact" where
  "trfb_server_start thread_ok s =
     andthen (lock_server s) (\<lambda>_ s.
       if sw_clients s \<noteq> NULL \<or> srv_state s \<noteq> StSTOPPED then give_and_return (-1) s
       else
         andthen (srv_lock_give s) (\<lambda>_ s.
           if srv_fb s = NULL \<or> srv_sock s < 0 then Some (Done (-1) s)
           else if \<not> thread_ok then Some (Done (-1) s)
           else start_loop (s\<lparr>sw_thread := Some ThrdCreated\<rparr>)))"

partial_function (option) stop_loop :: "server_world \<Rightarrow> (server_world, unit) outcome option" where
  "stop_loop s =
     andthen (trfb_server_get_state s) (\<lambda>st s.
       if st = StSTOP then stop_loop s else Some (Done () s))"

text \<open>Joining a thread that was never created, or that was joined before, is undefined.\<close>

definition trfb_server_stop :: "int sact" where
  "trfb_server_stop s =
     andthen (lock_server s) (\<lambda>_ s.
     andthen (srv_lock_give (s\<lparr>srv_state := StSTOP\<rparr>)) (\<lambda>_ s.
     andthen (stop_loop s) (\<lambda>_ s.
       if sw_thread s = None then Some Undef
       else
         andthen (join_with (\<lambda>s. sw_thread s = Some ThrdExited) (sw_others s) s) (\<lambda>_ s.
           Some (Done 0 (s\<lparr>sw_thread := None\<rparr>))))))"

text \<open>\<^verbatim>\<open>trfb_server_destroy\<close> gives back what is closed and freed.\<close>

definition trfb_server_destroy :: "(int \<times> fb_release list) sact" where
  "trfb_server_destroy s =
     andthen (trfb_server_get_state s) (\<lambda>st s.
     andthen
       (if state_code st AND state_code StWORKING \<noteq> 0
        then andthen (trfb_server_stop s) (\<lambda>_ s. Some (Done () s))
        else Some (Done () s)) (\<lambda>_ s.
       Some (Done (srv_sock s, trfb_framebuffer_free (srv_fb s)) s)))"

end
