(* ===== verification/Server_Props.thy ===== *)
theory Server_Props
  imports Server
begin

text \<open>
  Proofs about the life of a server: what the other threads leave alone, what each walk over the
  list of clients does, that the server's thread has no undefined behaviour and ends, and what
  starting and stopping return.
\<close>

section \<open>The list of clients and the invariant\<close>

fun chain :: "(nat \<Rightarrow> conn option) \<Rightarrow> nat ptr \<Rightarrow> nat list \<Rightarrow> bool" where
  "chain m p [] = (p = NULL)"
| "chain m p (a # as) = (p = Ptr a \<and> (\<exists>c. m a = Some c \<and> chain m (con_next c) as))"

lemma chain_cong:
  "\<forall>a \<in> set as. map_option con_next (m' a) = map_option con_next (m a) \<Longrightarrow> chain m' p as = chain m p as"
proof (induction as arbitrary: p)
  case (Cons a as)
  then have "map_option con_next (m' a) = map_option con_next (m a)" by simp
  with Cons show ?case by (auto simp: map_option_case split: option.splits)
qed simp

text \<open>
  Between the steps of a thread every lock is free; the state of a connection is ERROR or STOPPED
  exactly when its thread has exited. The lock of its framebuffer is free too, but that copies are held
  ones, which only a platform allows that leaves them alone.
\<close>

definition con_fine :: "server_world \<Rightarrow> nat \<Rightarrow> conn \<Rightarrow> bool" where
  "con_fine s a c \<longleftrightarrow> con_lock c = MtxFree \<and> a < sw_next s \<and> fb_free_ok (sw_copies s) (con_fb c) \<and>
     (con_state c \<in> {StERROR, StSTOPPED} \<longleftrightarrow> sw_threads s a = ThrdExited)"

definition world_ok :: "server_world \<Rightarrow> bool" where
  "world_ok s \<longleftrightarrow> srv_lock s = MtxFree \<and> (sw_copies s \<longrightarrow> sw_lax s) \<and> (\<forall>a c. sw_cons s a = Some c \<longrightarrow> con_fine s a c)"

lemma releasable: "world_ok s \<Longrightarrow> con_fine s a c \<Longrightarrow> fb_free_ok (sw_lax s) (con_fb c)"
  by (cases "con_fb c") (auto simp: world_ok_def con_fine_def)

text \<open>What the other threads may change: not the list, and no connection is asked to stop by them.\<close>

definition moved :: "server_world \<Rightarrow> server_world \<Rightarrow> bool" where
  "moved s s' \<longleftrightarrow> sw_next s' = sw_next s \<and> sw_clients s' = sw_clients s \<and> sw_freed s' = sw_freed s \<and>
     sw_accept s' = sw_accept s \<and>
     (\<forall>a. map_option con_next (sw_cons s' a) = map_option con_next (sw_cons s a)) \<and>
     (\<forall>a. sw_threads s a = ThrdExited \<longrightarrow> sw_threads s' a = ThrdExited) \<and>
     (\<forall>a c'. sw_cons s' a = Some c' \<longrightarrow> con_state c' = StSTOP \<longrightarrow>
       (\<exists>c. sw_cons s a = Some c \<and> con_state c = StSTOP))"

lemma moved_refl [simp]: "moved s s"
  by (simp add: moved_def)

lemma moved_trans: "moved s t \<Longrightarrow> moved t u \<Longrightarrow> moved s u"
  by (simp add: moved_def) blast

lemma moved_step: "moved s (others_step x s)"
  by (cases x) (auto simp: moved_def split: option.splits)

lemma world_ok_step: "world_ok s \<Longrightarrow> world_ok (others_step x s)"
  by (cases x; auto simp: world_ok_def con_fine_def split: option.splits; fastforce)

lemma others_step_script [simp]: "sw_others (others_step x s) = sw_others s"
  by (cases x) (auto split: option.splits)

lemma steps_script [simp]: "sw_others (fold others_step ch s) = sw_others s"
  by (induction ch arbitrary: s) auto

lemma moved_steps: "moved s (fold others_step ch s)"
  by (induction ch arbitrary: s) (auto intro: moved_trans moved_step)

lemma world_ok_steps: "world_ok s \<Longrightarrow> world_ok (fold others_step ch s)"
  by (induction ch arbitrary: s) (auto intro: world_ok_step)

lemma world_ok_script [simp]: "world_ok (s\<lparr>sw_others := x\<rparr>) = world_ok s"
  by (simp add: world_ok_def con_fine_def)

lemma moved_script [simp]: "moved s (t\<lparr>sw_others := x\<rparr>) = moved s t" "moved (s\<lparr>sw_others := x\<rparr>) t = moved s t"
  by (simp_all add: moved_def)

lemma others_moved [simp]: "moved s (others s)"
  using moved_steps [of "s\<lparr>sw_others := x\<rparr>" for x] by (auto simp: others_def split: list.splits)

lemma others_ok [intro]: "world_ok s \<Longrightarrow> world_ok (others s)"
  by (auto simp: others_def intro: world_ok_steps split: list.splits)

lemma others_script [simp]: "sw_others (others s) = drop 1 (sw_others s)"
  by (auto simp: others_def split: list.splits)

lemma moved_chain: "moved s s' \<Longrightarrow> chain (sw_cons s') p as = chain (sw_cons s) p as"
  by (rule chain_cong) (simp add: moved_def)

lemma moved_con: "moved s s' \<Longrightarrow> sw_cons s a = Some c \<Longrightarrow>
    \<exists>c'. sw_cons s' a = Some c' \<and> con_next c' = con_next c"
  unfolding moved_def by (metis map_option_eq_Some)

section \<open>Taking and giving locks\<close>

lemma srv_free_update: "srv_lock s = MtxFree \<Longrightarrow> s\<lparr>srv_lock := MtxFree\<rparr> = s"
  by (cases s) simp

lemma lock_server_eq: "world_ok s \<Longrightarrow> lock_server s = Some (Done () ((others s)\<lparr>srv_lock := MtxHeld\<rparr>))"
  using others_ok [of s] by (simp add: lock_server_def srv_lock_take_def world_ok_def)

lemma srv_lock_give_held [simp]:
  "srv_lock s = MtxHeld \<Longrightarrow> srv_lock_give s = Some (Done () (s\<lparr>srv_lock := MtxFree\<rparr>))"
  by (simp add: srv_lock_give_def)

text \<open>One visit of a connection: its lock is taken and given back.\<close>

lemma set_con_id: "sw_cons s a = Some c \<Longrightarrow> set_con a c s = s"
  by (cases s) (simp add: set_con_def fun_upd_idem)

lemma set_con_twice [simp]: "set_con a c (set_con a d s) = set_con a c s"
  by (simp add: set_con_def)

lemma set_con_cons [simp]: "sw_cons (set_con a c s) = (sw_cons s)(a \<mapsto> c)"
  by (simp add: set_con_def)

lemma lock_con_eq:
  assumes "world_ok s" "sw_cons (others s) a = Some c"
  shows "lock_con a s = Some (Done () (set_con a (c\<lparr>con_lock := MtxHeld\<rparr>) (others s)))"
  using others_ok [OF assms(1)] assms(2)
  by (auto simp: lock_con_def con_of_def world_ok_def con_fine_def)

lemma unlock_con_eq:
  assumes "sw_cons s a = Some c" "con_lock c = MtxHeld"
  shows "unlock_con a s = Some (Done () (set_con a (c\<lparr>con_lock := MtxFree\<rparr>) s))"
  using assms by (auto simp: unlock_con_def con_of_def)

lemma con_free_update: "con_lock c = MtxFree \<Longrightarrow> c\<lparr>con_lock := MtxFree\<rparr> = c"
  by (cases c) simp

lemma seen:
  assumes "world_ok s" "sw_cons s a = Some c0"
  obtains c where "sw_cons (others s) a = Some c" "con_next c = con_next c0"
    "lock_con a s = Some (Done () (set_con a (c\<lparr>con_lock := MtxHeld\<rparr>) (others s)))"
    "con_fine (others s) a c" "c\<lparr>con_lock := MtxFree\<rparr> = c"
proof -
  obtain c where c: "sw_cons (others s) a = Some c" "con_next c = con_next c0"
    using moved_con [OF others_moved assms(2)] by blast
  moreover have "con_fine (others s) a c"
    using others_ok [OF assms(1)] c by (simp add: world_ok_def)
  moreover have "c\<lparr>con_lock := MtxFree\<rparr> = c"
    using calculation(3) by (simp add: con_free_update con_fine_def)
  ultimately show ?thesis
    using that lock_con_eq [OF assms(1)] by blast
qed

lemma no_chain [simp]: "chain m NULL as \<longleftrightarrow> as = []"
  by (cases as) auto

lemma chain_Ptr: "chain m (Ptr a) as \<longleftrightarrow> (\<exists>bs c. as = a # bs \<and> m a = Some c \<and> chain m (con_next c) bs)"
  by (cases as) auto

section \<open>Reaping\<close>

text \<open>
  What \<open>reap\<close> leaves in the list when it finds the clients \<open>D\<close> no longer working: each one it
  finds becomes the end of the part that is dropped, the working clients before it included.
\<close>

fun left_in_list :: "nat set \<Rightarrow> nat list \<Rightarrow> nat list" where
  "left_in_list D [] = []"
| "left_in_list D (a # as) = (if set (a # as) \<inter> D = {} then a # as else left_in_list D as)"

lemma left_none: "set as \<inter> D = {} \<Longrightarrow> left_in_list D as = as"
  by (cases as) auto

definition nobody_asked :: "server_world \<Rightarrow> bool" where
  "nobody_asked s \<longleftrightarrow> (\<forall>a c. sw_cons s a = Some c \<longrightarrow> con_state c \<noteq> StSTOP)"

lemma nobody_asked_moved: "moved s s' \<Longrightarrow> nobody_asked s \<Longrightarrow> nobody_asked s'"
  unfolding moved_def nobody_asked_def by blast

text \<open>The effect of reaping from a pointer on, when the clients \<open>D\<close> are found.\<close>

definition reaped :: "nat set \<Rightarrow> nat list \<Rightarrow> server_world \<Rightarrow> server_world \<Rightarrow> bool" where
  "reaped D as s s' \<longleftrightarrow> D \<subseteq> set as \<and> {a \<in> set as. sw_threads s a = ThrdExited} \<subseteq> D \<and>
     sw_next s' = sw_next s \<and> sw_accept s' = sw_accept s \<and>
     sw_freed s' = sw_freed s @ filter (\<lambda>a. a \<in> D) as \<and>
     (\<forall>a. map_option con_next (sw_cons s' a) = (if a \<in> D then None else map_option con_next (sw_cons s a))) \<and>
     (\<forall>a. a \<in> D \<or> sw_threads s a = ThrdExited \<longrightarrow> sw_threads s' a = ThrdExited) \<and>
     (if D = {} then sw_clients s' = sw_clients s
      else chain (sw_cons s') (sw_clients s') (left_in_list D as))"

lemma reap_step:
  assumes ok: "world_ok s" and c0: "sw_cons s a = Some c0" and na: "nobody_asked s"
  shows "reap NULL (Ptr a) s =
    (if sw_threads (others s) a = ThrdExited
     then reap NULL (con_next c0) ((others s)\<lparr>sw_clients := con_next c0,
       sw_cons := (sw_cons (others s))(a := None), sw_freed := sw_freed s @ [a],
       sw_released := sw_released (others s) @ [con_releases (the (sw_cons (others s) a))]\<rparr>)
     else reap NULL (con_next c0) (others s))"
proof -
  obtain c where c: "sw_cons (others s) a = Some c" "con_next c = con_next c0"
    "lock_con a s = Some (Done () (set_con a (c\<lparr>con_lock := MtxHeld\<rparr>) (others s)))"
    "con_fine (others s) a c" "c\<lparr>con_lock := MtxFree\<rparr> = c"
    using ok c0 by (rule seen)
  have st: "con_state c \<noteq> StSTOP"
    using nobody_asked_moved [OF others_moved na] c(1) by (simp add: nobody_asked_def)
  have same: "set_con a (c\<lparr>con_lock := MtxFree\<rparr>) (others s) = others s"
    using c(1,5) by (simp add: set_con_id)
  have freed: "sw_freed (others s) = sw_freed s" using others_moved [of s] by (simp add: moved_def)
  have ex: "con_state c \<noteq> StWORKING \<longleftrightarrow> sw_threads (others s) a = ThrdExited"
    using c(4) st by (cases "con_state c") (auto simp: con_fine_def)
  have join: "join_con a (others s) = Some (Done () (others s))" if "sw_threads (others s) a = ThrdExited"
    using that c(1) by (cases "sw_others (others s)") (simp_all add: join_con_def con_of_def)
  have "fb_free_ok (sw_lax (others s)) (con_fb c)" using releasable [OF others_ok [OF ok] c(4)] .
  then show ?thesis
    using c(1-4) ex join freed
    by (subst reap.simps)
      (auto simp: con_of_def unlock_con_eq same trfb_connection_free_def con_fine_def)
qed

lemma reap_ok:
  assumes "world_ok s" "nobody_asked s" "chain (sw_cons s) p as" "distinct as"
  shows "\<exists>D s'. reap NULL p s = Some (Done () s') \<and> reaped D as s s' \<and> world_ok s' \<and> nobody_asked s'"
  using assms
proof (induction as arbitrary: p s)
  case Nil
  then show ?case
    by (intro exI [of _ "{}"] exI [of _ s]) (simp add: reap.simps reaped_def)
next
  case (Cons a as)
  obtain c0 where p: "p = Ptr a" and c0: "sw_cons s a = Some c0" and rest: "chain (sw_cons s) (con_next c0) as"
    using Cons.prems(3) by auto
  have na: "a \<notin> set as" "distinct as" using Cons.prems(4) by auto
  let ?s1 = "others s"
  let ?s2 = "?s1\<lparr>sw_clients := con_next c0, sw_cons := (sw_cons ?s1)(a := None), sw_freed := sw_freed s @ [a],
    sw_released := sw_released ?s1 @ [con_releases (the (sw_cons ?s1 a))]\<rparr>"
  have ok1: "world_ok ?s1" and asked1: "nobody_asked ?s1" and m: "moved s ?s1"
    using Cons.prems(1,2) nobody_asked_moved [OF others_moved] by auto
  have chain1: "chain (sw_cons ?s1) (con_next c0) as"
    using rest moved_chain [OF m] by simp
  note step = reap_step [OF Cons.prems(1) c0 Cons.prems(2)]
  show ?case
  proof (cases "sw_threads ?s1 a = ThrdExited")
    case True
    have ok2: "world_ok ?s2" using ok1 by (auto simp: world_ok_def con_fine_def)
    have asked2: "nobody_asked ?s2" using asked1 by (simp add: nobody_asked_def)
    have chain2: "chain (sw_cons ?s2) (con_next c0) as"
      using chain1 na(1) chain_cong [of as "sw_cons ?s2" "sw_cons ?s1"] by fastforce
    obtain D s' where run: "reap NULL (con_next c0) ?s2 = Some (Done () s')"
      and r: "reaped D as ?s2 s'" and inv: "world_ok s'" "nobody_asked s'"
      using Cons.IH [OF ok2 asked2 chain2 na(2)] by blast
    have D: "a \<notin> D" using r na(1) by (auto simp: reaped_def)
    have "chain (sw_cons s') (sw_clients s') (left_in_list (insert a D) (a # as))"
    proof -
      have "left_in_list (insert a D) bs = left_in_list D bs" if "a \<notin> set bs" for bs
        using that by (induction bs) auto
      moreover have "chain (sw_cons s') (sw_clients s') (left_in_list D as)"
      proof (cases "D = {}")
        case True
        with r have "sw_clients s' = con_next c0" "\<forall>b. map_option con_next (sw_cons s' b) = map_option con_next (sw_cons ?s2 b)"
          by (auto simp: reaped_def)
        with chain2 True show ?thesis by (simp add: left_none chain_cong [of as "sw_cons s'" "sw_cons ?s2"])
      qed (use r in \<open>simp add: reaped_def\<close>)
      ultimately show ?thesis using na(1) by simp
    qed
    with r m D na(1) True have "reaped (insert a D) (a # as) s s'"
      by (auto simp: reaped_def moved_def intro!: filter_cong)
    with run inv step True p show ?thesis by auto
  next
    case False
    obtain D s' where run: "reap NULL (con_next c0) ?s1 = Some (Done () s')"
      and r: "reaped D as ?s1 s'" and inv: "world_ok s'" "nobody_asked s'"
      using Cons.IH [OF ok1 asked1 chain1 na(2)] by blast
    have D: "a \<notin> D" using r na(1) by (auto simp: reaped_def)
    have "D \<noteq> {} \<Longrightarrow> set as \<inter> D \<noteq> {}" using r by (auto simp: reaped_def)
    with r m D False have "reaped D (a # as) s s'"
      by (auto simp: reaped_def moved_def)
    with run inv step False p show ?thesis by auto
  qed
qed

section \<open>Stopping all clients\<close>

text \<open>A walk over the list that may ask clients to stop, but changes no link.\<close>

definition walked :: "server_world \<Rightarrow> server_world \<Rightarrow> bool" where
  "walked s s' \<longleftrightarrow> sw_next s' = sw_next s \<and> sw_clients s' = sw_clients s \<and> sw_freed s' = sw_freed s \<and>
     sw_accept s' = sw_accept s \<and>
     (\<forall>a. map_option con_next (sw_cons s' a) = map_option con_next (sw_cons s a)) \<and>
     (\<forall>a. sw_threads s a = ThrdExited \<longrightarrow> sw_threads s' a = ThrdExited)"

lemma walked_refl [simp]: "walked s s"
  by (simp add: walked_def)

lemma walked_trans: "walked s t \<Longrightarrow> walked t u \<Longrightarrow> walked s u"
  by (simp add: walked_def)

lemma moved_walked: "moved s t \<Longrightarrow> walked s t"
  by (simp add: moved_def walked_def)

lemma walked_chain: "walked s s' \<Longrightarrow> chain (sw_cons s') p as = chain (sw_cons s) p as"
  by (rule chain_cong) (simp add: walked_def)

text \<open>
  A client thread that has started, one that has noticed or will notice that it was asked to stop,
  and one that does so within the script.
\<close>

definition started :: "server_world \<Rightarrow> nat \<Rightarrow> bool" where
  "started s a \<longleftrightarrow> sw_threads s a \<noteq> ThrdCreated \<and> sw_cons s a \<noteq> None"

definition asked :: "server_world \<Rightarrow> nat \<Rightarrow> bool" where
  "asked s a \<longleftrightarrow> sw_threads s a = ThrdExited \<or>
     sw_threads s a = ThrdRunning \<and> (\<exists>c. sw_cons s a = Some c \<and> con_state c = StSTOP)"

definition answers :: "server_world \<Rightarrow> nat \<Rightarrow> bool" where
  "answers s a \<longleftrightarrow> asked s a \<and>
     (sw_threads s a = ThrdExited \<or> Ends a StSTOPPED \<in> set (concat (sw_others s)))"

lemma asked_step: "asked s a \<Longrightarrow> asked (others_step x s) a"
  by (cases x) (auto simp: asked_def split: option.splits)

lemma started_step: "started s a \<Longrightarrow> started (others_step x s) a"
  by (cases x) (auto simp: started_def split: option.splits)

lemma asked_steps: "asked s a \<Longrightarrow> asked (fold others_step ch s) a"
  by (induction ch arbitrary: s) (auto intro: asked_step)

lemma started_steps: "started s a \<Longrightarrow> started (fold others_step ch s) a"
  by (induction ch arbitrary: s) (auto intro: started_step)

lemma exited_steps: "sw_threads s a = ThrdExited \<Longrightarrow> sw_threads (fold others_step ch s) a = ThrdExited"
  using moved_steps [of s ch] by (simp add: moved_def)

lemma asked_ends:
  "asked s a \<Longrightarrow> Ends a StSTOPPED \<in> set ch \<Longrightarrow> sw_threads (fold others_step ch s) a = ThrdExited"
proof (induction ch arbitrary: s)
  case (Cons x ch)
  show ?case
  proof (cases "x = Ends a StSTOPPED")
    case True
    then have "sw_threads (others_step x s) a = ThrdExited"
      using Cons.prems(1) by (auto simp: asked_def split: option.splits)
    then show ?thesis by (simp add: exited_steps)
  next
    case False
    with Cons show ?thesis by (simp add: asked_step)
  qed
qed simp

lemma asked_script [simp]: "asked (s\<lparr>sw_others := x\<rparr>) a = asked s a"
  by (simp add: asked_def)

lemma started_script [simp]: "started (s\<lparr>sw_others := x\<rparr>) a = started s a"
  by (simp add: started_def)

lemma asked_others: "asked s a \<Longrightarrow> asked (others s) a"
  by (auto simp: others_def intro!: asked_steps split: list.splits)

lemma started_others: "started s a \<Longrightarrow> started (others s) a"
  by (auto simp: others_def intro!: started_steps split: list.splits)

lemma answers_others:
  assumes "answers s a"
  shows "answers (others s) a"
proof (cases "sw_others s")
  case (Cons ch chs)
  have "asked (others s) a" using assms asked_others by (simp add: answers_def)
  moreover have "sw_threads (others s) a = ThrdExited \<or> Ends a StSTOPPED \<in> set (concat chs)"
  proof (cases "Ends a StSTOPPED \<in> set ch")
    case True
    with assms Cons show ?thesis
      using asked_ends [of "s\<lparr>sw_others := chs\<rparr>" a ch] by (simp add: answers_def others_def)
  next
    case False
    with assms Cons show ?thesis
      using exited_steps [of "s\<lparr>sw_others := chs\<rparr>" a ch] by (auto simp: answers_def others_def)
  qed
  ultimately show ?thesis using Cons by (simp add: answers_def)
qed (use assms in \<open>simp add: answers_def others_def\<close>)

lemma request_step:
  assumes ok: "world_ok s" and c0: "sw_cons s a = Some c0"
  shows "\<exists>s'. request_stops (Ptr a) s = request_stops (con_next c0) s' \<and> world_ok s' \<and> walked s s' \<and>
    sw_others s' = drop 1 (sw_others s) \<and> (\<forall>b. asked s b \<longrightarrow> asked s' b) \<and>
    (\<forall>b. started s b \<longrightarrow> started s' b) \<and> (started s a \<longrightarrow> asked s' a)"
proof -
  obtain c where c: "sw_cons (others s) a = Some c" "con_next c = con_next c0"
    "lock_con a s = Some (Done () (set_con a (c\<lparr>con_lock := MtxHeld\<rparr>) (others s)))"
    "con_fine (others s) a c" "c\<lparr>con_lock := MtxFree\<rparr> = c"
    using ok c0 by (rule seen)
  let ?d = "if con_state c = StWORKING then c\<lparr>con_state := StSTOP\<rparr> else c"
  let ?s = "set_con a ?d (others s)"
  have free: "con_lock c = MtxFree" using c(4) by (simp add: con_fine_def)
  have d: "c\<lparr>con_state := x, con_lock := MtxFree\<rparr> = c\<lparr>con_state := x\<rparr>" for x
    using free by (cases c) simp
  have run: "request_stops (Ptr a) s = request_stops (con_next c0) ?s"
    using c(2,3,5) d by (subst request_stops.simps) (simp add: con_of_def unlock_con_eq)
  have "con_state c = StWORKING \<Longrightarrow> sw_threads (others s) a \<noteq> ThrdExited"
    using c(4) by (auto simp: con_fine_def)
  then have "world_ok ?s"
    using others_ok [OF ok] c(1,4) by (auto simp: world_ok_def con_fine_def set_con_def)
  moreover have "walked s ?s"
    using moved_walked [OF others_moved [of s]] c(1,2) c0 by (auto simp: walked_def set_con_def)
  moreover have "asked ?s b" if "asked s b" for b
    using asked_others [OF that] c(1) by (auto simp: asked_def set_con_def)
  moreover have "started ?s b" if "started s b" for b
    using started_others [OF that] c(1) by (auto simp: started_def set_con_def)
  moreover have "asked ?s a" if "started s a"
    using started_others [OF that] c(1,4)
    by (cases "con_state c"; cases "sw_threads (others s) a")
      (auto simp: started_def asked_def con_fine_def set_con_def)
  ultimately show ?thesis
    using run by (intro exI [of _ ?s]) (simp add: set_con_def)
qed

lemma request_ok:
  assumes "world_ok s" "chain (sw_cons s) p as"
  shows "\<exists>s'. request_stops p s = Some (Done () s') \<and> world_ok s' \<and> walked s s' \<and>
    sw_others s' = drop (length as) (sw_others s) \<and> (\<forall>b. asked s b \<longrightarrow> asked s' b) \<and>
    (\<forall>b. started s b \<longrightarrow> started s' b) \<and> (\<forall>a \<in> set as. started s a \<longrightarrow> asked s' a)"
  using assms
proof (induction as arbitrary: p s)
  case Nil
  then show ?case by (simp add: request_stops.simps)
next
  case (Cons a as)
  obtain c0 where p: "p = Ptr a" and c0: "sw_cons s a = Some c0" and rest: "chain (sw_cons s) (con_next c0) as"
    using Cons.prems(2) by auto
  obtain s1 where s1: "request_stops (Ptr a) s = request_stops (con_next c0) s1" "world_ok s1" "walked s s1"
    "sw_others s1 = drop 1 (sw_others s)" "\<forall>b. asked s b \<longrightarrow> asked s1 b"
    "\<forall>b. started s b \<longrightarrow> started s1 b" "started s a \<longrightarrow> asked s1 a"
    using request_step [OF Cons.prems(1) c0] by blast
  have "chain (sw_cons s1) (con_next c0) as" using rest walked_chain [OF s1(3)] by simp
  from Cons.IH [OF s1(2) this] obtain s' where
    s': "request_stops (con_next c0) s1 = Some (Done () s')" "world_ok s'" "walked s1 s'"
    "sw_others s' = drop (length as) (sw_others s1)" "\<forall>b. asked s1 b \<longrightarrow> asked s' b"
    "\<forall>b. started s1 b \<longrightarrow> started s' b" "\<forall>a \<in> set as. started s1 a \<longrightarrow> asked s' a"
    by blast
  have "walked s s'" using s1(3) s'(3) by (rule walked_trans)
  with s1 s' p show ?case by (intro exI [of _ s']) auto
qed

text \<open>Counting the clients that still have to stop: nothing but the script moves.\<close>

lemma count_step:
  assumes ok: "world_ok s" and c0: "sw_cons s a = Some c0"
  shows "\<exists>k. count_stopping (Ptr a) w s = count_stopping (con_next c0) (w + k) (others s) \<and>
    (k = 0 \<longrightarrow> asked s a \<longrightarrow> sw_threads (others s) a = ThrdExited) \<and>
    (sw_threads s a = ThrdExited \<longrightarrow> k = 0)"
proof -
  obtain c where c: "sw_cons (others s) a = Some c" "con_next c = con_next c0"
    "lock_con a s = Some (Done () (set_con a (c\<lparr>con_lock := MtxHeld\<rparr>) (others s)))"
    "con_fine (others s) a c" "c\<lparr>con_lock := MtxFree\<rparr> = c"
    using ok c0 by (rule seen)
  have same: "set_con a (c\<lparr>con_lock := MtxFree\<rparr>) (others s) = others s"
    using c(1,5) by (simp add: set_con_id)
  let ?k = "if con_state c = StSTOP then 1 else 0 :: nat"
  have "count_stopping (Ptr a) w s = count_stopping (con_next c0) (w + ?k) (others s)"
    using c(1-3) by (subst count_stopping.simps) (simp add: con_of_def unlock_con_eq same)
  moreover have "sw_threads (others s) a = ThrdExited" if "con_state c \<noteq> StSTOP" "asked s a"
    using asked_others [OF that(2)] that(1) c(1) by (auto simp: asked_def)
  moreover have "con_state c \<noteq> StSTOP" if "sw_threads s a = ThrdExited"
    using that others_moved [of s] c(4) by (auto simp: moved_def con_fine_def)
  ultimately show ?thesis by (intro exI [of _ ?k]) auto
qed

lemma count_ok:
  assumes "world_ok s" "chain (sw_cons s) p as"
  shows "\<exists>k s'. count_stopping p w s = Some (Done (w + k) s') \<and> world_ok s' \<and> moved s s' \<and>
    sw_others s' = drop (length as) (sw_others s) \<and> (\<forall>b. answers s b \<longrightarrow> answers s' b) \<and>
    (\<forall>a \<in> set as. k = 0 \<longrightarrow> asked s a \<longrightarrow> sw_threads s' a = ThrdExited) \<and>
    ((\<forall>a \<in> set as. sw_threads s a = ThrdExited) \<longrightarrow> k = 0)"
  using assms
proof (induction as arbitrary: p w s)
  case Nil
  then show ?case by (simp add: count_stopping.simps)
next
  case (Cons a as)
  obtain c0 where p: "p = Ptr a" and c0: "sw_cons s a = Some c0" and rest: "chain (sw_cons s) (con_next c0) as"
    using Cons.prems(2) by auto
  obtain k0 where k0: "count_stopping (Ptr a) w s = count_stopping (con_next c0) (w + k0) (others s)"
    "k0 = 0 \<longrightarrow> asked s a \<longrightarrow> sw_threads (others s) a = ThrdExited"
    "sw_threads s a = ThrdExited \<longrightarrow> k0 = 0"
    using count_step [OF Cons.prems(1) c0] by blast
  have ex: "sw_threads s b = ThrdExited \<Longrightarrow> sw_threads (others s) b = ThrdExited" for b
    using others_moved [of s] by (simp add: moved_def)
  have "chain (sw_cons (others s)) (con_next c0) as" using rest moved_chain [OF others_moved] by simp
  from Cons.IH [OF others_ok [OF Cons.prems(1)] this, of "w + k0"] obtain k s' where
    s': "count_stopping (con_next c0) (w + k0) (others s) = Some (Done (w + k0 + k) s')" "world_ok s'"
    "moved (others s) s'" "sw_others s' = drop (length as) (sw_others (others s))"
    "\<forall>b. answers (others s) b \<longrightarrow> answers s' b"
    "\<forall>a \<in> set as. k = 0 \<longrightarrow> asked (others s) a \<longrightarrow> sw_threads s' a = ThrdExited"
    "(\<forall>a \<in> set as. sw_threads (others s) a = ThrdExited) \<longrightarrow> k = 0"
    by blast
  have m: "moved s s'" using others_moved s'(3) by (rule moved_trans)
  have ans: "\<forall>b. answers s b \<longrightarrow> answers s' b" using s'(5) answers_others by blast
  have e: "sw_threads (others s) b = ThrdExited \<Longrightarrow> sw_threads s' b = ThrdExited" for b
    using s'(3) by (simp add: moved_def)
  have "\<forall>b \<in> set (a # as). k0 + k = 0 \<longrightarrow> asked s b \<longrightarrow> sw_threads s' b = ThrdExited"
    using k0(2) s'(6) e asked_others by auto
  moreover have "(\<forall>b \<in> set (a # as). sw_threads s b = ThrdExited) \<longrightarrow> k0 + k = 0"
    using k0(3) s'(7) ex by auto
  moreover have "sw_others s' = drop (length (a # as)) (sw_others s)" using s'(4) by simp
  ultimately show ?case
    unfolding p using k0(1) s'(1,2) m ans
    by (intro exI [of _ "k0 + k"] exI [of _ s']) (simp add: add.assoc)
qed

lemma join_with_ok:
  assumes ex: "\<And>s x. exited (s\<lparr>sw_others := x\<rparr>) = exited s" and "world_ok s"
  shows "safe (\<lambda>_ s'. world_ok s' \<and> moved s s' \<and> exited s') (\<lambda>_. False) (join_with exited chs s)"
  using assms(2)
proof (induction chs arbitrary: s)
  case (Cons ch chs)
  have "safe (\<lambda>_ s'. world_ok s' \<and> moved s s' \<and> exited s') (\<lambda>_. False)
      (join_with exited chs (fold others_step ch s))"
    using Cons.IH [OF world_ok_steps [OF Cons.prems]]
    by (rule safe_mono) (auto intro: moved_trans [OF moved_steps])
  then show ?case using Cons.prems ex by simp
qed (simp add: ex)

lemma join_con_ok:
  assumes "world_ok s" "sw_cons s a = Some c"
  shows "safe (\<lambda>_ s'. world_ok s' \<and> moved s s' \<and> sw_threads s' a = ThrdExited) (\<lambda>_. False) (join_con a s)"
  using join_with_ok [OF _ assms(1), of "\<lambda>s. sw_threads s a = ThrdExited"] assms(2)
  by (simp add: join_con_def con_of_def)

lemma join_con_now: "sw_cons s a = Some c \<Longrightarrow> sw_threads s a = ThrdExited \<Longrightarrow> join_con a s = Some (Done () s)"
  by (cases "sw_others s") (simp_all add: join_con_def con_of_def)

lemma join_all_ok:
  assumes "world_ok s" "chain (sw_cons s) p as"
  shows "safe (\<lambda>_ s'. world_ok s' \<and> moved s s') (\<lambda>_. False) (join_all p s)"
  using assms
proof (induction as arbitrary: p s)
  case Nil
  then show ?case by (simp add: join_all.simps)
next
  case (Cons a as)
  obtain c0 where p: "p = Ptr a" and c0: "sw_cons s a = Some c0" and rest: "chain (sw_cons s) (con_next c0) as"
    using Cons.prems(2) by auto
  show ?case
    unfolding p
  proof (subst join_all.simps, simp, rule safe_andthen [OF join_con_ok [OF Cons.prems(1) c0]])
    fix u s1 assume s1: "world_ok s1 \<and> moved s s1 \<and> sw_threads s1 a = ThrdExited"
    obtain c where c: "sw_cons s1 a = Some c" "con_next c = con_next c0"
      using moved_con [OF _ c0] s1 by blast
    have "chain (sw_cons s1) (con_next c0) as" using rest moved_chain s1 by blast
    from Cons.IH [OF _ this] s1 have "safe (\<lambda>_ s'. world_ok s' \<and> moved s1 s') (\<lambda>_. False) (join_all (con_next c0) s1)"
      by blast
    then show "safe (\<lambda>_ s'. world_ok s' \<and> moved s s') (\<lambda>_. False)
        (andthen (con_of a s1 (\<lambda>c. Some (Done (con_next c) s1))) join_all)"
      using c s1 by (auto simp: con_of_def elim!: safe_mono intro: moved_trans)
  qed
qed

lemma join_all_now:
  assumes "chain (sw_cons s) p as" "\<forall>a \<in> set as. sw_threads s a = ThrdExited"
  shows "join_all p s = Some (Done () s)"
  using assms
proof (induction as arbitrary: p)
  case Nil
  then show ?case by (simp add: join_all.simps)
next
  case (Cons a as)
  then show ?case by (subst join_all.simps) (auto simp: join_con_now con_of_def)
qed

definition all_freed :: "nat list \<Rightarrow> server_world \<Rightarrow> server_world" where
  "all_freed as s = s\<lparr>sw_cons := (\<lambda>a. if a \<in> set as then None else sw_cons s a), sw_freed := sw_freed s @ as,
     sw_released := sw_released s @ map (\<lambda>a. con_releases (the (sw_cons s a))) as\<rparr>"

lemma free_all_ok:
  assumes "world_ok s" "chain (sw_cons s) p as" "distinct as"
  shows "free_all p s = Some (Done () (all_freed as s))"
  using assms
proof (induction as arbitrary: p s)
  case Nil
  then show ?case by (simp add: free_all.simps all_freed_def)
next
  case (Cons a as)
  obtain c where p: "p = Ptr a" and c: "sw_cons s a = Some c" and rest: "chain (sw_cons s) (con_next c) as"
    using Cons.prems(2) by auto
  let ?s = "s\<lparr>sw_cons := (sw_cons s)(a := None), sw_freed := sw_freed s @ [a],
    sw_released := sw_released s @ [con_releases c]\<rparr>"
  have fine: "con_fine s a c" using Cons.prems(1) c by (simp add: world_ok_def)
  then have free: "con_lock c = MtxFree" "fb_free_ok (sw_lax s) (con_fb c)"
    using releasable [OF Cons.prems(1) fine] by (simp_all add: con_fine_def)
  have ok: "world_ok ?s" using Cons.prems(1) by (auto simp: world_ok_def con_fine_def)
  have "chain (sw_cons ?s) (con_next c) as"
    using rest Cons.prems(3) chain_cong [of as "sw_cons ?s" "sw_cons s"] by fastforce
  from Cons.IH [OF ok this] Cons.prems(3)
  have "free_all (con_next c) ?s = Some (Done () (all_freed as ?s))" by simp
  moreover have "all_freed as ?s = all_freed (a # as) s"
    using Cons.prems(3) c by (cases s) (auto simp: all_freed_def fun_eq_iff)
  ultimately show ?case
    unfolding p using c free by (subst free_all.simps) (simp add: con_of_def trfb_connection_free_def)
qed

lemma all_freed_ok: "world_ok s \<Longrightarrow> world_ok (all_freed as s)"
  by (auto simp: world_ok_def con_fine_def all_freed_def)

lemma all_freed_none [simp]: "all_freed [] s = s"
  by (cases s) (simp add: all_freed_def)

lemma wait_stopped_safe:
  assumes "world_ok s" "chain (sw_cons s) p as" "distinct as"
  shows "safe (\<lambda>_ s'. \<exists>t. world_ok t \<and> moved s t \<and> s' = all_freed as t) (\<lambda>_. False) (wait_stopped p s)"
proof (rule safe_some)
  fix y assume "wait_stopped p s = Some y"
  then have "world_ok s \<longrightarrow> chain (sw_cons s) p as \<longrightarrow>
      safe (\<lambda>_ s'. \<exists>t. world_ok t \<and> moved s t \<and> s' = all_freed as t) (\<lambda>_. False) (Some y)"
  proof (rule wait_stopped.raw_induct [rotated], intro impI)
    fix self :: "nat ptr \<Rightarrow> server_world \<Rightarrow> (server_world, unit) outcome option" and p s y
    assume IH: "\<And>p s y. self p s = Some y \<Longrightarrow> world_ok s \<longrightarrow> chain (sw_cons s) p as \<longrightarrow>
        safe (\<lambda>_ s'. \<exists>t. world_ok t \<and> moved s t \<and> s' = all_freed as t) (\<lambda>_. False) (Some y)"
      and run: "(if p = NULL then Some (Done () s)
        else andthen (count_stopping p 0 s) (\<lambda>work s.
          if work \<noteq> 0 then self p s
          else andthen (join_all p s) (\<lambda>_. free_all p))) = Some y"
      and ok: "world_ok s" and ch: "chain (sw_cons s) p as"
    obtain k s1 where count: "count_stopping p 0 s = Some (Done (0 + k) s1)" and s1: "world_ok s1" "moved s s1"
      using count_ok [OF ok ch, of 0] by blast
    have ch1: "chain (sw_cons s1) p as" using ch moved_chain [OF s1(2)] by simp
    show "safe (\<lambda>_ s'. \<exists>t. world_ok t \<and> moved s t \<and> s' = all_freed as t) (\<lambda>_. False) (Some y)"
    proof (cases "p = NULL")
      case True
      with run ok ch show ?thesis by auto
    next
      case False
      show ?thesis
      proof (cases "k = 0")
        case True
        have "safe (\<lambda>_ s'. \<exists>t. world_ok t \<and> moved s t \<and> s' = all_freed as t) (\<lambda>_. False)
            (andthen (join_all p s1) (\<lambda>_ s. free_all p s))"
        proof (rule safe_andthen [OF join_all_ok [OF s1(1) ch1]])
          fix u t assume t: "world_ok t \<and> moved s1 t"
          then have "chain (sw_cons t) p as" using ch1 moved_chain by blast
          then show "safe (\<lambda>_ s'. \<exists>t. world_ok t \<and> moved s t \<and> s' = all_freed as t) (\<lambda>_. False) (free_all p t)"
            using t s1(2) assms(3) by (auto simp: free_all_ok intro: moved_trans)
        qed
        with run count True False show ?thesis by simp
      next
        case again: False
        with run count False have "self p s1 = Some y" by simp
        from IH [OF this] s1(1) ch1
        have "safe (\<lambda>_ s'. \<exists>t. world_ok t \<and> moved s1 t \<and> s' = all_freed as t) (\<lambda>_. False) (Some y)"
          by blast
        then show ?thesis
          by (rule safe_mono) (auto intro: moved_trans [OF s1(2)])
      qed
    qed
  qed
  with assms(1,2) show "safe (\<lambda>_ s'. \<exists>t. world_ok t \<and> moved s t \<and> s' = all_freed as t) (\<lambda>_. False) (Some y)"
    by blast
qed

lemma wait_stopped_ends:
  assumes "world_ok s" "chain (sw_cons s) p as" "distinct as" "\<forall>a \<in> set as. answers s a"
  shows "wait_stopped p s \<noteq> None"
  using assms
proof (induction "length (sw_others s)" arbitrary: s rule: less_induct)
  case less
  show ?case
  proof (cases as)
    case Nil
    with less.prems show ?thesis by (simp add: wait_stopped.simps)
  next
    case (Cons a bs)
    have p: "p \<noteq> NULL" using less.prems(2) Cons by auto
    obtain k s1 where count: "count_stopping p 0 s = Some (Done (0 + k) s1)" and s1: "world_ok s1" "moved s s1"
      and dr: "sw_others s1 = drop (length as) (sw_others s)" and ans: "\<forall>b. answers s b \<longrightarrow> answers s1 b"
      and none: "\<forall>a \<in> set as. k = 0 \<longrightarrow> asked s a \<longrightarrow> sw_threads s1 a = ThrdExited"
      and some: "(\<forall>a \<in> set as. sw_threads s a = ThrdExited) \<longrightarrow> k = 0"
      using count_ok [OF less.prems(1,2), of 0] by blast
    have ch1: "chain (sw_cons s1) p as" using less.prems(2) moved_chain [OF s1(2)] by simp
    show ?thesis
    proof (cases "k = 0")
      case True
      then have "\<forall>a \<in> set as. sw_threads s1 a = ThrdExited"
        using none less.prems(4) by (auto simp: answers_def)
      then show ?thesis
        using count True p join_all_now [OF ch1] free_all_ok [OF s1(1) ch1 less.prems(3)]
        by (subst wait_stopped.simps) simp
    next
      case False
      then have "sw_others s \<noteq> []"
        using some less.prems(4) by (auto simp: answers_def)
      then have "length (sw_others s1) < length (sw_others s)" using dr Cons by simp
      then have "wait_stopped p s1 \<noteq> None"
        using less.hyps s1(1) ch1 less.prems(3,4) ans by blast
      then show ?thesis using count False p by (subst wait_stopped.simps) simp
    qed
  qed
qed

text \<open>Every client thread has started and answers a request within the script from the \<open>n\<close>th step on.\<close>

definition will_stop :: "nat \<Rightarrow> nat list \<Rightarrow> server_world \<Rightarrow> bool" where
  "will_stop n as s \<longleftrightarrow> (\<forall>a \<in> set as. started s a \<and> Ends a StSTOPPED \<in> set (concat (drop n (sw_others s))))"

lemma walked_con: "walked s s' \<Longrightarrow> sw_cons s a = None \<longleftrightarrow> sw_cons s' a = None"
  unfolding walked_def by (metis map_option_is_None)

text \<open>The state after \<open>stop_all_connections\<close>: the clients \<open>as\<close> are gone, each freed once.\<close>

definition all_stopped :: "nat list \<Rightarrow> server_world \<Rightarrow> server_world \<Rightarrow> bool" where
  "all_stopped as s s' \<longleftrightarrow> world_ok s' \<and> sw_clients s' = NULL \<and> sw_freed s' = sw_freed s @ as \<and>
     (\<forall>a. sw_cons s' a = None \<longleftrightarrow> a \<in> set as \<or> sw_cons s a = None)"

lemma stop_all_step:
  assumes ok: "world_ok s" and ch: "chain (sw_cons s) (sw_clients s) as"
  shows "\<exists>s1. stop_all_connections s = wait_stopped (sw_clients s) s1 \<and> world_ok s1 \<and>
    walked (s\<lparr>sw_clients := NULL\<rparr>) s1 \<and> chain (sw_cons s1) (sw_clients s) as \<and>
    (will_stop (Suc (length as)) as s \<longrightarrow> (\<forall>a \<in> set as. answers s1 a))"
proof -
  let ?s = "(others s)\<lparr>sw_clients := NULL\<rparr>"
  have m: "moved s (others s)" by simp
  then have cl: "sw_clients (others s) = sw_clients s" by (simp add: moved_def)
  have ok1: "world_ok ?s" using others_ok [OF ok] by (simp add: world_ok_def con_fine_def)
  have ch1: "chain (sw_cons ?s) (sw_clients s) as" using ch moved_chain [OF m] by simp
  have free: "srv_lock (others s) = MtxFree" using others_ok [OF ok] by (simp add: world_ok_def)
  have w1: "walked (s\<lparr>sw_clients := NULL\<rparr>) ?s" using moved_walked [OF m] by (simp add: walked_def)
  obtain s1 where s1: "request_stops (sw_clients s) ?s = Some (Done () s1)" "world_ok s1" "walked ?s s1"
    "sw_others s1 = drop (length as) (sw_others ?s)" "\<forall>a \<in> set as. started ?s a \<longrightarrow> asked s1 a"
    using request_ok [OF ok1 ch1] by blast
  have "(others s)\<lparr>sw_clients := NULL, srv_lock := MtxFree\<rparr> = ?s"
    using free by (cases "others s") simp
  then have "stop_all_connections s = wait_stopped (sw_clients s) s1"
    using s1(1) by (simp add: stop_all_connections_def lock_server_eq [OF ok] cl Let_def)
  moreover have "\<forall>a \<in> set as. answers s1 a" if "will_stop (Suc (length as)) as s"
    using that s1(4,5) started_others [of s] by (auto simp: will_stop_def answers_def started_def)
  moreover have "chain (sw_cons s1) (sw_clients s) as" using ch1 walked_chain [OF s1(3)] by simp
  moreover have "walked (s\<lparr>sw_clients := NULL\<rparr>) s1" using w1 s1(3) by (rule walked_trans)
  ultimately show ?thesis using s1(2) by blast
qed

lemma stop_all_ok:
  assumes ok: "world_ok s" and ch: "chain (sw_cons s) (sw_clients s) as" and dist: "distinct as"
  shows "safe (\<lambda>_ s'. all_stopped as s s') (\<lambda>_. False) (stop_all_connections s)"
    and "will_stop (Suc (length as)) as s \<Longrightarrow> stop_all_connections s \<noteq> None"
proof -
  obtain s1 where s1: "stop_all_connections s = wait_stopped (sw_clients s) s1" "world_ok s1"
    "walked (s\<lparr>sw_clients := NULL\<rparr>) s1" "chain (sw_cons s1) (sw_clients s) as"
    "will_stop (Suc (length as)) as s \<longrightarrow> (\<forall>a \<in> set as. answers s1 a)"
    using stop_all_step [OF ok ch] by blast
  have "all_stopped as s (all_freed as t)" if t: "world_ok t" "moved s1 t" for t
  proof -
    have w: "walked (s\<lparr>sw_clients := NULL\<rparr>) t" using s1(3) moved_walked [OF t(2)] by (rule walked_trans)
    then have "sw_cons s a = None \<longleftrightarrow> sw_cons t a = None" for a
      using walked_con [OF w, of a] by simp
    moreover have "sw_clients t = NULL" "sw_freed t = sw_freed s" using w by (simp_all add: walked_def)
    ultimately show ?thesis
      using all_freed_ok [OF t(1), of as] by (simp add: all_stopped_def all_freed_def)
  qed
  then show "safe (\<lambda>_ s'. all_stopped as s s') (\<lambda>_. False) (stop_all_connections s)"
    unfolding s1(1) using wait_stopped_safe [OF s1(2,4) dist] by (auto elim!: safe_mono)
  show "stop_all_connections s \<noteq> None" if "will_stop (Suc (length as)) as s"
    unfolding s1(1) using wait_stopped_ends [OF s1(2,4) dist] s1(5) that by blast
qed

section \<open>The server's thread\<close>

text \<open>The lock of the server is taken, a field is set, and the lock is given back.\<close>

lemma locked_set_state:
  assumes "world_ok s"
  shows "andthen (lock_server s) (\<lambda>_ s. andthen (srv_lock_give (s\<lparr>srv_state := st\<rparr>)) k) =
    k () ((others s)\<lparr>srv_state := st\<rparr>)"
proof -
  have "srv_lock (others s) = MtxFree" using others_ok [OF assms] by (simp add: world_ok_def)
  then have "(others s)\<lparr>srv_state := st, srv_lock := MtxFree\<rparr> = (others s)\<lparr>srv_state := st\<rparr>"
    by (cases "others s") simp
  then show ?thesis by (simp add: lock_server_eq [OF assms])
qed

lemma locked_read:
  assumes "world_ok s"
  shows "andthen (lock_server s) (\<lambda>_ s. if P s then andthen (srv_lock_give s) k else andthen (srv_lock_give s) k') =
    (if P ((others s)\<lparr>srv_lock := MtxHeld\<rparr>) then k () (others s) else k' () (others s))"
proof -
  have "srv_lock (others s) = MtxFree" using others_ok [OF assms] by (simp add: world_ok_def)
  then show ?thesis by (simp add: lock_server_eq [OF assms] srv_free_update)
qed

lemma server_exit_ok:
  assumes "world_ok s" "chain (sw_cons s) (sw_clients s) as" "distinct as"
  shows "safe (\<lambda>_ _. False) (\<lambda>s'. srv_state s' = st \<and> sw_clients s' = NULL \<and> srv_lock s' = MtxFree \<and>
      sw_freed s' = sw_freed s @ as) (server_exit st s)"
    and "will_stop (Suc (length as)) as s \<Longrightarrow> server_exit st s \<noteq> None"
proof -
  have last: "safe (\<lambda>_ _. False) (\<lambda>s'. srv_state s' = st \<and> sw_clients s' = NULL \<and> srv_lock s' = MtxFree \<and>
      sw_freed s' = sw_freed s @ as)
      (andthen (lock_server t) (\<lambda>_ s. andthen (srv_lock_give (s\<lparr>srv_state := st\<rparr>)) (\<lambda>_ s. Some (Exit s))))"
    if "all_stopped as s t" for t
    using that others_moved [of t] others_ok [of t]
    by (simp add: all_stopped_def locked_set_state moved_def world_ok_def)
  show "safe (\<lambda>_ _. False) (\<lambda>s'. srv_state s' = st \<and> sw_clients s' = NULL \<and> srv_lock s' = MtxFree \<and>
      sw_freed s' = sw_freed s @ as) (server_exit st s)"
    unfolding server_exit_def
    by (rule safe_andthen [OF safe_mono [OF stop_all_ok(1) [OF assms]]]) (auto intro: last)
  show "server_exit st s \<noteq> None" if ws: "will_stop (Suc (length as)) as s"
  proof -
    obtain t where "stop_all_connections s = Some (Done () t)" "all_stopped as s t"
      using stop_all_ok(1) [OF assms] stop_all_ok(2) [OF assms ws]
      by (cases "stop_all_connections s") (auto elim: safe.elims)
    then show ?thesis by (simp add: server_exit_def locked_set_state all_stopped_def)
  qed
qed

definition accept_fine :: "accept_answer \<Rightarrow> bool" where
  "accept_fine r \<longleftrightarrow> (case r of AcceptErr \<Rightarrow> True | Accepted sk n e names rnd tok \<Rightarrow> n \<le> 16 \<and> mtx_ok e)"

definition server_inv :: "server_world \<Rightarrow> bool" where
  "server_inv s \<longleftrightarrow> world_ok s \<and> nobody_asked s \<and> (\<exists>as. chain (sw_cons s) (sw_clients s) as \<and> distinct as) \<and>
     list_all accept_fine (sw_accept s)"

lemma server_inv_moved:
  assumes "server_inv s" "moved s s'" "world_ok s'"
  shows "server_inv s'"
proof -
  have "sw_clients s' = sw_clients s" "sw_accept s' = sw_accept s"
    using assms(2) by (simp_all add: moved_def)
  with assms show ?thesis
    by (auto simp: server_inv_def moved_chain dest: nobody_asked_moved)
qed

lemma create_eq:
  assumes "n \<le> 16" "mtx_ok e" "trfb_connection_create sk n e names rnd tok = Some (Ptr c)"
  shows "con_lock c = MtxFree" "con_state c = StWORKING" "con_next c = NULL" "con_fb c = NULL"
  using assms by (auto simp: trfb_connection_create_def split: if_splits ptr.splits)

lemma create_defined: "n \<le> 16 \<Longrightarrow> trfb_connection_create sk n e names rnd tok \<noteq> None"
  by (simp add: trfb_connection_create_def split: ptr.splits)

lemma chain_mem: "chain m p as \<Longrightarrow> a \<in> set as \<Longrightarrow> \<exists>c. m a = Some c"
  by (induction m p as rule: chain.induct) auto

lemma add_client_ok:
  assumes inv: "server_inv s" and c: "con_lock c = MtxFree" "con_state c = StWORKING" "con_fb c = NULL"
  shows "safe (\<lambda>_ s'. server_inv s') (\<lambda>_. False)
    (let a = sw_next s; s = s\<lparr>sw_next := Suc a, sw_cons := (sw_cons s)(a \<mapsto> c),
           sw_threads := (sw_threads s)(a := ThrdCreated)\<rparr> in
       andthen (lock_server s) (\<lambda>_ s. con_of a s (\<lambda>c. srv_lock_give
         ((set_con a (c\<lparr>con_next := sw_clients s\<rparr>) s)\<lparr>sw_clients := Ptr a\<rparr>))))"
proof -
  let ?a = "sw_next s"
  let ?s = "s\<lparr>sw_next := Suc ?a, sw_cons := (sw_cons s)(?a \<mapsto> c), sw_threads := (sw_threads s)(?a := ThrdCreated)\<rparr>"
  obtain as where as: "chain (sw_cons s) (sw_clients s) as" "distinct as"
    and ok: "world_ok s" and na: "nobody_asked s" and acc: "list_all accept_fine (sw_accept s)"
    using inv by (auto simp: server_inv_def)
  have new: "sw_cons s ?a = None"
    using ok by (cases "sw_cons s ?a") (auto simp: world_ok_def con_fine_def)
  have fresh: "?a \<notin> set as" using chain_mem [OF as(1)] new by fastforce
  have ok1: "world_ok ?s"
    using ok c by (auto simp: world_ok_def con_fine_def less_Suc_eq)
  have na1: "nobody_asked ?s" using na c by (simp add: nobody_asked_def)
  have ch1: "chain (sw_cons ?s) (sw_clients s) as"
    using as(1) fresh chain_cong [of as "sw_cons ?s" "sw_cons s"] by fastforce
  let ?t = "others ?s"
  have m: "moved ?s ?t" by simp
  have ok2: "world_ok ?t" using ok1 by blast
  obtain d where d: "sw_cons ?t ?a = Some d" using moved_con [OF m, of ?a] by auto
  let ?u = "(set_con ?a (d\<lparr>con_next := sw_clients ?t\<rparr>) ?t)\<lparr>sw_clients := Ptr ?a\<rparr>"
  have cl: "sw_clients ?t = sw_clients s" "sw_accept ?t = sw_accept s" using m by (simp_all add: moved_def)
  have "chain (sw_cons ?t) (sw_clients s) as" using ch1 moved_chain [OF m] by simp
  then have "chain (sw_cons ?u) (Ptr ?a) (?a # as)"
    using fresh cl chain_cong [of as "sw_cons ?u" "sw_cons ?t"] by fastforce
  moreover have "world_ok ?u" using ok2 d by (auto simp: world_ok_def con_fine_def set_con_def)
  moreover have "nobody_asked ?u"
    using nobody_asked_moved [OF m na1] d by (auto simp: nobody_asked_def set_con_def)
  ultimately have "server_inv ?u"
    using as(2) fresh acc cl by (auto simp: server_inv_def set_con_def intro!: exI [of _ "?a # as"])
  moreover have "(set_con ?a (d\<lparr>con_next := sw_clients ?t\<rparr>) (?t\<lparr>srv_lock := MtxHeld\<rparr>))
      \<lparr>sw_clients := Ptr ?a, srv_lock := MtxFree\<rparr> = ?u"
    using ok2 by (cases ?t) (simp add: world_ok_def set_con_def)
  ultimately show ?thesis
    using d by (simp add: Let_def lock_server_eq [OF ok1] con_of_def set_con_def)
qed

lemma accept_client_ok:
  assumes inv: "server_inv s"
  shows "safe (\<lambda>_ s'. server_inv s') (\<lambda>_. False) (accept_client s)"
proof (cases "sw_accept s")
  case (Cons r rs)
  let ?s = "s\<lparr>sw_accept := rs\<rparr>"
  have inv1: "server_inv ?s"
    using inv Cons by (auto simp: server_inv_def world_ok_def con_fine_def nobody_asked_def)
  show ?thesis
  proof (cases r)
    case (Accepted sk n e names rnd tok)
    then have fine: "n \<le> 16" "mtx_ok e" using inv Cons by (auto simp: server_inv_def accept_fine_def)
    obtain p where p: "trfb_connection_create sk n e names rnd tok = Some p"
      using create_defined [OF fine(1)] by blast
    show ?thesis
    proof (cases p)
      case NULL
      with Cons Accepted p inv1 show ?thesis by (simp add: accept_client_def)
    next
      case (Ptr c)
      then show ?thesis
        using Cons Accepted p add_client_ok [OF inv1, of c] create_eq [OF fine, of sk names rnd tok c]
        by (simp add: accept_client_def Let_def)
    qed
  qed (use Cons inv1 in \<open>simp add: accept_client_def\<close>)
qed (simp add: accept_client_def)

lemma reaped_chain:
  assumes r: "reaped D as s s'" and ch: "chain (sw_cons s) (sw_clients s) as"
  shows "chain (sw_cons s') (sw_clients s') (left_in_list D as)"
proof (cases "D = {}")
  case True
  with r have "sw_clients s' = sw_clients s"
    "\<forall>a. map_option con_next (sw_cons s' a) = map_option con_next (sw_cons s a)"
    by (auto simp: reaped_def)
  with ch True show ?thesis by (simp add: left_none chain_cong [of as "sw_cons s'" "sw_cons s"])
qed (use r in \<open>simp add: reaped_def\<close>)

lemma reap_inv:
  assumes inv: "server_inv s"
  shows "\<exists>s'. reap NULL (sw_clients s) s = Some (Done () s') \<and> server_inv s'"
proof -
  obtain as where as: "chain (sw_cons s) (sw_clients s) as" "distinct as"
    and ok: "world_ok s" and na: "nobody_asked s" and acc: "list_all accept_fine (sw_accept s)"
    using inv by (auto simp: server_inv_def)
  obtain D s' where run: "reap NULL (sw_clients s) s = Some (Done () s')" and r: "reaped D as s s'"
    and inv': "world_ok s'" "nobody_asked s'"
    using reap_ok [OF ok na as] by blast
  have "distinct (left_in_list D as)"
    using as(2) by (induction as) auto
  moreover have "chain (sw_cons s') (sw_clients s') (left_in_list D as)"
    using r as(1) by (rule reaped_chain)
  ultimately show ?thesis
    using run inv' acc r by (auto simp: server_inv_def reaped_def)
qed

definition server_ended :: "server_world \<Rightarrow> bool" where
  "server_ended s \<longleftrightarrow> srv_state s \<in> {StSTOPPED, StERROR} \<and> sw_clients s = NULL \<and> srv_lock s = MtxFree"

lemma server_exit_ends:
  assumes "server_inv s" "st \<in> {StSTOPPED, StERROR}"
  shows "safe (\<lambda>_ _. False) server_ended (server_exit st s)"
proof -
  obtain as where "chain (sw_cons s) (sw_clients s) as" "distinct as" "world_ok s"
    using assms(1) by (auto simp: server_inv_def)
  from safe_mono [OF server_exit_ok(1) [OF this(3,1,2)]] show ?thesis
    using assms(2) by (auto simp: server_ended_def)
qed

lemma server_inv_others: "server_inv s \<Longrightarrow> server_inv (others s)"
  by (rule server_inv_moved) (auto simp: server_inv_def)

lemma server_inv_select [simp]: "server_inv (s\<lparr>sw_select := x\<rparr>) = server_inv s"
  by (simp add: server_inv_def world_ok_def con_fine_def nobody_asked_def)

lemma server_inv_state [simp]: "server_inv (s\<lparr>srv_state := x\<rparr>) = server_inv s"
  by (simp add: server_inv_def world_ok_def con_fine_def nobody_asked_def)

lemma server_loop_safe:
  assumes "server_inv s"
  shows "safe (\<lambda>_ _. False) server_ended (server_loop s)"
proof (rule safe_some)
  fix y assume "server_loop s = Some y"
  then have "server_inv s \<longrightarrow> safe (\<lambda>_ _. False) server_ended (Some y)"
  proof (rule server_loop.raw_induct [rotated], intro impI)
    fix self :: "server_world \<Rightarrow> (server_world, unit) outcome option" and s y
    assume IH: "\<And>s y. self s = Some y \<Longrightarrow> server_inv s \<longrightarrow> safe (\<lambda>_ _. False) server_ended (Some y)"
      and run: "andthen (lock_server s) (\<lambda>_ s.
          if srv_state s = StSTOP then andthen (srv_lock_give s) (\<lambda>_. server_exit StSTOPPED)
          else andthen (srv_lock_give s) (\<lambda>_ s.
            andthen (case sw_select s of [] \<Rightarrow> None
              | SelErr x # rs \<Rightarrow> server_exit StERROR (s\<lparr>sw_select := rs\<rparr>)
              | SelTimeout # rs \<Rightarrow> Some (Done () (s\<lparr>sw_select := rs\<rparr>))
              | SelReady # rs \<Rightarrow> accept_client (s\<lparr>sw_select := rs\<rparr>))
             (\<lambda>_ s. andthen (reap NULL (sw_clients s) s) (\<lambda>_. self)))) = Some y"
      and inv: "server_inv s"
    have loop: "safe (\<lambda>_ _. False) server_ended (self t)" if "server_inv t" for t
    proof (rule safe_some)
      fix y assume "self t = Some y"
      from IH [OF this] that show "safe (\<lambda>_ _. False) server_ended (Some y)" by blast
    qed
    let ?t = "others s"
    have inv1: "server_inv ?t" using inv by (rule server_inv_others)
    have turn: "safe (\<lambda>_ t. server_inv t) server_ended (case sw_select ?t of [] \<Rightarrow> None
        | SelErr x # rs \<Rightarrow> server_exit StERROR (?t\<lparr>sw_select := rs\<rparr>)
        | SelTimeout # rs \<Rightarrow> Some (Done () (?t\<lparr>sw_select := rs\<rparr>))
        | SelReady # rs \<Rightarrow> accept_client (?t\<lparr>sw_select := rs\<rparr>))"
    proof (cases "sw_select ?t")
      case (Cons r rs)
      have inv2: "server_inv (?t\<lparr>sw_select := rs\<rparr>)" using inv1 by simp
      have "safe (\<lambda>_ t. server_inv t) server_ended (server_exit StERROR (?t\<lparr>sw_select := rs\<rparr>))"
        by (rule safe_mono [OF server_exit_ends [OF inv2]]) simp_all
      moreover have "safe (\<lambda>_ t. server_inv t) server_ended (accept_client (?t\<lparr>sw_select := rs\<rparr>))"
        by (rule safe_mono [OF accept_client_ok [OF inv2]]) simp_all
      ultimately show ?thesis using Cons inv2 by (cases r) simp_all
    qed simp
    have "safe (\<lambda>_ _. False) server_ended
        (if srv_state ?t = StSTOP then server_exit StSTOPPED ?t
         else andthen (case sw_select ?t of [] \<Rightarrow> None
              | SelErr x # rs \<Rightarrow> server_exit StERROR (?t\<lparr>sw_select := rs\<rparr>)
              | SelTimeout # rs \<Rightarrow> Some (Done () (?t\<lparr>sw_select := rs\<rparr>))
              | SelReady # rs \<Rightarrow> accept_client (?t\<lparr>sw_select := rs\<rparr>))
             (\<lambda>_ s. andthen (reap NULL (sw_clients s) s) (\<lambda>_. self)))"
    proof (cases "srv_state ?t = StSTOP")
      case True
      then show ?thesis using server_exit_ends [OF inv1, of StSTOPPED] by simp
    next
      case False
      have "safe (\<lambda>_ _. False) server_ended (andthen (reap NULL (sw_clients u) u) (\<lambda>_. self))"
        if "server_inv u" for u
        using reap_inv [OF that] loop by auto
      with turn False show ?thesis by (auto intro: safe_andthen)
    qed
    moreover have "world_ok s" using inv by (simp add: server_inv_def)
    ultimately show "safe (\<lambda>_ _. False) server_ended (Some y)"
      unfolding run [symmetric] by (simp only: locked_read) simp
  qed
  with assms show "safe (\<lambda>_ _. False) server_ended (Some y)" by blast
qed

lemma server_safe:
  assumes "server_inv s"
  shows "safe (\<lambda>_ _. False) server_ended (server s)"
proof -
  have ok: "world_ok s" using assms by (simp add: server_inv_def)
  let ?t = "(others s)\<lparr>srv_state := StWORKING\<rparr>"
  have "server_inv ?t" using server_inv_others [OF assms] by simp
  then show ?thesis
    using server_exit_ends [of ?t StERROR] server_loop_safe [of ?t]
    by (simp add: server_def locked_set_state [OF ok])
qed

text \<open>A request to stop that the thread sees at the top of its loop.\<close>

lemma will_stop_others:
  assumes "will_stop (Suc n) as s"
  shows "will_stop n as (others s)"
  using assms started_others by (auto simp: will_stop_def)

lemma server_loop_stops:
  assumes inv: "server_inv s" and st: "srv_state (others s) = StSTOP"
    and as: "chain (sw_cons s) (sw_clients s) as" "distinct as"
    and ws: "will_stop (length as + 2) as s"
  shows "settles (\<lambda>_ _. False) (\<lambda>s'. srv_state s' = StSTOPPED \<and> sw_clients s' = NULL \<and>
    sw_freed s' = sw_freed s @ as) (server_loop s)"
proof -
  have ok: "world_ok s" using inv by (simp add: server_inv_def)
  have m: "moved s (others s)" by simp
  then have "chain (sw_cons (others s)) (sw_clients (others s)) as" "sw_freed (others s) = sw_freed s"
    using as(1) moved_chain [OF m] by (simp_all add: moved_def)
  note ex = server_exit_ok [OF others_ok [OF ok] this(1) as(2)]
  have "will_stop (Suc (length as)) as (others s)"
    using ws by (intro will_stop_others) (simp add: numeral_2_eq_2)
  then have "settles (\<lambda>_ _. False) (\<lambda>s'. srv_state s' = StSTOPPED \<and> sw_clients s' = NULL \<and>
      sw_freed s' = sw_freed s @ as) (server_exit StSTOPPED (others s))"
    using ex(1) [of StSTOPPED] ex(2) [of StSTOPPED] \<open>sw_freed (others s) = sw_freed s\<close>
    by (auto simp: settles_def elim: safe_mono)
  moreover have "server_loop s = server_exit StSTOPPED (others s)"
    using st by (subst server_loop.simps) (simp add: locked_read [OF ok])
  ultimately show ?thesis by simp
qed

section \<open>Starting and stopping, as the application sees it\<close>

fun state_after :: "other_step \<Rightarrow> trfb_state \<Rightarrow> trfb_state" where
  "state_after (SetsState v) st = v"
| "state_after _ st = st"

text \<open>The states that a thread sees at its locks; the last one stays when the script has ended.\<close>

fun states_seen :: "trfb_state \<Rightarrow> other_step list list \<Rightarrow> trfb_state list" where
  "states_seen st [] = [st]"
| "states_seen st (ch # chs) = fold state_after ch st # states_seen (fold state_after ch st) chs"

lemma srv_state_step: "srv_state (others_step x s) = state_after x (srv_state s)"
  by (cases x) (auto split: option.splits)

lemma srv_state_steps: "srv_state (fold others_step ch s) = fold state_after ch (srv_state s)"
  by (induction ch arbitrary: s) (auto simp: srv_state_step)

lemma start_loop_step:
  assumes "world_ok s"
  shows "start_loop s =
    (if srv_state (others s) = StSTOPPED then start_loop (others s)
     else Some (Done (if srv_state (others s) = StWORKING then 0 else -1) (others s)))"
proof -
  have "srv_lock (others s) = MtxFree" using others_ok [OF assms] by (simp add: world_ok_def)
  then show ?thesis
    by (subst start_loop.simps) (simp add: lock_server_eq [OF assms] give_and_return_def srv_free_update)
qed

lemma start_loop_waits: "start_loop s = Some y \<Longrightarrow> \<not> (world_ok s \<and> sw_others s = [] \<and> srv_state s = StSTOPPED)"
proof (induction rule: start_loop.raw_induct [rotated, consumes 1])
  case (1 self s y)
  show ?case
  proof
    assume s: "world_ok s \<and> sw_others s = [] \<and> srv_state s = StSTOPPED"
    then have "others s = s" "srv_lock s = MtxFree" by (simp_all add: others_def world_ok_def)
    with 1(2) s have "self s = Some y" by (simp add: lock_server_eq srv_free_update)
    with 1(1) s show False by blast
  qed
qed

lemma start_loop_spec:
  assumes "world_ok s"
  shows "case find (\<lambda>st. st \<noteq> StSTOPPED) (states_seen (srv_state s) (sw_others s)) of
      None \<Rightarrow> start_loop s = None
    | Some st \<Rightarrow> \<exists>s'. start_loop s = Some (Done (if st = StWORKING then 0 else -1) s') \<and>
        srv_state s' = st \<and> srv_lock s' = MtxFree"
  using assms
proof (induction "sw_others s" arbitrary: s)
  case Nil
  then have "others s = s" by (simp add: others_def)
  show ?case
  proof (cases "srv_state s = StSTOPPED")
    case True
    then have "start_loop s = None"
      using Nil start_loop_waits [of s] by (cases "start_loop s") auto
    then show ?thesis using Nil.hyps [symmetric] True by simp
  next
    case False
    then show ?thesis
      using Nil \<open>others s = s\<close> start_loop_step [OF Nil.prems] by (simp add: world_ok_def)
  qed
next
  case (Cons ch chs)
  let ?t = "others s"
  have t: "sw_others ?t = chs" "srv_state ?t = fold state_after ch (srv_state s)" "world_ok ?t"
    using Cons.hyps(2) [symmetric] others_ok [OF Cons.prems] by (simp_all add: others_def srv_state_steps)
  show ?case
  proof (cases "srv_state ?t = StSTOPPED")
    case True
    with Cons.hyps(1) [of ?t] Cons.hyps(2) [symmetric] t start_loop_step [OF Cons.prems] show ?thesis
      by (auto split: option.splits)
  next
    case False
    with Cons.hyps(2) [symmetric] t start_loop_step [OF Cons.prems] show ?thesis
      by (simp add: world_ok_def)
  qed
qed

lemma stop_loop_step:
  assumes "world_ok s"
  shows "stop_loop s = (if srv_state (others s) = StSTOP then stop_loop (others s) else Some (Done () (others s)))"
proof -
  have "srv_lock (others s) = MtxFree" using others_ok [OF assms] by (simp add: world_ok_def)
  then show ?thesis
    by (subst stop_loop.simps)
      (simp add: trfb_server_get_state_def lock_server_eq [OF assms] srv_free_update Let_def)
qed

lemma stop_loop_waits: "stop_loop s = Some y \<Longrightarrow> \<not> (world_ok s \<and> sw_others s = [] \<and> srv_state s = StSTOP)"
proof (induction rule: stop_loop.raw_induct [rotated, consumes 1])
  case (1 self s y)
  show ?case
  proof
    assume s: "world_ok s \<and> sw_others s = [] \<and> srv_state s = StSTOP"
    then have "others s = s" "srv_lock s = MtxFree" by (simp_all add: others_def world_ok_def)
    with 1(2) s have "self s = Some y"
      by (simp add: trfb_server_get_state_def lock_server_eq srv_free_update Let_def)
    with 1(1) s show False by blast
  qed
qed

definition quiet :: "other_step list \<Rightarrow> bool" where
  "quiet ch \<longleftrightarrow> (\<forall>st. SetsState st \<notin> set ch)"

lemma quiet_state: "quiet ch \<Longrightarrow> fold state_after ch st = st"
proof (induction ch)
  case (Cons x ch)
  then show ?case by (cases x) (auto simp: quiet_def)
qed simp

lemma stop_loop_never:
  assumes "world_ok s" "srv_state s = StSTOP" "list_all quiet (sw_others s)"
  shows "stop_loop s = None"
  using assms
proof (induction "sw_others s" arbitrary: s)
  case Nil
  with stop_loop_waits [of s] show ?case by (cases "stop_loop s") auto
next
  case (Cons ch chs)
  have t: "sw_others (others s) = chs" "srv_state (others s) = StSTOP"
    using Cons.hyps(2) [symmetric] Cons.prems(2,3) by (auto simp: others_def srv_state_steps quiet_state)
  have "stop_loop (others s) = None"
    using Cons.hyps(1) [of "others s"] Cons.hyps(2) [symmetric] Cons.prems t others_ok by auto
  then show ?case
    using t by (simp add: stop_loop_step [OF Cons.prems(1)])
qed

lemma sw_thread_steps:
  "sw_thread (fold others_step ch s) = (if ServerExits \<in> set ch then map_option (\<lambda>_. ThrdExited) (sw_thread s) else sw_thread s)"
proof (induction ch arbitrary: s)
  case (Cons x ch)
  then show ?case by (cases x) (auto simp: option.map_comp comp_def split: option.splits)
qed simp

lemma stop_loop_returns:
  assumes "world_ok s" "srv_state s = StSTOP" "sw_thread s \<noteq> None"
    and "sw_others s = chs @ [SetsState st, ServerExits] # rest" "list_all quiet chs" "st \<noteq> StSTOP"
  shows "\<exists>s'. stop_loop s = Some (Done () s') \<and> srv_state s' = st \<and> sw_thread s' = Some ThrdExited \<and>
    srv_lock s' = MtxFree"
  using assms
proof (induction chs arbitrary: s)
  case Nil
  then have "srv_state (others s) = st" "sw_thread (others s) = Some ThrdExited"
    by (auto simp: others_def)
  with Nil others_ok [OF Nil.prems(1)] show ?case
    by (simp add: stop_loop_step [OF Nil.prems(1)] world_ok_def)
next
  case (Cons ch chs)
  have "srv_state (others s) = StSTOP" "sw_thread (others s) \<noteq> None"
    "sw_others (others s) = chs @ [SetsState st, ServerExits] # rest"
    using Cons.prems by (auto simp: others_def srv_state_steps quiet_state sw_thread_steps)
  with Cons.IH [of "others s"] Cons.prems others_ok [OF Cons.prems(1)] show ?case
    by (simp add: stop_loop_step [OF Cons.prems(1)])
qed

section \<open>A stop request that gets lost\<close>

lemma join_never:
  assumes "sw_cons s a = Some c" "sw_threads s a = ThrdRunning" "con_state c = StWORKING"
    and "\<forall>ch \<in> set chs. Ends a StERROR \<notin> set ch"
  shows "join_with (\<lambda>s. sw_threads s a = ThrdExited) chs s = None"
  using assms
proof (induction chs arbitrary: s c)
  case (Cons ch chs)
  have "\<exists>c. sw_cons (fold others_step ch s) a = Some c \<and> con_state c = StWORKING \<and>
      sw_threads (fold others_step ch s) a = ThrdRunning"
    if "Ends a StERROR \<notin> set ch" "sw_cons s a = Some c" "con_state c = StWORKING"
      "sw_threads s a = ThrdRunning" for ch s c
    using that
  proof (induction ch arbitrary: s c)
    case (Cons x ch)
    have "\<exists>c. sw_cons (others_step x s) a = Some c \<and> con_state c = StWORKING \<and>
        sw_threads (others_step x s) a = ThrdRunning"
      using Cons.prems by (cases x) (auto split: option.splits)
    with Cons show ?case by auto
  qed simp
  from this [of ch s c] Cons show ?case by auto
qed simp

lemma stop_race:
  assumes ok: "world_ok s" and cl: "sw_clients s = Ptr a" and c: "sw_cons s a = Some c"
    and "con_next c = NULL" and th: "sw_threads s a = ThrdCreated" and st: "con_state c = StWORKING"
    and script: "sw_others s = [] # [] # [Starts a] # rest"
    and more: "\<forall>ch \<in> set rest. Ends a StERROR \<notin> set ch"
  shows "stop_all_connections s = None"
proof -
  have free: "con_lock c = MtxFree" "srv_lock s = MtxFree" using ok c by (auto simp: world_ok_def con_fine_def)
  have [simp]: "c\<lparr>con_lock := MtxFree\<rparr> = c" using free by (simp add: con_free_update)
  let ?d = "c\<lparr>con_state := StSTOP\<rparr>"
  let ?t = "s\<lparr>sw_clients := NULL, sw_others := [Starts a] # rest, sw_cons := (sw_cons s)(a \<mapsto> ?d)\<rparr>"
  let ?u = "s\<lparr>sw_clients := NULL, sw_others := rest, sw_threads := (sw_threads s)(a := ThrdRunning),
    sw_cons := (sw_cons s)(a \<mapsto> c\<lparr>con_state := StWORKING\<rparr>)\<rparr>"
  have d: "con_lock ?d = MtxFree" "con_next ?d = NULL" using free assms(4) by simp_all
  have [simp]: "c\<lparr>con_state := x, con_lock := MtxFree\<rparr> = c\<lparr>con_state := x\<rparr>" for x
    using free by (cases c) simp
  have [simp]: "s\<lparr>sw_clients := NULL, srv_lock := MtxFree, sw_others := x\<rparr> = s\<lparr>sw_clients := NULL, sw_others := x\<rparr>"
    "s\<lparr>sw_others := y, sw_clients := NULL, srv_lock := MtxFree\<rparr> = s\<lparr>sw_clients := NULL, sw_others := y\<rparr>" for x y
    using free by (cases s; simp)+
  have "stop_all_connections s = wait_stopped (Ptr a) ?t"
    using cl c d script assms(4) st free
    by (simp add: stop_all_connections_def lock_server_eq [OF ok] others_def Let_def request_stops.simps
        lock_con_def unlock_con_def con_of_def set_con_def)
  also have "\<dots> = andthen (join_all (Ptr a) ?u) (\<lambda>_ s. free_all (Ptr a) s)"
    using free th assms(4)
    by (subst wait_stopped.simps)
      (simp add: count_stopping.simps lock_con_def unlock_con_def con_of_def set_con_def others_def)
  also have "join_all (Ptr a) ?u = None"
    using join_never [of ?u a "c\<lparr>con_state := StWORKING\<rparr>" rest] more
    by (subst join_all.simps) (simp add: join_con_def con_of_def)
  finally show ?thesis by simp
qed

section \<open>Properties\<close>

text \<open>A server with clients at the addresses 1, 2 and so on in the given states, for the examples.\<close>

definition example_con :: "trfb_state \<Rightarrow> nat ptr \<Rightarrow> conn" where
  "example_con st p = zero_con\<lparr>con_lock := MtxFree, con_state := st, con_io := Ptr (example_io [] [] []), con_next := p\<rparr>"

lemma example_con_simps [simp]:
  "con_lock (example_con st p) = MtxFree" "con_state (example_con st p) = st" "con_next (example_con st p) = p"
  "con_fb (example_con st p) = NULL" "con_releases (example_con st p) = ([], trfb_io_free (Ptr (example_io [] [] [])))"
  by (simp_all add: example_con_def con_releases_def zero_con_def trfb_framebuffer_free_def)

definition example_server ::
  "trfb_state list \<Rightarrow> thrd list \<Rightarrow> sel list \<Rightarrow> accept_answer list \<Rightarrow> other_step list list \<Rightarrow> server_world" where
  "example_server sts ths sel acc scr = trfb_server.extend free_server (server_world.fields
     (if sts = [] then NULL else Ptr 1) None
     (\<lambda>a. if 1 \<le> a \<and> a \<le> length sts then Some (example_con (sts ! (a - 1))
        (if a < length sts then Ptr (a + 1) else NULL)) else None)
     (\<lambda>a. if 1 \<le> a \<and> a \<le> length ths then ths ! (a - 1) else ThrdCreated)
     (Suc (length sts)) True sel acc scr [] [] True True)"

lemma example_server_simps [simp]:
  "srv_lock (example_server sts ths sel acc scr) = MtxFree"
  "srv_state (example_server sts ths sel acc scr) = StSTOPPED"
  "sw_clients (example_server sts ths sel acc scr) = (if sts = [] then NULL else Ptr 1)"
  "sw_cons (example_server sts ths sel acc scr) a = (if 1 \<le> a \<and> a \<le> length sts then
     Some (example_con (sts ! (a - 1)) (if a < length sts then Ptr (a + 1) else NULL)) else None)"
  "sw_threads (example_server sts ths sel acc scr) a = (if 1 \<le> a \<and> a \<le> length ths then ths ! (a - 1) else ThrdCreated)"
  "sw_others (example_server sts ths sel acc scr) = scr" "sw_next (example_server sts ths sel acc scr) = Suc (length sts)"
  "sw_freed (example_server sts ths sel acc scr) = []" "sw_accept (example_server sts ths sel acc scr) = acc"
  "sw_thread (example_server sts ths sel acc scr) = None" "sw_released (example_server sts ths sel acc scr) = []"
  "sw_lax (example_server sts ths sel acc scr)"
  by (simp_all add: example_server_def free_server_def zero_server_def trfb_server.defs server_world.defs)

lemma one_example [simp]:
  "world_ok (example_server [StWORKING] [ThrdCreated] sel acc scr)"
  "world_ok (example_server [StWORKING] [ThrdRunning] sel acc scr)"
  "nobody_asked (example_server [StWORKING] ths sel acc scr)"
  "chain (sw_cons (example_server [StWORKING] ths sel acc scr)) (Ptr (Suc 0)) [Suc 0]"
  by (auto simp: world_ok_def con_fine_def nobody_asked_def)

text \<open>
  \<^verbatim>\<open>trfb_server_create\<close> refuses a side of more than 65535 and every depth but 1, 2 and 4 bytes, and
  otherwise returns, when the platform gives what it asks for, a stopped server without a socket
  and with an empty queue of events, whose framebuffer has the requested size and depth.
\<close>

theorem server_create_spec:
  "\<exists>r. trfb_server_create e w h b = Some r \<and>
    (case r of
       NULL \<Rightarrow> \<not> (struct_ok e \<and> w \<le> 0xffff \<and> h \<le> 0xffff \<and> creatable e (of_nat w) (of_nat h) (ucast b))
     | Ptr s \<Rightarrow> w \<le> 0xffff \<and> h \<le> 0xffff \<and> srv_sock s = -1 \<and> srv_state s = StSTOPPED \<and> srv_lock s = MtxFree \<and>
         events_wf s \<and> srv_queue s = [] \<and> (\<exists>fb. srv_fb s = Ptr fb \<and> fb_wf fb \<and> fb_std fb \<and>
           fb_width fb = of_nat w \<and> fb_height fb = of_nat h \<and> fb_bpp fb = ucast b))"
proof (cases "struct_ok e \<and> w \<le> 0xffff \<and> h \<le> 0xffff")
  case True
  show ?thesis
  proof (cases "creatable e (of_nat w) (of_nat h) (ucast b)")
    case ok: True
    obtain fb where "trfb_framebuffer_create e (of_nat w) (of_nat h) (ucast b) = Some (Ptr fb)"
      "fb_wf fb" "fb_std fb" "fb_width fb = of_nat w" "fb_height fb = of_nat h" "fb_bpp fb = ucast b"
      using create_ok [OF ok] create_wf by blast
    then show ?thesis
      using True ok by (auto simp: trfb_server_create_def zero_server_def creatable_def Let_def
          events_wf_def srv_queue_def ring_slot_def)
  next
    case False
    then show ?thesis
      using True create_fails [OF False] by (auto simp: trfb_server_create_def Let_def)
  qed
qed (auto simp: trfb_server_create_def)

text \<open>
  C20. Reaping: whatever the clients do meanwhile, the thread frees exactly the clients it finds
  finished, once each and after their threads have exited, and among them those that had finished
  before; and what stays in the server's list is only the part after the last finished one, so a
  client that still works and stands before a finished one is lost from the list.
\<close>

theorem server_reap_spec:
  assumes "world_ok s" and "nobody_asked s" and "chain (sw_cons s) (sw_clients s) as" and "distinct as"
  shows "\<exists>D s'. reap NULL (sw_clients s) s = Some (Done () s') \<and> world_ok s' \<and>
    {a \<in> set as. sw_threads s a = ThrdExited} \<subseteq> D \<and> D \<subseteq> set as \<and>
    sw_freed s' = sw_freed s @ filter (\<lambda>a. a \<in> D) as \<and>
    (\<forall>a \<in> set as. if a \<in> D then sw_cons s' a = None \<and> sw_threads s' a = ThrdExited else sw_cons s' a \<noteq> None) \<and>
    chain (sw_cons s') (sw_clients s') (left_in_list D as)"
proof -
  obtain D s' where run: "reap NULL (sw_clients s) s = Some (Done () s')" and r: "reaped D as s s'"
    and ok: "world_ok s'"
    using reap_ok [OF assms] by blast
  have "sw_cons s' a = None \<longleftrightarrow> a \<in> D" if "a \<in> set as" for a
  proof -
    have "map_option con_next (sw_cons s' a) = (if a \<in> D then None else map_option con_next (sw_cons s a))"
      using r by (simp add: reaped_def)
    moreover have "sw_cons s a \<noteq> None" using chain_mem [OF assms(3) that] by auto
    ultimately show ?thesis by (cases "a \<in> D") auto
  qed
  moreover have "chain (sw_cons s') (sw_clients s') (left_in_list D as)"
    using reaped_chain [OF r assms(3)] .
  ultimately show ?thesis
    using run r ok by (intro exI [of _ D] exI [of _ s']) (auto simp: reaped_def)
qed


theorem server_reap_spec_witness:
  "\<exists>s'. reap NULL (Ptr 1) (example_server [StWORKING, StERROR] [ThrdRunning, ThrdExited] [] [] []) = Some (Done () s') \<and>
    sw_freed s' = [2] \<and> sw_cons s' 1 \<noteq> None \<and> sw_clients s' = NULL"
proof -
  let ?s = "example_server [StWORKING, StERROR] [ThrdRunning, ThrdExited] [] [] []"
  have inv: "world_ok ?s" "nobody_asked ?s" "chain (sw_cons ?s) (sw_clients ?s) [1, 2]" "distinct [1, 2 :: nat]"
    by (auto simp: world_ok_def con_fine_def nobody_asked_def nth_Cons' split: if_splits)
  obtain D s' where r: "reap NULL (sw_clients ?s) ?s = Some (Done () s')"
    "{a \<in> set [1, 2]. sw_threads ?s a = ThrdExited} \<subseteq> D" "D \<subseteq> set [1, 2]"
    "sw_freed s' = sw_freed ?s @ filter (\<lambda>a. a \<in> D) [1, 2]"
    "\<forall>a \<in> set [1, 2]. if a \<in> D then sw_cons s' a = None \<and> sw_threads s' a = ThrdExited else sw_cons s' a \<noteq> None"
    "chain (sw_cons s') (sw_clients s') (left_in_list D [1, 2])"
    using server_reap_spec [OF inv] by blast
  have "reap NULL (Ptr 1) ?s = Some (Done () (?s\<lparr>sw_clients := NULL, sw_cons := (sw_cons ?s)(2 := None),
      sw_freed := [2], sw_released := [([], trfb_io_free (Ptr (example_io [] [] [])))]\<rparr>))"
    using reap_step [OF inv(1) _ inv(2), of 1 "example_con StWORKING (Ptr 2)"]
      reap_step [OF inv(1) _ inv(2), of 2 "example_con StERROR NULL"]
    by (simp add: others_def reap.simps numeral_2_eq_2)
  with r show ?thesis by simp
qed

text \<open>
  Creating a connection: an address longer than the 16 bytes kept for it (every IPv6 client
  has one) is copied out of bounds; otherwise the call fails when memory, the socket object or the
  thread cannot be had, and else the connection works from the start, with no framebuffer, a name of
  at most 63 characters and an I/O object that is well formed and empty on the accepted socket.
\<close>

theorem connection_create_spec:
  "case trfb_connection_create sk n e names rnd tok of
     None \<Rightarrow> 16 < n \<and> struct_ok e \<and> alloc_ok e 4
   | Some NULL \<Rightarrow> \<not> (struct_ok e \<and> alloc_ok e 4 \<and> tok)
   | Some (Ptr c) \<Rightarrow> n \<le> 16 \<and> struct_ok e \<and> alloc_ok e 4 \<and> tok \<and>
       con_state c = StWORKING \<and> con_fb c = NULL \<and> con_next c = NULL \<and> length (con_name c) \<le> 63 \<and>
       con_lock c = (if mtx_ok e then MtxFree else MtxRaw) \<and>
       (\<exists>io. con_io c = Ptr io \<and> io_wf sock_read sock_write io \<and> io_pending sock_inp io = sock_inp (Ptr sk) \<and>
         con_releases c = ([], Some (Ptr (sk\<lparr>sk_closed := True\<rparr>))))"
proof -
  have "trfb_io_socket_wrap e sk = NULL \<longleftrightarrow> \<not> (struct_ok e \<and> alloc_ok e 4)"
    by (simp add: trfb_io_socket_wrap_def malloc_def)
  moreover have "io_wf sock_read sock_write io \<and> io_pending sock_inp io = sock_inp (Ptr sk) \<and>
      trfb_io_free (Ptr io) = Some (Ptr (sk\<lparr>sk_closed := True\<rparr>))"
    if "trfb_io_socket_wrap e sk = Ptr io" for io
    using socket_wrap_ok [OF that] by blast
  ultimately show ?thesis
    by (auto simp: trfb_connection_create_def zero_con_def client_name_def con_releases_def
        trfb_framebuffer_free_def split: ptr.splits)
qed

text \<open>
  C21. The server's thread has no undefined behaviour, whatever its clients do and whatever
  \<^verbatim>\<open>select\<close> and \<^verbatim>\<open>accept\<close> answer, as long as the addresses of the clients fit, mutexes can be had, and
  either no client asks for an update before it sets a format or \<^verbatim>\<open>mtx_destroy\<close> leaves a held mutex alone
  (else freeing such a client destroys the byte copy of a held mutex): it frees no connection twice, uses
  none that is freed, and destroys no lock that may not be destroyed. It never returns, and if it ends, it
  ends in STOPPED or ERROR with an empty list and its lock free.
\<close>

theorem server_thread_safe:
  assumes "server_inv s"
  shows "safe (\<lambda>_ _. False) server_ended (server s)"
  using assms by (rule server_safe)

theorem server_thread_safe_witness:
  "safe (\<lambda>_ _. False) server_ended (server (example_server [] [] [SelReady, SelTimeout, SelErr EINTR]
     [Accepted \<lparr>sk_sel = [], sk_rcv = [], sk_snd = [], sk_out = [], sk_closed = False\<rparr> 16 easy_env (None, None) 7 True]
     [[], [Starts 1], [SetsFb 1 (Ptr (fb888\<lparr>fb_lock := MtxHeld\<rparr>))], [Ends 1 StERROR]]))"
  by (rule server_thread_safe)
    (auto simp: server_inv_def world_ok_def nobody_asked_def accept_fine_def)

text \<open>
  C22. A stop request is obeyed: when the server's thread finds the state STOP at the top of its
  loop and every client's thread has started and notices that it was asked, the thread ends in the
  state STOPPED after freeing every client of the list, each one once.
\<close>

theorem server_stop_obeyed:
  assumes "server_inv s" and "srv_state (others s) = StSTOP"
    and "chain (sw_cons s) (sw_clients s) as" and "distinct as" and "will_stop (length as + 2) as s"
  shows "\<exists>s'. server_loop s = Some (Exit s') \<and> srv_state s' = StSTOPPED \<and> sw_clients s' = NULL \<and>
    sw_freed s' = sw_freed s @ as"
  using server_loop_stops [OF assms] by (auto simp: settles_def elim: safe.elims)

theorem server_stop_obeyed_witness:
  "\<exists>s'. server_loop (example_server [StWORKING] [ThrdRunning] [] []
      [[SetsState StSTOP], [], [], [], [Ends 1 StSTOPPED]]) = Some (Exit s') \<and> srv_state s' = StSTOPPED \<and>
    sw_freed s' = [1]"
proof -
  let ?s = "example_server [StWORKING] [ThrdRunning] [] [] [[SetsState StSTOP], [], [], [], [Ends 1 StSTOPPED]]"
  have "server_inv ?s" by (auto simp: server_inv_def intro!: exI [of _ "[Suc 0]"])
  moreover have "srv_state (others ?s) = StSTOP" by (simp add: others_def)
  moreover have "chain (sw_cons ?s) (sw_clients ?s) [1]" by simp
  moreover have "will_stop (length [1 :: nat] + 2) [1] ?s"
    by (simp add: will_stop_def started_def numeral_eq_Suc)
  ultimately show ?thesis using server_stop_obeyed [of ?s "[1]"] by auto
qed

text \<open>
  C23. A client that is accepted just before the server stops can make it wait for ever: when it is the
  only client of the list and its thread first runs after it was asked to stop, it sets its state back to
  WORKING; it is then not counted as stopping and is joined, and as long as it does not end on its own with
  an error, as it does when it is disconnected, that join never returns.
\<close>

theorem stop_race_blocks:
  assumes "world_ok s" and "sw_clients s = Ptr a" and "sw_cons s a = Some c" and "con_next c = NULL"
    and "sw_threads s a = ThrdCreated" and "con_state c = StWORKING"
    and "sw_others s = [] # [] # [Starts a] # rest" and "\<forall>ch \<in> set rest. Ends a StERROR \<notin> set ch"
  shows "stop_all_connections s = None"
  using assms by (rule stop_race)

theorem stop_race_blocks_witness:
  "stop_all_connections (example_server [StWORKING] [ThrdCreated] [] [] [[], [], [Starts 1], [Ends 1 StSTOPPED]]) = None"
  by (rule stop_race_blocks [where a = 1 and c = "example_con StWORKING NULL" and rest = "[[Ends 1 StSTOPPED]]"])
    (simp_all add: one_example [simplified])

text \<open>
  C24. Starting and stopping, as the application sees them. \<^verbatim>\<open>trfb_server_start\<close> refuses a server that
  is not stopped or has clients, a socket or a framebuffer missing, and then answers by the first
  state other than STOPPED that it sees, 0 for WORKING; it waits for ever when there is none.
  \<^verbatim>\<open>trfb_server_stop\<close> returns 0 once the server's thread has left STOP and exited, and never
  returns when nobody sets the state, as on a server whose thread has already ended.
\<close>

theorem server_start_stop_spec:
  assumes ok: "world_ok s"
  shows "(sw_clients s \<noteq> NULL \<or> srv_state (others s) \<noteq> StSTOPPED \<longrightarrow>
      trfb_server_start tok s = Some (Done (-1) (others s))) \<and>
    (sw_clients s = NULL \<and> srv_state (others s) = StSTOPPED \<longrightarrow>
      (if srv_fb (others s) = NULL \<or> srv_sock (others s) < 0 \<or> \<not> tok
       then trfb_server_start tok s = Some (Done (-1) (others s))
       else case find (\<lambda>st. st \<noteq> StSTOPPED) (states_seen StSTOPPED (drop 1 (sw_others s))) of
           None \<Rightarrow> trfb_server_start tok s = None
         | Some st \<Rightarrow> \<exists>s'. trfb_server_start tok s = Some (Done (if st = StWORKING then 0 else -1) s') \<and>
             srv_state s' = st)) \<and>
    (list_all quiet (drop 1 (sw_others s)) \<longrightarrow> trfb_server_stop s = None) \<and>
    (sw_thread s \<noteq> None \<and> st \<noteq> StSTOP \<and> list_all quiet chs \<and>
       drop 1 (sw_others s) = chs @ [SetsState st, ServerExits] # rest \<longrightarrow>
      (\<exists>s'. trfb_server_stop s = Some (Done 0 s') \<and> srv_state s' = st \<and> sw_thread s' = None))"
proof (intro conjI impI)
  let ?t = "others s"
  have ok1: "world_ok ?t" and free: "srv_lock ?t = MtxFree"
    using others_ok [OF ok] by (simp_all add: world_ok_def)
  have cl: "sw_clients ?t = sw_clients s" using others_moved [of s] by (simp add: moved_def)
  have ok2: "world_ok (?t\<lparr>sw_thread := x\<rparr>)" "world_ok (?t\<lparr>srv_state := st\<rparr>)" for x st
    using ok1 by (simp_all add: world_ok_def con_fine_def)
  have start: "trfb_server_start tok s =
    (if sw_clients s \<noteq> NULL \<or> srv_state ?t \<noteq> StSTOPPED then Some (Done (-1) ?t)
     else if srv_fb ?t = NULL \<or> srv_sock ?t < 0 then Some (Done (-1) ?t)
     else if \<not> tok then Some (Done (-1) ?t) else start_loop (?t\<lparr>sw_thread := Some ThrdCreated\<rparr>))"
    using free cl by (simp add: trfb_server_start_def lock_server_eq [OF ok] give_and_return_def srv_free_update)
  have stop: "trfb_server_stop s = andthen (stop_loop (?t\<lparr>srv_state := StSTOP\<rparr>)) (\<lambda>_ s.
      if sw_thread s = None then Some Undef
      else andthen (join_with (\<lambda>s. sw_thread s = Some ThrdExited) (sw_others s) s) (\<lambda>_ s.
        Some (Done 0 (s\<lparr>sw_thread := None\<rparr>))))"
    by (simp add: trfb_server_stop_def locked_set_state [OF ok])
  show "trfb_server_start tok s = Some (Done (-1) ?t)"
    if "sw_clients s \<noteq> NULL \<or> srv_state ?t \<noteq> StSTOPPED"
    using that by (simp add: start)
  show "if srv_fb ?t = NULL \<or> srv_sock ?t < 0 \<or> \<not> tok
      then trfb_server_start tok s = Some (Done (-1) ?t)
      else case find (\<lambda>st. st \<noteq> StSTOPPED) (states_seen StSTOPPED (drop 1 (sw_others s))) of
          None \<Rightarrow> trfb_server_start tok s = None
        | Some st \<Rightarrow> \<exists>s'. trfb_server_start tok s = Some (Done (if st = StWORKING then 0 else -1) s') \<and>
            srv_state s' = st"
    if "sw_clients s = NULL \<and> srv_state ?t = StSTOPPED"
    using that start_loop_spec [OF ok2(1), of "Some ThrdCreated"] unfolding start by (auto split: option.splits)
  show "trfb_server_stop s = None" if "list_all quiet (drop 1 (sw_others s))"
    using that stop_loop_never [OF ok2(2), of StSTOP] by (simp add: stop)
  assume run: "sw_thread s \<noteq> None \<and> st \<noteq> StSTOP \<and> list_all quiet chs \<and>
       drop 1 (sw_others s) = chs @ [SetsState st, ServerExits] # rest"
  have "sw_thread ?t \<noteq> None"
    using run by (auto simp: others_def sw_thread_steps split: list.splits)
  then obtain s' where s': "stop_loop (?t\<lparr>srv_state := StSTOP\<rparr>) = Some (Done () s')" "srv_state s' = st"
    "sw_thread s' = Some ThrdExited" "srv_lock s' = MtxFree"
    using stop_loop_returns [OF ok2(2) [of StSTOP], of chs st rest] run by auto
  have "join_with (\<lambda>s. sw_thread s = Some ThrdExited) (sw_others s') s' = Some (Done () s')"
    using s'(3) by (cases "sw_others s'") simp_all
  then show "\<exists>s'. trfb_server_stop s = Some (Done 0 s') \<and> srv_state s' = st \<and> sw_thread s' = None"
    using s' by (simp add: stop)
qed

theorem server_start_stop_spec_witness:
  "trfb_server_stop (example_server [] [] [] [] [[], [Starts 1]]) = None"
  using server_start_stop_spec [of "example_server [] [] [] [] [[], [Starts 1]]"]
  by (simp add: world_ok_def quiet_def)

definition unbound :: "int \<times> bool \<Rightarrow> bool" where
  "unbound r \<longleftrightarrow> fst r < 0 \<or> \<not> snd r"

lemma unbound_simp [simp]: "unbound (sk, bound) \<longleftrightarrow> sk < 0 \<or> \<not> bound"
  by (simp add: unbound_def)

text \<open>
  \<^verbatim>\<open>trfb_server_bind\<close> binds the first address for which a socket can be had and bound, and closes
  the sockets it tried before; it sets the server's socket only while the server is stopped. It
  fails when no address is found or none can be bound.
\<close>

theorem server_bind_spec:
  assumes "world_ok s"
  shows "trfb_server_bind found s =
    (case found of
       None \<Rightarrow> Some (Done (-1, []) s)
     | Some addrs \<Rightarrow>
         let closed = filter (\<lambda>sk. 0 \<le> sk) (map fst (takeWhile unbound addrs)) in
         (case dropWhile unbound addrs of
            [] \<Rightarrow> Some (Done (-1, closed) s)
          | a # _ \<Rightarrow> if srv_state (others s) = StSTOPPED
              then Some (Done (0, closed) ((others s)\<lparr>srv_sock := fst a\<rparr>))
              else Some (Done (-1, closed) (others s))))"
proof -
  have free: "srv_lock (others s) = MtxFree" using others_ok [OF assms] by (simp add: world_ok_def)
  then have "(others s)\<lparr>srv_sock := x, srv_lock := MtxFree\<rparr> = (others s)\<lparr>srv_sock := x\<rparr>" for x
    by (cases "others s") simp
  with free have set_socket: "trfb_server_set_socket sk s = (if srv_state (others s) = StSTOPPED
      then Some (Done 0 ((others s)\<lparr>srv_sock := sk\<rparr>)) else Some (Done (-1) (others s)))" for sk
    by (simp add: trfb_server_set_socket_def lock_server_eq [OF assms] give_and_return_def srv_free_update)
  define fin :: "int list \<Rightarrow> (int \<times> bool) list \<Rightarrow> (server_world, int \<times> int list) outcome option"
    where "fin = (\<lambda>closed rest. case rest of [] \<Rightarrow> Some (Done (-1, closed) s)
      | a # _ \<Rightarrow> if srv_state (others s) = StSTOPPED
          then Some (Done (0, closed) ((others s)\<lparr>srv_sock := fst a\<rparr>)) else Some (Done (-1, closed) (others s)))"
  have fin_hit: "fin c (a # r) = andthen (trfb_server_set_socket (fst a) s) (\<lambda>r s. Some (Done (r, c) s))" for c a r
    by (simp add: fin_def set_socket)
  have loop: "bind_loop addrs closed s =
    fin (closed @ filter (\<lambda>sk. 0 \<le> sk) (map fst (takeWhile unbound addrs))) (dropWhile unbound addrs)"
    for addrs closed
  proof (induction addrs arbitrary: closed)
    case (Cons a addrs)
    obtain sk bound where a: "a = (sk, bound)" by (cases a)
    consider "sk < 0" | "0 \<le> sk" "bound" | "0 \<le> sk" "\<not> bound" by linarith
    then show ?case using Cons.IH by cases (simp_all add: a fin_hit)
  qed (simp add: fin_def)
  have "bind_loop addrs [] s = fin (filter (\<lambda>sk. 0 \<le> sk) (map fst (takeWhile unbound addrs))) (dropWhile unbound addrs)"
    for addrs
    using loop [of addrs "[]"] by simp
  then show ?thesis by (simp add: fin_def trfb_server_bind_def Let_def split: option.splits)
qed

theorem server_bind_spec_witness:
  "trfb_server_bind (Some [(-1, False), (4, False), (5, True), (6, True)]) (example_server [] [] [] [] []) =
    Some (Done (0, [4]) ((example_server [] [] [] [] [])\<lparr>srv_sock := 5\<rparr>))"
  using server_bind_spec [of "example_server [] [] [] [] []" "Some [(-1, False), (4, False), (5, True), (6, True)]"]
  by (simp add: world_ok_def others_def)

end
