(* ===== verification/Colorspace.thy ===== *)
theory Colorspace
  imports Prelude
begin

unbundle bit_operations_syntax

text \<open>
  Conversion between the colour spaces of a camera, \<^verbatim>\<open>src/libwebcam/colorspace.c\<close>. Images and
  buffers of colours are byte memory; an array of \<^verbatim>\<open>webcam_color_t\<close> or \<^verbatim>\<open>uint16_t\<close> is accessed in
  the byte order of the host. A pointer into an image is the rest of the image from there on.
\<close>

section \<open>Colours\<close>

datatype webcam_colorspace =
    WEBCAM_RGB32 | WEBCAM_RGB24 | WEBCAM_BGR24 | WEBCAM_RGB555 | WEBCAM_RGB565 | WEBCAM_RGB332
  | WEBCAM_BGR233 | WEBCAM_YUV | WEBCAM_YUV422 | WEBCAM_GRAY | WEBCAM_JPEG

definition webcam_color_r :: "u32 \<Rightarrow> u32" where "webcam_color_r c = drop_bit 16 c AND 0xff"
definition webcam_color_g :: "u32 \<Rightarrow> u32" where "webcam_color_g c = drop_bit 8 c AND 0xff"
definition webcam_color_b :: "u32 \<Rightarrow> u32" where "webcam_color_b c = c AND 0xff"

definition webcam_color_rgb :: "u32 \<Rightarrow> u32 \<Rightarrow> u32 \<Rightarrow> u32" where
  "webcam_color_rgb r g b = push_bit 16 r OR push_bit 8 g OR b"

text \<open>The number of pixels, and the arrays of bytes and of colours.\<close>

definition area :: "u32 \<Rightarrow> u32 \<Rightarrow> nat" where
  "area width height = unat (width * height)"

definition get1 :: "bytes \<Rightarrow> nat \<Rightarrow> u32 option" where "get1 C j = load False 1 C j"
definition put1 :: "bytes \<Rightarrow> nat \<Rightarrow> u32 \<Rightarrow> bytes option" where "put1 C j v = store False 1 C j v"

definition get_color :: "cenv \<Rightarrow> bytes \<Rightarrow> nat \<Rightarrow> u32 option" where
  "get_color e from i = load (host_be e) 4 from i"
definition put_color :: "cenv \<Rightarrow> bytes \<Rightarrow> nat \<Rightarrow> u32 \<Rightarrow> bytes option" where
  "put_color e out i c = store (host_be e) 4 out i c"

type_synonym convert_fn = "cenv \<Rightarrow> u32 \<Rightarrow> u32 \<Rightarrow> bytes \<Rightarrow> bytes \<Rightarrow> (nat \<times> bytes) option"

section \<open>RGB32\<close>

definition rgb32_sz :: "u32 \<Rightarrow> u32 \<Rightarrow> nat" where
  "rgb32_sz width height = area width height * 4"

definition rgb32_t :: convert_fn where
  "rgb32_t e width height from out = do {
     let l = area width height * 4;
     bs \<leftarrow> slice from 0 l;
     out \<leftarrow> blit out 0 bs;
     Some (l, out) }"

definition rgb32_f :: convert_fn where
  "rgb32_f e width height from out = do {
     let l = area width height * 4;
     bs \<leftarrow> slice from 0 l;
     out \<leftarrow> blit out 0 bs;
     Some (l, out) }"

section \<open>RGB24 and BGR24\<close>

definition rgb24_sz :: "u32 \<Rightarrow> u32 \<Rightarrow> nat" where
  "rgb24_sz width height = unat (width * height * 3)"

text \<open>The operands of the C operator \<^verbatim>\<open>||\<close>, evaluated from the left until one is not zero.\<close>

fun c_or :: "u32 option list \<Rightarrow> u32 option" where
  "c_or [] = Some 0"
| "c_or (x # xs) = (case x of None \<Rightarrow> None | Some v \<Rightarrow> if v \<noteq> 0 then Some 1 else c_or xs)"

definition rgb24_t :: convert_fn where
  "rgb24_t e width height from out = do {
     let l = area width height;
     out \<leftarrow> for_loop 1 0 l (\<lambda>i out. do {
       let j = i * 3;
       c \<leftarrow> c_or [map_option (push_bit 16) (get1 from j), map_option (push_bit 8) (get1 from (j + 1)),
              get1 from (j + 2)];
       put_color e out i c }) out;
     Some (l * 3, out) }"

definition rgb24_f :: convert_fn where
  "rgb24_f e width height from out = do {
     let l = area width height;
     out \<leftarrow> for_loop 1 0 l (\<lambda>i out. do {
       let j = i * 3;
       col \<leftarrow> get_color e from i;
       out \<leftarrow> put1 out j (drop_bit 16 col AND 0xff);
       out \<leftarrow> put1 out (j + 1) (drop_bit 8 col AND 0xff);
       put1 out (j + 2) (col AND 0xff) }) out;
     Some (l * 3, out) }"

definition bgr24_sz :: "u32 \<Rightarrow> u32 \<Rightarrow> nat" where
  "bgr24_sz width height = unat (width * height * 3)"

definition bgr24_t :: convert_fn where
  "bgr24_t e width height from out = do {
     let l = area width height;
     out \<leftarrow> for_loop 1 0 l (\<lambda>i out. do {
       let j = i * 3;
       c \<leftarrow> c_or [map_option (push_bit 16) (get1 from (j + 2)), map_option (push_bit 8) (get1 from (j + 1)),
              get1 from j];
       put_color e out i c }) out;
     Some (l * 3, out) }"

definition bgr24_f :: convert_fn where
  "bgr24_f e width height from out = do {
     let l = area width height;
     out \<leftarrow> for_loop 1 0 l (\<lambda>i out. do {
       let j = i * 3;
       col \<leftarrow> get_color e from i;
       out \<leftarrow> put1 out j (col AND 0xff);
       out \<leftarrow> put1 out (j + 1) (drop_bit 8 col AND 0xff);
       put1 out (j + 2) (drop_bit 16 col AND 0xff) }) out;
     Some (l * 3, out) }"

section \<open>RGB555 and RGB565\<close>

definition rgb555_in :: "u32 \<Rightarrow> u32" where
  "rgb555_in v = webcam_color_rgb (drop_bit 7 v AND 0xf8) (drop_bit 2 v AND 0xf8) (push_bit 3 v AND 0xf8)"

definition rgb555_out :: "u32 \<Rightarrow> u32" where
  "rgb555_out col = (drop_bit 9 col AND 0x7c00) OR (drop_bit 6 col AND 0x03e0) OR (drop_bit 3 col AND 0x1f)"

definition rgb555_sz :: "u32 \<Rightarrow> u32 \<Rightarrow> nat" where
  "rgb555_sz width height = unat (width * height * 2)"

definition rgb555_t :: convert_fn where
  "rgb555_t e width height from out = do {
     let l = area width height;
     out \<leftarrow> for_loop 1 0 l (\<lambda>i out. do {
       v \<leftarrow> load (host_be e) 2 from i;
       put_color e out i (rgb555_in v) }) out;
     Some (l * 2, out) }"

definition rgb555_f :: convert_fn where
  "rgb555_f e width height from out = do {
     let l = area width height;
     out \<leftarrow> for_loop 1 0 l (\<lambda>i out. do {
       col \<leftarrow> get_color e from i;
       store (host_be e) 2 out i (rgb555_out col) }) out;
     Some (l * 2, out) }"

definition rgb565_in :: "u32 \<Rightarrow> u32" where
  "rgb565_in v = webcam_color_rgb (drop_bit 8 v AND 0xf8) (drop_bit 3 v AND 0xf8) (push_bit 3 v AND 0xf8)"

definition rgb565_out :: "u32 \<Rightarrow> u32" where
  "rgb565_out col = (drop_bit 8 col AND 0xf800) OR (drop_bit 5 col AND 0x07e0) OR (drop_bit 3 col AND 0x1f)"

definition rgb565_sz :: "u32 \<Rightarrow> u32 \<Rightarrow> nat" where
  "rgb565_sz width height = unat (width * height * 2)"

definition rgb565_t :: convert_fn where
  "rgb565_t e width height from out = do {
     let l = area width height;
     out \<leftarrow> for_loop 1 0 l (\<lambda>i out. do {
       v \<leftarrow> load (host_be e) 2 from i;
       put_color e out i (rgb565_in v) }) out;
     Some (l * 2, out) }"

definition rgb565_f :: convert_fn where
  "rgb565_f e width height from out = do {
     let l = area width height;
     out \<leftarrow> for_loop 1 0 l (\<lambda>i out. do {
       col \<leftarrow> get_color e from i;
       store (host_be e) 2 out i (rgb565_out col) }) out;
     Some (l * 2, out) }"

section \<open>RGB332 and BGR233\<close>

definition rgb332_in :: "u32 \<Rightarrow> u32" where
  "rgb332_in v = webcam_color_rgb (v AND 0xe0) (push_bit 3 v AND 0xe0) (push_bit 6 v AND 0xc0)"

definition rgb332_out :: "u32 \<Rightarrow> u32" where
  "rgb332_out col = (drop_bit 16 col AND 0xe0) OR (drop_bit 11 col AND 0x1c) OR (drop_bit 6 col AND 0x03)"

definition rgb332_sz :: "u32 \<Rightarrow> u32 \<Rightarrow> nat" where
  "rgb332_sz width height = area width height"

definition rgb332_t :: convert_fn where
  "rgb332_t e width height from out = do {
     let l = area width height;
     out \<leftarrow> for_loop 1 0 l (\<lambda>i out. do {
       v \<leftarrow> get1 from i;
       put_color e out i (rgb332_in v) }) out;
     Some (l, out) }"

definition rgb332_f :: convert_fn where
  "rgb332_f e width height from out = do {
     let l = area width height;
     out \<leftarrow> for_loop 1 0 l (\<lambda>i out. do {
       col \<leftarrow> get_color e from i;
       put1 out i (rgb332_out col) }) out;
     Some (l, out) }"

definition bgr233_in :: "u32 \<Rightarrow> u32" where
  "bgr233_in v = webcam_color_rgb (push_bit 5 v AND 0xe0) (push_bit 2 v AND 0xe0) (v AND 0xc0)"

definition bgr233_out :: "u32 \<Rightarrow> u32" where
  "bgr233_out col = (drop_bit 21 col AND 0x07) OR (drop_bit 10 col AND 0x38) OR (col AND 0xc0)"

definition bgr233_sz :: "u32 \<Rightarrow> u32 \<Rightarrow> nat" where
  "bgr233_sz width height = area width height"

definition bgr233_t :: convert_fn where
  "bgr233_t e width height from out = do {
     let l = area width height;
     out \<leftarrow> for_loop 1 0 l (\<lambda>i out. do {
       v \<leftarrow> get1 from i;
       put_color e out i (bgr233_in v) }) out;
     Some (l, out) }"

definition bgr233_f :: convert_fn where
  "bgr233_f e width height from out = do {
     let l = area width height;
     out \<leftarrow> for_loop 1 0 l (\<lambda>i out. do {
       col \<leftarrow> get_color e from i;
       put1 out i (bgr233_out col) }) out;
     Some (l, out) }"

section \<open>YUV\<close>

definition col_y :: "u32 \<Rightarrow> u32" where
  "col_y c = (webcam_color_r c * 76 + webcam_color_g c * 150 + webcam_color_b c * 30) div 256"

definition col_u :: "u32 \<Rightarrow> u32" where
  "col_u c = (16384 + 112 * webcam_color_b c - 38 * webcam_color_r c - 74 * webcam_color_g c) div 256"

definition col_v :: "u32 \<Rightarrow> u32" where
  "col_v c = (16384 + 157 * webcam_color_r c - 132 * webcam_color_g c - 25 * webcam_color_b c) div 256"

definition yuv2rgb :: "u32 \<Rightarrow> u32 \<Rightarrow> u32 \<Rightarrow> u32" where
  "yuv2rgb y u v = webcam_color_rgb ((y * 256 + v * 292) div 256)
     ((256 * y - 101 * u - 149 * v) div 256) ((256 * y + 520 * u) div 256)"

definition yuv_sz :: "u32 \<Rightarrow> u32 \<Rightarrow> nat" where
  "yuv_sz width height = unat (width * height * 3)"

definition yuv_t :: convert_fn where
  "yuv_t e width height from out = do {
     let l = area width height;
     out \<leftarrow> for_loop 1 0 l (\<lambda>i out. do {
       let j = i * 3;
       y \<leftarrow> get1 from j;
       u \<leftarrow> get1 from (j + 1);
       v \<leftarrow> get1 from (j + 2);
       put_color e out i (yuv2rgb y u v) }) out;
     Some (l * 3, out) }"

definition yuv_f :: convert_fn where
  "yuv_f e width height from out = do {
     let l = area width height;
     out \<leftarrow> for_loop 1 0 l (\<lambda>i out. do {
       let j = i * 3;
       col \<leftarrow> get_color e from i;
       out \<leftarrow> put1 out j (col_y col);
       out \<leftarrow> put1 out (j + 1) (col_u col);
       put1 out (j + 2) (col_v col) }) out;
     Some (l * 3, out) }"

definition gray_sz :: "u32 \<Rightarrow> u32 \<Rightarrow> nat" where
  "gray_sz width height = area width height"

definition gray_t :: convert_fn where
  "gray_t e width height from out = do {
     let l = area width height;
     out \<leftarrow> for_loop 1 0 l (\<lambda>i out. do {
       y \<leftarrow> get1 from i;
       put_color e out i (yuv2rgb y 128 128) }) out;
     Some (l, out) }"

definition gray_f :: convert_fn where
  "gray_f e width height from out = do {
     let l = area width height;
     out \<leftarrow> for_loop 1 0 l (\<lambda>i out. do {
       col \<leftarrow> get_color e from i;
       put1 out i (col_y col) }) out;
     Some (l, out) }"

definition yuv422_sz :: "u32 \<Rightarrow> u32 \<Rightarrow> nat" where
  "yuv422_sz width height = unat (width * height * 2)"

definition yuv422_t :: convert_fn where
  "yuv422_t e width height from out = do {
     let l = area width height;
     out \<leftarrow> for_loop 2 0 l (\<lambda>i out. do {
       let j = i * 2;
       y \<leftarrow> get1 from j;
       u \<leftarrow> get1 from (j + 1);
       v \<leftarrow> get1 from (j + 3);
       out \<leftarrow> put_color e out i (yuv2rgb y u v);
       y \<leftarrow> get1 from (j + 2);
       put_color e out (i + 1) (yuv2rgb y u v) }) out;
     Some (l * 2, out) }"

text \<open>\<^verbatim>\<open>yuv422_f\<close> goes over twice as many pixels as there are, and increments \<^verbatim>\<open>j\<close> after its second use only.\<close>

definition yuv422_f :: convert_fn where
  "yuv422_f e width height from out = do {
     let l = unat (width * height * 2);
     out \<leftarrow> for_loop 2 0 l (\<lambda>i out. do {
       let j = i * 2;
       c0 \<leftarrow> get_color e from i;
       out \<leftarrow> put1 out j (col_y c0);
       out \<leftarrow> put1 out j (col_u c0);
       c1 \<leftarrow> get_color e from (i + 1);
       out \<leftarrow> put1 out (j + 1) (col_y c1);
       put1 out (j + 2) (col_v c0) }) out;
     Some (l * 2, out) }"

section \<open>The table of formats and the conversion\<close>

record cs =
  cs_id :: webcam_colorspace
  cs_by_line :: bool
  cs_get_size :: "u32 \<Rightarrow> u32 \<Rightarrow> nat"
  cs_to_rgb :: convert_fn
  cs_from_rgb :: convert_fn

definition formats :: "cs list" where
  "formats =
    [\<lparr>cs_id = WEBCAM_RGB32, cs_by_line = True, cs_get_size = rgb32_sz, cs_to_rgb = rgb32_t, cs_from_rgb = rgb32_f\<rparr>,
     \<lparr>cs_id = WEBCAM_RGB24, cs_by_line = True, cs_get_size = rgb24_sz, cs_to_rgb = rgb24_t, cs_from_rgb = rgb24_f\<rparr>,
     \<lparr>cs_id = WEBCAM_BGR24, cs_by_line = True, cs_get_size = bgr24_sz, cs_to_rgb = bgr24_t, cs_from_rgb = bgr24_f\<rparr>,
     \<lparr>cs_id = WEBCAM_RGB555, cs_by_line = True, cs_get_size = rgb555_sz, cs_to_rgb = rgb555_t, cs_from_rgb = rgb555_f\<rparr>,
     \<lparr>cs_id = WEBCAM_RGB565, cs_by_line = True, cs_get_size = rgb565_sz, cs_to_rgb = rgb565_t, cs_from_rgb = rgb565_f\<rparr>,
     \<lparr>cs_id = WEBCAM_RGB332, cs_by_line = True, cs_get_size = rgb332_sz, cs_to_rgb = rgb332_t, cs_from_rgb = rgb332_f\<rparr>,
     \<lparr>cs_id = WEBCAM_BGR233, cs_by_line = True, cs_get_size = bgr233_sz, cs_to_rgb = bgr233_t, cs_from_rgb = bgr233_f\<rparr>,
     \<lparr>cs_id = WEBCAM_YUV, cs_by_line = True, cs_get_size = yuv_sz, cs_to_rgb = yuv_t, cs_from_rgb = yuv_f\<rparr>,
     \<lparr>cs_id = WEBCAM_YUV422, cs_by_line = True, cs_get_size = yuv422_sz, cs_to_rgb = yuv422_t, cs_from_rgb = yuv422_f\<rparr>,
     \<lparr>cs_id = WEBCAM_GRAY, cs_by_line = True, cs_get_size = gray_sz, cs_to_rgb = gray_t, cs_from_rgb = gray_f\<rparr>]"

definition find_format :: "webcam_colorspace \<Rightarrow> cs option" where
  "find_format c = find (\<lambda>f. cs_id f = c) formats"

text \<open>Line by line: the offsets in both images, the buffer of one line, and the image written.\<close>

definition convert_lines :: "cenv \<Rightarrow> u32 \<Rightarrow> u32 \<Rightarrow> cs \<Rightarrow> bytes \<Rightarrow> cs \<Rightarrow> bytes \<Rightarrow> bytes \<Rightarrow> bytes option" where
  "convert_lines e width height f_cs from t_cs buffer to =
     map_option (\<lambda>(l_f, l_t, buffer, to). to)
       (for_loop 1 0 (unat height) (\<lambda>i (l_f, l_t, buffer, to). do {
          (n, buffer) \<leftarrow> cs_to_rgb f_cs e width 1 (drop l_f from) buffer;
          (m, rest) \<leftarrow> cs_from_rgb t_cs e width 1 buffer (drop l_t to);
          Some (l_f + n, l_t + m, buffer, take l_t to @ rest) }) (0, 0, buffer, to))"

text \<open>
  \<^verbatim>\<open>webcam_convert_image\<close>: the result with the memory of the new image and its size. The two shortcuts
  compare a pointer into the table with the constant \<^verbatim>\<open>WEBCAM_RGB32\<close>, which is 0, and are never taken.
\<close>

definition webcam_convert_image ::
  "cenv \<Rightarrow> u32 \<Rightarrow> u32 \<Rightarrow> webcam_colorspace \<Rightarrow> bytes \<Rightarrow> nat \<Rightarrow> webcam_colorspace \<Rightarrow> bytes ptr \<Rightarrow> nat \<Rightarrow>
   (int \<times> bytes ptr \<times> nat) option" where
  "webcam_convert_image e width height from_cs from from_size to_cs to_pixels to_size =
     (case (find_format from_cs, find_format to_cs) of
        (Some f_cs, Some t_cs) \<Rightarrow>
          if from_size < cs_get_size f_cs width height then Some (-1, to_pixels, to_size)
          else
            let sz = cs_get_size t_cs width height in
            (case to_pixels of
               NULL \<Rightarrow> Some (0, NULL, sz)
             | Ptr to \<Rightarrow>
                 if to_size < sz then Some (1, to_pixels, sz)
                 else if cs_by_line t_cs \<and> cs_by_line f_cs then
                   (case malloc e (unat width * 4) of
                      NULL \<Rightarrow> Some (-1, to_pixels, sz)
                    | Ptr buffer \<Rightarrow>
                        map_option (\<lambda>to. (0, Ptr to, sz)) (convert_lines e width height f_cs from t_cs buffer to))
                 else
                   (case malloc e (area width height * 4) of
                      NULL \<Rightarrow> Some (-1, to_pixels, sz)
                    | Ptr buffer \<Rightarrow> do {
                        (_, buffer) \<leftarrow> cs_to_rgb f_cs e width height from buffer;
                        (_, to) \<leftarrow> cs_from_rgb t_cs e width height buffer to;
                        Some (0, Ptr to, sz) }))
      | _ \<Rightarrow> Some (-1, to_pixels, to_size))"

end
