(* ===== verification/Colorspace_Props.thy ===== *)
theory Colorspace_Props
  imports Colorspace
begin

unbundle bit_operations_syntax

text \<open>
  What the conversions do: each format with a fixed number of bytes per pixel meets one interface, on
  which the conversion of an image line by line is proved equal to the conversion of its pixels.
\<close>

section \<open>Filling an array\<close>

lemma blit_bind: "Option.bind (blit m off xs) (\<lambda>m. blit m (off + length xs) ys) = blit m off (xs @ ys)"
  by (auto simp: blit_def ac_simps)

lemma fill_step:
  assumes "length m = n" "j * k + k \<le> n" "length xs = j * k" "m = xs @ ys" "length g = k"
  shows "blit m (j * k) g = Some ((xs @ g) @ drop k ys)"
  using assms by (auto simp: blit_def)

lemma concat_length: "(\<And>i. i < j \<Longrightarrow> length (g i) = k) \<Longrightarrow> length (concat (map g [0..<j])) = j * (k :: nat)"
  by (induction j) auto

lemma fill_loop:
  assumes body: "\<And>i m. i < l \<Longrightarrow> length m = length out \<Longrightarrow> body i m = blit m (i * k) (g i)"
    and len: "\<And>i. i < l \<Longrightarrow> length (g i) = k" and fits: "l * k \<le> length out"
  shows "for_loop 1 0 l body out = Some (concat (map g [0..<l]) @ drop (l * k) out)"
proof -
  have "\<exists>t. for_loop 1 0 l body out = Some t \<and> t = concat (map g [0..<l]) @ drop (l * k) out"
  proof (rule for_loop_unit_rule)
    fix j t assume t: "t = concat (map g [0..<j]) @ drop (j * k) out" and j: "j < l"
    have f: "j * k + k \<le> length out" using elem_fits [OF j, of k] fits by linarith
    have c: "length (concat (map g [0..<j])) = j * k" using len j by (intro concat_length) auto
    have tl: "length t = length out" using t c f by simp
    have "body j t = blit t (j * k) (g j)" by (rule body [OF j tl])
    also have "\<dots> = Some ((concat (map g [0..<j]) @ g j) @ drop k (drop (j * k) out))"
      using len [OF j] f c t tl by (intro fill_step) auto
    finally show "\<exists>t'. body j t = Some t' \<and> t' = concat (map g [0..<Suc j]) @ drop (Suc j * k) out"
      by (simp add: add.commute)
  qed simp_all
  then show ?thesis by blast
qed

section \<open>Pixels of an image\<close>

definition chunk :: "nat \<Rightarrow> nat \<Rightarrow> bytes \<Rightarrow> bytes" where
  "chunk k i m = take k (drop (i * k) m)"

definition color_bytes :: "cenv \<Rightarrow> u32 \<Rightarrow> bytes" where
  "color_bytes e c = host_order (host_be e) (le_bytes 4 c)"

definition color_at :: "cenv \<Rightarrow> bytes \<Rightarrow> nat \<Rightarrow> u32" where
  "color_at e m i = le_word (host_order (host_be e) (chunk 4 i m))"

lemma color_bytes_length [simp]: "length (color_bytes e c) = 4"
  by (simp add: color_bytes_def)

lemma load_chunk: "i * s + s \<le> length m \<Longrightarrow> load be s m i = Some (le_word (host_order be (chunk s i m)))"
  by (simp add: load_def slice_def chunk_def)

lemma get_color_at: "i < l \<Longrightarrow> l * 4 \<le> length m \<Longrightarrow> get_color e m i = Some (color_at e m i)"
  using elem_fits [of i l 4] by (simp add: get_color_def color_at_def load_chunk)

lemma put_color_blit: "put_color e out i c = blit out (i * 4) (color_bytes e c)"
  by (simp add: put_color_def store_def color_bytes_def)

lemma put1_blit: "put1 m j v = blit m j [ucast v]"
  by (simp add: put1_def store_def host_order_def)

lemma get1_nth: "j < length m \<Longrightarrow> get1 m j = Some (ucast (m ! j))"
  by (simp add: get1_def load_def slice_def take_Suc_conv_app_nth hd_drop_conv_nth host_order_def)

lemma chunk_nth: "i < l \<Longrightarrow> l * k \<le> length m \<Longrightarrow> n < k \<Longrightarrow> chunk k i m ! n = m ! (i * k + n)"
  using elem_fits [of i l k] by (simp add: chunk_def)

section \<open>The interface of a format with a fixed number of bytes per pixel\<close>

text \<open>
  What \<^verbatim>\<open>webcam_convert_image\<close> relies on: the size of an image is that of its pixels, and the two
  functions read and write the pixels one after the other, each on its own.
\<close>

locale pixel_format =
  fixes F :: cs and k :: nat and dec :: "bytes \<Rightarrow> cenv \<Rightarrow> u32" and enc :: "u32 \<Rightarrow> cenv \<Rightarrow> bytes"
  assumes by_line: "cs_by_line F"
    and k_pos: "0 < k"
    and enc_length: "length (enc c e) = k"
    and size: "area w h * k < 2 ^ 32 \<Longrightarrow> cs_get_size F w h = area w h * k"
    and to_rgb: "area w h * k \<le> length from \<Longrightarrow> area w h * 4 \<le> length out \<Longrightarrow>
      cs_to_rgb F e w h from out = Some (area w h * k,
        concat (map (\<lambda>i. color_bytes e (dec (chunk k i from) e)) [0..<area w h]) @ drop (area w h * 4) out)"
    and from_rgb: "area w h * 4 \<le> length from \<Longrightarrow> area w h * k \<le> length out \<Longrightarrow>
      cs_from_rgb F e w h from out = Some (area w h * k,
        concat (map (\<lambda>i. enc (color_at e from i) e) [0..<area w h]) @ drop (area w h * k) out)"

text \<open>Each format's functions are one loop, whose body handles one pixel.\<close>

lemma to_loop:
  assumes len: "l * k \<le> length from" "l * 4 \<le> length out"
    and px: "\<And>i out. i < l \<Longrightarrow> rd i out = put_color e out i (dec (chunk k i from) e)"
  shows "for_loop 1 0 l rd out =
    Some (concat (map (\<lambda>i. color_bytes e (dec (chunk k i from) e)) [0..<l]) @ drop (l * 4) out)"
  using px len(2) by (intro fill_loop) (simp_all add: put_color_blit)

lemma from_loop:
  assumes len: "l * 4 \<le> length from" "l * k \<le> length out" and enc: "\<And>c. length (enc c e) = k"
    and px: "\<And>i out. i < l \<Longrightarrow> wr i out = blit out (i * k) (enc (color_at e from i) e)"
  shows "for_loop 1 0 l wr out =
    Some (concat (map (\<lambda>i. enc (color_at e from i) e) [0..<l]) @ drop (l * k) out)"
  using px len(2) enc by (intro fill_loop) simp_all

lemma get3:
  assumes "i < l" "l * 3 \<le> length m"
  shows "get1 m (i * 3) = Some (ucast (chunk 3 i m ! 0))"
    "get1 m (i * 3 + 1) = Some (ucast (chunk 3 i m ! 1))"
    "get1 m (i * 3 + 2) = Some (ucast (chunk 3 i m ! 2))"
  using elem_fits [OF assms(1), of 3] assms by (simp_all add: get1_nth chunk_nth [OF assms])

lemma get_one: "i < l \<Longrightarrow> l * 1 \<le> length m \<Longrightarrow> get1 m i = Some (ucast (chunk 1 i m ! 0))"
  using chunk_nth [of i l 1 m 0] by (simp add: get1_nth)

lemma put3: "Option.bind (put1 m (i * 3) a) (\<lambda>m. Option.bind (put1 m (i * 3 + 1) b) (\<lambda>m. put1 m (i * 3 + 2) c)) =
    blit m (i * 3) [ucast a, ucast b, ucast c]"
proof -
  have "Option.bind (blit m (i * 3) [ucast a]) (\<lambda>m. blit m (i * 3 + 1) [ucast b, ucast c]) =
      blit m (i * 3) ([ucast a] @ [ucast b, ucast c])"
    using blit_bind [of m "i * 3" "[ucast a]" "[ucast b, ucast c]"] by simp
  moreover have "Option.bind (blit n (i * 3 + 1) [ucast b]) (\<lambda>m. blit m (i * 3 + 2) [ucast c]) =
      blit n (i * 3 + 1) ([ucast b] @ [ucast c])" for n :: bytes
    using blit_bind [of n "i * 3 + 1" "[ucast b]" "[ucast c]"] by simp
  ultimately show ?thesis by (simp add: put1_blit)
qed

lemma put_one: "put1 m i a = blit m (i * 1) [ucast a]"
  by (simp add: put1_blit)

lemma unat_area_times: "area w h * unat n < 2 ^ 32 \<Longrightarrow> unat (w * h * n) = area w h * unat n"
  by (simp add: area_def unat_word_ariths(2) [of "w * h"])

definition fmt :: "webcam_colorspace \<Rightarrow> cs" where
  "fmt c = the (find_format c)"

text \<open>The value of a pixel and the bytes of a colour, format by format.\<close>

definition truth :: "bytes \<Rightarrow> cenv \<Rightarrow> u32" where
  "truth bs e = (if bs ! 0 = 0 \<and> bs ! 1 = 0 \<and> bs ! 2 = 0 then 0 else 1)"

definition value16 :: "(u32 \<Rightarrow> u32) \<Rightarrow> bytes \<Rightarrow> cenv \<Rightarrow> u32" where
  "value16 f bs e = f (le_word (host_order (host_be e) bs))"

definition bytes16 :: "(u32 \<Rightarrow> u32) \<Rightarrow> u32 \<Rightarrow> cenv \<Rightarrow> bytes" where
  "bytes16 f c e = host_order (host_be e) (le_bytes 2 (f c))"

definition value8 :: "(u32 \<Rightarrow> u32) \<Rightarrow> bytes \<Rightarrow> cenv \<Rightarrow> u32" where
  "value8 f bs e = f (ucast (bs ! 0))"

definition bytes8 :: "(u32 \<Rightarrow> u32) \<Rightarrow> u32 \<Rightarrow> cenv \<Rightarrow> bytes" where
  "bytes8 f c e = [ucast (f c)]"

definition bytes24 :: "(u32 \<Rightarrow> u32) \<Rightarrow> (u32 \<Rightarrow> u32) \<Rightarrow> (u32 \<Rightarrow> u32) \<Rightarrow> u32 \<Rightarrow> cenv \<Rightarrow> bytes" where
  "bytes24 f g h c e = [ucast (f c), ucast (g c), ucast (h c)]"

lemma ucast_u8_zero: "push_bit 16 (ucast (b :: u8) :: u32) = 0 \<longleftrightarrow> b = 0"
  "push_bit 8 (ucast b :: u32) = 0 \<longleftrightarrow> b = 0" "(ucast b :: u32) = 0 \<longleftrightarrow> b = 0"
proof -
  have "push_bit n (ucast b :: u32) = 0 \<longleftrightarrow> b = 0" if "n \<le> 16" for n
  proof
    assume z: "push_bit n (ucast b :: u32) = 0"
    show "b = 0"
    proof (rule bit_eqI)
      fix i assume "possible_bit TYPE(8 word) i"
      then have "i < 8" by simp
      then have "bit b i = bit (push_bit n (ucast b :: u32)) (n + i)"
        using that by (simp add: bit_simps)
      then show "bit b i = bit (0 :: u8) i" by (simp add: z)
    qed
  qed simp
  from this [of 16] this [of 8] this [of 0]
  show "push_bit 16 (ucast b :: u32) = 0 \<longleftrightarrow> b = 0" "push_bit 8 (ucast b :: u32) = 0 \<longleftrightarrow> b = 0"
    "(ucast b :: u32) = 0 \<longleftrightarrow> b = 0" by simp_all
qed

lemmas format_defs = fmt_def find_format_def formats_def

lemma rgb32_chunk: "i < l \<Longrightarrow> l * 4 \<le> length m \<Longrightarrow> length (chunk 4 i m) = 4"
  using elem_fits [of i l 4] by (simp add: chunk_def)

lemma chunks_whole: "concat (map (\<lambda>i. chunk k i m) [0..<l]) = take (l * k) m"
proof (induction l)
  case (Suc l)
  then show ?case by (simp add: chunk_def take_add [symmetric] add.commute)
qed simp

lemma color_bytes_chunk: "length bs = 4 \<Longrightarrow> color_bytes e (le_word (host_order (host_be e) bs)) = bs"
  using le_bytes_le_word [of "host_order (host_be e) bs"] by (simp add: color_bytes_def)

interpretation rgb32: pixel_format "fmt WEBCAM_RGB32" 4 "value16 id" "\<lambda>c e. color_bytes e c"
proof unfold_locales
  fix w h e and "from" out :: bytes
  assume len: "area w h * 4 \<le> length from" "area w h * 4 \<le> length out"
  have "concat (map (\<lambda>i. color_bytes e (color_at e from i)) [0..<area w h]) = take (area w h * 4) from"
    using rgb32_chunk [OF _ len(1)]
    by (subst chunks_whole [symmetric])
      (auto simp: color_at_def color_bytes_chunk intro!: arg_cong [of _ _ concat] map_cong)
  then show "cs_to_rgb (fmt WEBCAM_RGB32) e w h from out = Some (area w h * 4,
        concat (map (\<lambda>i. color_bytes e (value16 id (chunk 4 i from) e)) [0..<area w h]) @ drop (area w h * 4) out)"
    "cs_from_rgb (fmt WEBCAM_RGB32) e w h from out = Some (area w h * 4,
        concat (map (\<lambda>i. color_bytes e (color_at e from i)) [0..<area w h]) @ drop (area w h * 4) out)"
    using len by (simp_all add: format_defs rgb32_t_def rgb32_f_def slice_def blit_def color_at_def value16_def Let_def)
qed (simp_all add: format_defs rgb32_sz_def)

lemma le_bytes_1: "le_bytes (Suc 0) v = [ucast v]" by simp

text \<open>The shapes of the loops: one byte, two bytes and three bytes for a pixel.\<close>

lemma to_loop8:
  assumes "l \<le> length from" "l * 4 \<le> length out"
  shows "for_loop 1 0 l (\<lambda>i out. Option.bind (get1 from i) (\<lambda>v. put_color e out i (f v))) out =
    Some (concat (map (\<lambda>i. color_bytes e (value8 f (chunk 1 i from) e)) [0..<l]) @ drop (l * 4) out)"
  using assms by (intro to_loop) (simp_all add: get_one value8_def)

lemma to_loop16:
  assumes "l * 2 \<le> length from" "l * 4 \<le> length out"
  shows "for_loop 1 0 l (\<lambda>i out. Option.bind (load (host_be e) 2 from i) (\<lambda>v. put_color e out i (f v))) out =
    Some (concat (map (\<lambda>i. color_bytes e (value16 f (chunk 2 i from) e)) [0..<l]) @ drop (l * 4) out)"
proof (rule to_loop [OF assms])
  fix i and out :: bytes assume "i < l"
  then have "i * 2 + 2 \<le> length from" using elem_fits [of i l 2] assms(1) by linarith
  then show "Option.bind (load (host_be e) 2 from i) (\<lambda>v. put_color e out i (f v)) =
      put_color e out i (value16 f (chunk 2 i from) e)"
    by (simp add: load_chunk value16_def)
qed

lemma from_loop8:
  assumes "l * 4 \<le> length from" "l \<le> length out"
  shows "for_loop 1 0 l (\<lambda>i out. Option.bind (get_color e from i) (\<lambda>c. put1 out i (f c))) out =
    Some (concat (map (\<lambda>i. bytes8 f (color_at e from i) e) [0..<l]) @ drop (l * 1) out)"
  using assms by (intro from_loop) (simp_all add: get_color_at put_one bytes8_def)

lemma from_loop16:
  assumes "l * 4 \<le> length from" "l * 2 \<le> length out"
  shows "for_loop 1 0 l (\<lambda>i out. Option.bind (get_color e from i) (\<lambda>c. store (host_be e) 2 out i (f c))) out =
    Some (concat (map (\<lambda>i. bytes16 f (color_at e from i) e) [0..<l]) @ drop (l * 2) out)"
  using assms by (intro from_loop) (simp_all add: get_color_at store_def bytes16_def)

lemma from_loop24:
  assumes "l * 4 \<le> length from" "l * 3 \<le> length out"
  shows "for_loop 1 0 l (\<lambda>i out. let j = i * 3 in Option.bind (get_color e from i) (\<lambda>c.
      Option.bind (put1 out j (f c)) (\<lambda>out. Option.bind (put1 out (j + 1) (g c)) (\<lambda>out. put1 out (j + 2) (h c))))) out =
    Some (concat (map (\<lambda>i. bytes24 f g h (color_at e from i) e) [0..<l]) @ drop (l * 3) out)"
  using assms by (intro from_loop) (simp_all add: get_color_at put3 [simplified] bytes24_def Let_def)

lemma area_sizes [simp]:
  "area w h * 2 < 4294967296 \<Longrightarrow> unat (w * h * 2) = area w h * 2"
  "area w h * 3 < 4294967296 \<Longrightarrow> unat (w * h * 3) = area w h * 3"
  using unat_area_times [of w h 2] unat_area_times [of w h 3] by simp_all

lemma bytes_lengths [simp]:
  "length (bytes8 f c e) = Suc 0" "length (bytes16 f c e) = 2" "length (bytes24 f g h c e) = 3"
  by (simp_all add: bytes8_def bytes16_def bytes24_def)

lemmas pixel_loops = to_loop8 [simplified] to_loop16 [simplified] from_loop8 [simplified]
  from_loop16 [simplified] from_loop24 [simplified]

interpretation rgb555: pixel_format "fmt WEBCAM_RGB555" 2 "value16 rgb555_in" "bytes16 rgb555_out"
  by unfold_locales
    (simp_all add: format_defs rgb555_sz_def rgb555_t_def rgb555_f_def pixel_loops Let_def)

interpretation rgb565: pixel_format "fmt WEBCAM_RGB565" 2 "value16 rgb565_in" "bytes16 rgb565_out"
  by unfold_locales
    (simp_all add: format_defs rgb565_sz_def rgb565_t_def rgb565_f_def pixel_loops Let_def)

interpretation rgb332: pixel_format "fmt WEBCAM_RGB332" 1 "value8 rgb332_in" "bytes8 rgb332_out"
  by unfold_locales
    (simp_all add: format_defs rgb332_sz_def rgb332_t_def rgb332_f_def pixel_loops Let_def)

interpretation bgr233: pixel_format "fmt WEBCAM_BGR233" 1 "value8 bgr233_in" "bytes8 bgr233_out"
  by unfold_locales
    (simp_all add: format_defs bgr233_sz_def bgr233_t_def bgr233_f_def pixel_loops Let_def)

interpretation gray: pixel_format "fmt WEBCAM_GRAY" 1 "value8 (\<lambda>y. yuv2rgb y 128 128)" "bytes8 col_y"
  by unfold_locales
    (simp_all add: format_defs gray_sz_def gray_t_def gray_f_def pixel_loops Let_def)

lemma c_or_truth:
  "c_or [map_option (push_bit 16) (Some (ucast (a :: u8))), map_option (push_bit 8) (Some (ucast (b :: u8))),
     Some (ucast (c :: u8))] = Some (if a = 0 \<and> b = 0 \<and> c = 0 then 0 else 1)"
  by (simp add: ucast_u8_zero)

interpretation rgb24: pixel_format "fmt WEBCAM_RGB24" 3 truth
  "bytes24 (\<lambda>c. drop_bit 16 c AND 0xff) (\<lambda>c. drop_bit 8 c AND 0xff) (\<lambda>c. c AND 0xff)"
proof unfold_locales
  fix w h e and "from" out :: bytes
  assume len: "area w h * 3 \<le> length from" "area w h * 4 \<le> length out"
  have "for_loop 1 0 (area w h) (\<lambda>i out. let j = i * 3 in Option.bind
      (c_or [map_option (push_bit 16) (get1 from j), map_option (push_bit 8) (get1 from (j + 1)), get1 from (j + 2)])
      (put_color e out i)) out =
    Some (concat (map (\<lambda>i. color_bytes e (truth (chunk 3 i from) e)) [0..<area w h]) @ drop (area w h * 4) out)"
    by (rule to_loop [OF len]) (simp only: Let_def get3 [OF _ len(1)] c_or_truth, simp add: truth_def)
  then show "cs_to_rgb (fmt WEBCAM_RGB24) e w h from out = Some (area w h * 3,
      concat (map (\<lambda>i. color_bytes e (truth (chunk 3 i from) e)) [0..<area w h]) @ drop (area w h * 4) out)"
    by (simp add: format_defs rgb24_t_def Let_def)
next
  fix w h e and "from" out :: bytes
  assume len: "area w h * 4 \<le> length from" "area w h * 3 \<le> length out"
  show "cs_from_rgb (fmt WEBCAM_RGB24) e w h from out = Some (area w h * 3, concat (map (\<lambda>i.
      bytes24 (\<lambda>c. drop_bit 16 c AND 0xff) (\<lambda>c. drop_bit 8 c AND 0xff) (\<lambda>c. c AND 0xff) (color_at e from i) e)
      [0..<area w h]) @ drop (area w h * 3) out)"
    using from_loop24 [OF len, of e "\<lambda>c. drop_bit 16 c AND 0xff" "\<lambda>c. drop_bit 8 c AND 0xff" "\<lambda>c. c AND 0xff"]
    by (simp add: format_defs rgb24_f_def Let_def)
qed (simp_all add: format_defs rgb24_sz_def)

interpretation bgr24: pixel_format "fmt WEBCAM_BGR24" 3 truth
  "bytes24 (\<lambda>c. c AND 0xff) (\<lambda>c. drop_bit 8 c AND 0xff) (\<lambda>c. drop_bit 16 c AND 0xff)"
proof unfold_locales
  fix w h e and "from" out :: bytes
  assume len: "area w h * 3 \<le> length from" "area w h * 4 \<le> length out"
  have "for_loop 1 0 (area w h) (\<lambda>i out. let j = i * 3 in Option.bind
      (c_or [map_option (push_bit 16) (get1 from (j + 2)), map_option (push_bit 8) (get1 from (j + 1)), get1 from j])
      (put_color e out i)) out =
    Some (concat (map (\<lambda>i. color_bytes e (truth (chunk 3 i from) e)) [0..<area w h]) @ drop (area w h * 4) out)"
    by (rule to_loop [OF len]) (simp only: Let_def get3 [OF _ len(1)] c_or_truth, simp add: truth_def conj_ac)
  then show "cs_to_rgb (fmt WEBCAM_BGR24) e w h from out = Some (area w h * 3,
      concat (map (\<lambda>i. color_bytes e (truth (chunk 3 i from) e)) [0..<area w h]) @ drop (area w h * 4) out)"
    by (simp add: format_defs bgr24_t_def Let_def)
next
  fix w h e and "from" out :: bytes
  assume len: "area w h * 4 \<le> length from" "area w h * 3 \<le> length out"
  show "cs_from_rgb (fmt WEBCAM_BGR24) e w h from out = Some (area w h * 3, concat (map (\<lambda>i.
      bytes24 (\<lambda>c. c AND 0xff) (\<lambda>c. drop_bit 8 c AND 0xff) (\<lambda>c. drop_bit 16 c AND 0xff) (color_at e from i) e)
      [0..<area w h]) @ drop (area w h * 3) out)"
    using from_loop24 [OF len, of e "\<lambda>c. c AND 0xff" "\<lambda>c. drop_bit 8 c AND 0xff" "\<lambda>c. drop_bit 16 c AND 0xff"]
    by (simp add: format_defs bgr24_f_def Let_def)
qed (simp_all add: format_defs bgr24_sz_def)

definition yuv_value :: "bytes \<Rightarrow> cenv \<Rightarrow> u32" where
  "yuv_value bs e = yuv2rgb (ucast (bs ! 0)) (ucast (bs ! 1)) (ucast (bs ! 2))"

interpretation yuv: pixel_format "fmt WEBCAM_YUV" 3 yuv_value "bytes24 col_y col_u col_v"
proof unfold_locales
  fix w h e and "from" out :: bytes
  assume len: "area w h * 3 \<le> length from" "area w h * 4 \<le> length out"
  have "for_loop 1 0 (area w h) (\<lambda>i out. let j = i * 3 in Option.bind (get1 from j) (\<lambda>y.
      Option.bind (get1 from (j + 1)) (\<lambda>u. Option.bind (get1 from (j + 2)) (\<lambda>v.
      put_color e out i (yuv2rgb y u v))))) out =
    Some (concat (map (\<lambda>i. color_bytes e (yuv_value (chunk 3 i from) e)) [0..<area w h]) @ drop (area w h * 4) out)"
    by (rule to_loop [OF len]) (simp only: Let_def get3 [OF _ len(1)] Option.bind.bind_lunit yuv_value_def)
  then show "cs_to_rgb (fmt WEBCAM_YUV) e w h from out = Some (area w h * 3,
      concat (map (\<lambda>i. color_bytes e (yuv_value (chunk 3 i from) e)) [0..<area w h]) @ drop (area w h * 4) out)"
    by (simp add: format_defs yuv_t_def Let_def)
next
  fix w h e and "from" out :: bytes
  assume len: "area w h * 4 \<le> length from" "area w h * 3 \<le> length out"
  show "cs_from_rgb (fmt WEBCAM_YUV) e w h from out = Some (area w h * 3, concat (map (\<lambda>i.
      bytes24 col_y col_u col_v (color_at e from i) e) [0..<area w h]) @ drop (area w h * 3) out)"
    using from_loop24 [OF len, of e col_y col_u col_v]
    by (simp add: format_defs yuv_f_def Let_def)
qed (simp_all add: format_defs yuv_sz_def)

section \<open>The conversion of an image\<close>

definition pixel_bytes :: "webcam_colorspace \<Rightarrow> nat" where
  "pixel_bytes c = (case c of WEBCAM_RGB32 \<Rightarrow> 4 | WEBCAM_RGB24 \<Rightarrow> 3 | WEBCAM_BGR24 \<Rightarrow> 3 | WEBCAM_RGB555 \<Rightarrow> 2
     | WEBCAM_RGB565 \<Rightarrow> 2 | WEBCAM_RGB332 \<Rightarrow> 1 | WEBCAM_BGR233 \<Rightarrow> 1 | WEBCAM_YUV \<Rightarrow> 3 | _ \<Rightarrow> 1)"

definition pixel_value :: "webcam_colorspace \<Rightarrow> bytes \<Rightarrow> cenv \<Rightarrow> u32" where
  "pixel_value c = (case c of WEBCAM_RGB32 \<Rightarrow> value16 id | WEBCAM_RGB24 \<Rightarrow> truth | WEBCAM_BGR24 \<Rightarrow> truth
     | WEBCAM_RGB555 \<Rightarrow> value16 rgb555_in | WEBCAM_RGB565 \<Rightarrow> value16 rgb565_in
     | WEBCAM_RGB332 \<Rightarrow> value8 rgb332_in | WEBCAM_BGR233 \<Rightarrow> value8 bgr233_in | WEBCAM_YUV \<Rightarrow> yuv_value
     | _ \<Rightarrow> value8 (\<lambda>y. yuv2rgb y 128 128))"

definition pixel_code :: "webcam_colorspace \<Rightarrow> u32 \<Rightarrow> cenv \<Rightarrow> bytes" where
  "pixel_code c = (case c of WEBCAM_RGB32 \<Rightarrow> (\<lambda>c e. color_bytes e c)
     | WEBCAM_RGB24 \<Rightarrow> bytes24 (\<lambda>c. drop_bit 16 c AND 0xff) (\<lambda>c. drop_bit 8 c AND 0xff) (\<lambda>c. c AND 0xff)
     | WEBCAM_BGR24 \<Rightarrow> bytes24 (\<lambda>c. c AND 0xff) (\<lambda>c. drop_bit 8 c AND 0xff) (\<lambda>c. drop_bit 16 c AND 0xff)
     | WEBCAM_RGB555 \<Rightarrow> bytes16 rgb555_out | WEBCAM_RGB565 \<Rightarrow> bytes16 rgb565_out
     | WEBCAM_RGB332 \<Rightarrow> bytes8 rgb332_out | WEBCAM_BGR233 \<Rightarrow> bytes8 bgr233_out
     | WEBCAM_YUV \<Rightarrow> bytes24 col_y col_u col_v | _ \<Rightarrow> bytes8 col_y)"

definition per_pixel :: "webcam_colorspace \<Rightarrow> bool" where
  "per_pixel c \<longleftrightarrow> c \<noteq> WEBCAM_YUV422 \<and> c \<noteq> WEBCAM_JPEG"

lemma per_pixel_format:
  "per_pixel c \<Longrightarrow> pixel_format (fmt c) (pixel_bytes c) (pixel_value c) (pixel_code c)"
  by (cases c) (simp_all add: per_pixel_def pixel_bytes_def pixel_value_def pixel_code_def
      rgb32.pixel_format_axioms rgb24.pixel_format_axioms bgr24.pixel_format_axioms
      rgb555.pixel_format_axioms rgb565.pixel_format_axioms rgb332.pixel_format_axioms [simplified]
      bgr233.pixel_format_axioms [simplified] yuv.pixel_format_axioms gray.pixel_format_axioms [simplified])

lemma per_pixel_found: "c \<noteq> WEBCAM_JPEG \<Longrightarrow> find_format c = Some (fmt c)"
  by (cases c) (simp_all add: format_defs)

lemma pixel_bytes_bound: "0 < pixel_bytes c" "pixel_bytes c \<le> 4"
  by (cases c; simp add: pixel_bytes_def)+

lemma color_at_buffer:
  assumes "i < l"
  shows "color_at e (concat (map (\<lambda>i. color_bytes e (c i)) [0..<l])) i = c i"
proof -
  have pre: "concat (map (\<lambda>i. color_bytes e (c i)) [0..<l]) =
      concat (map (\<lambda>i. color_bytes e (c i)) [0..<i]) @ color_bytes e (c i) @
      concat (map (\<lambda>i. color_bytes e (c i)) [Suc i..<l])"
    using assms upt_add_eq_append [of 0 i "l - i"] by (simp add: upt_conv_Cons)
  have "length (concat (map (\<lambda>i. color_bytes e (c i)) [0..<i])) = i * 4"
    by (intro concat_length) simp
  then have "chunk 4 i (concat (map (\<lambda>i. color_bytes e (c i)) [0..<l])) = color_bytes e (c i)"
    by (simp add: chunk_def pre)
  then show ?thesis
    by (simp add: color_at_def color_bytes_def le_word_le_bytes take_bit_word_eq_self)
qed

lemma chunk_drop: "chunk k i (drop (j * k) m) = chunk k (j + i) m"
  by (simp add: chunk_def add.commute add_mult_distrib)

lemma area_line [simp]: "area w 1 = unat w"
  by (simp add: area_def)

text \<open>Converting line by line gives the same image as converting pixel by pixel.\<close>

lemma convert_lines_ok:
  assumes F: "pixel_format F kf dec enc'" and T: "pixel_format T kt dec' enc"
    and len: "unat h * unat w * kf \<le> length from" "unat h * unat w * kt \<le> length to" "length buffer = unat w * 4"
  shows "convert_lines e w h F from T buffer to =
    Some (concat (map (\<lambda>i. enc (dec (chunk kf i from) e) e) [0..<unat h * unat w]) @ drop (unat h * unat w * kt) to)"
proof -
  let ?W = "unat w" and ?px = "\<lambda>i. enc (dec (chunk kf i from) e) e"
  let ?body = "\<lambda>i (l_f, l_t, buffer, to). do {
      (n, buffer) \<leftarrow> cs_to_rgb F e w 1 (drop l_f from) buffer;
      (m, rest) \<leftarrow> cs_from_rgb T e w 1 buffer (drop l_t to);
      Some (l_f + n, l_t + m, buffer, take l_t to @ rest) }"
  let ?inv = "\<lambda>j (l_f, l_t, b :: bytes, t). l_f = j * ?W * kf \<and> l_t = j * ?W * kt \<and> length b = ?W * 4 \<and>
      t = concat (map ?px [0..<j * ?W]) @ drop (j * ?W * kt) to"
  have "\<exists>s. for_loop 1 0 (unat h) ?body (0, 0, buffer, to) = Some s \<and> ?inv (unat h) s"
  proof (rule for_loop_unit_rule [where P = ?inv and f = ?body])
    fix j s assume inv: "?inv j s" and j: "j < unat h"
    obtain l_f l_t b t where s: "s = (l_f, l_t, b, t)" by (cases s)
    have l: "l_f = j * ?W * kf" "l_t = j * ?W * kt" "length b = ?W * 4"
      "t = concat (map ?px [0..<j * ?W]) @ drop (j * ?W * kt) to"
      using inv s by simp_all
    have jW: "j * ?W + ?W \<le> unat h * ?W" using elem_fits [OF j] .
    have fits: "j * ?W * kf + ?W * kf \<le> length from" "j * ?W * kt + ?W * kt \<le> length to"
      using mult_le_mono1 [OF jW, of kf] mult_le_mono1 [OF jW, of kt] len(1,2)
      by (simp_all add: add_mult_distrib)
    have pre: "length (concat (map ?px [0..<j * ?W])) = j * ?W * kt"
      by (intro concat_length) (rule pixel_format.enc_length [OF T])
    let ?b = "concat (map (\<lambda>i. color_bytes e (dec (chunk kf (j * ?W + i) from) e)) [0..<?W])"
    have bl: "length ?b = ?W * 4" by (intro concat_length) simp
    have read: "cs_to_rgb F e w 1 (drop l_f from) b = Some (?W * kf, ?b)"
      using pixel_format.to_rgb [OF F, of w 1 "drop l_f from" b e] fits l(3)
      by (simp add: l(1) chunk_drop)
    let ?r = "concat (map (\<lambda>i. ?px (j * ?W + i)) [0..<?W]) @ drop (?W * kt) (drop l_t t)"
    have tl: "drop l_t t = drop (j * ?W * kt) to" "take l_t t = concat (map ?px [0..<j * ?W])"
      using pre l(2,4) by simp_all
    have wrote: "cs_from_rgb T e w 1 ?b (drop l_t t) = Some (?W * kt, ?r)"
    proof -
      have "cs_from_rgb T e w 1 ?b (drop l_t t) = Some (?W * kt,
          concat (map (\<lambda>i. enc (color_at e ?b i) e) [0..<?W]) @ drop (?W * kt) (drop l_t t))"
        using pixel_format.from_rgb [OF T, of w 1 ?b "drop l_t t" e] fits bl tl(1) by simp
      moreover have "map (\<lambda>i. enc (color_at e ?b i) e) [0..<?W] = map (\<lambda>i. ?px (j * ?W + i)) [0..<?W]"
        using color_at_buffer [of _ ?W e "\<lambda>i. dec (chunk kf (j * ?W + i) from) e"] by simp
      ultimately show ?thesis by simp
    qed
    have cat: "map ?px [0..<j * ?W] @ map (\<lambda>i. ?px (j * ?W + i)) [0..<?W] = map ?px [0..<Suc j * ?W]"
    proof -
      have "map (\<lambda>i. ?px (j * ?W + i)) [0..<?W] = map ?px (map (\<lambda>i. i + j * ?W) [0..<?W])"
        by (simp add: comp_def add.commute)
      also have "\<dots> = map ?px [j * ?W..<Suc j * ?W]"
        by (simp only: map_add_upt) (simp add: add.commute)
      finally show ?thesis
        using upt_add_eq_append [of 0 "j * ?W" ?W] by (simp add: add.commute)
    qed
    have "take l_t t @ ?r = concat (map ?px [0..<Suc j * ?W]) @ drop (Suc j * ?W * kt) to"
      using tl by (simp add: cat [symmetric] add_mult_distrib del: mult_Suc) (simp add: add_mult_distrib)
    then show "\<exists>s'. ?body j s = Some s' \<and> ?inv (Suc j) s'"
      using read wrote bl by (simp add: s l(1,2) add_mult_distrib)
  qed (use len(3) in simp_all)
  then show ?thesis
    by (auto simp: convert_lines_def)
qed

section \<open>Properties\<close>

text \<open>
  C25. \<^verbatim>\<open>webcam_convert_image\<close> between any two formats other than YUV422 and JPEG, for an image of
  fewer than 2^30 pixels (four bytes of each stay below 2^32, else the sizes wrap) and lengths that
  the two buffers have: it refuses a source that is too short, reports the size it needs when the
  target is too small, gives -1 when the buffer for a line cannot be had, and otherwise writes
  exactly the image of the pixels, each one read in the format of the source and written in that of
  the target, whatever the buffer between them held; the bytes after the image are left alone.
\<close>

theorem image_convert_spec:
  assumes "per_pixel c" and "per_pixel c'" and "unat w * unat h * 4 < 2 ^ 32"
    and "n \<le> length from" and "m \<le> length to"
  shows "webcam_convert_image e w h c from n c' (Ptr to) m =
    (let l = unat w * unat h; sz = l * pixel_bytes c' in
     if n < l * pixel_bytes c then Some (-1, Ptr to, m)
     else if m < sz then Some (1, Ptr to, sz)
     else if \<not> alloc_ok e (unat w * 4) then Some (-1, Ptr to, sz)
     else Some (0, Ptr (concat (map (\<lambda>i. pixel_code c' (pixel_value c (chunk (pixel_bytes c) i from) e) e) [0..<l]) @
       drop sz to), sz))"
proof -
  let ?l = "unat w * unat h" and ?k = "pixel_bytes c" and ?k' = "pixel_bytes c'"
  note F = per_pixel_format [OF assms(1)] and T = per_pixel_format [OF assms(2)]
  have found: "find_format c = Some (fmt c)" "find_format c' = Some (fmt c')"
    using assms(1,2) per_pixel_found by (auto simp: per_pixel_def)
  have area: "area w h = ?l" using assms(3) by (simp add: area_def unat_word_ariths mult.commute)
  have fits: "?l * j < 2 ^ 32" if "j \<le> 4" for j
    using mult_le_mono2 [OF that, of ?l] assms(3) by linarith
  have sizes: "cs_get_size (fmt c) w h = ?l * ?k" "cs_get_size (fmt c') w h = ?l * ?k'"
    using pixel_format.size [OF F, of w h] pixel_format.size [OF T, of w h]
      fits [OF pixel_bytes_bound(2) [of c]] fits [OF pixel_bytes_bound(2) [of c']] by (simp_all add: area)
  have lines: "convert_lines e w h (fmt c) from (fmt c') (map (junk e) [0..<unat w * 4]) to =
      Some (concat (map (\<lambda>i. pixel_code c' (pixel_value c (chunk ?k i from) e) e) [0..<?l]) @ drop (?l * ?k') to)"
    if "?l * ?k \<le> n" "?l * ?k' \<le> m"
    using convert_lines_ok [OF F T, of h w "from" to "map (junk e) [0..<unat w * 4]" e] that assms(4,5)
    by (simp add: mult.commute [of "unat h"])
  have by_lines: "cs_by_line (fmt c)" "cs_by_line (fmt c')"
    using pixel_format.by_line [OF F] pixel_format.by_line [OF T] .
  show ?thesis
    by (simp add: webcam_convert_image_def found sizes Let_def malloc_def by_lines lines)
qed

theorem image_convert_spec_witness:
  "webcam_convert_image easy_env 1 1 WEBCAM_RGB565 [0x1f, 0xf8] 2 WEBCAM_BGR24 (Ptr [0, 0, 0, 9]) 4 =
    Some (0, Ptr [0xf8, 0, 0xf8, 9], 3)"
proof -
  have "pixel_code WEBCAM_BGR24 (pixel_value WEBCAM_RGB565 [0x1f, 0xf8] easy_env) easy_env = [0xf8, 0, 0xf8]"
    by (simp add: pixel_code_def pixel_value_def value16_def host_order_def rgb565_in_def webcam_color_rgb_def
        bytes24_def)
  then show ?thesis
    using image_convert_spec [of WEBCAM_RGB565 WEBCAM_BGR24 1 1 2 "[0x1f, 0xf8]" 4 "[0, 0, 0, 9]" easy_env]
    by (simp add: per_pixel_def pixel_bytes_def chunk_def)
qed

text \<open>
  C26. The packed formats keep the leading bits of each component: a colour written and read back
  has exactly those, and a pixel read and written back is the same pixel, except that RGB565 loses
  the lowest of its six bits of green. The grey of equal components is that component.
\<close>

theorem packed_formats_roundtrip:
  "rgb555_in (rgb555_out c) = c AND 0xf8f8f8 \<and> rgb555_out (rgb555_in p) = p AND 0x7fff \<and>
   rgb565_in (rgb565_out c) = c AND 0xf8f8f8 \<and> rgb565_out (rgb565_in p) = p AND 0xffdf \<and>
   rgb332_in (rgb332_out c) = c AND 0xe0e0c0 \<and> rgb332_out (rgb332_in p) = p AND 0xff \<and>
   bgr233_in (bgr233_out c) = c AND 0xe0e0c0 \<and> bgr233_out (bgr233_in p) = p AND 0xff \<and>
   col_y (webcam_color_rgb (g AND 0xff) (g AND 0xff) (g AND 0xff)) = g AND 0xff"
proof (intro conjI)
  note packed = webcam_color_rgb_def bit_simps rgb555_in_def rgb555_out_def rgb565_in_def rgb565_out_def
    rgb332_in_def rgb332_out_def bgr233_in_def bgr233_out_def
  show "rgb555_in (rgb555_out c) = c AND 0xf8f8f8" by (rule u32_bits_eqI) (simp add: packed)
  show "rgb555_out (rgb555_in p) = p AND 0x7fff" by (rule u32_bits_eqI) (simp add: packed)
  show "rgb565_in (rgb565_out c) = c AND 0xf8f8f8" by (rule u32_bits_eqI) (simp add: packed)
  show "rgb565_out (rgb565_in p) = p AND 0xffdf" by (rule u32_bits_eqI) (simp add: packed)
  show "rgb332_in (rgb332_out c) = c AND 0xe0e0c0" by (rule u32_bits_eqI) (simp add: packed)
  show "rgb332_out (rgb332_in p) = p AND 0xff" by (rule u32_bits_eqI) (simp add: packed)
  show "bgr233_in (bgr233_out c) = c AND 0xe0e0c0" by (rule u32_bits_eqI) (simp add: packed)
  show "bgr233_out (bgr233_in p) = p AND 0xff" by (rule u32_bits_eqI) (simp add: packed)
  let ?g = "g AND 0xff" and ?c = "webcam_color_rgb (g AND 0xff) (g AND 0xff) (g AND 0xff)"
  have parts: "webcam_color_r ?c = ?g" "webcam_color_g ?c = ?g" "webcam_color_b ?c = ?g"
    by (rule u32_bits_eqI, simp add: webcam_color_rgb_def webcam_color_r_def webcam_color_g_def
        webcam_color_b_def bit_simps)+
  have "?g * 76 + ?g * 150 + ?g * 30 = push_bit 8 ?g"
    by (simp add: push_bit_eq_mult)
  moreover have "push_bit 8 ?g div 256 = drop_bit 8 (push_bit 8 ?g)"
    by (simp only: drop_bit_eq_div) simp
  moreover have "drop_bit 8 (push_bit 8 ?g) = ?g"
    by (rule u32_bits_eqI) (simp add: bit_simps)
  ultimately show "col_y ?c = ?g"
    by (simp only: col_y_def parts)
qed

lemma yuv422_loop:
  assumes "length from = W * 4" "i < 2 * W"
  shows "for_loop 2 i (2 * W) (\<lambda>i out. do {
       let j = i * 2;
       c0 \<leftarrow> get_color e from i;
       out \<leftarrow> put1 out j (col_y c0);
       out \<leftarrow> put1 out j (col_u c0);
       c1 \<leftarrow> get_color e from (i + 1);
       out \<leftarrow> put1 out (j + 1) (col_y c1);
       put1 out (j + 2) (col_v c0) }) out = None"
  (is "for_loop 2 i (2 * W) ?body out = None")
  using assms(2)
proof (induction "2 * W - i" arbitrary: i out rule: less_induct)
  case less
  have past: "W \<le> j \<Longrightarrow> get_color e from j = None" for j
    using assms(1) by (simp add: get_color_def load_def slice_def)
  show ?case
  proof (cases "W \<le> i + 1")
    case True
    then have "?body i out = None"
      using past [OF True] by (simp add: Let_def split: bind_splits)
    with less.prems show ?thesis by (simp add: for_loop_step)
  next
    case False
    then have "i + 2 < 2 * W" by simp
    then have "for_loop 2 (i + 2) (2 * W) ?body t = None" for t
      using less.prems by (intro less.hyps) auto
    with less.prems show ?thesis by (simp add: for_loop_step split: bind_splits)
  qed
qed

text \<open>
  No image can be converted to YUV422: the writing function goes over twice the pixels of its
  line and reads past the end of the line's buffer, so the conversion of every image that is not
  empty is undefined, whatever the format of the source.
\<close>

theorem yuv422_overreads:
  assumes "per_pixel c" and "0 < w" and "0 < h" and "unat w * unat h * 4 < 2 ^ 32"
    and "unat w * unat h * pixel_bytes c \<le> n" and "n \<le> length from"
    and "unat w * unat h * 2 \<le> m" and "m \<le> length to" and "alloc_ok e (unat w * 4)"
  shows "webcam_convert_image e w h c from n WEBCAM_YUV422 (Ptr to) m = None"
proof -
  let ?l = "unat w * unat h" and ?k = "pixel_bytes c"
  note F = per_pixel_format [OF assms(1)]
  have found: "find_format c = Some (fmt c)" "find_format WEBCAM_YUV422 = Some (fmt WEBCAM_YUV422)"
    using assms(1) per_pixel_found by (auto simp: per_pixel_def)
  have area: "area w h = ?l" using assms(4) by (simp add: area_def unat_word_ariths mult.commute)
  have l: "?l * ?k < 2 ^ 32" "?l * 2 < 2 ^ 32"
    using mult_le_mono2 [OF pixel_bytes_bound(2) [of c], of ?l] assms(4) by linarith+
  have size: "cs_get_size (fmt c) w h = ?l * ?k"
    using pixel_format.size [OF F, of w h] l(1) by (simp add: area)
  have size': "cs_get_size (fmt WEBCAM_YUV422) w h = ?l * 2"
    using l(2) by (simp add: format_defs yuv422_sz_def area)
  have h: "0 < unat h" using assms(3) by (simp add: unat_gt_0 word_gt_0)
  have W: "unat w \<le> ?l" using h by simp
  have "unat w * 2 < 2 ^ 32" using l(2) W by linarith
  then have w2: "unat (w * 1 * 2) = 2 * unat w"
    by (simp add: unat_word_ariths)
  have "unat w * ?k \<le> length from" using mult_le_mono1 [OF W, of ?k] assms(5,6) by linarith
  then obtain b n' where read: "cs_to_rgb (fmt c) e w 1 from (map (junk e) [0..<unat w * 4]) = Some (n', b)"
    and b: "length b = unat w * 4"
    using pixel_format.to_rgb [OF F, of w 1 "from" "map (junk e) [0..<unat w * 4]" e]
    by (auto simp: concat_length)
  have "0 < unat w" using assms(2) by (simp add: unat_gt_0 word_gt_0)
  then have "cs_from_rgb (fmt WEBCAM_YUV422) e w 1 b t = None" for t
    using yuv422_loop [OF b, of 0 e t] w2 by (simp add: format_defs yuv422_f_def Let_def)
  then have "convert_lines e w h (fmt c) from (fmt WEBCAM_YUV422) (map (junk e) [0..<unat w * 4]) to = None"
    using h read by (simp add: convert_lines_def for_loop_step)
  moreover have "cs_by_line (fmt WEBCAM_YUV422)" by (simp add: format_defs)
  ultimately show ?thesis
    using assms(5,7,9) pixel_format.by_line [OF F]
    by (simp add: webcam_convert_image_def found size size' Let_def malloc_def)
qed

theorem yuv422_overreads_witness:
  "webcam_convert_image easy_env 2 1 WEBCAM_GRAY [1, 2] 2 WEBCAM_YUV422 (Ptr [0, 0, 0, 0]) 4 = None"
  using yuv422_overreads [of WEBCAM_GRAY 2 1 2 "[1, 2]" 4 "[0, 0, 0, 0]" easy_env]
  by (simp add: per_pixel_def pixel_bytes_def)

end
