(* ===== verification/V4l2.thy ===== *)
theory V4l2
  imports Colorspace
begin

unbundle bit_operations_syntax

text \<open>
  Cameras: \<^verbatim>\<open>src/libwebcam/v4l2.c\<close>, and the loading of the device library in
  \<^verbatim>\<open>src/libwebcam/libv4l2.c\<close>. What the device answers to each kind of system call is a script; a
  call whose script has ended waits for ever. Images are byte memory.
\<close>

section \<open>The device library\<close>

text \<open>
  Where a function comes from: the library or the program. \<open>dl_loads\<close> counts the handles that
  \<^verbatim>\<open>dlopen\<close> has given; \<^verbatim>\<open>init\<close> tests \<^verbatim>\<open>initialized\<close> but never sets it.
\<close>

datatype fn_source = FromLibrary string | OwnFunction string

record dynload =
  dl_initialized :: bool
  dl_table :: "string \<Rightarrow> fn_source ptr"
  dl_loads :: nat

definition names :: "string list" where
  "names = [''libv4l2.so'', ''libv4l2.so.0'', ''/usr/lib/libv4l2.so'', ''/usr/lib/libv4l2.so.0'',
     ''/usr/lib/libv4l/libv4l2.so'', ''/usr/lib/libv4l/libv4l2.so.0'']"

definition init :: "(string \<Rightarrow> bool) \<Rightarrow> (string \<Rightarrow> string \<Rightarrow> bool) \<Rightarrow> dynload \<Rightarrow> dynload" where
  "init dlopen dlsym d =
     (if dl_initialized d then d
      else
        let dll = find dlopen names in
        d\<lparr>dl_loads := dl_loads d + (if dll = None then 0 else 1),
          dl_table := (\<lambda>nm.
            if nm \<in> {''open'', ''close'', ''ioctl'', ''read'', ''mmap'', ''munmap'', ''get_control'', ''set_control''}
            then Ptr (case dll of
                Some lib \<Rightarrow> if dlsym lib (''v4l2_'' @ nm) then FromLibrary (''v4l2_'' @ nm) else OwnFunction nm
              | None \<Rightarrow> OwnFunction nm)
            else dl_table d nm)\<rparr>)"

text \<open>Every wrapper, \<^verbatim>\<open>v4l2_open\<close> and the others, initialises the table and calls through it.\<close>

definition v4l2_call :: "(string \<Rightarrow> bool) \<Rightarrow> (string \<Rightarrow> string \<Rightarrow> bool) \<Rightarrow> string \<Rightarrow> dynload \<Rightarrow> fn_source ptr \<times> dynload"
  where
  "v4l2_call dlopen dlsym nm d = (let d = init dlopen dlsym d in (dl_table d nm, d))"

section \<open>Data\<close>

datatype io_method = IO_METHOD_MMAP | IO_METHOD_USER | IO_METHOD_READ

record buffer =
  buf_start :: bytes
  buf_len :: nat

record priv =
  priv_io :: io_method
  priv_buffers :: "buffer list ptr"
  priv_count :: nat
  priv_buf :: "bytes ptr"
  priv_img_len :: nat
  priv_linebytes :: nat

record webcam =
  cam_priv :: "priv ptr"
  cam_width :: u32
  cam_height :: u32
  cam_image :: "bytes ptr"

text \<open>The answers of the device: capabilities, the image format it settles on, and the rest.\<close>

record caps =
  cap_capture :: bool
  cap_streaming :: bool
  cap_readwrite :: bool
  cap_bus :: bytes
  cap_driver :: bytes
  cap_card :: bytes

record pix_format =
  pix_width :: u32
  pix_height :: u32
  pix_bytesperline :: u32
  pix_sizeimage :: u32

record device =
  dev_open :: "bool list"
  dev_querycap :: "(errno + caps) list"
  dev_cropcap :: "(errno + unit) list"
  dev_s_crop :: "(errno + unit) list"
  dev_enum_fmt :: "(errno + unit) list"
  dev_s_fmt :: "(errno + pix_format) list"
  dev_reqbufs :: "(errno + nat) list"
  dev_querybuf :: "(errno + nat) list"
  dev_mmap :: "bytes ptr list"
  dev_qbuf :: "(errno + unit) list"
  dev_dqbuf :: "(errno + nat) list"
  dev_streamon :: "(errno + unit) list"
  dev_streamoff :: "(errno + unit) list"
  dev_select :: "(errno + bool) list"
  dev_read :: "(errno + bytes) list"
  dev_closes :: nat
  dev_munmaps :: nat

record cam_world =
  cw_cam :: webcam
  cw_dev :: device

type_synonym 'a cam_act = "cam_world \<Rightarrow> (cam_world, 'a) outcome option"

section \<open>Calls of the device\<close>

text \<open>The macro \<^verbatim>\<open>REINTR\<close>: the call is made again while it is interrupted.\<close>

fun REINTR :: "(errno + 'a) list \<Rightarrow> ((errno + 'a) \<times> (errno + 'a) list) option" where
  "REINTR [] = None"
| "REINTR (Inr a # rs) = Some (Inr a, rs)"
| "REINTR (Inl e # rs) = (if e = EINTR \<or> e = EAGAIN then REINTR rs else Some (Inl e, rs))"

definition on_dev :: "(device \<Rightarrow> device) \<Rightarrow> cam_world \<Rightarrow> cam_world" where
  "on_dev f s = s\<lparr>cw_dev := f (cw_dev s)\<rparr>"

definition on_cam :: "(webcam \<Rightarrow> webcam) \<Rightarrow> cam_world \<Rightarrow> cam_world" where
  "on_cam f s = s\<lparr>cw_cam := f (cw_cam s)\<rparr>"

definition on_priv :: "(priv \<Rightarrow> priv) \<Rightarrow> cam_world \<Rightarrow> cam_world" where
  "on_priv f = on_cam (\<lambda>c. c\<lparr>cam_priv := map_ptr f (cam_priv c)\<rparr>)"

definition ask :: "(device \<Rightarrow> (errno + 'a) list) \<Rightarrow> (((errno + 'a) list \<Rightarrow> (errno + 'a) list) \<Rightarrow> device \<Rightarrow> device) \<Rightarrow>
    (errno + 'a) cam_act" where
  "ask get upd s =
     (case REINTR (get (cw_dev s)) of
        None \<Rightarrow> None
      | Some (r, rs) \<Rightarrow> Some (Done r (on_dev (upd (\<lambda>_. rs)) s)))"

text \<open>\<^verbatim>\<open>v4l2_open\<close> and \<^verbatim>\<open>v4l2_mmap\<close> are called once and may fail.\<close>

definition ask_open :: "bool cam_act" where
  "ask_open s = (case dev_open (cw_dev s) of [] \<Rightarrow> None | r # rs \<Rightarrow> Some (Done r (on_dev (dev_open_update (\<lambda>_. rs)) s)))"

definition ask_mmap :: "bytes ptr cam_act" where
  "ask_mmap s = (case dev_mmap (cw_dev s) of [] \<Rightarrow> None | r # rs \<Rightarrow> Some (Done r (on_dev (dev_mmap_update (\<lambda>_. rs)) s)))"

definition priv_of :: "cam_world \<Rightarrow> priv" where
  "priv_of s = deref (cam_priv (cw_cam s))"

section \<open>Listing and naming cameras\<close>

text \<open>\<open>is_cam i\<close>: \<^verbatim>\<open>/dev/video\<open>i\<close>\<close> exists and is a character device.\<close>

fun list_loop :: "(nat \<Rightarrow> bool) \<Rightarrow> nat list \<Rightarrow> nat list ptr \<Rightarrow> nat \<Rightarrow> nat \<Rightarrow> (int \<times> nat list ptr \<times> nat) option" where
  "list_loop is_cam [] ids len cnt = Some (0, ids, cnt)"
| "list_loop is_cam (i # is) ids len cnt =
     (if is_cam i then
        (case ids of
           NULL \<Rightarrow> list_loop is_cam is ids len (cnt + 1)
         | Ptr mem \<Rightarrow>
             if len \<le> cnt then Some (-1, ids, len)
             else if length mem \<le> cnt then None
             else list_loop is_cam is (Ptr (mem[cnt := i])) len (cnt + 1))
      else list_loop is_cam is ids len cnt)"

definition webcam_list :: "(nat \<Rightarrow> bool) \<Rightarrow> nat list ptr \<Rightarrow> nat ptr \<Rightarrow> (int \<times> nat list ptr \<times> nat ptr) option" where
  "webcam_list is_cam ids count =
     (case count of
        NULL \<Rightarrow> Some (-1, ids, NULL)
      | Ptr len \<Rightarrow> map_option (\<lambda>(r, ids, cnt). (r, ids, Ptr cnt)) (list_loop is_cam [0..<64] ids len 0))"

definition dev_name :: "nat \<Rightarrow> bytes" where
  "dev_name i = str_bytes ''/dev/video'' @
     (if i < 10 then [of_nat (48 + i)] else [of_nat (48 + i div 10), of_nat (48 + i mod 10)])"

definition cam_info :: "caps \<Rightarrow> bytes \<Rightarrow> bytes" where
  "cam_info cap namebuf =
     take 511 (cap_bus cap @ str_bytes '' ['' @ cap_driver cap @ str_bytes ''] '' @ namebuf @ str_bytes '': '' @ cap_card cap)"

definition webcam_name :: "int \<Rightarrow> bytes ptr cam_act" where
  "webcam_name i s =
     (if i < 0 \<or> 64 \<le> i then Some (Done NULL s)
      else
        andthen (ask_open s) (\<lambda>ok s.
          if \<not> ok then Some (Done NULL s)
          else
            andthen (ask dev_querycap dev_querycap_update s) (\<lambda>r s.
              let s = on_dev (dev_closes_update Suc) s in
              (case r of
                 Inl _ \<Rightarrow> Some (Done NULL s)
               | Inr cap \<Rightarrow> Some (Done (Ptr (cam_info cap (dev_name (nat i)))) s)))))"

section \<open>Opening a camera\<close>

definition init_read :: "cenv \<Rightarrow> int cam_act" where
  "init_read e s =
     (let s = on_priv (\<lambda>p. p\<lparr>priv_count := 0, priv_buffers := NULL\<rparr>) s;
          buf = malloc e (priv_img_len (priv_of s));
          s = on_priv (priv_buf_update (\<lambda>_. buf)) s in
      Some (Done (if buf = NULL then -1 else 0) s))"

text \<open>Mapping the buffers one by one: those that were mapped, and whether all were.\<close>

fun map_buffers :: "nat \<Rightarrow> buffer list \<Rightarrow> (buffer list \<times> bool) cam_act" where
  "map_buffers 0 bufs s = Some (Done (bufs, True) s)"
| "map_buffers (Suc n) bufs s =
     andthen (ask dev_querybuf dev_querybuf_update s) (\<lambda>r s.
       (case r of
          Inl _ \<Rightarrow> Some (Done (bufs, False) s)
        | Inr len \<Rightarrow> andthen (ask_mmap s) (\<lambda>m s.
            (case m of
               NULL \<Rightarrow> Some (Done (bufs, False) s)
             | Ptr mem \<Rightarrow> map_buffers n (bufs @ [\<lparr>buf_start = mem, buf_len = len\<rparr>]) s))))"

definition init_mmap :: "cenv \<Rightarrow> int cam_act" where
  "init_mmap e s =
     andthen (ask dev_reqbufs dev_reqbufs_update s) (\<lambda>r s.
       (case r of
          Inl _ \<Rightarrow> Some (Done (-1) s)
        | Inr count \<Rightarrow>
            if count < 2 then Some (Done (-1) s)
            else if calloc e (count * 16) = NULL then Some (Done (-1) (on_priv (priv_buffers_update (\<lambda>_. NULL)) s))
            else
              andthen (map_buffers count [] s) (\<lambda>(bufs, all) s.
                if \<not> all then
                  Some (Done (-1) (on_dev (dev_munmaps_update (\<lambda>n. n + length bufs))
                    (on_priv (priv_buffers_update (\<lambda>_. NULL)) s)))
                else Some (Done 0 (on_priv (\<lambda>p. p\<lparr>priv_buffers := Ptr bufs, priv_count := count\<rparr>) s)))))"

text \<open>Asking for every format until there are no more; the answers are not used.\<close>

fun skip_formats :: "(errno + unit) list \<Rightarrow> (errno + unit) list option" where
  "skip_formats [] = None"
| "skip_formats (Inr _ # rs) = skip_formats rs"
| "skip_formats (Inl e # rs) = (if e = EINTR \<or> e = EAGAIN then skip_formats rs else Some rs)"

text \<open>The sizes after the corrections for drivers that report too little; 32-bit products.\<close>

definition fix_sizes :: "pix_format \<Rightarrow> pix_format" where
  "fix_sizes f =
     (let low = pix_width f * 2;
          f = (if pix_bytesperline f < low then f\<lparr>pix_bytesperline := low\<rparr> else f);
          low = pix_bytesperline f * pix_height f in
      if pix_sizeimage f < low then f\<lparr>pix_sizeimage := low\<rparr> else f)"

definition set_sizes :: "pix_format \<Rightarrow> cam_world \<Rightarrow> cam_world" where
  "set_sizes f s =
     on_priv (\<lambda>p. p\<lparr>priv_linebytes := unat (pix_bytesperline f), priv_img_len := unat (pix_sizeimage f)\<rparr>)
       (on_cam (\<lambda>c. c\<lparr>cam_width := pix_width f, cam_height := pix_height f\<rparr>) s)"

definition crop :: "unit cam_act" where
  "crop s =
     andthen (ask dev_cropcap dev_cropcap_update s) (\<lambda>r s.
       (case r of
          Inl _ \<Rightarrow> Some (Done () s)
        | Inr _ \<Rightarrow> andthen (ask dev_s_crop dev_s_crop_update s) (\<lambda>_ s. Some (Done () s))))"

text \<open>The end of \<^verbatim>\<open>init_cam\<close>: the buffers, mapped when possible, and before that the image.\<close>

definition init_buffers :: "cenv \<Rightarrow> int cam_act" where
  "init_buffers e s =
     (if priv_io (priv_of s) = IO_METHOD_MMAP then
        andthen (init_mmap e s) (\<lambda>r s.
          if r < 0 then init_read e (on_priv (priv_io_update (\<lambda>_. IO_METHOD_READ)) s)
          else Some (Done r s))
      else init_read e s)"

definition init_image :: "cenv \<Rightarrow> pix_format \<Rightarrow> int cam_act" where
  "init_image e f s =
     (let s = set_sizes (fix_sizes f) s;
          pic = calloc e (area (cam_width (cw_cam s)) (cam_height (cw_cam s)) * 4);
          s = on_cam (cam_image_update (\<lambda>_. pic)) s in
      if pic = NULL then Some (Done (-1) s)
      else
        andthen (init_buffers e s) (\<lambda>r s.
          if r \<noteq> 0 then Some (Done (-1) (on_cam (cam_image_update (\<lambda>_. NULL)) s))
          else Some (Done 0 s)))"

definition init_format :: "cenv \<Rightarrow> int cam_act" where
  "init_format e s =
     andthen (crop s) (\<lambda>_ s.
       (case skip_formats (dev_enum_fmt (cw_dev s)) of
          None \<Rightarrow> None
        | Some rs \<Rightarrow>
            andthen (ask dev_s_fmt dev_s_fmt_update (on_dev (dev_enum_fmt_update (\<lambda>_. rs)) s)) (\<lambda>r s.
              (case r of Inl _ \<Rightarrow> Some (Done (-1) s) | Inr f \<Rightarrow> init_image e f s))))"

definition init_cam :: "cenv \<Rightarrow> int cam_act" where
  "init_cam e s =
     andthen (ask dev_querycap dev_querycap_update s) (\<lambda>r s.
       (case r of
          Inl _ \<Rightarrow> Some (Done (-1) s)
        | Inr cap \<Rightarrow>
            if \<not> cap_capture cap then Some (Done (-1) s)
            else if priv_io (priv_of s) = IO_METHOD_MMAP \<and> \<not> cap_streaming cap then Some (Done (-1) s)
            else if priv_io (priv_of s) = IO_METHOD_READ \<and> \<not> cap_readwrite cap then Some (Done (-1) s)
            else if priv_io (priv_of s) = IO_METHOD_USER then Some (Done (-1) s)
            else init_format e s))"

text \<open>Opening for the second time, to read frames, after the first time has failed.\<close>

definition open_again :: "cenv \<Rightarrow> bool cam_act" where
  "open_again e s =
     andthen (ask_open (on_dev (dev_closes_update Suc) s)) (\<lambda>ok s.
       if \<not> ok then Some (Done False s)
       else
         andthen (init_cam e (on_priv (priv_io_update (\<lambda>_. IO_METHOD_READ)) s)) (\<lambda>r s.
           if r = 0 then Some (Done True s)
           else Some (Done False (on_dev (dev_closes_update Suc) s))))"

definition open_device :: "cenv \<Rightarrow> bool cam_act" where
  "open_device e s =
     andthen (ask_open s) (\<lambda>ok s.
       if \<not> ok then Some (Done False s)
       else
         andthen (init_cam e s) (\<lambda>r s.
           if r = 0 then Some (Done True s) else open_again e s))"

text \<open>The result is the camera in the state, when it is true, and \<^verbatim>\<open>NULL\<close> otherwise.\<close>

definition webcam_open :: "cenv \<Rightarrow> (nat \<Rightarrow> bool) \<Rightarrow> int \<Rightarrow> u32 \<Rightarrow> u32 \<Rightarrow> bool cam_act" where
  "webcam_open e is_cam i width height s =
     (if i < 0 \<or> 64 \<le> i then Some (Done False s)
      else if \<not> is_cam (nat i) then Some (Done False s)
      else
        let (width, height) = (if width = 0 then (640, 480) else (width, height)) in
        if \<not> struct_ok e then Some (Done False s)
        else
          open_device e (s\<lparr>cw_cam := \<lparr>cam_priv = Ptr \<lparr>priv_io = IO_METHOD_MMAP, priv_buffers = NULL,
                priv_count = 0, priv_buf = NULL, priv_img_len = 0, priv_linebytes = 0\<rparr>,
              cam_width = width, cam_height = height, cam_image = NULL\<rparr>\<rparr>))"

text \<open>\<^verbatim>\<open>webcam_close\<close>; a camera without private data is left as it is.\<close>

definition webcam_close :: "unit cam_act" where
  "webcam_close s =
     (case cam_priv (cw_cam s) of
        NULL \<Rightarrow> Some (Done () s)
      | Ptr p \<Rightarrow>
          let s = (if priv_io p = IO_METHOD_MMAP
                   then on_dev (dev_munmaps_update (\<lambda>n. n + priv_count p)) s else s);
              s = on_dev (dev_closes_update Suc) s in
          if priv_io p = IO_METHOD_MMAP \<and> priv_count p \<noteq> 0 \<and> priv_buffers p = NULL then Some Undef
          else Some (Done () (on_cam (\<lambda>c. c\<lparr>cam_priv := NULL, cam_image := NULL\<rparr>) s)))"

section \<open>Capturing\<close>

fun queue_buffers :: "nat \<Rightarrow> bool cam_act" where
  "queue_buffers 0 s = Some (Done True s)"
| "queue_buffers (Suc n) s =
     andthen (ask dev_qbuf dev_qbuf_update s) (\<lambda>r s.
       (case r of Inl _ \<Rightarrow> Some (Done False s) | Inr _ \<Rightarrow> queue_buffers n s))"

definition webcam_start :: "int cam_act" where
  "webcam_start s =
     (case cam_priv (cw_cam s) of
        NULL \<Rightarrow> Some (Done (-1) s)
      | Ptr p \<Rightarrow>
          (case priv_io p of
             IO_METHOD_MMAP \<Rightarrow>
               andthen (queue_buffers (priv_count p) s) (\<lambda>ok s.
                 if \<not> ok then Some (Done (-1) s)
                 else andthen (ask dev_streamon dev_streamon_update s) (\<lambda>r s.
                   Some (Done (case r of Inl _ \<Rightarrow> -1 | Inr _ \<Rightarrow> 0) s)))
           | IO_METHOD_READ \<Rightarrow> Some (Done 0 s)
           | IO_METHOD_USER \<Rightarrow> Some (Done (-1) s)))"

definition webcam_stop :: "int cam_act" where
  "webcam_stop s =
     (case cam_priv (cw_cam s) of
        NULL \<Rightarrow> Some (Done (-1) s)
      | Ptr p \<Rightarrow>
          (case priv_io p of
             IO_METHOD_READ \<Rightarrow> Some (Done 0 s)
           | IO_METHOD_MMAP \<Rightarrow>
               andthen (ask dev_streamoff dev_streamoff_update s) (\<lambda>r s.
                 Some (Done (case r of Inl _ \<Rightarrow> -1 | Inr _ \<Rightarrow> 0) s))
           | IO_METHOD_USER \<Rightarrow> Some (Done (-1) s)))"

text \<open>The pixels of a frame, three bytes each, into the image of the camera.\<close>

definition process_pixels :: "cenv \<Rightarrow> u32 \<Rightarrow> u32 \<Rightarrow> nat \<Rightarrow> bytes \<Rightarrow> bytes \<Rightarrow> bytes option" where
  "process_pixels e width height linebytes img pic =
     for_loop 1 0 (unat height) (\<lambda>y pic.
       for_loop 1 0 (unat width) (\<lambda>x pic. do {
         let j = y * linebytes + unat (of_nat x * (3 :: u32));
         r \<leftarrow> get1 img j;
         g \<leftarrow> get1 img (j + 1);
         b \<leftarrow> get1 img (j + 2);
         put_color e pic (unat (of_nat y * width + of_nat x)) (push_bit 16 r OR push_bit 8 g OR b) }) pic) pic"

definition process_image :: "cenv \<Rightarrow> bytes \<Rightarrow> unit cam_act" where
  "process_image e img s =
     (case cam_image (cw_cam s) of
        NULL \<Rightarrow> Some Undef
      | Ptr pic \<Rightarrow>
          need (process_pixels e (cam_width (cw_cam s)) (cam_height (cw_cam s)) (priv_linebytes (priv_of s)) img pic)
            (\<lambda>pic. Some (Done () (on_cam (cam_image_update (\<lambda>_. Ptr pic)) s))))"

text \<open>The \<^verbatim>\<open>struct timeval\<close> for the delay; a delay of 0 makes \<^verbatim>\<open>select\<close> return at once.\<close>

definition wait_timeval :: "u32 \<Rightarrow> u32 \<times> u32" where
  "wait_timeval delay = (delay div 1000, delay mod 1000 * 1000)"

definition read_frame :: "cenv \<Rightarrow> int cam_act" where
  "read_frame e s =
     andthen (ask dev_read dev_read_update s) (\<lambda>r s.
       (case r of
          Inl _ \<Rightarrow> Some (Done (-1) s)
        | Inr data \<Rightarrow>
            (case priv_buf (priv_of s) of
               NULL \<Rightarrow> Some Undef
             | Ptr buf \<Rightarrow> need (blit buf 0 (take (priv_img_len (priv_of s)) data)) (\<lambda>buf.
                 andthen (process_image e buf (on_priv (priv_buf_update (\<lambda>_. Ptr buf)) s)) (\<lambda>_ s.
                   Some (Done 1 s))))))"

definition mmap_frame :: "cenv \<Rightarrow> int cam_act" where
  "mmap_frame e s =
     andthen (ask dev_dqbuf dev_dqbuf_update s) (\<lambda>r s.
       (case r of
          Inl _ \<Rightarrow> Some (Done (-1) s)
        | Inr i \<Rightarrow>
            if priv_count (priv_of s) \<le> i then Some (Done (-1) s)
            else
              (case priv_buffers (priv_of s) of
                 NULL \<Rightarrow> Some Undef
               | Ptr bufs \<Rightarrow>
                   if length bufs \<le> i then Some Undef
                   else if priv_img_len (priv_of s) < buf_len (bufs ! i) then
                     andthen (ask dev_qbuf dev_qbuf_update s) (\<lambda>_ s. Some (Done (-1) s))
                   else
                     andthen (process_image e (buf_start (bufs ! i)) s) (\<lambda>_ s.
                     andthen (ask dev_qbuf dev_qbuf_update s) (\<lambda>_ s. Some (Done 1 s))))))"

definition webcam_wait_frame :: "cenv \<Rightarrow> u32 \<Rightarrow> int cam_act" where
  "webcam_wait_frame e delay s =
     (case cam_priv (cw_cam s) of
        NULL \<Rightarrow> Some (Done (-1) s)
      | Ptr p \<Rightarrow>
          andthen (ask dev_select dev_select_update s) (\<lambda>r s.
            (case r of
               Inl _ \<Rightarrow> Some (Done (-1) s)
             | Inr ready \<Rightarrow>
                 if \<not> ready then Some (Done 0 s)
                 else
                   (case priv_io p of
                      IO_METHOD_READ \<Rightarrow> read_frame e s
                    | IO_METHOD_MMAP \<Rightarrow> mmap_frame e s
                    | IO_METHOD_USER \<Rightarrow> Some (Done (-1) s)))))"

section \<open>Controls\<close>

datatype webcam_controls = WEBCAM_BRIGHTNESS | WEBCAM_CONTRAST | WEBCAM_SATURATION | WEBCAM_GAMMA

text \<open>The numbers of \<^verbatim>\<open>V4L2_CID_BRIGHTNESS\<close> and the others in \<^verbatim>\<open>linux/videodev2.h\<close>, from 0x980900 on.\<close>

fun id_conv :: "webcam_controls \<Rightarrow> int" where
  "id_conv WEBCAM_BRIGHTNESS = 0x980900"
| "id_conv WEBCAM_CONTRAST = 0x980901"
| "id_conv WEBCAM_SATURATION = 0x980902"
| "id_conv WEBCAM_GAMMA = 0x980910"

text \<open>Division of C integers rounds towards zero; a product outside 32 bits is undefined.\<close>

definition c_div :: "int \<Rightarrow> int \<Rightarrow> int" where
  "c_div a b = (if a < 0 then - (- a div b) else a div b)"

definition c_int :: "int \<Rightarrow> int option" where
  "c_int v = (if - 2147483648 \<le> v \<and> v < 2147483648 then Some v else None)"

text \<open>
  The value handed to \<^verbatim>\<open>v4l2_set_control\<close>, and what \<^verbatim>\<open>webcam_get_control\<close> makes of the value that
  \<^verbatim>\<open>v4l2_get_control\<close> returns; the functions of the library are arguments.
\<close>

definition webcam_set_control :: "(int \<Rightarrow> int \<Rightarrow> int) \<Rightarrow> webcam ptr \<Rightarrow> webcam_controls \<Rightarrow> int \<Rightarrow> int option" where
  "webcam_set_control v4l2_set_control cam i val = do {
     p \<leftarrow> c_int (val * 16384);
     let v = c_div p 25;
     let c = id_conv i;
     Some (case cam of
        NULL \<Rightarrow> -1
      | Ptr cam \<Rightarrow> if cam_priv cam = NULL \<or> c < 0 then -1 else v4l2_set_control c v) }"

definition webcam_get_control :: "(int \<Rightarrow> int) \<Rightarrow> webcam ptr \<Rightarrow> webcam_controls \<Rightarrow> int option" where
  "webcam_get_control v4l2_get_control cam i =
     (let c = id_conv i in
      case cam of
        NULL \<Rightarrow> Some (-1)
      | Ptr cam \<Rightarrow>
          if cam_priv cam = NULL \<or> c < 0 then Some (-1)
          else
            let v = v4l2_get_control c in
            if v < 0 then Some (-1)
            else do { p \<leftarrow> c_int (v * 25); Some (c_div p 16384) })"

end
