(* ===== verification/V4l2_Props.thy ===== *)
theory V4l2_Props
  imports V4l2 Colorspace_Props
begin

unbundle bit_operations_syntax

text \<open>
  What the camera library does: the frames it converts and the memory they need, the state a camera
  is in between its operations, the list of cameras and the scale of the controls.
\<close>

section \<open>Frames\<close>

lemma for_loop_fails:
  "i \<le> j \<Longrightarrow> j < n \<Longrightarrow> (\<And>t. f j t = None) \<Longrightarrow> for_loop 1 i n f s = None"
proof (induction "j - i" arbitrary: i s)
  case 0
  then show ?case by (simp add: for_loop_step)
next
  case (Suc d)
  then show ?case by (cases "f i s") (auto simp: for_loop_step)
qed

text \<open>The colour of a pixel of a frame.\<close>

definition frame_color :: "nat \<Rightarrow> bytes \<Rightarrow> nat \<Rightarrow> nat \<Rightarrow> u32" where
  "frame_color lb img x y =
     push_bit 16 (ucast (img ! (y * lb + x * 3))) OR push_bit 8 (ucast (img ! (y * lb + x * 3 + 1)))
       OR ucast (img ! (y * lb + x * 3 + 2))"

text \<open>The bytes up to the last one of a frame that is read.\<close>

definition frame_size :: "u32 \<Rightarrow> u32 \<Rightarrow> nat \<Rightarrow> nat" where
  "frame_size w h lb = (unat h - 1) * lb + 3 * unat w"

lemma unat_of_nat_small: "n < 2 ^ 32 \<Longrightarrow> unat (of_nat n :: u32) = n"
  by (simp add: unat_of_nat take_bit_nat_eq_self)

lemma pixel_offset: "3 * unat w < 2 ^ 32 \<Longrightarrow> x < unat (w :: u32) \<Longrightarrow> unat (of_nat x * 3 :: u32) = x * 3"
  using unat_of_nat_small [of "x * 3"] by simp

lemma pixel_position:
  assumes "unat w * unat h < 2 ^ 32" "x < unat (w :: u32)" "y < unat (h :: u32)"
  shows "unat (of_nat y * w + of_nat x) = y * unat w + x" "y * unat w + x < unat w * unat h"
proof -
  have "y * unat w + x < Suc y * unat w" using assms by simp
  also have "\<dots> \<le> unat h * unat w" using assms by (intro mult_le_mono1) simp
  finally show b: "y * unat w + x < unat w * unat h" by (simp add: mult.commute)
  have "of_nat y * w + of_nat x = (of_nat (y * unat w + x) :: u32)" by simp
  then show "unat (of_nat y * w + of_nat x) = y * unat w + x"
    using b assms(1) unat_of_nat_small [of "y * unat w + x"] by simp
qed

lemma get1_none: "length m \<le> j \<Longrightarrow> get1 m j = None"
  by (simp add: get1_def load_def slice_def)

lemma put_color_get:
  assumes "i < n" "4 * n \<le> length m"
  shows "\<exists>m'. put_color e m i c = Some m' \<and> length m' = length m \<and>
    (\<forall>k. get_color e m' k = (if k = i then Some c else get_color e m k))"
proof -
  obtain m' where m: "put_color e m i c = Some m'"
    using store_defined [of i n 4 m "host_be e" c] assms by (auto simp: put_color_def mult.commute)
  then show ?thesis
    using store_length [of "host_be e" 4 m i c m'] load_store_same [of "host_be e" 4 m i c m']
      load_store_other [of "host_be e" 4 m i c m']
    by (auto simp: put_color_def get_color_def take_bit_word_eq_self)
qed

text \<open>One line: the pixels before \<open>x\<close> have been written, the others are those of the image.\<close>

lemma frame_line:
  fixes w h :: u32
  assumes w: "3 * unat w < 2 ^ 32" and wh: "unat w * unat h < 2 ^ 32" and y: "y < unat h"
    and px: "4 * (unat w * unat h) \<le> length px" and img: "y * lb + 3 * unat w \<le> length img"
  shows "\<exists>out. for_loop 1 0 (unat w) (\<lambda>x pic. do {
         let j = y * lb + unat (of_nat x * (3 :: u32));
         r \<leftarrow> get1 img j;
         g \<leftarrow> get1 img (j + 1);
         b \<leftarrow> get1 img (j + 2);
         put_color e pic (unat (of_nat y * w + of_nat x)) (push_bit 16 r OR push_bit 8 g OR b) }) px = Some out \<and>
     length out = length px \<and>
     (\<forall>k. get_color e out k = (if y * unat w \<le> k \<and> k < y * unat w + unat w
        then Some (frame_color lb img (k - y * unat w) y) else get_color e px k))"
proof (rule for_loop_unit_rule [where P = "\<lambda>x t. length t = length px \<and>
     (\<forall>k. get_color e t k = (if y * unat w \<le> k \<and> k < y * unat w + x
        then Some (frame_color lb img (k - y * unat w) y) else get_color e px k))"])
  fix x t
  assume inv: "length t = length px \<and>
     (\<forall>k. get_color e t k = (if y * unat w \<le> k \<and> k < y * unat w + x
        then Some (frame_color lb img (k - y * unat w) y) else get_color e px k))" and x: "x < unat w"
  obtain t' where t': "put_color e t (y * unat w + x) (frame_color lb img x y) = Some t'"
    "length t' = length t"
    "\<forall>k. get_color e t' k = (if k = y * unat w + x then Some (frame_color lb img x y) else get_color e t k)"
    using put_color_get [OF pixel_position(2) [OF wh x y], of t e "frame_color lb img x y"] px inv by auto
  have "x * 3 + 2 < 3 * unat w" using x by simp
  then have l: "y * lb + x * 3 + 2 < length img" using img by linarith
  show "\<exists>t'. (do {
         let j = y * lb + unat (of_nat x * (3 :: u32));
         r \<leftarrow> get1 img j;
         g \<leftarrow> get1 img (j + 1);
         b \<leftarrow> get1 img (j + 2);
         put_color e t (unat (of_nat y * w + of_nat x)) (push_bit 16 r OR push_bit 8 g OR b) }) = Some t' \<and>
     length t' = length px \<and>
     (\<forall>k. get_color e t' k = (if y * unat w \<le> k \<and> k < y * unat w + Suc x
        then Some (frame_color lb img (k - y * unat w) y) else get_color e px k))"
    using t' l inv
    by (auto simp: Let_def pixel_offset [OF w x] pixel_position [OF wh x y] get1_nth frame_color_def)
qed auto


lemma frame_pixels_ok:
  assumes w: "3 * unat w < 2 ^ 32" and wh: "unat w * unat h < 2 ^ 32" and pos: "0 < unat h"
    and px: "4 * (unat w * unat h) \<le> length px" and img: "frame_size w h lb \<le> length img"
  shows "\<exists>out. process_pixels e w h lb img px = Some out \<and> length out = length px \<and>
     (\<forall>k. get_color e out k = (if k < unat h * unat w
        then Some (frame_color lb img (k mod unat w) (k div unat w)) else get_color e px k))"
  unfolding process_pixels_def
proof (rule for_loop_unit_rule [where P = "\<lambda>y t. length t = length px \<and>
     (\<forall>k. get_color e t k = (if k < y * unat w
        then Some (frame_color lb img (k mod unat w) (k div unat w)) else get_color e px k))"])
  fix y t
  assume inv: "length t = length px \<and>
     (\<forall>k. get_color e t k = (if k < y * unat w
        then Some (frame_color lb img (k mod unat w) (k div unat w)) else get_color e px k))" and y: "y < unat h"
  have "y * lb \<le> (unat h - 1) * lb" using y by (intro mult_le_mono1) linarith
  then have "y * lb + 3 * unat w \<le> length img" using img unfolding frame_size_def by linarith
  from frame_line [OF w wh y _ this, of t e] inv px
  obtain out where out: "for_loop 1 0 (unat w) (\<lambda>x pic. do {
         let j = y * lb + unat (of_nat x * (3 :: u32));
         r \<leftarrow> get1 img j;
         g \<leftarrow> get1 img (j + 1);
         b \<leftarrow> get1 img (j + 2);
         put_color e pic (unat (of_nat y * w + of_nat x)) (push_bit 16 r OR push_bit 8 g OR b) }) t = Some out"
     "length out = length px" "\<And>k. get_color e out k = (if y * unat w \<le> k \<and> k < y * unat w + unat w
        then Some (frame_color lb img (k - y * unat w) y) else get_color e t k)"
    by auto
  have "k mod unat w = k - y * unat w \<and> k div unat w = y" if "y * unat w \<le> k" "k < y * unat w + unat w" for k
  proof -
    have "k = y * unat w + (k - y * unat w)" "k - y * unat w < unat w" using that by linarith+
    then show ?thesis by (metis add_cancel_right_right div_less div_mult_self3 gr_implies_not0 mod_less mod_mult_self3)
  qed
  then have "get_color e out k = (if k < Suc y * unat w
        then Some (frame_color lb img (k mod unat w) (k div unat w)) else get_color e px k)" for k
    using out(3) inv by (cases "k < y * unat w") (auto simp: not_less)
  then show "\<exists>t'. for_loop 1 0 (unat w) (\<lambda>x pic. do {
         let j = y * lb + unat (of_nat x * (3 :: u32));
         r \<leftarrow> get1 img j;
         g \<leftarrow> get1 img (j + 1);
         b \<leftarrow> get1 img (j + 2);
         put_color e pic (unat (of_nat y * w + of_nat x)) (push_bit 16 r OR push_bit 8 g OR b) }) t = Some t' \<and>
     length t' = length px \<and> (\<forall>k. get_color e t' k = (if k < Suc y * unat w
        then Some (frame_color lb img (k mod unat w) (k div unat w)) else get_color e px k))"
    using out(1,2) by blast
qed simp_all

lemma frame_pixels_short:
  assumes w: "3 * unat w < 2 ^ 32" and pos: "0 < unat w" "0 < unat h"
    and img: "length img < frame_size w h lb"
  shows "process_pixels e w h lb img px = None"
  unfolding process_pixels_def
proof (rule for_loop_fails)
  fix t
  show "for_loop 1 0 (unat w) (\<lambda>x pic. do {
         let j = (unat h - 1) * lb + unat (of_nat x * (3 :: u32));
         r \<leftarrow> get1 img j;
         g \<leftarrow> get1 img (j + 1);
         b \<leftarrow> get1 img (j + 2);
         put_color e pic (unat (of_nat (unat h - 1) * w + of_nat x)) (push_bit 16 r OR push_bit 8 g OR b) }) t = None"
  proof (rule for_loop_fails)
    fix t
    have "get1 img ((unat h - 1) * lb + (unat w - 1) * 3 + 2) = None"
      by (rule get1_none) (use img pos in \<open>simp add: frame_size_def diff_mult_distrib\<close>)
    moreover have "unat (of_nat (unat w - 1) * 3 :: u32) = (unat w - 1) * 3"
      using pos by (intro pixel_offset [OF w]) simp
    ultimately show "(do {
         let j = (unat h - 1) * lb + unat (of_nat (unat w - 1) * (3 :: u32));
         r \<leftarrow> get1 img j;
         g \<leftarrow> get1 img (j + 1);
         b \<leftarrow> get1 img (j + 2);
         put_color e t (unat (of_nat (unat h - 1) * w + of_nat (unat w - 1))) (push_bit 16 r OR push_bit 8 g OR b) }) = None"
      by (simp add: Let_def bind_eq_None_conv del: of_nat_diff)
  qed (use pos in auto)
qed (use pos in auto)

text \<open>
  The pixels of a frame: with an image buffer of the size of the camera, the conversion of a
  frame is defined exactly when the frame reaches to the last pixel of its last line, three bytes to
  the pixel; then every pixel of the image has the colour of the frame's pixel and nothing else changes.
\<close>

theorem frame_pixels_spec:
  assumes "3 * unat w < 2 ^ 32" "unat w * unat h < 2 ^ 32" "0 < unat w" "0 < unat h"
    and "4 * (unat w * unat h) \<le> length px"
  shows "case process_pixels e w h lb img px of
      None \<Rightarrow> length img < frame_size w h lb
    | Some out \<Rightarrow> frame_size w h lb \<le> length img \<and> length out = length px \<and>
        (\<forall>x y. x < unat w \<and> y < unat h \<longrightarrow>
           get_color e out (y * unat w + x) = Some (frame_color lb img x y)) \<and>
        (\<forall>k \<ge> unat h * unat w. get_color e out k = get_color e px k)"
proof (cases "length img < frame_size w h lb")
  case True
  then show ?thesis using frame_pixels_short [of w h img lb] assms by simp
next
  case False
  then obtain out where out: "process_pixels e w h lb img px = Some out" "length out = length px"
     "\<And>k. get_color e out k = (if k < unat h * unat w
        then Some (frame_color lb img (k mod unat w) (k div unat w)) else get_color e px k)"
    using frame_pixels_ok [of w h px lb img e] assms by auto
  have "get_color e out (y * unat w + x) = Some (frame_color lb img x y)" if "x < unat w" "y < unat h" for x y
    using out(3) [of "y * unat w + x"] pixel_position(2) [OF assms(2) that] that
    by (simp add: mult.commute [of "unat h"])
  then show ?thesis using out False by simp
qed

theorem frame_pixels_spec_witness:
  "(case process_pixels easy_env 1 2 4 [1, 2, 3, 0, 4, 5, 6] (replicate 8 0) of
      None \<Rightarrow> False
    | Some out \<Rightarrow> get_color easy_env out 0 = Some 0x010203 \<and> get_color easy_env out 1 = Some 0x040506) \<and>
   process_pixels easy_env 1 2 2 [1, 2, 3, 0] (replicate 8 0) = None"
  using frame_pixels_spec [where w = 1 and h = 2 and px = "replicate 8 0" and e = easy_env and lb = 4
      and img = "[1, 2, 3, 0, 4, 5, 6]"]
    frame_pixels_spec [where w = 1 and h = 2 and px = "replicate 8 0" and e = easy_env and lb = 2 and img = "[1, 2, 3, 0]"]
  by (force simp: frame_size_def frame_color_def split: option.splits)

section \<open>The list of cameras\<close>

lemma list_loop_count: "list_loop is_cam is NULL len cnt = Some (0, NULL, cnt + length (filter is_cam is))"
  by (induction "is" arbitrary: cnt) auto

lemma list_loop_fill:
  assumes "cnt \<le> len" "length mem = len"
  shows "list_loop is_cam is (Ptr mem) len cnt =
    (let cams = filter is_cam is in
     if cnt + length cams \<le> len
     then Some (0, Ptr (take cnt mem @ cams @ drop (cnt + length cams) mem), cnt + length cams)
     else Some (-1, Ptr (take cnt mem @ take (len - cnt) cams), len))"
  using assms
proof (induction "is" arbitrary: cnt mem)
  case (Cons i "is")
  show ?case
  proof (cases "is_cam i \<and> cnt < len")
    case True
    then have "take (Suc cnt) (mem[cnt := i]) = take cnt mem @ [i]"
      using Cons.prems by (simp add: take_Suc_conv_app_nth)
    moreover have "take (len - cnt) (i # xs) = i # take (len - Suc cnt) xs" for xs
      using True by (simp add: take_Cons')
    ultimately show ?thesis
      using True Cons.prems Cons.IH [of "Suc cnt" "mem[cnt := i]"] by (auto simp: Let_def)
  next
    case False
    then show ?thesis using Cons by (auto simp: Let_def)
  qed
qed simp

text \<open>
  The list of cameras: without an array \<^verbatim>\<open>webcam_list\<close> counts the devices; with an array of
  \<open>*count\<close> elements it stores the numbers of all devices in increasing order and their count, or
  reports an error and leaves \<open>*count\<close> as it was when they do not fit. It never writes past the array.
\<close>

theorem webcam_list_spec:
  assumes "length mem = len"
  shows "webcam_list is_cam NULL (Ptr n) = Some (0, NULL, Ptr (length (filter is_cam [0..<64]))) \<and>
    webcam_list is_cam (Ptr mem) (Ptr len) =
      (let cams = filter is_cam [0..<64] in
       if length cams \<le> len then Some (0, Ptr (cams @ drop (length cams) mem), Ptr (length cams))
       else Some (-1, Ptr (take len cams), Ptr len))"
  using assms list_loop_fill [of 0 len mem is_cam "[0..<64]"]
  by (simp_all add: webcam_list_def list_loop_count Let_def)

theorem webcam_list_spec_witness:
  "webcam_list (\<lambda>i. i = 0 \<or> i = 2) (Ptr [9, 9, 9]) (Ptr 3) = Some (0, Ptr [0, 2, 9], Ptr 2) \<and>
   webcam_list (\<lambda>i. i = 0 \<or> i = 2) (Ptr [9]) (Ptr 1) = Some (-1, Ptr [0], Ptr 1)"
  using webcam_list_spec [of "[9, 9, 9]" 3 "\<lambda>i. i = 0 \<or> i = 2"]
    webcam_list_spec [of "[9]" 1 "\<lambda>i. i = 0 \<or> i = 2"]
  by (simp add: upt_conv_Cons)

section \<open>Controls\<close>

lemma coprime_25: "coprime (25 :: int) 16384"
  by (simp add: coprime_iff_gcd_eq_1 gcd_non_0_int)

text \<open>
  The scale of the controls: for a value from 0 to 100 \<^verbatim>\<open>webcam_set_control\<close> hands the library a
  value from 0 to 65536, and when the library then returns that value, \<^verbatim>\<open>webcam_get_control\<close> gives the
  value back if it is a multiple of 25 and one less otherwise.
\<close>

theorem control_scale:
  assumes "0 \<le> val" "val \<le> 100" and "cam_priv cam \<noteq> NULL"
  shows "\<exists>v. 0 \<le> v \<and> v \<le> 65536 \<and>
    webcam_set_control set_ctl (Ptr cam) i val = Some (set_ctl (id_conv i) v) \<and>
    (get_ctl (id_conv i) = v \<longrightarrow>
       webcam_get_control get_ctl (Ptr cam) i = Some (if 25 dvd val then val else val - 1))"
proof -
  have c: "0 \<le> id_conv i" by (cases i) simp_all
  define v where "v = val * 16384 div 25"
  have rescaled: "v * 25 div 16384 = (if 25 dvd val then val else val - 1)"
  proof (cases "25 dvd val")
    case False
    define m where "m = val * 16384 mod 25"
    have "m \<noteq> 0" unfolding m_def using False by (metis coprime_dvd_mult_left_iff dvd_eq_mod_eq_0 coprime_25)
    moreover have "0 \<le> m" "m < 25" unfolding m_def by (rule pos_mod_sign, simp, rule pos_mod_bound, simp)
    ultimately have m: "0 < m" "m < 25" by linarith+
    have "v * 25 + m = val * 16384" unfolding v_def m_def by (rule div_mult_mod_eq)
    then have "v * 25 = val * 16384 - m" by (rule add_implies_diff)
    also have "\<dots> = 16384 * (val - 1) + (16384 - m)" by (simp only: right_diff_distrib mult.commute mult_1_right) simp
    finally have "v * 25 = 16384 * (val - 1) + (16384 - m)" .
    then have "v * 25 div 16384 = val - 1" by (rule int_div_pos_eq) (use m in linarith)+
    then show ?thesis using False by simp
  qed (auto simp: v_def)
  have v: "0 \<le> v" "v \<le> 65536" using assms by (simp_all add: v_def)
  show ?thesis
  proof (intro exI conjI impI)
    show "webcam_set_control set_ctl (Ptr cam) i val = Some (set_ctl (id_conv i) v)"
      using assms c by (simp add: webcam_set_control_def c_int_def c_div_def v_def Let_def)
    assume "get_ctl (id_conv i) = v"
    then show "webcam_get_control get_ctl (Ptr cam) i = Some (if 25 dvd val then val else val - 1)"
      using assms c v rescaled by (simp add: webcam_get_control_def c_int_def c_div_def Let_def)
  qed (use v in auto)
qed

definition example_priv :: priv where
  "example_priv = \<lparr>priv_io = IO_METHOD_READ, priv_buffers = NULL, priv_count = 0, priv_buf = Ptr (replicate 6 0),
     priv_img_len = 6, priv_linebytes = 3\<rparr>"

definition example_cam :: webcam where
  "example_cam = \<lparr>cam_priv = Ptr example_priv, cam_width = 1, cam_height = 2, cam_image = Ptr (replicate 8 0)\<rparr>"

theorem control_scale_witness:
  "webcam_get_control (\<lambda>_. 40 * 16384 div 25) (Ptr example_cam) WEBCAM_GAMMA = Some 39"
proof -
  have "\<exists>v. 0 \<le> v \<and> v \<le> 65536 \<and>
    webcam_set_control (\<lambda>c v. v) (Ptr example_cam) WEBCAM_GAMMA 40 = Some v \<and>
    (40 * 16384 div 25 = v \<longrightarrow>
       webcam_get_control (\<lambda>_. 40 * 16384 div 25) (Ptr example_cam) WEBCAM_GAMMA = Some 39)"
    using control_scale [of 40 example_cam "\<lambda>c v. v" WEBCAM_GAMMA "\<lambda>_. 40 * 16384 div 25"]
    by (simp add: example_cam_def)
  then show ?thesis
    by (auto simp: webcam_set_control_def c_int_def c_div_def example_cam_def Let_def)
qed

section \<open>Opening and closing\<close>

text \<open>
  The handles and mappings: \<open>handles\<close> goes down by one with every handle that \<^verbatim>\<open>v4l2_open\<close> gives and
  up with every one that is closed, \<open>mappings\<close> likewise for \<^verbatim>\<open>v4l2_mmap\<close> and \<^verbatim>\<open>v4l2_munmap\<close>.
\<close>

definition handles :: "cam_world \<Rightarrow> nat" where
  "handles s = dev_closes (cw_dev s) + length (filter id (dev_open (cw_dev s)))"

definition mappings :: "cam_world \<Rightarrow> nat" where
  "mappings s = dev_munmaps (cw_dev s) + length (filter (\<lambda>m. m \<noteq> NULL) (dev_mmap (cw_dev s)))"

text \<open>The mappings that a camera holds, and the state in which \<^verbatim>\<open>webcam_open\<close> leaves a camera.\<close>

definition held :: "priv \<Rightarrow> nat" where
  "held p = (if priv_io p = IO_METHOD_MMAP then priv_count p else 0)"

definition frame_source :: "priv \<Rightarrow> bool" where
  "frame_source p =
     (case priv_io p of
        IO_METHOD_READ \<Rightarrow> (\<exists>buf. priv_buf p = Ptr buf \<and> length buf = priv_img_len p)
      | IO_METHOD_MMAP \<Rightarrow> (\<exists>bufs. priv_buffers p = Ptr bufs \<and> length bufs = priv_count p \<and> 2 \<le> priv_count p)
      | IO_METHOD_USER \<Rightarrow> False)"

definition sizes_ok :: "u32 \<Rightarrow> u32 \<Rightarrow> priv \<Rightarrow> bool" where
  "sizes_ok w h p \<longleftrightarrow> unat (w * 2) \<le> priv_linebytes p \<and> unat (of_nat (priv_linebytes p) * h) \<le> priv_img_len p"

definition cam_ready :: "webcam \<Rightarrow> bool" where
  "cam_ready c \<longleftrightarrow>
     (\<exists>p px. cam_priv c = Ptr p \<and> cam_image c = Ptr px \<and> length px = 4 * area (cam_width c) (cam_height c) \<and>
        sizes_ok (cam_width c) (cam_height c) p \<and> frame_source p)"

text \<open>Calls of the device, one after the other.\<close>

lemma safe_ask:
  "(\<And>r rs. safe Q E (f r (on_dev (upd (\<lambda>_. rs)) s))) \<Longrightarrow> safe Q E (andthen (ask get upd s) f)"
  by (auto simp: ask_def split: option.splits)

lemma safe_ask_open:
  "(\<And>r rs. dev_open (cw_dev s) = r # rs \<Longrightarrow> safe Q E (f r (on_dev (dev_open_update (\<lambda>_. rs)) s))) \<Longrightarrow>
   safe Q E (andthen (ask_open s) f)"
  by (auto simp: ask_open_def split: list.splits)

lemma safe_ask_mmap:
  "(\<And>r rs. dev_mmap (cw_dev s) = r # rs \<Longrightarrow> safe Q E (f r (on_dev (dev_mmap_update (\<lambda>_. rs)) s))) \<Longrightarrow>
   safe Q E (andthen (ask_mmap s) f)"
  by (auto simp: ask_mmap_def split: list.splits)

lemmas cam_defs = on_dev_def on_cam_def on_priv_def priv_of_def handles_def mappings_def

lemma map_buffers_safe:
  "safe (\<lambda>(bufs', all) s'. cw_cam s' = cw_cam s \<and> handles s' = handles s \<and>
       mappings s' + length bufs' = mappings s + length bufs \<and> (all \<longrightarrow> length bufs' = length bufs + n))
     (\<lambda>_. False) (map_buffers n bufs s)"
proof (induction n arbitrary: bufs s)
  case (Suc n)
  show ?case
    unfolding map_buffers.simps
  proof (rule safe_ask, split sum.split, intro conjI allI impI)
    fix r rs len
    let ?s = "on_dev (dev_querybuf_update (\<lambda>_. rs)) s"
    show "safe (\<lambda>(bufs', all) s'. cw_cam s' = cw_cam s \<and> handles s' = handles s \<and>
       mappings s' + length bufs' = mappings s + length bufs \<and> (all \<longrightarrow> length bufs' = length bufs + Suc n))
      (\<lambda>_. False) (andthen (ask_mmap ?s) (\<lambda>m s. case m of
               NULL \<Rightarrow> Some (Done (bufs, False) s)
             | Ptr mem \<Rightarrow> map_buffers n (bufs @ [\<lparr>buf_start = mem, buf_len = len\<rparr>]) s))"
    proof (rule safe_ask_mmap, split ptr.split, intro conjI allI impI)
      fix m ms mem
      assume "dev_mmap (cw_dev ?s) = m # ms" "m = Ptr mem"
      then show "safe (\<lambda>(bufs', all) s'. cw_cam s' = cw_cam s \<and> handles s' = handles s \<and>
         mappings s' + length bufs' = mappings s + length bufs \<and> (all \<longrightarrow> length bufs' = length bufs + Suc n))
        (\<lambda>_. False) (map_buffers n (bufs @ [\<lparr>buf_start = mem, buf_len = len\<rparr>])
           (on_dev (dev_mmap_update (\<lambda>_. ms)) ?s))"
        by (intro safe_mono [OF Suc.IH]) (auto simp: cam_defs)
    qed (auto simp: cam_defs)
  qed (auto simp: cam_defs)
qed simp

text \<open>The part of a camera that the choice of the buffers leaves alone.\<close>

definition same_frame :: "webcam \<Rightarrow> webcam \<Rightarrow> bool" where
  "same_frame c c' \<longleftrightarrow> cam_width c' = cam_width c \<and> cam_height c' = cam_height c \<and> cam_image c' = cam_image c \<and>
     (\<exists>p p'. cam_priv c = Ptr p \<and> cam_priv c' = Ptr p' \<and> priv_img_len p' = priv_img_len p \<and>
        priv_linebytes p' = priv_linebytes p)"

lemma init_read_safe:
  assumes "cam_priv (cw_cam s) = Ptr p" "priv_io p = IO_METHOD_READ"
  shows "safe (\<lambda>r s'. same_frame (cw_cam s) (cw_cam s') \<and> handles s' = handles s \<and> mappings s' = mappings s \<and>
      cam_priv (cw_cam s') \<noteq> NULL \<and> priv_io (priv_of s') = IO_METHOD_READ \<and> (r = 0 \<longrightarrow> frame_source (priv_of s')))
    (\<lambda>_. False) (init_read e s)"
  using assms by (auto simp: init_read_def cam_defs same_frame_def frame_source_def malloc_def)

lemma init_mmap_safe:
  assumes "cam_priv (cw_cam s) = Ptr p" "priv_io p = IO_METHOD_MMAP"
  shows "safe (\<lambda>r s'. same_frame (cw_cam s) (cw_cam s') \<and> handles s' = handles s \<and>
      cam_priv (cw_cam s') \<noteq> NULL \<and> priv_io (priv_of s') = IO_METHOD_MMAP \<and>
      (if r < 0 then mappings s' = mappings s
       else r = 0 \<and> frame_source (priv_of s') \<and> mappings s' + held (priv_of s') = mappings s))
    (\<lambda>_. False) (init_mmap e s)"
  unfolding init_mmap_def
proof (rule safe_ask, split sum.split, intro conjI allI impI)
  fix r rs count
  let ?s = "on_dev (dev_reqbufs_update (\<lambda>_. rs)) s"
  let ?Q = "\<lambda>(r::int) s'. same_frame (cw_cam s) (cw_cam s') \<and> handles s' = handles s \<and>
      cam_priv (cw_cam s') \<noteq> NULL \<and> priv_io (priv_of s') = IO_METHOD_MMAP \<and>
      (if r < 0 then mappings s' = mappings s
       else r = 0 \<and> frame_source (priv_of s') \<and> mappings s' + held (priv_of s') = mappings s)"
  show "safe ?Q (\<lambda>_. False) (if count < 2 then Some (Done (-1) ?s)
     else if calloc e (count * 16) = NULL then Some (Done (-1) (on_priv (priv_buffers_update (\<lambda>_. NULL)) ?s))
     else andthen (map_buffers count [] ?s) (\<lambda>(bufs, all) s.
       if \<not> all then Some (Done (-1) (on_dev (dev_munmaps_update (\<lambda>n. n + length bufs))
                    (on_priv (priv_buffers_update (\<lambda>_. NULL)) s)))
       else Some (Done 0 (on_priv (\<lambda>p. p\<lparr>priv_buffers := Ptr bufs, priv_count := count\<rparr>) s))))"
  proof (split if_split, intro conjI impI)
    assume c: "\<not> count < 2"
    have "safe ?Q (\<lambda>_. False) (andthen (map_buffers count [] ?s) (\<lambda>(bufs, all) s.
       if \<not> all then Some (Done (-1) (on_dev (dev_munmaps_update (\<lambda>n. n + length bufs))
                    (on_priv (priv_buffers_update (\<lambda>_. NULL)) s)))
       else Some (Done 0 (on_priv (\<lambda>p. p\<lparr>priv_buffers := Ptr bufs, priv_count := count\<rparr>) s))))"
      by (rule safe_andthen [OF map_buffers_safe])
        (use assms c in \<open>auto simp: cam_defs same_frame_def frame_source_def held_def\<close>)
    then show "safe ?Q (\<lambda>_. False) (if calloc e (count * 16) = NULL
       then Some (Done (-1) (on_priv (priv_buffers_update (\<lambda>_. NULL)) ?s))
       else andthen (map_buffers count [] ?s) (\<lambda>(bufs, all) s.
         if \<not> all then Some (Done (-1) (on_dev (dev_munmaps_update (\<lambda>n. n + length bufs))
                    (on_priv (priv_buffers_update (\<lambda>_. NULL)) s)))
         else Some (Done 0 (on_priv (\<lambda>p. p\<lparr>priv_buffers := Ptr bufs, priv_count := count\<rparr>) s))))"
      using assms by (auto simp: cam_defs same_frame_def)
  qed (use assms in \<open>auto simp: cam_defs same_frame_def\<close>)
qed (use assms in \<open>auto simp: cam_defs same_frame_def\<close>)


definition frame_memory :: "webcam \<Rightarrow> bool" where
  "frame_memory c \<longleftrightarrow> (\<exists>p px. cam_priv c = Ptr p \<and> cam_image c = Ptr px \<and>
     length px = 4 * area (cam_width c) (cam_height c) \<and> sizes_ok (cam_width c) (cam_height c) p)"

lemma frame_memory_kept: "frame_memory c \<Longrightarrow> same_frame c c' \<Longrightarrow> frame_memory c'"
  by (auto simp: frame_memory_def same_frame_def sizes_ok_def)

lemma cam_ready_frame: "frame_memory c \<Longrightarrow> frame_source (deref (cam_priv c)) \<Longrightarrow> cam_ready c"
  by (auto simp: frame_memory_def cam_ready_def)

lemma fix_sizes_low: "pix_width f * 2 \<le> pix_bytesperline (fix_sizes f)"
    "pix_bytesperline (fix_sizes f) * pix_height f \<le> pix_sizeimage (fix_sizes f)"
    "pix_width (fix_sizes f) = pix_width f" "pix_height (fix_sizes f) = pix_height f"
  by (simp_all add: fix_sizes_def Let_def not_less)

lemma set_sizes_ok:
  assumes "cam_priv (cw_cam s) = Ptr p"
  shows "\<exists>p'. cam_priv (cw_cam (set_sizes (fix_sizes f) s)) = Ptr p' \<and> priv_io p' = priv_io p \<and>
    priv_count p' = priv_count p \<and>
    sizes_ok (cam_width (cw_cam (set_sizes (fix_sizes f) s))) (cam_height (cw_cam (set_sizes (fix_sizes f) s))) p'"
  using assms fix_sizes_low [of f]
  by (auto simp: set_sizes_def cam_defs sizes_ok_def word_le_nat_alt)

text \<open>The outcome of \<^verbatim>\<open>init_cam\<close> that \<^verbatim>\<open>webcam_open\<close> relies on, and of its parts.\<close>

definition cam_set_up :: "cam_world \<Rightarrow> int \<Rightarrow> cam_world \<Rightarrow> bool" where
  "cam_set_up s r s' \<longleftrightarrow> cam_priv (cw_cam s') \<noteq> NULL \<and> handles s' = handles s \<and>
      (if r = 0 then cam_ready (cw_cam s') \<and> mappings s' + held (priv_of s') = mappings s
       else mappings s' = mappings s)"

lemma read_set_up:
  assumes "frame_memory (cw_cam s)" "cam_priv (cw_cam s) = Ptr p" "priv_io p = IO_METHOD_READ"
    "handles s = handles s0" "mappings s = mappings s0"
  shows "safe (cam_set_up s0) (\<lambda>_. False) (init_read e s)"
  by (rule safe_mono [OF init_read_safe [OF assms(2,3)]])
    (use assms in \<open>auto simp: cam_set_up_def held_def priv_of_def intro: frame_memory_kept cam_ready_frame\<close>)

lemma init_buffers_safe:
  assumes "frame_memory (cw_cam s)" "priv_io (priv_of s) \<noteq> IO_METHOD_USER"
  shows "safe (cam_set_up s) (\<lambda>_. False) (init_buffers e s)"
proof -
  obtain p where p: "cam_priv (cw_cam s) = Ptr p" using assms by (auto simp: frame_memory_def)
  show ?thesis
  proof (cases "priv_io p = IO_METHOD_MMAP")
    case True
    have "safe (cam_set_up s) (\<lambda>_. False) (andthen (init_mmap e s) (\<lambda>r s.
          if r < 0 then init_read e (on_priv (priv_io_update (\<lambda>_. IO_METHOD_READ)) s)
          else Some (Done r s)))"
    proof (rule safe_andthen [OF init_mmap_safe [OF p True]])
      fix r :: int and t
      assume t: "same_frame (cw_cam s) (cw_cam t) \<and> handles t = handles s \<and>
        cam_priv (cw_cam t) \<noteq> NULL \<and> priv_io (priv_of t) = IO_METHOD_MMAP \<and>
        (if r < 0 then mappings t = mappings s
         else r = 0 \<and> frame_source (priv_of t) \<and> mappings t + held (priv_of t) = mappings s)"
      then obtain q where q: "cam_priv (cw_cam t) = Ptr q" by (cases "cam_priv (cw_cam t)") auto
      have f: "frame_memory (cw_cam t)" using assms(1) t by (blast intro: frame_memory_kept)
      have "safe (cam_set_up s) (\<lambda>_. False)
          (init_read e (on_priv (priv_io_update (\<lambda>_. IO_METHOD_READ)) t))" if "r < 0"
        by (rule read_set_up [where p = "q\<lparr>priv_io := IO_METHOD_READ\<rparr>"])
          (use f q t that in \<open>auto simp: frame_memory_def cam_defs sizes_ok_def\<close>)
      then show "safe (cam_set_up s) (\<lambda>_. False)
          (if r < 0 then init_read e (on_priv (priv_io_update (\<lambda>_. IO_METHOD_READ)) t) else Some (Done r t))"
        using t f by (auto simp: priv_of_def cam_set_up_def intro: cam_ready_frame)
    qed
    then show ?thesis using True p by (simp add: priv_of_def init_buffers_def)
  next
    case False
    then have io: "priv_io p = IO_METHOD_READ" using assms(2) p by (cases "priv_io p") (auto simp: priv_of_def)
    then show ?thesis
      using read_set_up [OF assms(1) p io] p by (simp add: priv_of_def init_buffers_def)
  qed
qed

lemma init_image_safe:
  assumes "cam_priv (cw_cam s) = Ptr p" "priv_io p \<noteq> IO_METHOD_USER"
  shows "safe (cam_set_up s) (\<lambda>_. False) (init_image e f s)"
proof -
  let ?t = "set_sizes (fix_sizes f) s"
  let ?n = "area (cam_width (cw_cam ?t)) (cam_height (cw_cam ?t)) * 4"
  let ?u = "on_cam (cam_image_update (\<lambda>_. calloc e ?n)) ?t"
  obtain q where q: "cam_priv (cw_cam ?t) = Ptr q" "priv_io q = priv_io p"
      "sizes_ok (cam_width (cw_cam ?t)) (cam_height (cw_cam ?t)) q"
    using set_sizes_ok [of s p f] assms by auto
  have u: "cam_priv (cw_cam ?u) = Ptr q" "handles ?u = handles s" "mappings ?u = mappings s"
    "priv_io (priv_of ?u) \<noteq> IO_METHOD_USER"
    using q assms by (simp_all add: cam_defs set_sizes_def)
  have "safe (cam_set_up s) (\<lambda>_. False) (andthen (init_buffers e ?u) (\<lambda>r s.
          if r \<noteq> 0 then Some (Done (-1) (on_cam (cam_image_update (\<lambda>_. NULL)) s)) else Some (Done 0 s)))"
    if n: "calloc e ?n \<noteq> NULL"
  proof (rule safe_andthen [OF init_buffers_safe])
    show "frame_memory (cw_cam ?u)"
      using n q by (auto simp: frame_memory_def on_cam_def calloc_def split: if_splits)
  qed (use u in \<open>auto simp: cam_set_up_def cam_defs\<close>)
  then show ?thesis using u by (auto simp: init_image_def Let_def cam_set_up_def)
qed

lemma cam_set_up_from:
  "safe (cam_set_up s') E m \<Longrightarrow> handles s' = handles s \<Longrightarrow> mappings s' = mappings s \<Longrightarrow> safe (cam_set_up s) E m"
  by (erule safe_mono) (simp_all add: cam_set_up_def)

lemma skip_formats_frame:
  "skip_formats (dev_enum_fmt (cw_dev s)) = Some rs \<Longrightarrow>
   handles (on_dev (dev_enum_fmt_update (\<lambda>_. rs)) s) = handles s \<and>
   mappings (on_dev (dev_enum_fmt_update (\<lambda>_. rs)) s) = mappings s \<and>
   cw_cam (on_dev (dev_enum_fmt_update (\<lambda>_. rs)) s) = cw_cam s"
  by (simp add: cam_defs)

lemma crop_safe:
  "safe (\<lambda>_ s'. cw_cam s' = cw_cam s \<and> handles s' = handles s \<and> mappings s' = mappings s) (\<lambda>_. False) (crop s)"
  unfolding crop_def by (rule safe_ask) (auto split: sum.split intro!: safe_ask simp: cam_defs)

lemma init_format_safe:
  assumes "cam_priv (cw_cam s) = Ptr p" "priv_io p \<noteq> IO_METHOD_USER"
  shows "safe (cam_set_up s) (\<lambda>_. False) (init_format e s)"
  unfolding init_format_def
proof (rule safe_andthen [OF crop_safe], split option.split, intro conjI allI impI)
  fix t fs
  assume t: "cw_cam t = cw_cam s \<and> handles t = handles s \<and> mappings t = mappings s"
  show "safe (cam_set_up s) (\<lambda>_. False)
     (andthen (ask dev_s_fmt dev_s_fmt_update (on_dev (dev_enum_fmt_update (\<lambda>_. fs)) t)) (\<lambda>r s.
        (case r of Inl _ \<Rightarrow> Some (Done (-1) s) | Inr f \<Rightarrow> init_image e f s)))"
    by (rule safe_ask, split sum.split, intro conjI allI impI)
      (use t assms in \<open>auto simp: cam_set_up_def cam_defs intro!: cam_set_up_from [OF init_image_safe]\<close>)
qed simp

lemma init_cam_safe:
  assumes "cam_priv (cw_cam s) = Ptr p"
  shows "safe (cam_set_up s) (\<lambda>_. False) (init_cam e s)"
  unfolding init_cam_def
proof (rule safe_ask, split sum.split, intro conjI allI impI)
  fix r rs cap
  let ?s = "on_dev (dev_querycap_update (\<lambda>_. rs)) s"
  have s: "cam_priv (cw_cam ?s) = Ptr p" "handles ?s = handles s" "mappings ?s = mappings s"
      "priv_io (priv_of ?s) = priv_io p"
    using assms by (simp_all add: cam_defs)
  then show "safe (cam_set_up s) (\<lambda>_. False)
           (if \<not> cap_capture cap then Some (Done (-1) ?s)
            else if priv_io (priv_of ?s) = IO_METHOD_MMAP \<and> \<not> cap_streaming cap then Some (Done (-1) ?s)
            else if priv_io (priv_of ?s) = IO_METHOD_READ \<and> \<not> cap_readwrite cap then Some (Done (-1) ?s)
            else if priv_io (priv_of ?s) = IO_METHOD_USER then Some (Done (-1) ?s)
            else init_format e ?s)"
    using cam_set_up_from [OF init_format_safe [OF s(1)] s(2,3)] by (auto simp: cam_set_up_def)
qed (use assms in \<open>auto simp: cam_set_up_def cam_defs\<close>)

lemma webcam_close_ready:
  assumes "cam_ready (cw_cam s)"
  shows "\<exists>s'. webcam_close s = Some (Done () s') \<and> cam_priv (cw_cam s') = NULL \<and>
    handles s' = Suc (handles s) \<and> mappings s' = mappings s + held (priv_of s)"
proof -
  obtain p where "cam_priv (cw_cam s) = Ptr p" "frame_source p" using assms by (auto simp: cam_ready_def)
  then show ?thesis
    by (cases "priv_io p") (auto simp: webcam_close_def cam_defs held_def frame_source_def Let_def)
qed

text \<open>What \<^verbatim>\<open>webcam_open\<close> leaves: a ready camera that holds one handle and its mappings, or nothing.\<close>

definition opened :: "cam_world \<Rightarrow> bool \<Rightarrow> cam_world \<Rightarrow> bool" where
  "opened s ok s' \<longleftrightarrow>
     (if ok then cam_ready (cw_cam s') \<and> Suc (handles s') = handles s \<and> mappings s' + held (priv_of s') = mappings s
      else handles s' = handles s \<and> mappings s' = mappings s)"

lemma open_again_safe:
  assumes "cam_priv (cw_cam t) \<noteq> NULL" "Suc (handles t) = handles s" "mappings t = mappings s"
  shows "safe (opened s) (\<lambda>_. False) (open_again e t)"
  unfolding open_again_def
proof (rule safe_ask_open)
  fix ok rs
  let ?t = "on_dev (dev_open_update (\<lambda>_. rs)) (on_dev (dev_closes_update Suc) t)"
  let ?u = "on_priv (priv_io_update (\<lambda>_. IO_METHOD_READ)) ?t"
  assume o: "dev_open (cw_dev (on_dev (dev_closes_update Suc) t)) = ok # rs"
  obtain p where p: "cam_priv (cw_cam ?u) = Ptr p"
    using assms(1) by (cases "cam_priv (cw_cam t)") (auto simp: cam_defs)
  show "safe (opened s) (\<lambda>_. False)
    (if \<not> ok then Some (Done False ?t)
     else andthen (init_cam e ?u) (\<lambda>r s.
           if r = 0 then Some (Done True s) else Some (Done False (on_dev (dev_closes_update Suc) s))))"
  proof (cases ok)
    case True
    with o assms have u: "Suc (handles ?u) = handles s" "mappings ?u = mappings s" by (simp_all add: cam_defs)
    have "safe (opened s) (\<lambda>_. False) (andthen (init_cam e ?u) (\<lambda>r s.
           if r = 0 then Some (Done True s) else Some (Done False (on_dev (dev_closes_update Suc) s))))"
      by (rule safe_andthen [OF init_cam_safe [OF p]]) (use u in \<open>auto simp: cam_set_up_def cam_defs opened_def\<close>)
    then show ?thesis using True by simp
  qed (use o assms in \<open>simp add: cam_defs opened_def\<close>)
qed

lemma open_device_safe:
  assumes "cam_priv (cw_cam s) = Ptr p"
  shows "safe (opened s) (\<lambda>_. False) (open_device e s)"
  unfolding open_device_def
proof (rule safe_ask_open)
  fix ok rs
  let ?t = "on_dev (dev_open_update (\<lambda>_. rs)) s"
  assume o: "dev_open (cw_dev s) = ok # rs"
  have p: "cam_priv (cw_cam ?t) = Ptr p" using assms by (simp add: cam_defs)
  have u: "handles ?t + of_bool ok = handles s" "mappings ?t = mappings s"
    using o by (cases ok; simp add: cam_defs)+
  have "safe (opened s) (\<lambda>_. False) (andthen (init_cam e ?t) (\<lambda>r s.
           if r = 0 then Some (Done True s) else open_again e s))" if ok
    by (rule safe_andthen [OF init_cam_safe [OF p]])
      (use u that in \<open>auto simp: cam_set_up_def opened_def split: if_splits intro: open_again_safe\<close>)
  then show "safe (opened s) (\<lambda>_. False) (if \<not> ok then Some (Done False ?t)
       else andthen (init_cam e ?t) (\<lambda>r s. if r = 0 then Some (Done True s) else open_again e s))"
    using u by (auto simp: opened_def)
qed

lemma opened_from:
  "safe (opened s') E m \<Longrightarrow> handles s' = handles s \<Longrightarrow> mappings s' = mappings s \<Longrightarrow> safe (opened s) E m"
  by (erule safe_mono) (simp_all add: opened_def)

text \<open>
  C27. Opening a camera is never undefined, whatever the device answers. A camera that
  \<^verbatim>\<open>webcam_open\<close> returns is ready: its image has the size of its width and height, its lines and
  frames at least the sizes that the correction for bad drivers asks for, and it has a read buffer of
  the frame size or at least two mapped buffers. Closing it gives every handle and every mapping back;
  and when \<^verbatim>\<open>webcam_open\<close> returns \<^verbatim>\<open>NULL\<close> it has given them back itself.
\<close>

theorem webcam_open_close_balance:
  "safe (\<lambda>ok s'.
       if ok then cam_ready (cw_cam s') \<and>
         (\<exists>s''. webcam_close s' = Some (Done () s'') \<and> handles s'' = handles s \<and> mappings s'' = mappings s)
       else handles s' = handles s \<and> mappings s' = mappings s)
     (\<lambda>_. False) (webcam_open e is_cam i width height s)"
proof (rule safe_mono)
  show "safe (opened s) (\<lambda>_. False) (webcam_open e is_cam i width height s)"
    unfolding webcam_open_def Let_def
    by (auto split: prod.split simp: handles_def mappings_def opened_def
      intro!: opened_from [OF open_device_safe [where p = "\<lparr>priv_io = IO_METHOD_MMAP, priv_buffers = NULL,
                priv_count = 0, priv_buf = NULL, priv_img_len = 0, priv_linebytes = 0\<rparr>"]])
  fix ok s'
  assume o: "opened s ok s'"
  show "if ok then cam_ready (cw_cam s') \<and>
         (\<exists>s''. webcam_close s' = Some (Done () s'') \<and> handles s'' = handles s \<and> mappings s'' = mappings s)
       else handles s' = handles s \<and> mappings s' = mappings s"
    using o webcam_close_ready [of s'] by (cases ok) (auto simp: opened_def)
qed

section \<open>Waiting for a frame\<close>

definition sizes_small :: "webcam \<Rightarrow> bool" where
  "sizes_small c \<longleftrightarrow> 3 * unat (cam_width c) < 2 ^ 32 \<and> unat (cam_width c) * unat (cam_height c) < 2 ^ 32 \<and>
     0 < unat (cam_width c) \<and> 0 < unat (cam_height c)"

text \<open>The memory of the frames of a camera reaches as far as the conversion reads.\<close>

definition frame_room :: "webcam \<Rightarrow> bool" where
  "frame_room c =
     (let p = deref (cam_priv c); n = frame_size (cam_width c) (cam_height c) (priv_linebytes p) in
      if priv_io p = IO_METHOD_READ then n \<le> priv_img_len p
      else list_all (\<lambda>b. n \<le> length (buf_start b)) (deref (priv_buffers p)))"

lemma area_small: "unat w * unat h < 2 ^ 32 \<Longrightarrow> area w h = unat w * unat h"
  by (simp add: area_def unat_word_ariths)

lemma process_image_fits:
  assumes "cam_ready (cw_cam s)" "sizes_small (cw_cam s)"
    and "frame_size (cam_width (cw_cam s)) (cam_height (cw_cam s)) (priv_linebytes (priv_of s)) \<le> length img"
  shows "\<exists>px. process_image e img s = Some (Done () (on_cam (cam_image_update (\<lambda>_. Ptr px)) s)) \<and>
    length px = 4 * area (cam_width (cw_cam s)) (cam_height (cw_cam s))"
proof -
  obtain px where px: "cam_image (cw_cam s) = Ptr px"
    "length px = 4 * area (cam_width (cw_cam s)) (cam_height (cw_cam s))"
    using assms(1) by (auto simp: cam_ready_def)
  show ?thesis
    using frame_pixels_ok [of "cam_width (cw_cam s)" "cam_height (cw_cam s)" px "priv_linebytes (priv_of s)" img e]
      assms(2,3) px
    by (auto simp: process_image_def sizes_small_def area_small)
qed

lemma process_image_short:
  assumes "cam_ready (cw_cam s)" "sizes_small (cw_cam s)"
    and "length img < frame_size (cam_width (cw_cam s)) (cam_height (cw_cam s)) (priv_linebytes (priv_of s))"
  shows "process_image e img s = Some Undef"
  using assms frame_pixels_short [of "cam_width (cw_cam s)" "cam_height (cw_cam s)" img "priv_linebytes (priv_of s)"]
  by (auto simp: process_image_def cam_ready_def sizes_small_def split: ptr.split)

lemma cam_ready_image:
  "cam_ready (cw_cam s) \<Longrightarrow> length px = 4 * area (cam_width (cw_cam s)) (cam_height (cw_cam s)) \<Longrightarrow>
   cam_ready (cw_cam (on_cam (cam_image_update (\<lambda>_. Ptr px)) s))"
  by (auto simp: cam_ready_def on_cam_def)

text \<open>The answer of a successful wait: the sizes of the camera stay, and a frame is taken or not.\<close>

definition waited :: "cam_world \<Rightarrow> int \<Rightarrow> cam_world \<Rightarrow> bool" where
  "waited s r s' \<longleftrightarrow> cam_ready (cw_cam s') \<and> cam_width (cw_cam s') = cam_width (cw_cam s) \<and>
     cam_height (cw_cam s') = cam_height (cw_cam s) \<and> r \<in> {-1, 0, 1} \<and>
     (r \<noteq> 1 \<longrightarrow> cam_image (cw_cam s') = cam_image (cw_cam s))"

text \<open>Reading into the buffer: as many bytes as fit, and the rest of the buffer as it was.\<close>

lemma read_buffer:
  assumes "cam_ready (cw_cam s)" "priv_io (priv_of s) = IO_METHOD_READ"
  shows "\<exists>buf buf'. priv_buf (priv_of s) = Ptr buf \<and> length buf' = priv_img_len (priv_of s) \<and>
    blit buf 0 (take (priv_img_len (priv_of s)) data) = Some buf' \<and>
    cam_ready (cw_cam (on_priv (priv_buf_update (\<lambda>_. Ptr buf')) s))"
proof -
  obtain p px buf where p: "cam_priv (cw_cam s) = Ptr p" "priv_buf p = Ptr buf" "length buf = priv_img_len p"
    and rest: "cam_image (cw_cam s) = Ptr px" "length px = 4 * area (cam_width (cw_cam s)) (cam_height (cw_cam s))"
      "sizes_ok (cam_width (cw_cam s)) (cam_height (cw_cam s)) p" "priv_io p = IO_METHOD_READ"
    using assms by (auto simp: cam_ready_def frame_source_def priv_of_def)
  obtain buf' where b: "blit buf 0 (take (priv_img_len p) data) = Some buf'"
    using p(3) by (simp add: blit_Some)
  have buf': "blit buf 0 (take (priv_img_len p) data) = Some buf'" "length buf' = priv_img_len p"
    using b blit_length [OF b] p(3) by simp_all
  have "frame_source (p\<lparr>priv_buf := Ptr buf'\<rparr>)" "sizes_ok w h (p\<lparr>priv_buf := Ptr buf'\<rparr>) = sizes_ok w h p" for w h
    using rest(4) buf' by (simp_all add: frame_source_def sizes_ok_def)
  then show ?thesis
    using p rest buf' by (simp add: cam_ready_def priv_of_def on_priv_def on_cam_def)
qed

lemma read_frame_safe:
  assumes "cam_ready (cw_cam s)" "sizes_small (cw_cam s)" "frame_room (cw_cam s)"
    "priv_io (priv_of s) = IO_METHOD_READ"
  shows "safe (waited s) (\<lambda>_. False) (read_frame e s)"
  unfolding read_frame_def
proof (rule safe_ask, split sum.split, intro conjI allI impI)
  fix r rs data
  let ?s = "on_dev (dev_read_update (\<lambda>_. rs)) s"
  have s: "cam_ready (cw_cam ?s)" "priv_io (priv_of ?s) = IO_METHOD_READ"
    using assms by (simp_all add: on_dev_def priv_of_def)
  from read_buffer [OF this, of data] obtain buf buf' where
    buf: "priv_buf (priv_of ?s) = Ptr buf" "blit buf 0 (take (priv_img_len (priv_of ?s)) data) = Some buf'"
    and len: "length buf' = priv_img_len (priv_of ?s)"
    and ready: "cam_ready (cw_cam (on_priv (priv_buf_update (\<lambda>_. Ptr buf')) ?s))" by blast
  let ?t = "on_priv (priv_buf_update (\<lambda>_. Ptr buf')) ?s"
  obtain p where p: "cam_priv (cw_cam s) = Ptr p" using assms(1) by (auto simp: cam_ready_def)
  have t: "cam_ready (cw_cam ?t)" "sizes_small (cw_cam ?t)"
    using ready assms(2) by (simp_all add: sizes_small_def on_priv_def on_cam_def on_dev_def)
  have "frame_size (cam_width (cw_cam ?t)) (cam_height (cw_cam ?t)) (priv_linebytes (priv_of ?t)) \<le> length buf'"
    using assms(3,4) p len by (simp add: frame_room_def Let_def on_priv_def on_cam_def on_dev_def priv_of_def)
  from process_image_fits [OF t(1,2) this, of e]
  obtain px where "process_image e buf' ?t = Some (Done () (on_cam (cam_image_update (\<lambda>_. Ptr px)) ?t))"
    "length px = 4 * area (cam_width (cw_cam ?t)) (cam_height (cw_cam ?t))" by blast
  then show "safe (waited s) (\<lambda>_. False)
     (case priv_buf (priv_of ?s) of NULL \<Rightarrow> Some Undef
      | Ptr buf \<Rightarrow> need (blit buf 0 (take (priv_img_len (priv_of ?s)) data)) (\<lambda>buf.
          andthen (process_image e buf (on_priv (priv_buf_update (\<lambda>_. Ptr buf)) ?s)) (\<lambda>_ s. Some (Done 1 s))))"
    using buf cam_ready_image [OF t(1), of px] by (simp add: waited_def on_priv_def on_cam_def on_dev_def)
qed (use assms in \<open>auto simp: waited_def on_dev_def\<close>)

lemma mmap_frame_safe:
  assumes "cam_ready (cw_cam s)" "sizes_small (cw_cam s)" "frame_room (cw_cam s)"
    "priv_io (priv_of s) = IO_METHOD_MMAP"
  shows "safe (waited s) (\<lambda>_. False) (mmap_frame e s)"
  unfolding mmap_frame_def
proof (rule safe_ask, split sum.split, intro conjI allI impI)
  fix r rs i
  let ?s = "on_dev (dev_dqbuf_update (\<lambda>_. rs)) s"
  obtain p bufs where p: "cam_priv (cw_cam s) = Ptr p" "priv_buffers p = Ptr bufs" "length bufs = priv_count p"
    "priv_io p = IO_METHOD_MMAP"
    using assms by (auto simp: cam_ready_def frame_source_def priv_of_def)
  have s: "cam_ready (cw_cam ?s)" "sizes_small (cw_cam ?s)" "priv_of ?s = p" "waited s (-1) ?s"
    using assms p by (simp_all add: on_dev_def priv_of_def waited_def)
  have "safe (waited s) (\<lambda>_. False)
      (andthen (process_image e (buf_start (bufs ! i)) ?s) (\<lambda>_ s.
       andthen (ask dev_qbuf dev_qbuf_update s) (\<lambda>_ s. Some (Done 1 s))))" if i: "i < length bufs"
  proof -
    have "frame_size (cam_width (cw_cam ?s)) (cam_height (cw_cam ?s)) (priv_linebytes (priv_of ?s))
        \<le> length (buf_start (bufs ! i))"
      using assms(3) p i by (simp add: frame_room_def Let_def list_all_length on_dev_def priv_of_def)
    from process_image_fits [OF s(1,2) this, of e]
    obtain px where "process_image e (buf_start (bufs ! i)) ?s = Some (Done () (on_cam (cam_image_update (\<lambda>_. Ptr px)) ?s))"
      "length px = 4 * area (cam_width (cw_cam ?s)) (cam_height (cw_cam ?s))" by blast
    then show ?thesis
      using cam_ready_image [OF s(1), of px] by (auto intro!: safe_ask simp: waited_def on_dev_def on_cam_def)
  qed
  then show "safe (waited s) (\<lambda>_. False)
    (if priv_count (priv_of ?s) \<le> i then Some (Done (-1) ?s)
     else (case priv_buffers (priv_of ?s) of NULL \<Rightarrow> Some Undef
               | Ptr bufs \<Rightarrow>
                   if length bufs \<le> i then Some Undef
                   else if priv_img_len (priv_of ?s) < buf_len (bufs ! i) then
                     andthen (ask dev_qbuf dev_qbuf_update ?s) (\<lambda>_ s. Some (Done (-1) s))
                   else
                     andthen (process_image e (buf_start (bufs ! i)) ?s) (\<lambda>_ s.
                     andthen (ask dev_qbuf dev_qbuf_update s) (\<lambda>_ s. Some (Done 1 s)))))"
    using p s by (auto intro!: safe_ask simp: waited_def on_dev_def)
qed (use assms in \<open>auto simp: waited_def on_dev_def\<close>)

lemma wait_frame_safe:
  assumes "cam_ready (cw_cam s)" "sizes_small (cw_cam s)" "frame_room (cw_cam s)"
  shows "safe (waited s) (\<lambda>_. False) (webcam_wait_frame e delay s)"
proof -
  obtain p where p: "cam_priv (cw_cam s) = Ptr p" "frame_source p" using assms by (auto simp: cam_ready_def)
  show ?thesis
    unfolding webcam_wait_frame_def p(1) ptr.case
  proof (rule safe_ask, split sum.split, intro conjI allI impI)
    fix r rs ready
    let ?s = "on_dev (dev_select_update (\<lambda>_. rs)) s"
    have s: "cam_ready (cw_cam ?s)" "sizes_small (cw_cam ?s)" "frame_room (cw_cam ?s)" "waited ?s = waited s"
        "priv_io (priv_of ?s) = priv_io p"
      using assms p by (auto simp: on_dev_def waited_def priv_of_def fun_eq_iff)
    have "priv_io p \<noteq> IO_METHOD_USER" using p by (auto simp: frame_source_def)
    then show "safe (waited s) (\<lambda>_. False) (if \<not> ready then Some (Done 0 ?s)
        else (case priv_io p of IO_METHOD_READ \<Rightarrow> read_frame e ?s | IO_METHOD_MMAP \<Rightarrow> mmap_frame e ?s
           | IO_METHOD_USER \<Rightarrow> Some (Done (-1) ?s)))"
      using read_frame_safe [OF s(1-3), of e] mmap_frame_safe [OF s(1-3), of e] s
      by (auto split: io_method.split simp: waited_def on_dev_def)
  qed (use assms in \<open>auto simp: waited_def on_dev_def\<close>)
qed

text \<open>
  C28. Waiting for a frame on a ready camera: when the memory of the frames reaches to the last pixel
  of the last line, the wait is never undefined, returns -1, 0 or 1, keeps the camera ready and its
  sizes, and changes the image only when it returns 1. When the frame size is too small for that, the
  first frame that is read is converted past the end of the read buffer; the correction of the sizes in
  \<^verbatim>\<open>init_cam\<close> does not exclude it, as it asks for two bytes per pixel where the conversion reads three.
\<close>

theorem webcam_wait_frame_spec:
  assumes "cam_ready (cw_cam s)" "sizes_small (cw_cam s)"
  shows "if frame_room (cw_cam s) then safe (waited s) (\<lambda>_. False) (webcam_wait_frame e delay s)
    else priv_io (priv_of s) = IO_METHOD_READ \<and> dev_select (cw_dev s) = Inr True # sel \<and>
      dev_read (cw_dev s) = Inr data # rds \<longrightarrow> webcam_wait_frame e delay s = Some Undef"
proof -
  obtain p where p: "cam_priv (cw_cam s) = Ptr p" "frame_source p" using assms by (auto simp: cam_ready_def)
  show ?thesis
  proof (cases "frame_room (cw_cam s)")
    case True
    then show ?thesis using wait_frame_safe [OF assms True] by simp
  next
    case False
    {
      assume d: "priv_io (priv_of s) = IO_METHOD_READ" "dev_select (cw_dev s) = Inr True # sel"
        "dev_read (cw_dev s) = Inr data # rds"
      let ?s = "on_dev (dev_read_update (\<lambda>_. rds)) (on_dev (dev_select_update (\<lambda>_. sel)) s)"
      have "cam_ready (cw_cam ?s)" "priv_io (priv_of ?s) = IO_METHOD_READ"
        using assms d by (simp_all add: on_dev_def priv_of_def)
      from read_buffer [OF this, of data] obtain buf buf' where
        buf: "priv_buf (priv_of ?s) = Ptr buf" "blit buf 0 (take (priv_img_len (priv_of ?s)) data) = Some buf'"
        and len: "length buf' = priv_img_len (priv_of ?s)"
        and ready: "cam_ready (cw_cam (on_priv (priv_buf_update (\<lambda>_. Ptr buf')) ?s))" by blast
      let ?t = "on_priv (priv_buf_update (\<lambda>_. Ptr buf')) ?s"
      have "process_image e buf' ?t = Some Undef"
      proof (rule process_image_short [OF ready])
        show "sizes_small (cw_cam ?t)"
          using assms(2) by (simp add: sizes_small_def on_priv_def on_cam_def on_dev_def)
        show "length buf' < frame_size (cam_width (cw_cam ?t)) (cam_height (cw_cam ?t)) (priv_linebytes (priv_of ?t))"
          using False d(1) p len by (simp add: frame_room_def Let_def on_priv_def on_cam_def on_dev_def priv_of_def)
      qed
      then have "webcam_wait_frame e delay s = Some Undef"
        using d p buf
        by (simp add: webcam_wait_frame_def read_frame_def ask_def priv_of_def on_dev_def)
    }
    then show ?thesis using False by simp
  qed
qed

definition short_priv :: priv where
  "short_priv = \<lparr>priv_io = IO_METHOD_READ, priv_buffers = NULL, priv_count = 0, priv_buf = Ptr (replicate 4 0),
     priv_img_len = 4, priv_linebytes = 2\<rparr>"

definition short_world :: cam_world where
  "short_world = \<lparr>cw_cam = \<lparr>cam_priv = Ptr short_priv, cam_width = 1, cam_height = 2, cam_image = Ptr (replicate 8 0)\<rparr>,
     cw_dev = \<lparr>dev_open = [], dev_querycap = [], dev_cropcap = [], dev_s_crop = [], dev_enum_fmt = [], dev_s_fmt = [],
       dev_reqbufs = [], dev_querybuf = [], dev_mmap = [], dev_qbuf = [], dev_dqbuf = [], dev_streamon = [],
       dev_streamoff = [], dev_select = [Inr True], dev_read = [Inr [1, 2, 3, 4]], dev_closes = 0, dev_munmaps = 0\<rparr>\<rparr>"

theorem webcam_wait_frame_spec_witness:
  "webcam_wait_frame easy_env 10 short_world = Some Undef \<and>
   safe (waited (short_world\<lparr>cw_cam := example_cam\<rparr>)) (\<lambda>_. False)
     (webcam_wait_frame easy_env 10 (short_world\<lparr>cw_cam := example_cam\<rparr>))"
  using webcam_wait_frame_spec [of short_world easy_env 10 "[]" "[1, 2, 3, 4]" "[]"]
    webcam_wait_frame_spec [of "short_world\<lparr>cw_cam := example_cam\<rparr>" easy_env 10]
  by (simp add: short_world_def short_priv_def example_cam_def example_priv_def cam_ready_def sizes_small_def
    sizes_ok_def frame_source_def frame_room_def frame_size_def area_def priv_of_def)


section \<open>The device library\<close>

text \<open>
  Every call through the table looks the library up again, as \<^verbatim>\<open>init\<close> never notes that it has run: each
  takes one more handle of the library. A function comes from the library when that has it.
\<close>

lemma v4l2_call_reloads:
  assumes "\<not> dl_initialized d" "lib \<in> set names" "dlopen lib"
    and "nm \<in> {''open'', ''close'', ''ioctl'', ''read'', ''mmap'', ''munmap'', ''get_control'', ''set_control''}"
  shows "\<exists>f d'. v4l2_call dlopen dlsym nm d = (Ptr f, d') \<and> dl_loads d' = Suc (dl_loads d) \<and> \<not> dl_initialized d' \<and>
    f = (if dlsym (the (find dlopen names)) (''v4l2_'' @ nm) then FromLibrary (''v4l2_'' @ nm) else OwnFunction nm)"
proof -
  obtain l where "find dlopen names = Some l" using assms(2,3) by (cases "find dlopen names") (auto simp: find_None_iff)
  then show ?thesis using assms(1,4) by (auto simp: v4l2_call_def init_def Let_def)
qed

end
