(* ===== verification/Rfbcam.thy ===== *)
theory Rfbcam
  imports Server V4l2
begin

text \<open>
  The camera server \<^verbatim>\<open>src/rfbcam/rfbcam.c\<close>, which ties the library of the server and that of the
  camera together. The threads of the server act before each of its calls: a script of changes of the
  server. A second script says each time the program looks whether SIGINT has arrived.
\<close>

section \<open>Data\<close>

record levels =
  brightness :: int
  contrast :: int
  saturation :: int
  gamma :: int

record app =
  ap_cam :: cam_world
  ap_srv :: server_world
  ap_levels :: levels
  ap_calls :: "(webcam_controls \<times> int) list"
  ap_others :: "(server_world \<Rightarrow> server_world) list"
  ap_sigint :: "bool list"

type_synonym 'a app_act = "app \<Rightarrow> (app, 'a) outcome option"

definition others_run :: "app \<Rightarrow> app" where
  "others_run a =
     (case ap_others a of [] \<Rightarrow> a | f # fs \<Rightarrow> a\<lparr>ap_srv := f (ap_srv a), ap_others := fs\<rparr>)"

text \<open>Calls of the two libraries.\<close>

definition with_srv ::
  "(server_world ptr \<Rightarrow> (server_world ptr, 'a) outcome option) \<Rightarrow> 'a app_act" where
  "with_srv f a =
     (let a = others_run a in
      map_option (map_outcome (\<lambda>p. a\<lparr>ap_srv := deref p\<rparr>) id) (f (Ptr (ap_srv a))))"

definition with_world :: "'a sact \<Rightarrow> 'a app_act" where
  "with_world f a = map_option (map_outcome (\<lambda>s. a\<lparr>ap_srv := s\<rparr>) id) (f (ap_srv a))"

definition with_cam :: "'a cam_act \<Rightarrow> 'a app_act" where
  "with_cam f a = map_option (map_outcome (\<lambda>c. a\<lparr>ap_cam := c\<rparr>) id) (f (ap_cam a))"

section \<open>Frames\<close>

text \<open>The call of \<^verbatim>\<open>draw_image\<close> is commented out in the source.\<close>

definition draw_frame :: "cenv \<Rightarrow> unit app_act" where
  "draw_frame e a =
     andthen (with_srv trfb_server_updated a) (\<lambda>u a.
       if u = 0 then Some (Done () a)
       else
         andthen (with_srv (\<lambda>s. trfb_server_lock_fb s 0) a) (\<lambda>_ a.
         andthen (with_cam (webcam_wait_frame e 10) a) (\<lambda>r a.
         andthen
           (if 0 < r then
              andthen (with_srv trfb_server_unlock_fb a) (\<lambda>_ a. with_srv (\<lambda>s. trfb_server_lock_fb s 1) a)
            else Some (Done 0 a)) (\<lambda>_ a.
         andthen (with_srv trfb_server_unlock_fb a) (\<lambda>_ a. Some (Done () a))))))"

section \<open>Keys\<close>

text \<open>
  The macros \<^verbatim>\<open>INCR\<close> and \<^verbatim>\<open>DECR\<close>: the new value of a level, and nothing for a level that is not
  supported.
\<close>

definition INCR :: "int \<Rightarrow> int option" where
  "INCR param = (if 0 \<le> param then Some (if 100 < param + 1 then 100 else param + 1) else None)"

definition DECR :: "int \<Rightarrow> int option" where
  "DECR param = (if 0 \<le> param then Some (if param - 1 < 0 then 0 else param - 1) else None)"

text \<open>Setting a level and handing it to the camera.\<close>

definition set_level :: "(int \<Rightarrow> levels \<Rightarrow> levels) \<Rightarrow> webcam_controls \<Rightarrow> int option \<Rightarrow> unit app_act" where
  "set_level upd nm v a =
     (case v of
        None \<Rightarrow> Some (Done () a)
      | Some v \<Rightarrow>
          need (webcam_set_control (\<lambda>_ _. 0) (Ptr (cw_cam (ap_cam a))) nm v) (\<lambda>_.
            Some (Done () (a\<lparr>ap_levels := upd v (ap_levels a), ap_calls := ap_calls a @ [(nm, v)]\<rparr>))))"

definition is_key :: "u32 \<Rightarrow> string \<Rightarrow> bool" where
  "is_key code cs = list_ex (\<lambda>c. code = of_nat (of_char c)) cs"

definition handle_key :: "u32 \<Rightarrow> unit app_act" where
  "handle_key code a =
     (let l = ap_levels a in
      if is_key code ''aA'' then set_level (\<lambda>v. brightness_update (\<lambda>_. v)) WEBCAM_BRIGHTNESS (INCR (brightness l)) a
      else if is_key code ''zZ'' then set_level (\<lambda>v. brightness_update (\<lambda>_. v)) WEBCAM_BRIGHTNESS (DECR (brightness l)) a
      else if is_key code ''sS'' then set_level (\<lambda>v. contrast_update (\<lambda>_. v)) WEBCAM_CONTRAST (INCR (contrast l)) a
      else if is_key code ''xX'' then set_level (\<lambda>v. contrast_update (\<lambda>_. v)) WEBCAM_CONTRAST (DECR (contrast l)) a
      else if is_key code ''dD'' then set_level (\<lambda>v. gamma_update (\<lambda>_. v)) WEBCAM_GAMMA (INCR (gamma l)) a
      else if is_key code ''cC'' then set_level (\<lambda>v. gamma_update (\<lambda>_. v)) WEBCAM_GAMMA (DECR (gamma l)) a
      else if is_key code ''fF'' then set_level (\<lambda>v. saturation_update (\<lambda>_. v)) WEBCAM_SATURATION (INCR (saturation l)) a
      else if is_key code ''vV'' then set_level (\<lambda>v. saturation_update (\<lambda>_. v)) WEBCAM_SATURATION (DECR (saturation l)) a
      else Some (Done () a))"

definition handle_event :: "trfb_event \<Rightarrow> unit app_act" where
  "handle_event ev a =
     andthen
       (case ev of EvKey down code \<Rightarrow> if down \<noteq> 0 then handle_key code a else Some (Done () a)
        | _ \<Rightarrow> Some (Done () a)) (\<lambda>_ a.
     need (trfb_event_clear (Ptr ev) (srv_heap (ap_srv a))) (\<lambda>(_, h).
       Some (Done () (a\<lparr>ap_srv := (ap_srv a)\<lparr>srv_heap := h\<rparr>\<rparr>))))"

text \<open>The \<^verbatim>\<open>while\<close> loop over the events; \<open>ev\<close> is what the variable \<^verbatim>\<open>event\<close> holds.\<close>

partial_function (option) poll_loop :: "trfb_event \<Rightarrow> app \<Rightarrow> (app, trfb_event) outcome option" where
  "poll_loop ev a =
     andthen (with_srv (\<lambda>s. trfb_server_poll_event s (Ptr ev)) a) (\<lambda>r a.
       if fst r = 0 then Some (Done ev a)
       else andthen (handle_event (deref (snd r)) a) (\<lambda>_ a. poll_loop EvNone a))"

section \<open>The program\<close>

definition take_signal :: "app \<Rightarrow> bool \<times> app" where
  "take_signal a = (case ap_sigint a of [] \<Rightarrow> (False, a) | b # bs \<Rightarrow> (b, a\<lparr>ap_sigint := bs\<rparr>))"

definition quit :: "'a app_act" where
  "quit a =
     andthen (with_world trfb_server_stop a) (\<lambda>_ a.
     andthen (with_world trfb_server_destroy a) (\<lambda>_ a. Some (Exit a)))"

partial_function (option) main_loop :: "cenv \<Rightarrow> trfb_event \<Rightarrow> app \<Rightarrow> (app, int) outcome option" where
  "main_loop e ev a =
     andthen (draw_frame e a) (\<lambda>_ a.
     andthen (poll_loop ev a) (\<lambda>ev a.
       let (stop, a) = take_signal a in
       if stop then quit a else main_loop e ev a))"

text \<open>
  The start of the program: \<open>found\<close> are the addresses to bind, \<open>thread_ok\<close> is whether the thread of
  the server can be created, \<open>get_ctl\<close> the values of the camera's controls. The value is the exit code;
  the camera is not closed when the program returns.
\<close>

definition start_levels :: "(int \<Rightarrow> int) \<Rightarrow> webcam \<Rightarrow> levels option" where
  "start_levels get_ctl cam = do {
     b \<leftarrow> webcam_get_control get_ctl (Ptr cam) WEBCAM_BRIGHTNESS;
     s \<leftarrow> webcam_get_control get_ctl (Ptr cam) WEBCAM_SATURATION;
     g \<leftarrow> webcam_get_control get_ctl (Ptr cam) WEBCAM_GAMMA;
     c \<leftarrow> webcam_get_control get_ctl (Ptr cam) WEBCAM_CONTRAST;
     Some \<lparr>brightness = b, contrast = c, saturation = s, gamma = g\<rparr> }"

definition main_run :: "cenv \<Rightarrow> (int \<Rightarrow> int) \<Rightarrow> trfb_event \<Rightarrow> int app_act" where
  "main_run e get_ctl ev a =
     need (start_levels get_ctl (cw_cam (ap_cam a))) (\<lambda>l.
       andthen (with_cam webcam_start (a\<lparr>ap_levels := l\<rparr>)) (\<lambda>_ a. main_loop e ev a))"

definition main :: "cenv \<Rightarrow> (nat \<Rightarrow> bool) \<Rightarrow> (int \<times> bool) list option \<Rightarrow> bool \<Rightarrow> (int \<Rightarrow> int) \<Rightarrow> trfb_event \<Rightarrow> int app_act"
  where
  "main e is_cam found thread_ok get_ctl ev a =
     andthen (with_cam (webcam_open e is_cam 0 640 480) a) (\<lambda>ok a.
       if \<not> ok then Some (Done 1 a)
       else
         need (trfb_server_create e 640 480 4) (\<lambda>srv.
           (case srv of
              NULL \<Rightarrow> Some (Done 1 a)
            | Ptr s \<Rightarrow>
                andthen (with_world (trfb_server_bind found)
                    (a\<lparr>ap_srv := trfb_server.extend s (trfb_server.more (ap_srv a))\<rparr>)) (\<lambda>r a.
                  if fst r \<noteq> 0 then Some (Done 1 a)
                  else
                    andthen (with_world (trfb_server_start thread_ok) a) (\<lambda>r a.
                      if r \<noteq> 0 then Some (Done 1 a) else main_run e get_ctl ev a)))))"

end
