(* ===== verification/Rfbcam_Props.thy ===== *)
theory Rfbcam_Props
  imports Rfbcam V4l2_Props
begin

text \<open>
  What the camera server does with the keys of its clients and with the frames of its camera.
\<close>

section \<open>Levels\<close>

fun level :: "webcam_controls \<Rightarrow> levels \<Rightarrow> int" where
  "level WEBCAM_BRIGHTNESS l = brightness l"
| "level WEBCAM_CONTRAST l = contrast l"
| "level WEBCAM_SATURATION l = saturation l"
| "level WEBCAM_GAMMA l = gamma l"

fun put_level :: "webcam_controls \<Rightarrow> int \<Rightarrow> levels \<Rightarrow> levels" where
  "put_level WEBCAM_BRIGHTNESS v l = l\<lparr>brightness := v\<rparr>"
| "put_level WEBCAM_CONTRAST v l = l\<lparr>contrast := v\<rparr>"
| "put_level WEBCAM_SATURATION v l = l\<lparr>saturation := v\<rparr>"
| "put_level WEBCAM_GAMMA v l = l\<lparr>gamma := v\<rparr>"

lemma level_put: "level c (put_level d v l) = (if c = d then v else level c l)"
  by (cases c; cases d) simp_all

text \<open>The keys, each with its control and its direction.\<close>

definition key_table :: "(string \<times> webcam_controls \<times> int) list" where
  "key_table =
     [(''aA'', WEBCAM_BRIGHTNESS, 1), (''zZ'', WEBCAM_BRIGHTNESS, -1), (''sS'', WEBCAM_CONTRAST, 1),
      (''xX'', WEBCAM_CONTRAST, -1), (''dD'', WEBCAM_GAMMA, 1), (''cC'', WEBCAM_GAMMA, -1),
      (''fF'', WEBCAM_SATURATION, 1), (''vV'', WEBCAM_SATURATION, -1)]"

definition key_action :: "u32 \<Rightarrow> (webcam_controls \<times> int) option" where
  "key_action code = map_option snd (find (\<lambda>(cs, _). is_key code cs) key_table)"

definition turned :: "webcam_controls \<Rightarrow> int \<Rightarrow> levels \<Rightarrow> int" where
  "turned c d l = (if 0 < d then min 100 (level c l + d) else max 0 (level c l + d))"

text \<open>What a key does to the program: one control one step up, to 100 at most, or down, to 0 at
  least, or nothing. A level above 100 falls to 100 when it is turned up, and by one when it is turned down.\<close>

definition key_effect :: "u32 \<Rightarrow> app \<Rightarrow> app" where
  "key_effect code a =
     (case key_action code of
        None \<Rightarrow> a
      | Some (c, d) \<Rightarrow>
          if level c (ap_levels a) < 0 then a
          else a\<lparr>ap_levels := put_level c (turned c d (ap_levels a)) (ap_levels a),
                 ap_calls := ap_calls a @ [(c, turned c d (ap_levels a))]\<rparr>)"

text \<open>No level is so large that handing it to the camera overflows.\<close>

definition levels_ok :: "levels \<Rightarrow> bool" where
  "levels_ok l \<longleftrightarrow> (\<forall>c. level c l \<le> 131071)"

lemma set_control_defined: "0 \<le> v \<Longrightarrow> v \<le> 131071 \<Longrightarrow> \<exists>r. webcam_set_control f p nm v = Some r"
  by (simp add: webcam_set_control_def c_int_def Let_def)

lemma set_level_turned:
  assumes v: "v = (if level c (ap_levels a) < 0 then None else Some (turned c d (ap_levels a)))"
    and "level c (ap_levels a) \<le> 131071" "d \<in> {1, -1}"
  shows "set_level (put_level c) c v a = Some (Done () (
    if level c (ap_levels a) < 0 then a
    else a\<lparr>ap_levels := put_level c (turned c d (ap_levels a)) (ap_levels a),
           ap_calls := ap_calls a @ [(c, turned c d (ap_levels a))]\<rparr>))"
proof (cases "level c (ap_levels a) < 0")
  case False
  with assms(2,3) have "0 \<le> turned c d (ap_levels a)" "turned c d (ap_levels a) \<le> 131071"
    by (auto simp: turned_def)
  from set_control_defined [OF this, of "\<lambda>_ _. 0" "Ptr (cw_cam (ap_cam a))" c] False v show ?thesis
    by (auto simp: set_level_def)
qed (simp add: v set_level_def)

lemma INCR_turned: "INCR (level c l) = (if level c l < 0 then None else Some (turned c 1 l))"
  by (auto simp: INCR_def turned_def)

lemma DECR_turned: "DECR (level c l) = (if level c l < 0 then None else Some (turned c (-1) l))"
  by (auto simp: DECR_def turned_def)

lemma updates_put:
  "(\<lambda>v. brightness_update (\<lambda>_. v)) = put_level WEBCAM_BRIGHTNESS" "(\<lambda>v. contrast_update (\<lambda>_. v)) = put_level WEBCAM_CONTRAST"
  "(\<lambda>v. saturation_update (\<lambda>_. v)) = put_level WEBCAM_SATURATION" "(\<lambda>v. gamma_update (\<lambda>_. v)) = put_level WEBCAM_GAMMA"
  by (simp_all add: fun_eq_iff)

lemma handle_key_table:
  "handle_key code a =
     (case key_action code of None \<Rightarrow> Some (Done () a)
      | Some (c, d) \<Rightarrow> set_level (put_level c) c
          (if level c (ap_levels a) < 0 then None else Some (turned c d (ap_levels a))) a)"
  using INCR_turned [of WEBCAM_BRIGHTNESS] INCR_turned [of WEBCAM_CONTRAST] INCR_turned [of WEBCAM_SATURATION]
    INCR_turned [of WEBCAM_GAMMA] DECR_turned [of WEBCAM_BRIGHTNESS] DECR_turned [of WEBCAM_CONTRAST]
    DECR_turned [of WEBCAM_SATURATION] DECR_turned [of WEBCAM_GAMMA]
  by (simp add: handle_key_def key_action_def key_table_def updates_put Let_def del: put_level.simps)

lemma key_action_step: "key_action code = Some (c, d) \<Longrightarrow> d \<in> {1, -1}"
  by (auto simp: key_action_def key_table_def split: if_splits)

lemma handle_key_effect:
  assumes "levels_ok (ap_levels a)"
  shows "handle_key code a = Some (Done () (key_effect code a))"
  using assms set_level_turned [OF refl] key_action_step [of code]
  by (auto simp: handle_key_table key_effect_def levels_ok_def split: option.split)

lemma key_effect_ok:
  assumes "levels_ok (ap_levels a)"
  shows "levels_ok (ap_levels (key_effect code a))"
proof -
  have "turned c d l \<le> 131071" if "level c l \<le> 131071" for c d l
    using that by (auto simp: turned_def)
  then show ?thesis
    using assms by (auto simp: key_effect_def levels_ok_def level_put split: option.split)
qed

lemma key_effect_step:
  assumes "level c (ap_levels a) \<le> 100"
  shows "level c (ap_levels (key_effect code a)) \<le> 100 \<and>
    \<bar>level c (ap_levels (key_effect code a)) - level c (ap_levels a)\<bar> \<le> 1"
  using assms key_action_step [of code]
  by (auto simp: key_effect_def level_put turned_def split: option.split)

lemma key_effect_srv [simp]: "ap_srv (key_effect code a) = ap_srv a" "ap_others (key_effect code a) = ap_others a"
  "ap_cam (key_effect code a) = ap_cam a" "ap_sigint (key_effect code a) = ap_sigint a"
  by (simp_all add: key_effect_def split: option.split prod.split)

text \<open>
  C39. The levels the program starts with are at most 131071, whatever the camera reports, and with such
  levels no key is undefined: each of the sixteen keys turns its control one step, up to 100 at most or
  down to 0 at least, hands the camera the new value and leaves the other controls alone; a control the
  camera does not have (its level is negative) and any other key change nothing; and the levels stay in that
  range. A level up to 100 stays there and moves by one at most. A level above 100 does not get into the
  interval in one step down: 200 becomes 199; turned up it falls to 100.
\<close>

theorem control_keys_spec:
  "(start_levels get_ctl cam = Some l \<longrightarrow> levels_ok l) \<and>
   (levels_ok (ap_levels a) \<longrightarrow>
      handle_key code a = Some (Done () (key_effect code a)) \<and> levels_ok (ap_levels (key_effect code a))) \<and>
   (level c (ap_levels a) \<le> 100 \<longrightarrow> level c (ap_levels (key_effect code a)) \<le> 100 \<and>
      \<bar>level c (ap_levels (key_effect code a)) - level c (ap_levels a)\<bar> \<le> 1)"
proof -
  have b: "p \<le> 131071" if get: "webcam_get_control get_ctl (Ptr cam) i = Some p" for p i
  proof -
    have d: "v div 16384 \<le> 131071" if "v < 2147483648" for v :: int using that by simp
    show ?thesis
      using get by (auto simp: webcam_get_control_def c_int_def c_div_def Let_def intro!: d split: if_splits)
  qed
  obtain b c s g where "start_levels get_ctl cam = Some l \<longrightarrow>
      l = \<lparr>brightness = b, contrast = c, saturation = s, gamma = g\<rparr> \<and> b \<le> 131071 \<and> c \<le> 131071 \<and>
      s \<le> 131071 \<and> g \<le> 131071"
    using b by (fastforce simp: start_levels_def split: bind_splits)
  then have "levels_ok l" if "start_levels get_ctl cam = Some l"
    using that unfolding levels_ok_def by (metis level.simps levels.select_convs webcam_controls.exhaust)
  then show ?thesis using handle_key_effect key_effect_ok key_effect_step by blast
qed


section \<open>Events\<close>

definition event_effect :: "trfb_event \<Rightarrow> app \<Rightarrow> app" where
  "event_effect ev a = (case ev of EvKey down code \<Rightarrow> if down \<noteq> 0 then key_effect code a else a | _ \<Rightarrow> a)"

lemma event_effect_srv: "event_effect ev (a\<lparr>ap_srv := s\<rparr>) = (event_effect ev a)\<lparr>ap_srv := s\<rparr>"
  by (simp add: event_effect_def key_effect_def split: trfb_event.split option.split prod.split)

lemma fold_effect_srv: "fold event_effect q (a\<lparr>ap_srv := s\<rparr>) = (fold event_effect q a)\<lparr>ap_srv := s\<rparr>"
  by (induction q arbitrary: a) (simp_all add: event_effect_srv)

lemma event_effect_simps [simp]:
  "ap_srv (event_effect ev a) = ap_srv a" "ap_others (event_effect ev a) = ap_others a"
  by (simp_all add: event_effect_def split: trfb_event.split)

lemma event_effect_ok: "levels_ok (ap_levels a) \<Longrightarrow> levels_ok (ap_levels (event_effect ev a))"
  by (simp add: event_effect_def key_effect_ok split: trfb_event.split)

lemma handle_event_effect:
  assumes "levels_ok (ap_levels a)" "trfb_event_clear (Ptr ev) (srv_heap (ap_srv a)) = Some (p, h)"
  shows "handle_event ev a = Some (Done () ((event_effect ev a)\<lparr>ap_srv := (ap_srv a)\<lparr>srv_heap := h\<rparr>\<rparr>))"
  using assms by (auto simp: handle_event_def event_effect_def handle_key_effect split: trfb_event.split)

lemma with_srv_poll:
  assumes "ap_others a = []" "poll_event_body ev (ap_srv a) = Some (Done r s)"
  shows "with_srv (\<lambda>s. trfb_server_poll_event s (Ptr ev)) a = Some (Done r (a\<lparr>ap_srv := s\<rparr>))"
  using assms by (simp add: with_srv_def others_run_def trfb_server_poll_event_def on_server_def)

lemma poll_loop_drains:
  assumes "ap_others a = []" "events_wf (ap_srv a)" "texts_owned (ap_srv a)" "levels_ok (ap_levels a)"
  shows "\<exists>ev' s. poll_loop ev a = Some (Done ev' ((fold event_effect (srv_queue (ap_srv a)) a)\<lparr>ap_srv := s\<rparr>)) \<and>
    events_wf s \<and> srv_queue s = [] \<and>
    (\<forall>x. heap_blocks (srv_heap s) x =
       (if x \<in> set (concat (map event_texts (srv_queue (ap_srv a)))) then None
        else heap_blocks (srv_heap (ap_srv a)) x))"
  using assms
proof (induction "srv_queue (ap_srv a)" arbitrary: a ev)
  case Nil
  then have "poll_event_body ev (ap_srv a) = Some (Done (0, Ptr ev) (ap_srv a))"
    by (intro poll_event_empty) simp_all
  from with_srv_poll [OF Nil.prems(1) this] Nil show ?case
    by (subst poll_loop.simps) (auto intro!: exI [of _ "ap_srv a"])
next
  case (Cons e es)
  from poll_and_clear [OF Cons.prems(2,3) Cons.hyps(2) [symmetric], of ev] obtain s h where
    poll: "poll_event_body ev (ap_srv a) = Some (Done (1, Ptr e) s)"
    and clear: "trfb_event_clear (Ptr e) (srv_heap s) = Some (Ptr EvNone, h)"
    and heap: "\<forall>x. heap_blocks h x = (if x \<in> set (event_texts e) then None else heap_blocks (srv_heap (ap_srv a)) x)"
    and s: "events_wf (s\<lparr>srv_heap := h\<rparr>)" "texts_owned (s\<lparr>srv_heap := h\<rparr>)" "srv_queue (s\<lparr>srv_heap := h\<rparr>) = es"
    by blast
  let ?b = "(event_effect e a)\<lparr>ap_srv := s\<lparr>srv_heap := h\<rparr>\<rparr>"
  have "handle_event e (a\<lparr>ap_srv := s\<rparr>) = Some (Done () ?b)"
    using handle_event_effect [of "a\<lparr>ap_srv := s\<rparr>" e] clear Cons.prems(4) by (simp add: event_effect_srv)
  then have step: "poll_loop ev a = poll_loop EvNone ?b"
    using with_srv_poll [OF Cons.prems(1) poll] by (subst poll_loop.simps) simp
  have "es = srv_queue (ap_srv ?b)" "ap_others ?b = []" "events_wf (ap_srv ?b)" "texts_owned (ap_srv ?b)"
      "levels_ok (ap_levels ?b)"
    using s Cons.prems event_effect_ok [of a e] by simp_all
  from Cons.hyps(1) [OF this, of EvNone] obtain ev' t where
    t: "poll_loop EvNone ?b = Some (Done ev' ((fold event_effect es ?b)\<lparr>ap_srv := t\<rparr>))"
      "events_wf t" "srv_queue t = []"
      "\<And>x. heap_blocks (srv_heap t) x = (if x \<in> set (concat (map event_texts es)) then None else heap_blocks h x)"
    using s(3) by auto
  show ?case
  proof (intro exI conjI allI)
    show "poll_loop ev a = Some (Done ev' ((fold event_effect (srv_queue (ap_srv a)) a)\<lparr>ap_srv := t\<rparr>))"
      using step t(1) Cons.hyps(2) [symmetric] by (simp add: fold_effect_srv)
    show "heap_blocks (srv_heap t) x =
       (if x \<in> set (concat (map event_texts (srv_queue (ap_srv a)))) then None
        else heap_blocks (srv_heap (ap_srv a)) x)" for x
      using t(4) [of x] heap Cons.hyps(2) [symmetric] by auto
  qed (use t in auto)
qed

text \<open>
  C40. The events of the clients are all handled, in their order: while no other thread adds one, the
  loop over the events ends with an empty queue, every key that was pressed has had its effect on the
  levels and the camera, in the order of the queue, and exactly the texts of the events are freed.
\<close>

theorem poll_loop_spec:
  assumes "ap_others a = []" "events_wf (ap_srv a)" "texts_owned (ap_srv a)" "levels_ok (ap_levels a)"
  shows "\<exists>ev' s. poll_loop ev a = Some (Done ev' ((fold event_effect (srv_queue (ap_srv a)) a)\<lparr>ap_srv := s\<rparr>)) \<and>
    events_wf s \<and> srv_queue s = [] \<and>
    (\<forall>x. heap_blocks (srv_heap s) x =
       (if x \<in> set (concat (map event_texts (srv_queue (ap_srv a)))) then None
        else heap_blocks (srv_heap (ap_srv a)) x))"
  by (rule poll_loop_drains [OF assms])

section \<open>Frames\<close>

lemma with_srv_locks:
  assumes "ap_others a = []" "srv_fb (ap_srv a) = Ptr fb"
  shows "fb_lock fb = MtxFree \<Longrightarrow> with_srv (\<lambda>s. trfb_server_lock_fb s w) a =
      Some (Done 0 (a\<lparr>ap_srv := (ap_srv a)\<lparr>srv_fb := Ptr (fb\<lparr>fb_lock := MtxHeld\<rparr>),
        srv_updated := (if w \<noteq> 0 then 0 else srv_updated (ap_srv a) + 1)\<rparr>\<rparr>))"
    and "fb_lock fb = MtxHeld \<Longrightarrow> with_srv trfb_server_unlock_fb a =
      Some (Done 0 (a\<lparr>ap_srv := (ap_srv a)\<lparr>srv_fb := Ptr (fb\<lparr>fb_lock := MtxFree\<rparr>)\<rparr>\<rparr>))"
  using assms
  by (simp_all add: with_srv_def others_run_def trfb_server_lock_fb_def trfb_server_unlock_fb_def on_server_def
    lock_fb_free unlock_fb_held)

lemma with_srv_updated:
  assumes "ap_others a = []" "srv_fb (ap_srv a) = Ptr fb" "fb_lock fb = MtxFree"
  shows "with_srv trfb_server_updated a = Some (Done (srv_updated (ap_srv a)) a)"
  using assms by (cases a; cases "ap_srv a"; cases fb) (simp add: with_srv_def others_run_def trfb_server_updated_def
    on_server_def updated_body_def fb_lock_take_def fb_lock_give_def fb_lock_set_def)

text \<open>A round of the loop once a client has read the framebuffer: the wait for a frame, and what is done after it.\<close>

lemma draw_frame_waits:
  assumes "ap_others a = []" "srv_fb (ap_srv a) = Ptr fb" "fb_lock fb = MtxFree" "srv_updated (ap_srv a) \<noteq> 0"
  shows "draw_frame e a = andthen (with_cam (webcam_wait_frame e 10)
      (a\<lparr>ap_srv := (ap_srv a)\<lparr>srv_fb := Ptr (fb\<lparr>fb_lock := MtxHeld\<rparr>), srv_updated := srv_updated (ap_srv a) + 1\<rparr>\<rparr>)) (\<lambda>r a.
    andthen
      (if 0 < r then
         andthen (with_srv trfb_server_unlock_fb a) (\<lambda>_ a. with_srv (\<lambda>s. trfb_server_lock_fb s 1) a)
       else Some (Done 0 a)) (\<lambda>_ a.
    andthen (with_srv trfb_server_unlock_fb a) (\<lambda>_ a. Some (Done () a))))"
  using assms(4) with_srv_updated [OF assms(1-3)] with_srv_locks(1) [OF assms(1-3), of 0] by (simp add: draw_frame_def)

lemma draw_frame_done:
  assumes "ap_others a = []" "srv_fb (ap_srv a) = Ptr fb" "fb_lock fb = MtxFree" "srv_updated (ap_srv a) \<noteq> 0"
    and "webcam_wait_frame e 10 (ap_cam a) = Some (Done r c)"
  shows "draw_frame e a = Some (Done () (a\<lparr>ap_cam := c, ap_srv := (ap_srv a)
    \<lparr>srv_updated := (if 0 < r then 0 else srv_updated (ap_srv a) + 1)\<rparr>\<rparr>))"
proof -
  let ?s = "ap_srv a"
  let ?c = "a\<lparr>ap_srv := ?s\<lparr>srv_fb := Ptr (fb\<lparr>fb_lock := MtxHeld\<rparr>), srv_updated := srv_updated ?s + 1\<rparr>, ap_cam := c\<rparr>"
  let ?d = "a\<lparr>ap_cam := c, ap_srv := ?s\<lparr>srv_updated := srv_updated ?s + 1\<rparr>\<rparr>"
  let ?f = "?d\<lparr>ap_srv := ?s\<lparr>srv_fb := Ptr (fb\<lparr>fb_lock := MtxHeld\<rparr>), srv_updated := 0\<rparr>\<rparr>"
  have fb: "fb\<lparr>fb_lock := MtxFree\<rparr> = fb" using assms(3) by (cases fb) simp
  have "with_srv trfb_server_unlock_fb ?c = Some (Done 0 ?d)"
    using with_srv_locks(2) [of ?c "fb\<lparr>fb_lock := MtxHeld\<rparr>"] assms(1,2) fb by (cases ?s) simp
  moreover have "with_srv (\<lambda>s. trfb_server_lock_fb s 1) ?d = Some (Done 0 ?f)"
    using with_srv_locks(1) [of ?d fb 1] assms(1-3) by (cases ?s) simp
  moreover have "with_srv trfb_server_unlock_fb ?f = Some (Done 0 (a\<lparr>ap_cam := c, ap_srv := ?s\<lparr>srv_updated := 0\<rparr>\<rparr>))"
    using with_srv_locks(2) [of ?f "fb\<lparr>fb_lock := MtxHeld\<rparr>"] assms(1,2) fb by (cases ?s) simp
  ultimately show ?thesis
    using draw_frame_waits [OF assms(1-4), of e] assms(5) by (auto simp: with_cam_def)
qed

text \<open>
  C38. A round of frames, while the server's threads are idle: nothing happens until a client has read
  the framebuffer since the last frame; then the program waits for a frame with the framebuffer locked,
  and afterwards the lock is free, the count of readers is zero if there was a frame and one more
  otherwise, and the framebuffer is exactly as before, whatever the camera delivered: the frames of the
  camera never reach the clients. With frames that fit their memory the round is never undefined.
\<close>

theorem draw_frame_spec:
  assumes "ap_others a = []" "srv_fb (ap_srv a) = Ptr fb" "fb_lock fb = MtxFree"
    and cam: "cam_ready (cw_cam (ap_cam a))" "sizes_small (cw_cam (ap_cam a))" "frame_room (cw_cam (ap_cam a))"
  shows "if srv_updated (ap_srv a) = 0 then draw_frame e a = Some (Done () a)
    else
      (webcam_wait_frame e 10 (ap_cam a) = None \<and> draw_frame e a = None) \<or>
      (\<exists>r c. webcam_wait_frame e 10 (ap_cam a) = Some (Done r c) \<and> waited (ap_cam a) r c \<and>
         draw_frame e a = Some (Done () (a\<lparr>ap_cam := c, ap_srv := (ap_srv a)
           \<lparr>srv_updated := (if 0 < r then 0 else srv_updated (ap_srv a) + 1)\<rparr>\<rparr>)))"
proof (cases "srv_updated (ap_srv a) = 0")
  case True
  then show ?thesis using with_srv_updated [OF assms(1-3)] by (simp add: draw_frame_def)
next
  case False
  show ?thesis
  proof (cases "webcam_wait_frame e 10 (ap_cam a)")
    case None
    then show ?thesis using False draw_frame_waits [OF assms(1-3) False] by (simp add: with_cam_def)
  next
    case (Some y)
    with wait_frame_safe [OF cam, of e 10] obtain r c where "webcam_wait_frame e 10 (ap_cam a) = Some (Done r c)" "waited (ap_cam a) r c"
      by (cases y) auto
    with draw_frame_done [OF assms(1-3) False this(1)] False show ?thesis by auto
  qed
qed

section \<open>Examples\<close>

text \<open>A program with all controls in the middle, over a server with some state, and idle threads.\<close>

definition idle_app :: "trfb_server \<Rightarrow> app" where
  "idle_app s = \<lparr>ap_cam = short_world\<lparr>cw_cam := example_cam\<rparr>,
     ap_srv = trfb_server.extend s (server_world.fields NULL None (\<lambda>_. None) (\<lambda>_. ThrdExited) 1 True [] [] [] [] [] True True),
     ap_levels = \<lparr>brightness = 50, contrast = 50, saturation = 50, gamma = -1\<rparr>,
     ap_calls = [], ap_others = [], ap_sigint = []\<rparr>"

lemma idle_app_levels: "levels_ok (ap_levels (idle_app s))"
proof -
  have "level c (ap_levels (idle_app s)) \<le> 131071" for c by (cases c) (simp_all add: idle_app_def)
  then show ?thesis by (simp add: levels_ok_def)
qed

lemma idle_app_srv:
  "ap_others (idle_app s) = []" "srv_fb (ap_srv (idle_app s)) = srv_fb s"
  "srv_updated (ap_srv (idle_app s)) = srv_updated s" "srv_heap (ap_srv (idle_app s)) = srv_heap s"
  "srv_queue (ap_srv (idle_app s)) = srv_queue s" "events_wf (ap_srv (idle_app s)) = events_wf s"
  by (simp_all add: idle_app_def trfb_server.defs srv_queue_def ring_slot_def [abs_def] events_wf_def)

theorem control_keys_spec_witness:
  "handle_key (of_nat 65) (idle_app free_server) = Some (Done () (key_effect (of_nat 65) (idle_app free_server))) \<and>
   brightness (ap_levels (key_effect (of_nat 65) (idle_app free_server))) = 51 \<and>
   handle_key (of_nat 100) (idle_app free_server) = Some (Done () (idle_app free_server))"
  using control_keys_spec [of "\<lambda>_. 0" example_cam "ap_levels (idle_app free_server)" "idle_app free_server" "of_nat 65"]
    control_keys_spec [of "\<lambda>_. 0" example_cam "ap_levels (idle_app free_server)" "idle_app free_server" "of_nat 100"] idle_app_levels [of free_server]
  by (simp add: key_effect_def key_action_def key_table_def is_key_def turned_def)
    (simp add: idle_app_def)

lemma text_server_facts:
  "srv_queue text_server = [EvCutText 2 (Ptr 5)]" "events_wf text_server" "srv_heap text_server = \<lparr>heap_blocks = [5 \<mapsto> [104, 105, 0]], heap_next = 6\<rparr>"
  by (auto simp: srv_queue_def ring_slot_def text_server_def free_server_def zero_server_def TRFB_EVENTS_QUEUE_LEN_def
    events_wf_def Suc_le_eq)

theorem poll_loop_spec_witness:
  "\<exists>ev' a. poll_loop EvNone (idle_app text_server) = Some (Done ev' a) \<and> srv_queue (ap_srv a) = [] \<and>
     heap_blocks (srv_heap (ap_srv a)) 5 = None"
proof -
  have "texts_owned (ap_srv (idle_app text_server))"
    by (simp add: texts_owned_def idle_app_srv text_server_facts event_texts_def)
  from poll_loop_spec [OF idle_app_srv(1) _ this idle_app_levels, of EvNone] show ?thesis
    by (auto simp: idle_app_srv text_server_facts event_texts_def)
qed

definition reader_app :: app where
  "reader_app = (idle_app (free_server\<lparr>srv_fb := Ptr (fb888\<lparr>fb_lock := MtxFree\<rparr>), srv_updated := 1\<rparr>))
     \<lparr>ap_cam := \<lparr>cw_cam = example_cam, cw_dev = (cw_dev short_world)\<lparr>dev_select := [Inr False]\<rparr>\<rparr>\<rparr>"

theorem draw_frame_spec_witness:
  "\<exists>a. draw_frame easy_env reader_app = Some (Done () a) \<and> srv_updated (ap_srv a) = 2 \<and>
     srv_fb (ap_srv a) = srv_fb (ap_srv reader_app)"
proof -
  have app: "ap_others reader_app = []" "srv_fb (ap_srv reader_app) = Ptr (fb888\<lparr>fb_lock := MtxFree\<rparr>)"
      "srv_updated (ap_srv reader_app) = 1"
    by (simp_all add: reader_app_def idle_app_srv)
  have cam: "cam_ready (cw_cam (ap_cam reader_app))" "sizes_small (cw_cam (ap_cam reader_app))"
      "frame_room (cw_cam (ap_cam reader_app))"
    by (simp_all add: reader_app_def example_cam_def example_priv_def cam_ready_def sizes_small_def
      sizes_ok_def frame_source_def frame_room_def frame_size_def area_def)
  have "webcam_wait_frame easy_env 10 (ap_cam reader_app) =
      Some (Done 0 (on_dev (dev_select_update (\<lambda>_. [])) (ap_cam reader_app)))"
    by (simp add: reader_app_def webcam_wait_frame_def example_cam_def ask_def)
  with draw_frame_spec [OF app(1,2) _ cam, of easy_env] app(3) show ?thesis by auto
qed

end
