(* ===== verification/ErrorLog.thy ===== *)
theory ErrorLog
  imports Prelude
begin

unbundle bit_operations_syntax

text \<open>
  The log, \<^verbatim>\<open>src/src/error.c\<close>. The text that \<^verbatim>\<open>vsnprintf\<close> makes of the format and its arguments is an
  argument; characters are bytes, and \<^verbatim>\<open>char\<close> is signed, as on the platforms the project names.
\<close>

text \<open>\<^verbatim>\<open>vsnprintf\<close> into a buffer of \<open>n\<close> bytes leaves at most \<open>n - 1\<close> characters before the terminator.\<close>

definition snprintf_text :: "nat \<Rightarrow> bytes \<Rightarrow> bytes" where
  "snprintf_text n s = take (n - 1) (takeWhile (\<lambda>c. c \<noteq> 0) s)"

definition log_stderr :: "bytes \<Rightarrow> bytes" where
  "log_stderr message =
     (if take 2 message = str_bytes ''W:'' then str_bytes ''WARNING: '' @ drop 2 message @ [10]
      else if take 2 message = str_bytes ''I:'' then str_bytes ''INFO: '' @ drop 2 message @ [10]
      else if take 2 message = str_bytes ''E:'' then str_bytes ''ERROR: '' @ drop 2 message @ [10]
      else str_bytes ''ERROR: '' @ message @ [10])"

text \<open>\<^verbatim>\<open>buf[i] < ' '\<close> compares a signed character.\<close>

definition clean_char :: "u8 \<Rightarrow> u8" where
  "clean_char c = (if sint c < 32 then 32 else c)"

text \<open>\<^verbatim>\<open>trfb_msg\<close> with the callback, if there is one: what the callback writes.\<close>

definition trfb_msg :: "(bytes \<Rightarrow> bytes) ptr \<Rightarrow> bytes \<Rightarrow> bytes" where
  "trfb_msg trfb_log_cb formatted =
     (case trfb_log_cb of
        NULL \<Rightarrow> []
      | Ptr cb \<Rightarrow> cb (map clean_char (snprintf_text 512 formatted)))"

lemma clean_char_range: "32 \<le> clean_char c \<and> clean_char c < 128"
proof (cases "sint c < 32")
  case False
  then have "\<not> signed_take_bit 7 (uint c) < 0"
    unfolding sint_uint by (simp del: signed_take_bit_nonnegative_iff signed_take_bit_negative_iff)
  then have pos: "\<not> bit (uint c) 7" by (simp only: signed_take_bit_negative_iff not_False_eq_True)
  have "uint c < 256" using uint_bounded [of c] by simp
  with pos have "uint c < 128" by (simp add: bit_iff_odd) presburger
  with False pos show ?thesis by (simp add: clean_char_def word_le_def word_less_def sint_uint signed_take_bit_eq_if_positive take_bit_eq_mod)
qed (simp add: clean_char_def)

lemma log_stderr_line:
  "\<exists>level body. log_stderr m = level @ body @ [10] \<and> (body = m \<or> body = drop 2 m) \<and>
     level \<in> {str_bytes ''WARNING: '', str_bytes ''INFO: '', str_bytes ''ERROR: ''}"
proof -
  consider "log_stderr m = str_bytes ''WARNING: '' @ drop 2 m @ [10]" | "log_stderr m = str_bytes ''INFO: '' @ drop 2 m @ [10]"
    | "log_stderr m = str_bytes ''ERROR: '' @ drop 2 m @ [10]" | "log_stderr m = str_bytes ''ERROR: '' @ m @ [10]"
    unfolding log_stderr_def by presburger
  then show ?thesis by cases blast+
qed

text \<open>
  A message reaches the log as one line: whatever the format and its arguments produce, the callback
  gets at most 511 characters and all of them are printable ASCII, so that the line written on the
  standard error stream has no line break but the last; it starts with the level its prefix names,
  ERROR when there is none. Without a callback nothing is written.
\<close>

theorem log_one_line:
  "trfb_msg NULL s = [] \<and>
   (\<exists>m. trfb_msg (Ptr cb) s = cb m \<and> length m \<le> 511 \<and> list_all (\<lambda>c. 32 \<le> c \<and> c < 128) m) \<and>
   (\<exists>level body. trfb_msg (Ptr log_stderr) s = level @ body @ [10] \<and>
     level \<in> {str_bytes ''WARNING: '', str_bytes ''INFO: '', str_bytes ''ERROR: ''} \<and>
     length body \<le> 511 \<and> 10 \<notin> set body)"
proof (intro conjI)
  let ?m = "map clean_char (snprintf_text 512 s)"
  have m: "length ?m \<le> 511" "list_all (\<lambda>c. 32 \<le> c \<and> c < 128) ?m"
    using clean_char_range by (simp_all add: snprintf_text_def list_all_iff)
  then show "\<exists>m. trfb_msg (Ptr cb) s = cb m \<and> length m \<le> 511 \<and> list_all (\<lambda>c. 32 \<le> c \<and> c < 128) m"
    by (intro exI [of _ ?m]) (simp add: trfb_msg_def)
  have "10 \<notin> set ?m" using m(2) by (auto simp: list_all_iff)
  then have "length (drop 2 ?m) \<le> 511 \<and> 10 \<notin> set (drop 2 ?m)" "length ?m \<le> 511 \<and> 10 \<notin> set ?m"
    using m(1) by (auto dest: in_set_dropD simp del: set_map length_map)
  then show "\<exists>level body. trfb_msg (Ptr log_stderr) s = level @ body @ [10] \<and>
     level \<in> {str_bytes ''WARNING: '', str_bytes ''INFO: '', str_bytes ''ERROR: ''} \<and>
     length body \<le> 511 \<and> 10 \<notin> set body"
    using log_stderr_line [of ?m] unfolding trfb_msg_def ptr.case by blast
qed (simp add: trfb_msg_def)

end
