(* ===== verification/Lwebcam.thy ===== *)
theory Lwebcam
  imports V4l2
begin

unbundle bit_operations_syntax

text \<open>
  The earlier camera library, \<^verbatim>\<open>src/rfbcam/lwebcam/lwebcam.c\<close>. It converts frames with libv4lconvert, keeps
  its frames in buffers of its own, of the device or mapped, and ends the program when buffers cannot be had.
  Memory is a set of blocks, so that what is freed, freed twice or never freed can be seen; system calls and
  the allocator answer from scripts, and what the converter makes of a frame is an argument.
\<close>

section \<open>Data\<close>

datatype webcam_io_method =
  WEBCAM_IO_METHOD_READ | WEBCAM_IO_METHOD_MMAP | WEBCAM_IO_METHOD_USERPTR | WEBCAM_IO_METHOD_AUTO

record lw_buffer =
  lwb_start :: nat
  lwb_length :: nat

text \<open>
  \<^verbatim>\<open>struct webcam\<close>: a pointer is the address of its block, beside which stand the elements of the array of
  buffers and the two formats.
\<close>

record lw_webcam =
  lwc_fd :: int
  lwc_io :: webcam_io_method
  lwc_buffers :: "nat ptr"
  lwc_array :: "lw_buffer list"
  lwc_n_buffers :: nat
  lwc_img_data :: "nat ptr"
  lwc_img_data_len :: int
  lwc_width :: int
  lwc_height :: int
  lwc_v4lconvert_data :: bool
  lwc_fmt :: "nat ptr"
  lwc_fmt_pix :: pix_format
  lwc_src_fmt :: "nat ptr"
  lwc_src_pix :: pix_format

text \<open>What \<^verbatim>\<open>VIDIOC_DQBUF\<close> tells of a frame, with the bytes that the device has put into its buffer.\<close>

record dequeued =
  dq_index :: nat
  dq_bytesused :: nat
  dq_userptr :: nat
  dq_length :: nat
  dq_data :: bytes

record lw_world =
  lw_cam :: lw_webcam
  lw_blocks :: "nat \<Rightarrow> bytes option"
  lw_maps :: "nat \<Rightarrow> bytes option"
  lw_next :: nat
  lw_handles :: "int set"
  lw_converters :: nat
  lw_pagesize :: u32
  lw_grants :: "bool list"
  lw_open :: "(errno + int) list"
  lw_close :: "bool list"
  lw_querycap :: "(errno + caps) list"
  lw_cropcap :: "(errno + unit) list"
  lw_s_crop :: "(errno + unit) list"
  lw_create :: "bool list"
  lw_try_format :: "(pix_format \<times> pix_format) option list"
  lw_s_fmt :: "(errno + pix_format) list"
  lw_reqbufs :: "(errno + nat) list"
  lw_querybuf :: "(errno + nat) list"
  lw_mmap :: "bool list"
  lw_munmap :: "bool list"
  lw_qbuf :: "(errno + unit) list"
  lw_dqbuf :: "(errno + dequeued) list"
  lw_streamon :: "(errno + unit) list"
  lw_streamoff :: "(errno + unit) list"
  lw_read :: "(errno + bytes) list"
  lw_select :: "(errno + bool) list"

type_synonym 'a lw_act = "lw_world \<Rightarrow> (lw_world, 'a) outcome option"

definition on_lw :: "(lw_webcam \<Rightarrow> lw_webcam) \<Rightarrow> lw_world \<Rightarrow> lw_world" where
  "on_lw f s = s\<lparr>lw_cam := f (lw_cam s)\<rparr>"

section \<open>Memory and system calls\<close>

text \<open>An answer of the system, taken from its script.\<close>

definition answer :: "('s \<Rightarrow> 'a list) \<Rightarrow> (('a list \<Rightarrow> 'a list) \<Rightarrow> 's \<Rightarrow> 's) \<Rightarrow> 's \<Rightarrow> ('s, 'a) outcome option" where
  "answer get upd s = (case get s of [] \<Rightarrow> None | r # rs \<Rightarrow> Some (Done r (upd (\<lambda>_. rs) s)))"

text \<open>\<^verbatim>\<open>malloc\<close>, \<^verbatim>\<open>calloc\<close> and \<^verbatim>\<open>memalign\<close>, whose block has the bytes \<open>mem\<close>, and \<^verbatim>\<open>free\<close>.\<close>

definition lw_malloc :: "bytes \<Rightarrow> nat ptr lw_act" where
  "lw_malloc mem s =
     andthen (answer lw_grants lw_grants_update s) (\<lambda>ok s.
       if \<not> ok then Some (Done NULL s)
       else Some (Done (Ptr (lw_next s)) (s\<lparr>lw_blocks := (lw_blocks s)(lw_next s \<mapsto> mem), lw_next := Suc (lw_next s)\<rparr>)))"

definition lw_free :: "nat ptr \<Rightarrow> unit lw_act" where
  "lw_free p s =
     (case p of
        NULL \<Rightarrow> Some (Done () s)
      | Ptr a \<Rightarrow> if lw_blocks s a = None then Some Undef
                 else Some (Done () (s\<lparr>lw_blocks := (lw_blocks s)(a := None)\<rparr>)))"

text \<open>\<^verbatim>\<open>xioctl\<close>: the call is made again while it is interrupted, and only then.\<close>

fun xioctl :: "(errno + 'a) list \<Rightarrow> ((errno + 'a) \<times> (errno + 'a) list) option" where
  "xioctl [] = None"
| "xioctl (Inr a # rs) = Some (Inr a, rs)"
| "xioctl (Inl e # rs) = (if e = EINTR then xioctl rs else Some (Inl e, rs))"

definition lw_ioctl :: "('s \<Rightarrow> (errno + 'a) list) \<Rightarrow>
    (((errno + 'a) list \<Rightarrow> (errno + 'a) list) \<Rightarrow> 's \<Rightarrow> 's) \<Rightarrow> 's \<Rightarrow> ('s, errno + 'a) outcome option" where
  "lw_ioctl get upd s =
     (case xioctl (get s) of None \<Rightarrow> None | Some (r, rs) \<Rightarrow> Some (Done r (upd (\<lambda>_. rs) s)))"

definition junk_block :: "cenv \<Rightarrow> nat \<Rightarrow> bytes" where
  "junk_block e n = map (junk e) [0..<n]"

text \<open>\<^verbatim>\<open>errno_exit\<close> and \<^verbatim>\<open>exit(EXIT_FAILURE)\<close>, and an assertion that fails: the program ends.\<close>

definition errno_exit :: "'a lw_act" where
  "errno_exit s = Some (Exit s)"

section \<open>Buffers\<close>

definition lw_init_read :: "cenv \<Rightarrow> u32 \<Rightarrow> unit lw_act" where
  "lw_init_read e buffer_size s =
     andthen (lw_malloc (replicate 16 0) s) (\<lambda>arr s.
       if arr = NULL then errno_exit s
       else
         andthen (lw_malloc (junk_block e (unat buffer_size)) s) (\<lambda>p s.
           (case p of
              NULL \<Rightarrow> errno_exit s
            | Ptr a \<Rightarrow> Some (Done () (on_lw (\<lambda>c. c\<lparr>lwc_buffers := arr,
                lwc_array := [\<lparr>lwb_start = a, lwb_length = unat buffer_size\<rparr>]\<rparr>) s)))))"

text \<open>The loop of \<^verbatim>\<open>init_mmap\<close>: \<open>n\<close> buffers are still to be mapped. A mapping has the length that was asked for.\<close>

fun lw_map_loop :: "cenv \<Rightarrow> nat \<Rightarrow> unit lw_act" where
  "lw_map_loop e 0 s = Some (Done () s)"
| "lw_map_loop e (Suc n) s =
     andthen (lw_ioctl lw_querybuf lw_querybuf_update s) (\<lambda>r s.
       (case r of
          Inl _ \<Rightarrow> errno_exit s
        | Inr len \<Rightarrow>
            andthen (answer lw_mmap lw_mmap_update s) (\<lambda>ok s.
              if \<not> ok then errno_exit s
              else lw_map_loop e n
                ((on_lw (\<lambda>c. c\<lparr>lwc_array := lwc_array c @ [\<lparr>lwb_start = lw_next s, lwb_length = len\<rparr>],
                    lwc_n_buffers := Suc (lwc_n_buffers c)\<rparr>) s)
                 \<lparr>lw_maps := (lw_maps s)(lw_next s \<mapsto> junk_block e len), lw_next := Suc (lw_next s)\<rparr>))))"

definition lw_init_mmap :: "cenv \<Rightarrow> unit lw_act" where
  "lw_init_mmap e s =
     andthen (lw_ioctl lw_reqbufs lw_reqbufs_update s) (\<lambda>r s.
       (case r of
          Inl _ \<Rightarrow> errno_exit s
        | Inr count \<Rightarrow>
            if count < 2 then errno_exit s
            else
              andthen (lw_malloc (replicate (count * 16) 0) s) (\<lambda>arr s.
                if arr = NULL then errno_exit s
                else lw_map_loop e count
                  (on_lw (\<lambda>c. c\<lparr>lwc_buffers := arr, lwc_array := [], lwc_n_buffers := 0\<rparr>) s))))"

fun lw_userp_loop :: "cenv \<Rightarrow> u32 \<Rightarrow> nat \<Rightarrow> unit lw_act" where
  "lw_userp_loop e sz 0 s = Some (Done () s)"
| "lw_userp_loop e sz (Suc n) s =
     andthen (lw_malloc (junk_block e (unat sz)) s) (\<lambda>p s.
       (case p of
          NULL \<Rightarrow> errno_exit s
        | Ptr a \<Rightarrow> lw_userp_loop e sz n
            (on_lw (\<lambda>c. c\<lparr>lwc_array := lwc_array c @ [\<lparr>lwb_start = a, lwb_length = unat sz\<rparr>],
               lwc_n_buffers := Suc (lwc_n_buffers c)\<rparr>) s)))"

text \<open>The size of a buffer, rounded up to whole pages in 32 bits.\<close>

definition page_round :: "u32 \<Rightarrow> u32 \<Rightarrow> u32" where
  "page_round page sz = (sz + page - 1) AND NOT (page - 1)"

definition lw_init_userp :: "cenv \<Rightarrow> u32 \<Rightarrow> unit lw_act" where
  "lw_init_userp e buffer_size s =
     (let sz = page_round (lw_pagesize s) buffer_size in
      andthen (lw_ioctl lw_reqbufs lw_reqbufs_update s) (\<lambda>r s.
        (case r of
           Inl _ \<Rightarrow> errno_exit s
         | Inr _ \<Rightarrow>
             andthen (lw_malloc (replicate (4 * 16) 0) s) (\<lambda>arr s.
               if arr = NULL then errno_exit s
               else lw_userp_loop e sz 4
                 (on_lw (\<lambda>c. c\<lparr>lwc_buffers := arr, lwc_array := [], lwc_n_buffers := 0\<rparr>) s)))))"

section \<open>The device\<close>

definition lw_can :: "webcam_io_method \<Rightarrow> caps \<Rightarrow> bool" where
  "lw_can io cap = (cap_capture cap \<and>
     (case io of
        WEBCAM_IO_METHOD_READ \<Rightarrow> cap_readwrite cap
      | WEBCAM_IO_METHOD_MMAP \<Rightarrow> cap_streaming cap
      | WEBCAM_IO_METHOD_USERPTR \<Rightarrow> cap_streaming cap
      | WEBCAM_IO_METHOD_AUTO \<Rightarrow> True))"

definition lw_crop :: "unit lw_act" where
  "lw_crop s =
     andthen (lw_ioctl lw_cropcap lw_cropcap_update s) (\<lambda>r s.
       (case r of
          Inl _ \<Rightarrow> Some (Done () s)
        | Inr _ \<Rightarrow> andthen (lw_ioctl lw_s_crop lw_s_crop_update s) (\<lambda>_ s. Some (Done () s))))"

definition lw_init_buffers :: "cenv \<Rightarrow> unit lw_act" where
  "lw_init_buffers e s =
     (case lwc_io (lw_cam s) of
        WEBCAM_IO_METHOD_READ \<Rightarrow> lw_init_read e (pix_sizeimage (lwc_src_pix (lw_cam s))) s
      | WEBCAM_IO_METHOD_MMAP \<Rightarrow> lw_init_mmap e s
      | WEBCAM_IO_METHOD_USERPTR \<Rightarrow> lw_init_userp e (pix_sizeimage (lwc_src_pix (lw_cam s))) s
      | WEBCAM_IO_METHOD_AUTO \<Rightarrow> Some (Done () s))"

text \<open>
  The image: \<^verbatim>\<open>img_data_len\<close> is an \<^verbatim>\<open>int\<close>, which \<^verbatim>\<open>malloc\<close> gets as a \<^verbatim>\<open>size_t\<close>.
\<close>

definition lw_init_image :: "cenv \<Rightarrow> int lw_act" where
  "lw_init_image e s =
     (let len = scast (pix_sizeimage (lwc_fmt_pix (lw_cam s))) :: u64 in
      andthen (lw_malloc (junk_block e (unat len)) s) (\<lambda>p s.
        let s = on_lw (\<lambda>c. c\<lparr>lwc_img_data := p, lwc_img_data_len := sint (pix_sizeimage (lwc_fmt_pix c))\<rparr>) s in
        if p = NULL then Some (Done (-1) s)
        else andthen (lw_init_buffers e s) (\<lambda>_ s. Some (Done 0 s))))"

definition lw_init_format :: "cenv \<Rightarrow> int lw_act" where
  "lw_init_format e s =
     andthen (answer lw_create lw_create_update s) (\<lambda>ok s.
       let s = (on_lw (lwc_v4lconvert_data_update (\<lambda>_. ok)) s)
             \<lparr>lw_converters := lw_converters s + (if ok then 1 else 0)\<rparr> in
       if \<not> ok then Some (Done (-1) s)
       else
         andthen (answer lw_try_format lw_try_format_update s) (\<lambda>r s.
           (case r of
              None \<Rightarrow> Some (Done (-1) s)
            | Some (pix, src) \<Rightarrow>
                andthen (lw_ioctl lw_s_fmt lw_s_fmt_update
                    (on_lw (\<lambda>c. c\<lparr>lwc_fmt_pix := pix, lwc_src_pix := src\<rparr>) s)) (\<lambda>r s.
                  (case r of
                     Inl _ \<Rightarrow> Some (Done (-1) s)
                   | Inr src \<Rightarrow> lw_init_image e (on_lw (lwc_src_pix_update (\<lambda>_. src)) s))))))"

definition lw_init_device :: "cenv \<Rightarrow> int lw_act" where
  "lw_init_device e s =
     andthen (lw_ioctl lw_querycap lw_querycap_update s) (\<lambda>r s.
       (case r of
          Inl _ \<Rightarrow> Some (Done (-1) s)
        | Inr cap \<Rightarrow>
            if \<not> lw_can (lwc_io (lw_cam s)) cap then Some (Done (-1) s)
            else
              andthen (lw_crop s) (\<lambda>_ s.
                lw_init_format e (on_lw (lwc_fmt_pix_update (\<lambda>_. \<lparr>pix_width = word_of_int (lwc_width (lw_cam s)),
                  pix_height = word_of_int (lwc_height (lw_cam s)), pix_bytesperline = 0, pix_sizeimage = 0\<rparr>)) s))))"

section \<open>Opening and closing\<close>

text \<open>The ends of \<^verbatim>\<open>webcam_open\<close> when the formats cannot be allocated and when the device cannot be used.\<close>

definition lw_no_formats :: "nat \<Rightarrow> nat ptr lw_act" where
  "lw_no_formats self s =
     andthen (lw_free (lwc_fmt (lw_cam s)) s) (\<lambda>_ s.
     andthen (lw_free (lwc_src_fmt (lw_cam s)) s) (\<lambda>_ s.
     andthen (answer lw_close lw_close_update s) (\<lambda>_ s.
     andthen (lw_free (Ptr self) (s\<lparr>lw_handles := lw_handles s - {lwc_fd (lw_cam s)}\<rparr>)) (\<lambda>_ s.
       Some (Done NULL s)))))"

definition lw_open_fails :: "nat \<Rightarrow> nat ptr lw_act" where
  "lw_open_fails self s =
     andthen (answer lw_close lw_close_update s) (\<lambda>_ s.
     andthen (lw_free (lwc_fmt (lw_cam s)) (s\<lparr>lw_handles := lw_handles s - {lwc_fd (lw_cam s)}\<rparr>)) (\<lambda>_ s.
     andthen (lw_free (lwc_src_fmt (lw_cam s)) s) (\<lambda>_ s.
     andthen (lw_free (lwc_img_data (lw_cam s)) s) (\<lambda>_ s.
     andthen (lw_free (Ptr self) s) (\<lambda>_ s. Some (Done NULL s))))))"

text \<open>The part of \<^verbatim>\<open>webcam_open\<close> after the formats have been allocated.\<close>

definition lw_open_device :: "cenv \<Rightarrow> webcam_io_method \<Rightarrow> nat \<Rightarrow> nat ptr lw_act" where
  "lw_open_device e io self s =
     andthen
       (if io = WEBCAM_IO_METHOD_AUTO
        then andthen (lw_init_device e (on_lw (lwc_io_update (\<lambda>_. WEBCAM_IO_METHOD_MMAP)) s))
          (\<lambda>r s. Some (Done (r = 0) s))
        else Some (Done False s))
       (\<lambda>ready s.
         if ready then Some (Done (Ptr self) s)
         else
           andthen (lw_init_device e s) (\<lambda>r s.
             if r < 0 then lw_open_fails self s else Some (Done (Ptr self) s)))"

text \<open>The part of \<^verbatim>\<open>webcam_open\<close> after the device file has been opened.\<close>

definition lw_open_formats :: "cenv \<Rightarrow> webcam_io_method \<Rightarrow> int \<Rightarrow> int \<Rightarrow> nat \<Rightarrow> int \<Rightarrow> nat ptr lw_act" where
  "lw_open_formats e io_method w h self fd s =
     andthen (lw_malloc (junk_block e 208) (s\<lparr>lw_handles := insert fd (lw_handles s)\<rparr>)) (\<lambda>fmt s.
     andthen (lw_malloc (junk_block e 208) s) (\<lambda>src s.
       let s = s\<lparr>lw_cam := \<lparr>lwc_fd = fd, lwc_io = io_method, lwc_buffers = NULL, lwc_array = [],
         lwc_n_buffers = 0, lwc_img_data = NULL, lwc_img_data_len = 0, lwc_width = w, lwc_height = h,
         lwc_v4lconvert_data = False, lwc_fmt = fmt, lwc_fmt_pix = \<lparr>pix_width = 0, pix_height = 0,
           pix_bytesperline = 0, pix_sizeimage = 0\<rparr>,
         lwc_src_fmt = src, lwc_src_pix = \<lparr>pix_width = 0, pix_height = 0,
           pix_bytesperline = 0, pix_sizeimage = 0\<rparr>\<rparr>\<rparr> in
       if fmt = NULL \<or> src = NULL then lw_no_formats self s
       else lw_open_device e io_method self s))"

text \<open>
  \<^verbatim>\<open>webcam_open\<close>: \<open>stat\<close> tells whether the path is a character device, if it exists. The sizes are those of
  \<^verbatim>\<open>struct webcam\<close> and \<^verbatim>\<open>struct v4l2_format\<close> on a 64-bit platform.
\<close>

definition lw_webcam_open :: "cenv \<Rightarrow> bool option \<Rightarrow> webcam_io_method \<Rightarrow> int \<Rightarrow> int \<Rightarrow> nat ptr lw_act" where
  "lw_webcam_open e stat io_method w h s =
     (let (w, h) = (if w < 0 then (640, 480) else (w, h)) in
      andthen (lw_malloc (replicate 72 0) s) (\<lambda>r s.
        (case r of
           NULL \<Rightarrow> Some (Done NULL s)
         | Ptr self \<Rightarrow>
             if stat \<noteq> Some True then andthen (lw_free (Ptr self) s) (\<lambda>_ s. Some (Done NULL s))
             else
               andthen (answer lw_open lw_open_update s) (\<lambda>fd s.
                 (case fd of
                    Inl _ \<Rightarrow> andthen (lw_free (Ptr self) s) (\<lambda>_ s. Some (Done NULL s))
                  | Inr fd \<Rightarrow> lw_open_formats e io_method w h self fd s)))))"

text \<open>Unmapping and freeing the buffers; whether all could be unmapped.\<close>

fun lw_unmap_loop :: "lw_buffer list \<Rightarrow> bool lw_act" where
  "lw_unmap_loop [] s = Some (Done True s)"
| "lw_unmap_loop (b # bs) s =
     andthen (answer lw_munmap lw_munmap_update s) (\<lambda>ok s.
       if \<not> ok then Some (Done False s)
       else if lw_maps s (lwb_start b) = None then Some Undef
       else lw_unmap_loop bs (s\<lparr>lw_maps := (lw_maps s)(lwb_start b := None)\<rparr>))"

fun lw_free_loop :: "lw_buffer list \<Rightarrow> unit lw_act" where
  "lw_free_loop [] s = Some (Done () s)"
| "lw_free_loop (b # bs) s = andthen (lw_free (Ptr (lwb_start b)) s) (\<lambda>_ s. lw_free_loop bs s)"

definition lw_uninit_device :: "int lw_act" where
  "lw_uninit_device s =
     (let cam = lw_cam s; bufs = take (lwc_n_buffers cam) (lwc_array cam) in
      if length (lwc_array cam) < lwc_n_buffers cam then Some Undef
      else
        andthen
          (case lwc_io cam of
             WEBCAM_IO_METHOD_READ \<Rightarrow>
               (case lwc_array cam of
                  [] \<Rightarrow> Some Undef
                | b # _ \<Rightarrow> andthen (lw_free (Ptr (lwb_start b)) s) (\<lambda>_ s. Some (Done True s)))
           | WEBCAM_IO_METHOD_MMAP \<Rightarrow> lw_unmap_loop bufs s
           | WEBCAM_IO_METHOD_USERPTR \<Rightarrow> andthen (lw_free_loop bufs s) (\<lambda>_ s. Some (Done True s))
           | WEBCAM_IO_METHOD_AUTO \<Rightarrow> Some (Done True s))
          (\<lambda>ok s.
            if \<not> ok then Some (Done (-1) s)
            else andthen (lw_free (lwc_buffers cam) s) (\<lambda>_ s. Some (Done 0 s))))"

definition lw_webcam_close :: "nat \<Rightarrow> int lw_act" where
  "lw_webcam_close self s =
     andthen (lw_uninit_device s) (\<lambda>u s.
     andthen (answer lw_close lw_close_update s) (\<lambda>ok s.
     andthen (lw_free (lwc_fmt (lw_cam s)) (s\<lparr>lw_handles := lw_handles s - {lwc_fd (lw_cam s)}\<rparr>)) (\<lambda>_ s.
     andthen (lw_free (lwc_src_fmt (lw_cam s)) s) (\<lambda>_ s.
     andthen (lw_free (lwc_img_data (lw_cam s)) s) (\<lambda>_ s.
     andthen (lw_free (Ptr self) s) (\<lambda>_ s.
       Some (Done (if u < 0 \<or> \<not> ok then -1 else 0) s)))))))"

section \<open>Capturing\<close>

fun lw_queue_loop :: "nat \<Rightarrow> bool lw_act" where
  "lw_queue_loop 0 s = Some (Done True s)"
| "lw_queue_loop (Suc n) s =
     andthen (lw_ioctl lw_qbuf lw_qbuf_update s) (\<lambda>r s.
       (case r of Inl _ \<Rightarrow> Some (Done False s) | Inr _ \<Rightarrow> lw_queue_loop n s))"

text \<open>\<^verbatim>\<open>start_capturing\<close>; with user pointers the buffers of the array are read.\<close>

definition lw_start_capturing :: "int lw_act" where
  "lw_start_capturing s =
     (case lwc_io (lw_cam s) of
        WEBCAM_IO_METHOD_READ \<Rightarrow> Some (Done 0 s)
      | WEBCAM_IO_METHOD_AUTO \<Rightarrow> Some (Done 0 s)
      | io \<Rightarrow>
          if io = WEBCAM_IO_METHOD_USERPTR \<and> length (lwc_array (lw_cam s)) < lwc_n_buffers (lw_cam s) then Some Undef
          else
            andthen (lw_queue_loop (lwc_n_buffers (lw_cam s)) s) (\<lambda>ok s.
              if \<not> ok then Some (Done (-1) s)
              else andthen (lw_ioctl lw_streamon lw_streamon_update s) (\<lambda>r s.
                Some (Done (case r of Inl _ \<Rightarrow> -1 | Inr _ \<Rightarrow> 0) s))))"

definition lw_stop_capturing :: "int lw_act" where
  "lw_stop_capturing s =
     (if lwc_io (lw_cam s) \<in> {WEBCAM_IO_METHOD_READ, WEBCAM_IO_METHOD_AUTO} then Some (Done 0 s)
      else andthen (lw_ioctl lw_streamoff lw_streamoff_update s) (\<lambda>r s.
        Some (Done (case r of Inl _ \<Rightarrow> -1 | Inr _ \<Rightarrow> 0) s)))"

definition lw_webcam_start_capturing :: "int lw_act" where
  "lw_webcam_start_capturing s = lw_start_capturing s"

definition lw_webcam_stop_capturing :: "int lw_act" where
  "lw_webcam_stop_capturing s = lw_stop_capturing s"

text \<open>
  \<^verbatim>\<open>process_image\<close>: \<open>conv\<close> is \<^verbatim>\<open>v4lconvert_convert\<close> with the two formats and the length of the image, and gives
  the bytes of the image unless it fails. The frame is the first \<open>len\<close> bytes of \<open>mem\<close>. The code passes \<open>len\<close> as an \<^verbatim>\<open>int\<close>; the
  model is that of frames below 2^31 bytes, for which the value stays the same.
\<close>

type_synonym converter = "pix_format \<Rightarrow> pix_format \<Rightarrow> bytes \<Rightarrow> int \<Rightarrow> bytes ptr"

definition lw_process_image :: "converter \<Rightarrow> bytes \<Rightarrow> nat \<Rightarrow> int lw_act" where
  "lw_process_image conv mem len s =
     (let cam = lw_cam s in
      need (slice mem 0 len) (\<lambda>frame.
        (case conv (lwc_src_pix cam) (lwc_fmt_pix cam) frame (lwc_img_data_len cam) of
           NULL \<Rightarrow> Some (Done (-1) s)
         | Ptr pic \<Rightarrow>
             (case lwc_img_data cam of
                NULL \<Rightarrow> Some Undef
              | Ptr a \<Rightarrow> need (Option.bind (lw_blocks s a) (\<lambda>img. blit img 0 pic)) (\<lambda>img.
                  Some (Done 1 (s\<lparr>lw_blocks := (lw_blocks s)(a \<mapsto> img)\<rparr>)))))))"

text \<open>The three ways to get a frame. A call that would have to wait gives 0.\<close>

definition frame_error :: "errno \<Rightarrow> int" where
  "frame_error e = (if e = EAGAIN then 0 else -1)"

definition lw_frame_read :: "converter \<Rightarrow> int lw_act" where
  "lw_frame_read conv s =
     (case lwc_array (lw_cam s) of
        [] \<Rightarrow> Some Undef
      | b # _ \<Rightarrow>
          andthen (answer lw_read lw_read_update s) (\<lambda>r s.
            (case r of
               Inl err \<Rightarrow> Some (Done (frame_error err) s)
             | Inr data \<Rightarrow>
                 need (Option.bind (lw_blocks s (lwb_start b)) (\<lambda>mem. blit mem 0 (take (lwb_length b) data))) (\<lambda>mem.
                   lw_process_image conv mem (min (lwb_length b) (length data))
                     (s\<lparr>lw_blocks := (lw_blocks s)(lwb_start b \<mapsto> mem)\<rparr>)))))"

text \<open>What follows when a buffer with the bytes \<open>mem\<close> has been dequeued: it is converted and queued again.\<close>

definition lw_frame_done :: "converter \<Rightarrow> bytes \<Rightarrow> nat \<Rightarrow> int lw_act" where
  "lw_frame_done conv mem len s =
     andthen (lw_process_image conv mem len s) (\<lambda>rv s.
     andthen (lw_ioctl lw_qbuf lw_qbuf_update s) (\<lambda>r s.
       Some (Done (case r of Inl _ \<Rightarrow> -1 | Inr _ \<Rightarrow> rv) s)))"

definition lw_frame_mmap :: "converter \<Rightarrow> int lw_act" where
  "lw_frame_mmap conv s =
     andthen (lw_ioctl lw_dqbuf lw_dqbuf_update s) (\<lambda>r s.
       (case r of
          Inl err \<Rightarrow> Some (Done (frame_error err) s)
        | Inr d \<Rightarrow>
            if lwc_n_buffers (lw_cam s) \<le> dq_index d then errno_exit s
            else if length (lwc_array (lw_cam s)) \<le> dq_index d then Some Undef
            else
              let a = lwb_start (lwc_array (lw_cam s) ! dq_index d) in
              need (Option.bind (lw_maps s a) (\<lambda>mem. blit mem 0 (dq_data d))) (\<lambda>mem.
                lw_frame_done conv mem (dq_bytesused d) (s\<lparr>lw_maps := (lw_maps s)(a \<mapsto> mem)\<rparr>))))"

definition lw_frame_userptr :: "converter \<Rightarrow> int lw_act" where
  "lw_frame_userptr conv s =
     andthen (lw_ioctl lw_dqbuf lw_dqbuf_update s) (\<lambda>r s.
       (case r of
          Inl err \<Rightarrow> Some (Done (frame_error err) s)
        | Inr d \<Rightarrow>
            let cam = lw_cam s in
            if length (lwc_array cam) < lwc_n_buffers cam then Some Undef
            else if \<not> list_ex (\<lambda>b. dq_userptr d = lwb_start b \<and> dq_length d = lwb_length b)
                (take (lwc_n_buffers cam) (lwc_array cam))
            then errno_exit s
            else
              need (Option.bind (lw_blocks s (dq_userptr d)) (\<lambda>mem. blit mem 0 (dq_data d))) (\<lambda>mem.
                lw_frame_done conv mem (dq_bytesused d) (s\<lparr>lw_blocks := (lw_blocks s)(dq_userptr d \<mapsto> mem)\<rparr>))))"

text \<open>\<^verbatim>\<open>read_frame\<close>; without a method its result would be indeterminate.\<close>

definition lw_read_frame :: "converter \<Rightarrow> int lw_act" where
  "lw_read_frame conv s =
     (case lwc_io (lw_cam s) of
        WEBCAM_IO_METHOD_READ \<Rightarrow> lw_frame_read conv s
      | WEBCAM_IO_METHOD_MMAP \<Rightarrow> lw_frame_mmap conv s
      | WEBCAM_IO_METHOD_USERPTR \<Rightarrow> lw_frame_userptr conv s
      | WEBCAM_IO_METHOD_AUTO \<Rightarrow> Some Undef)"

text \<open>\<^verbatim>\<open>webcam_wait_frame\<close> waits again after an interrupt, and when the frame is not there yet.\<close>

partial_function (option) lw_webcam_wait_frame ::
  "converter \<Rightarrow> lw_world \<Rightarrow> (lw_world, int) outcome option" where
  "lw_webcam_wait_frame conv s =
     andthen (answer lw_select lw_select_update s) (\<lambda>r s.
       if r = Inl EINTR then lw_webcam_wait_frame conv s
       else if isl r then Some (Done (-1) s)
       else if r = Inr False then Some (Done 0 s)
       else
         andthen (lw_read_frame conv s) (\<lambda>r s.
           if r < 0 then Some (Done (-1) s)
           else if 0 < r then Some (Done 1 s)
           else lw_webcam_wait_frame conv s))"

end
