(* ===== verification/Lwebcam_Memory.thy ===== *)
theory Lwebcam_Memory
  imports Lwebcam "HOL-Library.Multiset"
begin

text \<open>
  What the earlier camera library owns: which blocks, mappings and handles a camera holds at each moment, up to
  the lemmas that opening one and closing it balance.
\<close>

section \<open>Ownership\<close>

text \<open>
  \<open>owns s0 s A M\<close>: since the state \<open>s0\<close> exactly the blocks \<open>A\<close> and the mappings \<open>M\<close> have been taken and not given back.
\<close>

definition lw_fresh :: "lw_world \<Rightarrow> bool" where
  "lw_fresh s \<longleftrightarrow> (\<forall>a. lw_next s \<le> a \<longrightarrow> lw_blocks s a = None \<and> lw_maps s a = None)"

definition part :: "(nat \<Rightarrow> bytes option) \<Rightarrow> nat \<Rightarrow> (nat \<Rightarrow> bytes option) \<Rightarrow> nat list \<Rightarrow> bool" where
  "part m0 n m A \<longleftrightarrow> distinct A \<and> (\<forall>a. a \<notin> set A \<longrightarrow> m a = m0 a) \<and> (\<forall>a \<in> set A. n \<le> a \<and> m a \<noteq> None)"

definition owns :: "lw_world \<Rightarrow> lw_world \<Rightarrow> nat list \<Rightarrow> nat list \<Rightarrow> bool" where
  "owns s0 s A M \<longleftrightarrow> lw_fresh s \<and> lw_next s0 \<le> lw_next s \<and>
     part (lw_blocks s0) (lw_next s0) (lw_blocks s) A \<and> part (lw_maps s0) (lw_next s0) (lw_maps s) M"

lemma part_nil: "part m0 n m [] \<Longrightarrow> m = m0"
  by (auto simp: part_def)

lemma part_perm:
  assumes "part m0 n m A" "mset A = mset B"
  shows "part m0 n m B"
proof -
  have "set A = set B" using assms(2) by (rule mset_eq_setD)
  moreover from this have "distinct A = distinct B" using assms(2) by (simp add: distinct_count_atmost_1)
  ultimately show ?thesis using assms(1) by (simp add: part_def)
qed

lemma part_add: "part m0 n m A \<Longrightarrow> n \<le> a \<Longrightarrow> m a = None \<Longrightarrow> part m0 n (m(a \<mapsto> x)) (a # A)"
  by (auto simp: part_def)

lemma part_set: "part m0 n m A \<Longrightarrow> a \<in> set A \<Longrightarrow> part m0 n (m(a \<mapsto> x)) A"
  by (auto simp: part_def)

lemma part_del:
  assumes "part m0 n m (A @ a # B)" and "m0 a = None"
  shows "m a \<noteq> None" "part m0 n (m(a := None)) (A @ B)"
  using assms by (auto simp: part_def)

lemma owns_perm: "owns s0 s A M \<Longrightarrow> mset A = mset B \<Longrightarrow> mset M = mset N \<Longrightarrow> owns s0 s B N"
  by (auto simp: owns_def intro: part_perm)

lemma owns_none:
  assumes "owns s0 s [] []"
  shows "lw_blocks s = lw_blocks s0" "lw_maps s = lw_maps s0"
  using assms by (auto simp: owns_def dest: part_nil)

lemma owns_start: "lw_fresh s \<Longrightarrow> owns s s [] []"
  by (simp add: owns_def part_def)

lemma owns_block:
  "owns s0 s A M \<Longrightarrow>
   owns s0 (s\<lparr>lw_blocks := (lw_blocks s)(lw_next s \<mapsto> m), lw_next := Suc (lw_next s)\<rparr>) (lw_next s # A) M"
  by (auto simp: owns_def lw_fresh_def intro: part_add)

lemma owns_map:
  "owns s0 s A M \<Longrightarrow>
   owns s0 (s\<lparr>lw_maps := (lw_maps s)(lw_next s \<mapsto> m), lw_next := Suc (lw_next s)\<rparr>) A (lw_next s # M)"
  by (auto simp: owns_def lw_fresh_def intro: part_add)

lemma owns_frame:
  "lw_blocks t = lw_blocks s \<Longrightarrow> lw_maps t = lw_maps s \<Longrightarrow> lw_next t = lw_next s \<Longrightarrow> owns s0 t A M = owns s0 s A M"
  by (simp add: owns_def lw_fresh_def)

section \<open>The blocks of a camera\<close>

definition addr :: "nat ptr \<Rightarrow> nat list" where
  "addr p = (case p of NULL \<Rightarrow> [] | Ptr a \<Rightarrow> [a])"

lemma addr_simps [simp]: "addr NULL = []" "addr (Ptr a) = [a]"
  by (simp_all add: addr_def)

text \<open>The buffers are blocks of the program, unless they are mapped.\<close>

definition own_buffers :: "lw_webcam \<Rightarrow> nat list" where
  "own_buffers c = (if lwc_io c = WEBCAM_IO_METHOD_MMAP then [] else map lwb_start (lwc_array c))"

definition mapped_buffers :: "lw_webcam \<Rightarrow> nat list" where
  "mapped_buffers c = (if lwc_io c = WEBCAM_IO_METHOD_MMAP then map lwb_start (lwc_array c) else [])"

definition cam_blocks :: "nat \<Rightarrow> lw_webcam \<Rightarrow> nat list" where
  "cam_blocks self c =
     own_buffers c @ addr (lwc_buffers c) @ addr (lwc_fmt c) @ addr (lwc_src_fmt c) @ addr (lwc_img_data c) @ [self]"

definition held :: "lw_world \<Rightarrow> nat \<Rightarrow> lw_world \<Rightarrow> bool" where
  "held s0 self s \<longleftrightarrow> owns s0 s (cam_blocks self (lw_cam s)) (mapped_buffers (lw_cam s))"

section \<open>Calls\<close>

text \<open>An answer changes nothing but its script.\<close>

lemma safe_answer:
  assumes "\<And>r rs. safe Q E (f r (upd (\<lambda>_. rs) s))"
  shows "safe Q E (andthen (answer get upd s) f)"
proof (cases "get s")
  case (Cons r rs)
  with assms [of r rs] show ?thesis by (simp add: answer_def)
qed (simp add: answer_def)

lemma safe_ioctl:
  assumes "\<And>r rs. safe Q E (f r (upd (\<lambda>_. rs) s))"
  shows "safe Q E (andthen (lw_ioctl get upd s) f)"
proof (cases "xioctl (get s)")
  case (Some p)
  obtain r rs where "p = (r, rs)" by (cases p)
  with Some assms [of r rs] show ?thesis by (simp add: lw_ioctl_def)
qed (simp add: lw_ioctl_def)

text \<open>What a call of the allocator leaves as it is.\<close>

definition alloc_frame :: "lw_world \<Rightarrow> lw_world \<Rightarrow> bool" where
  "alloc_frame s t \<longleftrightarrow> lw_cam t = lw_cam s \<and> lw_handles t = lw_handles s \<and> lw_converters t = lw_converters s \<and>
     lw_maps t = lw_maps s \<and> lw_open t = lw_open s"

lemma safe_malloc:
  assumes "owns s0 s A M"
    and "\<And>t. alloc_frame s t \<Longrightarrow> owns s0 t A M \<Longrightarrow> lw_blocks t = lw_blocks s \<Longrightarrow> safe Q E (f NULL t)"
    and "\<And>t a. alloc_frame s t \<Longrightarrow> owns s0 t (a # A) M \<Longrightarrow> lw_blocks t = (lw_blocks s)(a \<mapsto> mem) \<Longrightarrow>
      lw_blocks s a = None \<Longrightarrow> safe Q E (f (Ptr a) t)"
  shows "safe Q E (andthen (lw_malloc mem s) f)"
proof (cases "lw_grants s")
  case (Cons ok rs)
  let ?s = "s\<lparr>lw_grants := rs\<rparr>"
  have o: "owns s0 ?s A M" using assms(1) by (simp add: owns_frame [of ?s s])
  let ?t = "?s\<lparr>lw_blocks := (lw_blocks ?s)(lw_next ?s \<mapsto> mem), lw_next := Suc (lw_next ?s)\<rparr>"
  have "alloc_frame s ?s" "alloc_frame s ?t" by (simp_all add: alloc_frame_def)
  moreover have "lw_blocks s (lw_next s) = None" using assms(1) by (simp add: owns_def lw_fresh_def)
  ultimately show ?thesis
    using assms(2) [of ?s] assms(3) [of ?t "lw_next s"] o owns_block [OF o, of mem] Cons
    by (simp add: lw_malloc_def answer_def)
qed (simp add: lw_malloc_def answer_def)

lemma owns_unused: "owns s0 s A M \<Longrightarrow> lw_fresh s0 \<Longrightarrow> a \<in> set A \<Longrightarrow> lw_blocks s0 a = None"
  by (auto simp: owns_def part_def lw_fresh_def)

lemma owns_free:
  assumes "owns s0 s (A @ a # B) M" "lw_fresh s0"
  shows "lw_blocks s a \<noteq> None" "owns s0 (s\<lparr>lw_blocks := (lw_blocks s)(a := None)\<rparr>) (A @ B) M"
proof -
  have "lw_blocks s0 a = None" by (rule owns_unused [OF assms]) simp
  moreover have "part (lw_blocks s0) (lw_next s0) (lw_blocks s) (A @ a # B)" using assms(1) by (simp add: owns_def)
  ultimately have p: "lw_blocks s a \<noteq> None" "part (lw_blocks s0) (lw_next s0) ((lw_blocks s)(a := None)) (A @ B)"
    using part_del by blast+
  then show "lw_blocks s a \<noteq> None" by simp
  show "owns s0 (s\<lparr>lw_blocks := (lw_blocks s)(a := None)\<rparr>) (A @ B) M"
    using p(2) assms(1) by (auto simp: owns_def lw_fresh_def)
qed

lemma safe_free:
  assumes "owns s0 s (A @ addr p @ B) M" and "lw_fresh s0"
    and "\<And>t. alloc_frame s t \<Longrightarrow> owns s0 t (A @ B) M \<Longrightarrow> safe Q E (f () t)"
  shows "safe Q E (andthen (lw_free p s) f)"
proof (cases p)
  case NULL
  with assms(1) assms(3) [of s] show ?thesis by (simp add: lw_free_def alloc_frame_def)
next
  case (Ptr a)
  with assms(1) have o: "owns s0 s (A @ a # B) M" by simp
  have "alloc_frame s (s\<lparr>lw_blocks := (lw_blocks s)(a := None)\<rparr>)" by (simp add: alloc_frame_def)
  with assms(3) owns_free [OF o assms(2)] Ptr show ?thesis by (auto simp: lw_free_def)
qed

lemma on_lw_simps [simp]:
  "lw_cam (on_lw f s) = f (lw_cam s)" "lw_blocks (on_lw f s) = lw_blocks s" "lw_maps (on_lw f s) = lw_maps s"
  "lw_next (on_lw f s) = lw_next s" "lw_handles (on_lw f s) = lw_handles s"
  "lw_converters (on_lw f s) = lw_converters s"
  by (simp_all add: on_lw_def)

lemma owns_on_lw [simp]: "owns s0 (on_lw f s) A M = owns s0 s A M"
  by (rule owns_frame) simp_all

lemma owns_scripts [simp]:
  "owns s0 (lw_grants_update f1 s) A M = owns s0 s A M"
  "owns s0 (lw_open_update f2 s) A M = owns s0 s A M"
  "owns s0 (lw_close_update f3 s) A M = owns s0 s A M"
  "owns s0 (lw_querycap_update f4 s) A M = owns s0 s A M"
  "owns s0 (lw_cropcap_update f5 s) A M = owns s0 s A M"
  "owns s0 (lw_s_crop_update f6 s) A M = owns s0 s A M"
  "owns s0 (lw_create_update f7 s) A M = owns s0 s A M"
  "owns s0 (lw_try_format_update f8 s) A M = owns s0 s A M"
  "owns s0 (lw_s_fmt_update f9 s) A M = owns s0 s A M"
  "owns s0 (lw_reqbufs_update f10 s) A M = owns s0 s A M"
  "owns s0 (lw_querybuf_update f11 s) A M = owns s0 s A M"
  "owns s0 (lw_mmap_update f12 s) A M = owns s0 s A M"
  "owns s0 (lw_munmap_update f13 s) A M = owns s0 s A M"
  "owns s0 (lw_qbuf_update f14 s) A M = owns s0 s A M"
  "owns s0 (lw_dqbuf_update f15 s) A M = owns s0 s A M"
  "owns s0 (lw_streamon_update f16 s) A M = owns s0 s A M"
  "owns s0 (lw_streamoff_update f17 s) A M = owns s0 s A M"
  "owns s0 (lw_read_update f18 s) A M = owns s0 s A M"
  "owns s0 (lw_select_update f19 s) A M = owns s0 s A M"
  "owns s0 (lw_converters_update f20 s) A M = owns s0 s A M"
  "owns s0 (lw_handles_update f21 s) A M = owns s0 s A M"
  "owns s0 (lw_cam_update f22 s) A M = owns s0 s A M"
  by (simp_all add: owns_def lw_fresh_def)

section \<open>Opening\<close>

definition buffers_fit :: "(nat \<Rightarrow> bytes option) \<Rightarrow> lw_buffer list \<Rightarrow> bool" where
  "buffers_fit m bufs \<longleftrightarrow> (\<forall>b \<in> set bufs. \<exists>mem. m (lwb_start b) = Some mem \<and> length mem = lwb_length b)"

lemma buffers_fit_simps [simp]:
  "buffers_fit m []"
  "buffers_fit m (b # bs) \<longleftrightarrow> (\<exists>mem. m (lwb_start b) = Some mem \<and> length mem = lwb_length b) \<and> buffers_fit m bs"
  "buffers_fit m (bs @ cs) \<longleftrightarrow> buffers_fit m bs \<and> buffers_fit m cs"
  by (auto simp: buffers_fit_def)

lemma buffers_fit_new: "buffers_fit m bs \<Longrightarrow> m a = None \<Longrightarrow> buffers_fit (m(a \<mapsto> x)) bs"
  by (fastforce simp: buffers_fit_def)

definition image_fits :: "(nat \<Rightarrow> bytes option) \<Rightarrow> lw_webcam \<Rightarrow> bool" where
  "image_fits m c \<longleftrightarrow> (\<exists>a img. lwc_img_data c = Ptr a \<and> m a = Some img \<and> lwc_img_data_len c \<le> int (length img))"

lemma image_fits_new: "image_fits m c \<Longrightarrow> m a = None \<Longrightarrow> image_fits (m(a \<mapsto> x)) c"
  by (fastforce simp: image_fits_def)

text \<open>A camera without buffers, one with an image too, and one that is ready for frames.\<close>

definition has_handle :: "lw_world \<Rightarrow> lw_world \<Rightarrow> bool" where
  "has_handle s0 s \<longleftrightarrow> lwc_fd (lw_cam s) \<notin> lw_handles s0 \<and>
     lw_handles s = insert (lwc_fd (lw_cam s)) (lw_handles s0)"

definition no_buffers :: "lw_webcam \<Rightarrow> bool" where
  "no_buffers c \<longleftrightarrow> lwc_buffers c = NULL \<and> lwc_array c = [] \<and> lwc_n_buffers c = 0"

definition lw_bare :: "lw_world \<Rightarrow> nat \<Rightarrow> lw_world \<Rightarrow> bool" where
  "lw_bare s0 self s \<longleftrightarrow> held s0 self s \<and> has_handle s0 s \<and> no_buffers (lw_cam s) \<and>
     lwc_img_data (lw_cam s) = NULL \<and> lw_converters s0 \<le> lw_converters s \<and> lwc_io (lw_cam s) \<noteq> WEBCAM_IO_METHOD_AUTO"

definition lw_core :: "lw_world \<Rightarrow> nat \<Rightarrow> lw_world \<Rightarrow> bool" where
  "lw_core s0 self s \<longleftrightarrow> held s0 self s \<and> has_handle s0 s \<and> image_fits (lw_blocks s) (lw_cam s) \<and>
     lw_converters s0 < lw_converters s"

definition buffers_ready :: "(nat \<Rightarrow> bytes option) \<Rightarrow> (nat \<Rightarrow> bytes option) \<Rightarrow> lw_webcam \<Rightarrow> bool" where
  "buffers_ready blocks maps c \<longleftrightarrow>
     (case lwc_io c of
        WEBCAM_IO_METHOD_READ \<Rightarrow> length (lwc_array c) = 1 \<and> lwc_n_buffers c = 0 \<and> buffers_fit blocks (lwc_array c)
      | WEBCAM_IO_METHOD_MMAP \<Rightarrow> length (lwc_array c) = lwc_n_buffers c \<and> buffers_fit maps (lwc_array c)
      | WEBCAM_IO_METHOD_USERPTR \<Rightarrow> length (lwc_array c) = lwc_n_buffers c \<and> buffers_fit blocks (lwc_array c)
      | WEBCAM_IO_METHOD_AUTO \<Rightarrow> False)"

definition lw_ready :: "lw_world \<Rightarrow> nat \<Rightarrow> lw_world \<Rightarrow> bool" where
  "lw_ready s0 self s \<longleftrightarrow> lw_core s0 self s \<and> buffers_ready (lw_blocks s) (lw_maps s) (lw_cam s)"

abbreviation ready_as :: "lw_world \<Rightarrow> nat \<Rightarrow> webcam_io_method \<Rightarrow> lw_world \<Rightarrow> bool" where
  "ready_as s0 self io s \<equiv> lw_ready s0 self s \<and> lwc_io (lw_cam s) = io"

abbreviation starts_with :: "lw_world \<Rightarrow> nat \<Rightarrow> webcam_io_method \<Rightarrow> lw_world \<Rightarrow> bool" where
  "starts_with s0 self io s \<equiv> lw_core s0 self s \<and> no_buffers (lw_cam s) \<and> lwc_io (lw_cam s) = io"

lemma init_read_ready:
  assumes "starts_with s0 self WEBCAM_IO_METHOD_READ s"
  shows "safe (\<lambda>_. ready_as s0 self WEBCAM_IO_METHOD_READ) (\<lambda>_. True) (lw_init_read e n s)"
proof -
  let ?A = "cam_blocks self (lw_cam s)"
  have c: "no_buffers (lw_cam s)" "lwc_io (lw_cam s) = WEBCAM_IO_METHOD_READ" "image_fits (lw_blocks s) (lw_cam s)"
    "has_handle s0 s" "lw_converters s0 < lw_converters s"
    and own: "owns s0 s ?A []"
    using assms by (auto simp: lw_core_def held_def mapped_buffers_def)
  show ?thesis
    unfolding lw_init_read_def
  proof (rule safe_malloc [OF own])
    fix t arr
    assume t: "alloc_frame s t" "owns s0 t (arr # ?A) []" "lw_blocks t = (lw_blocks s)(arr \<mapsto> replicate 16 0)"
      "lw_blocks s arr = None"
    show "safe (\<lambda>_. ready_as s0 self WEBCAM_IO_METHOD_READ) (\<lambda>_. True)
       (if Ptr arr = NULL then errno_exit t
        else andthen (lw_malloc (junk_block e (unat n)) t) (\<lambda>p s.
           (case p of NULL \<Rightarrow> errno_exit s
            | Ptr a \<Rightarrow> Some (Done () (on_lw (\<lambda>c. c\<lparr>lwc_buffers := Ptr arr,
                lwc_array := [\<lparr>lwb_start = a, lwb_length = unat n\<rparr>]\<rparr>) s)))))"
    proof (simp, rule safe_malloc [OF t(2)])
      fix u a
      assume u: "alloc_frame t u" "owns s0 u (a # arr # ?A) []" "lw_blocks u = (lw_blocks t)(a \<mapsto> junk_block e (unat n))"
        "lw_blocks t a = None"
      have cam: "lw_cam u = lw_cam s" "lw_handles u = lw_handles s" "lw_converters u = lw_converters s"
        using t(1) u(1) by (simp_all add: alloc_frame_def)
      have "image_fits (lw_blocks u) (lw_cam s)"
        unfolding u(3) t(3) using t(4) u(4) [unfolded t(3)] c(3) by (intro image_fits_new)
      with u(2,3) c cam
      have "lw_ready s0 self (on_lw (\<lambda>c. c\<lparr>lwc_buffers := Ptr arr,
          lwc_array := [\<lparr>lwb_start = a, lwb_length = unat n\<rparr>]\<rparr>) u)"
        by (simp add: lw_ready_def buffers_ready_def lw_core_def held_def cam_blocks_def own_buffers_def mapped_buffers_def no_buffers_def
            has_handle_def image_fits_def junk_block_def)
      then show "safe (\<lambda>_. ready_as s0 self WEBCAM_IO_METHOD_READ) (\<lambda>_. True) (case Ptr a of NULL \<Rightarrow> errno_exit u
            | Ptr a \<Rightarrow> Some (Done () (on_lw (\<lambda>c. c\<lparr>lwc_buffers := Ptr arr,
                lwc_array := [\<lparr>lwb_start = a, lwb_length = unat n\<rparr>]\<rparr>) u)))" using c(2) cam(1) by simp
    qed (simp add: errno_exit_def)
  qed (simp add: errno_exit_def)
qed

lemma map_loop_ready:
  "lw_core s0 self s \<Longrightarrow> lwc_io (lw_cam s) = WEBCAM_IO_METHOD_MMAP \<Longrightarrow>
   length (lwc_array (lw_cam s)) = lwc_n_buffers (lw_cam s) \<Longrightarrow> buffers_fit (lw_maps s) (lwc_array (lw_cam s)) \<Longrightarrow>
   safe (\<lambda>_. ready_as s0 self WEBCAM_IO_METHOD_MMAP) (\<lambda>_. True) (lw_map_loop e k s)"
proof (induction k arbitrary: s)
  case 0
  then show ?case by (simp add: lw_ready_def buffers_ready_def)
next
  case (Suc k)
  have step: "safe (\<lambda>_. ready_as s0 self WEBCAM_IO_METHOD_MMAP) (\<lambda>_. True) (lw_map_loop e k
      ((on_lw (\<lambda>c. c\<lparr>lwc_array := lwc_array c @ [\<lparr>lwb_start = lw_next u, lwb_length = len\<rparr>],
          lwc_n_buffers := Suc (lwc_n_buffers c)\<rparr>) u)
       \<lparr>lw_maps := (lw_maps u)(lw_next u \<mapsto> junk_block e len), lw_next := Suc (lw_next u)\<rparr>))"
    if u: "u = s\<lparr>lw_querybuf := rs, lw_mmap := rs'\<rparr>" for len u rs rs'
  proof (rule Suc.IH)
    let ?c = "(lw_cam u)\<lparr>lwc_array := lwc_array (lw_cam u) @ [\<lparr>lwb_start = lw_next u, lwb_length = len\<rparr>],
          lwc_n_buffers := Suc (lwc_n_buffers (lw_cam u))\<rparr>"
    let ?t = "(on_lw (\<lambda>c. c\<lparr>lwc_array := lwc_array c @ [\<lparr>lwb_start = lw_next u, lwb_length = len\<rparr>],
          lwc_n_buffers := Suc (lwc_n_buffers c)\<rparr>) u)
       \<lparr>lw_maps := (lw_maps u)(lw_next u \<mapsto> junk_block e len), lw_next := Suc (lw_next u)\<rparr>"
    have "owns s0 u (cam_blocks self (lw_cam u)) (mapped_buffers (lw_cam u))"
      using Suc.prems(1) by (simp add: u lw_core_def held_def)
    from owns_map [OF this, of "junk_block e len"]
    have "owns s0 ?t (cam_blocks self (lw_cam u)) (lw_next u # mapped_buffers (lw_cam u))"
      by (rule iffD2 [OF owns_frame, rotated 3]) simp_all
    then have "held s0 self ?t"
      unfolding held_def
      by (rule owns_perm) (use Suc.prems(2) in \<open>simp_all add: u cam_blocks_def own_buffers_def mapped_buffers_def\<close>)
    with Suc.prems(1) show "lw_core s0 self ?t"
      by (simp add: lw_core_def u has_handle_def image_fits_def)
    have "lw_maps s (lw_next s) = None" using Suc.prems(1) by (simp add: lw_core_def held_def owns_def lw_fresh_def)
    then show "buffers_fit (lw_maps ?t) (lwc_array (lw_cam ?t))"
      using Suc.prems(4) by (simp add: u buffers_fit_new junk_block_def)
  qed (use Suc.prems in \<open>simp_all add: u\<close>)
  show ?case
    unfolding lw_map_loop.simps
  proof (rule safe_ioctl)
    fix r rs
    show "safe (\<lambda>_. ready_as s0 self WEBCAM_IO_METHOD_MMAP) (\<lambda>_. True)
        (case r of Inl _ \<Rightarrow> errno_exit (s\<lparr>lw_querybuf := rs\<rparr>)
         | Inr len \<Rightarrow> andthen (answer lw_mmap lw_mmap_update (s\<lparr>lw_querybuf := rs\<rparr>)) (\<lambda>ok s.
            if \<not> ok then errno_exit s
            else lw_map_loop e k
              ((on_lw (\<lambda>c. c\<lparr>lwc_array := lwc_array c @ [\<lparr>lwb_start = lw_next s, lwb_length = len\<rparr>],
                  lwc_n_buffers := Suc (lwc_n_buffers c)\<rparr>) s)
               \<lparr>lw_maps := (lw_maps s)(lw_next s \<mapsto> junk_block e len), lw_next := Suc (lw_next s)\<rparr>)))"
    proof (cases r)
      case (Inr len)
      show ?thesis
        unfolding Inr sum.case
        by (rule safe_answer, split if_split, intro conjI impI) (simp add: errno_exit_def, rule step, simp)
    qed (simp add: errno_exit_def)
  qed
qed

text \<open>The array of the buffers is allocated.\<close>

definition with_array :: "nat \<Rightarrow> lw_world \<Rightarrow> lw_world" where
  "with_array arr = on_lw (\<lambda>c. c\<lparr>lwc_buffers := Ptr arr, lwc_array := [], lwc_n_buffers := 0\<rparr>)"

lemma safe_array:
  assumes "starts_with s0 self io s"
    and none: "\<And>t. safe Q E (f NULL t)"
    and some: "\<And>t arr. lw_core s0 self (with_array arr t) \<Longrightarrow> lw_cam t = lw_cam s \<Longrightarrow> safe Q E (f (Ptr arr) t)"
  shows "safe Q E (andthen (lw_malloc mem s) f)"
proof -
  have c: "no_buffers (lw_cam s)" "image_fits (lw_blocks s) (lw_cam s)"
    "has_handle s0 s" "lw_converters s0 < lw_converters s"
    and own: "owns s0 s (cam_blocks self (lw_cam s)) (mapped_buffers (lw_cam s))"
    using assms(1) by (auto simp: lw_core_def held_def)
  show ?thesis
  proof (rule safe_malloc [OF own])
    show "safe Q E (f NULL t)" for t by (rule none)
    fix t arr
    assume t: "alloc_frame s t" "owns s0 t (arr # cam_blocks self (lw_cam s)) (mapped_buffers (lw_cam s))"
      "lw_blocks t = (lw_blocks s)(arr \<mapsto> mem)" "lw_blocks s arr = None"
    have "image_fits (lw_blocks t) (lw_cam s)" unfolding t(3) using c(2) t(4) by (rule image_fits_new)
    then have "lw_core s0 self (with_array arr t)"
      using t(1,2) c
      by (simp add: lw_core_def held_def with_array_def alloc_frame_def cam_blocks_def own_buffers_def
          mapped_buffers_def no_buffers_def has_handle_def image_fits_def split: if_splits)
    then show "safe Q E (f (Ptr arr) t)" using t(1) by (intro some) (simp_all add: alloc_frame_def)
  qed
qed

lemma core_scripts:
  "lw_core s0 self (s\<lparr>lw_reqbufs := rs\<rparr>) = lw_core s0 self s"
  by (simp add: lw_core_def held_def has_handle_def)

lemma init_mmap_ready:
  assumes "starts_with s0 self WEBCAM_IO_METHOD_MMAP s"
  shows "safe (\<lambda>_. ready_as s0 self WEBCAM_IO_METHOD_MMAP) (\<lambda>_. True) (lw_init_mmap e s)"
  unfolding lw_init_mmap_def
proof (rule safe_ioctl)
  fix r rs
  let ?s = "s\<lparr>lw_reqbufs := rs\<rparr>"
  have s: "starts_with s0 self WEBCAM_IO_METHOD_MMAP ?s" using assms by (simp add: core_scripts)
  show "safe (\<lambda>_. ready_as s0 self WEBCAM_IO_METHOD_MMAP) (\<lambda>_. True) (case r of
          Inl _ \<Rightarrow> errno_exit ?s
        | Inr cnt \<Rightarrow>
            if cnt < 2 then errno_exit ?s
            else
              andthen (lw_malloc (replicate (cnt * 16) 0) ?s) (\<lambda>arr s.
                if arr = NULL then errno_exit s
                else lw_map_loop e cnt
                  (on_lw (\<lambda>c. c\<lparr>lwc_buffers := arr, lwc_array := [], lwc_n_buffers := 0\<rparr>) s)))"
  proof (cases r)
    case (Inr cnt)
    have "safe (\<lambda>_. ready_as s0 self WEBCAM_IO_METHOD_MMAP) (\<lambda>_. True)
        (andthen (lw_malloc (replicate (cnt * 16) 0) ?s) (\<lambda>arr s.
                if arr = NULL then errno_exit s
                else lw_map_loop e cnt
                  (on_lw (\<lambda>c. c\<lparr>lwc_buffers := arr, lwc_array := [], lwc_n_buffers := 0\<rparr>) s)))"
    proof (rule safe_array [OF s])
      fix t arr assume "lw_core s0 self (with_array arr t)" "lw_cam t = lw_cam ?s"
      then have "safe (\<lambda>_. ready_as s0 self WEBCAM_IO_METHOD_MMAP) (\<lambda>_. True) (lw_map_loop e cnt (with_array arr t))"
        using assms by (intro map_loop_ready) (simp_all add: with_array_def)
      then show "safe (\<lambda>_. ready_as s0 self WEBCAM_IO_METHOD_MMAP) (\<lambda>_. True) (if Ptr arr = NULL then errno_exit t
                else lw_map_loop e cnt
                  (on_lw (\<lambda>c. c\<lparr>lwc_buffers := Ptr arr, lwc_array := [], lwc_n_buffers := 0\<rparr>) t))"
        by (simp add: with_array_def)
    qed (simp add: errno_exit_def)
    then show ?thesis by (simp add: Inr errno_exit_def)
  qed (simp add: errno_exit_def)
qed

lemma userp_loop_ready:
  "lw_core s0 self s \<Longrightarrow> lwc_io (lw_cam s) = WEBCAM_IO_METHOD_USERPTR \<Longrightarrow>
   length (lwc_array (lw_cam s)) = lwc_n_buffers (lw_cam s) \<Longrightarrow> buffers_fit (lw_blocks s) (lwc_array (lw_cam s)) \<Longrightarrow>
   safe (\<lambda>_. ready_as s0 self WEBCAM_IO_METHOD_USERPTR) (\<lambda>_. True) (lw_userp_loop e n k s)"
proof (induction k arbitrary: s)
  case 0
  then show ?case by (simp add: lw_ready_def buffers_ready_def)
next
  case (Suc k)
  have own: "owns s0 s (cam_blocks self (lw_cam s)) (mapped_buffers (lw_cam s))"
    and img: "image_fits (lw_blocks s) (lw_cam s)"
    using Suc.prems(1) by (simp_all add: lw_core_def held_def)
  show ?case
    unfolding lw_userp_loop.simps
  proof (rule safe_malloc [OF own])
    fix t a
    assume t: "alloc_frame s t" "owns s0 t (a # cam_blocks self (lw_cam s)) (mapped_buffers (lw_cam s))"
      "lw_blocks t = (lw_blocks s)(a \<mapsto> junk_block e (unat n))" "lw_blocks s a = None"
    let ?t = "on_lw (\<lambda>c. c\<lparr>lwc_array := lwc_array c @ [\<lparr>lwb_start = a, lwb_length = unat n\<rparr>],
               lwc_n_buffers := Suc (lwc_n_buffers c)\<rparr>) t"
    have cam: "lw_cam t = lw_cam s" "lw_handles t = lw_handles s" "lw_converters t = lw_converters s"
      using t(1) by (simp_all add: alloc_frame_def)
    have "held s0 self ?t"
      unfolding held_def owns_on_lw
      by (rule owns_perm [OF t(2)])
        (use Suc.prems(2) cam in \<open>simp_all add: cam_blocks_def own_buffers_def mapped_buffers_def\<close>)
    moreover have "image_fits (lw_blocks t) (lw_cam s)" unfolding t(3) using img t(4) by (rule image_fits_new)
    ultimately have core: "lw_core s0 self ?t"
      using Suc.prems(1) cam by (simp add: lw_core_def has_handle_def image_fits_def)
    have fit: "buffers_fit (lw_blocks t) (lwc_array (lw_cam s))"
      unfolding t(3) using Suc.prems(4) t(4) by (rule buffers_fit_new)
    have new: "lw_blocks t a = Some (junk_block e (unat n))" "length (junk_block e (unat n)) = unat n"
      by (simp_all add: t(3) junk_block_def)
    have "safe (\<lambda>_. ready_as s0 self WEBCAM_IO_METHOD_USERPTR) (\<lambda>_. True) (lw_userp_loop e n k ?t)"
      by (rule Suc.IH [OF core]) (use Suc.prems(2,3) cam fit new in simp_all)
    then show "safe (\<lambda>_. ready_as s0 self WEBCAM_IO_METHOD_USERPTR) (\<lambda>_. True) (case Ptr a of
          NULL \<Rightarrow> errno_exit t
        | Ptr a \<Rightarrow> lw_userp_loop e n k
            (on_lw (\<lambda>c. c\<lparr>lwc_array := lwc_array c @ [\<lparr>lwb_start = a, lwb_length = unat n\<rparr>],
               lwc_n_buffers := Suc (lwc_n_buffers c)\<rparr>) t))" by simp
  qed (simp add: errno_exit_def)
qed

lemma init_userp_ready:
  assumes "starts_with s0 self WEBCAM_IO_METHOD_USERPTR s"
  shows "safe (\<lambda>_. ready_as s0 self WEBCAM_IO_METHOD_USERPTR) (\<lambda>_. True) (lw_init_userp e n s)"
  unfolding lw_init_userp_def Let_def
proof (rule safe_ioctl)
  fix r rs
  let ?s = "s\<lparr>lw_reqbufs := rs\<rparr>" and ?n = "page_round (lw_pagesize s) n"
  have s: "starts_with s0 self WEBCAM_IO_METHOD_USERPTR ?s" using assms by (simp add: core_scripts)
  have "safe (\<lambda>_. ready_as s0 self WEBCAM_IO_METHOD_USERPTR) (\<lambda>_. True)
      (andthen (lw_malloc (replicate (4 * 16) 0) ?s) (\<lambda>arr s.
         if arr = NULL then errno_exit s
         else lw_userp_loop e ?n 4 (on_lw (\<lambda>c. c\<lparr>lwc_buffers := arr, lwc_array := [], lwc_n_buffers := 0\<rparr>) s)))"
  proof (rule safe_array [OF s])
    fix t arr assume "lw_core s0 self (with_array arr t)" "lw_cam t = lw_cam ?s"
    then have "safe (\<lambda>_. ready_as s0 self WEBCAM_IO_METHOD_USERPTR) (\<lambda>_. True) (lw_userp_loop e ?n 4 (with_array arr t))"
      using assms by (intro userp_loop_ready) (simp_all add: with_array_def)
    then show "safe (\<lambda>_. ready_as s0 self WEBCAM_IO_METHOD_USERPTR) (\<lambda>_. True) (if Ptr arr = NULL then errno_exit t
         else lw_userp_loop e ?n 4 (on_lw (\<lambda>c. c\<lparr>lwc_buffers := Ptr arr, lwc_array := [], lwc_n_buffers := 0\<rparr>) t))"
      by (simp add: with_array_def)
  qed (simp add: errno_exit_def)
  then show "safe (\<lambda>_. ready_as s0 self WEBCAM_IO_METHOD_USERPTR) (\<lambda>_. True) (case r of
           Inl _ \<Rightarrow> errno_exit ?s
         | Inr _ \<Rightarrow>
             andthen (lw_malloc (replicate (4 * 16) 0) ?s) (\<lambda>arr s.
               if arr = NULL then errno_exit s
               else lw_userp_loop e ?n 4
                 (on_lw (\<lambda>c. c\<lparr>lwc_buffers := arr, lwc_array := [], lwc_n_buffers := 0\<rparr>) s)))"
    by (cases r) (simp_all add: errno_exit_def)
qed

lemma init_buffers_ready:
  assumes "starts_with s0 self io s" "io \<noteq> WEBCAM_IO_METHOD_AUTO"
  shows "safe (\<lambda>_. ready_as s0 self io) (\<lambda>_. True) (lw_init_buffers e s)"
  using assms init_read_ready [of s0 self s] init_mmap_ready [of s0 self s] init_userp_ready [of s0 self s]
  by (cases io) (simp_all add: lw_init_buffers_def)

text \<open>What is known after an attempt to initialise the device, by its result.\<close>

definition attempted :: "lw_world \<Rightarrow> nat \<Rightarrow> webcam_io_method \<Rightarrow> int \<Rightarrow> lw_world \<Rightarrow> bool" where
  "attempted s0 self io r s \<longleftrightarrow> r = 0 \<and> ready_as s0 self io s \<or> r = -1 \<and> lw_bare s0 self s \<and> lwc_io (lw_cam s) = io"

lemma bare_frame:
  "lw_bare s0 self s \<Longrightarrow> lw_cam t = lw_cam s \<Longrightarrow> lw_handles t = lw_handles s \<Longrightarrow> lw_converters s \<le> lw_converters t \<Longrightarrow>
   lw_blocks t = lw_blocks s \<Longrightarrow> lw_maps t = lw_maps s \<Longrightarrow> lw_next t = lw_next s \<Longrightarrow> lw_bare s0 self t"
  using owns_frame [of t s] by (simp add: lw_bare_def held_def has_handle_def)

lemma sint_le_uint: "sint (w :: 'a :: len word) \<le> uint w"
proof (cases "0 \<le> sint w")
  case True
  have "(2 :: int) ^ (LENGTH('a) - 1) \<le> 2 ^ LENGTH('a)" by (rule power_increasing) simp_all
  with sint_lt [of w] have "sint w < 2 ^ LENGTH('a)" by linarith
  with True have "take_bit LENGTH('a) (sint w) = sint w" by (simp add: take_bit_int_eq_self)
  then show ?thesis by (simp add: uint_sint)
next
  case False
  then show ?thesis using uint_ge_0 [of w] by linarith
qed

lemma signed_size: "sint (w :: u32) \<le> int (unat (scast w :: u64))"
proof -
  have "sint (scast w :: u64) = sint w" by (rule sint_up_scast) (simp add: is_up)
  with sint_le_uint [of "scast w :: u64"] show ?thesis by simp
qed

lemma init_image_attempted:
  assumes bare: "lw_bare s0 self s" and io: "lwc_io (lw_cam s) = io" and conv: "lw_converters s0 < lw_converters s"
  shows "safe (attempted s0 self io) (\<lambda>_. True) (lw_init_image e s)"
proof -
  let ?len = "scast (pix_sizeimage (lwc_fmt_pix (lw_cam s))) :: u64"
  let ?f = "\<lambda>p c. c\<lparr>lwc_img_data := p, lwc_img_data_len := sint (pix_sizeimage (lwc_fmt_pix c))\<rparr>"
  have own: "owns s0 s (cam_blocks self (lw_cam s)) (mapped_buffers (lw_cam s))"
    and c: "no_buffers (lw_cam s)" "lwc_img_data (lw_cam s) = NULL" "has_handle s0 s" "io \<noteq> WEBCAM_IO_METHOD_AUTO"
    using bare io by (auto simp: lw_bare_def held_def)
  show ?thesis
    unfolding lw_init_image_def Let_def
  proof (rule safe_malloc [OF own])
    fix t assume t: "alloc_frame s t" "owns s0 t (cam_blocks self (lw_cam s)) (mapped_buffers (lw_cam s))"
    then have "attempted s0 self io (-1) (on_lw (?f NULL) t)"
      using bare io c by (simp add: attempted_def lw_bare_def held_def alloc_frame_def cam_blocks_def own_buffers_def
          mapped_buffers_def no_buffers_def has_handle_def split: if_splits)
    then show "safe (attempted s0 self io) (\<lambda>_. True) (if (NULL :: nat ptr) = NULL then Some (Done (-1) (on_lw (?f NULL) t))
        else andthen (lw_init_buffers e (on_lw (?f NULL) t)) (\<lambda>_ s. Some (Done 0 s)))" by simp
  next
    fix t a
    assume t: "alloc_frame s t" "owns s0 t (a # cam_blocks self (lw_cam s)) (mapped_buffers (lw_cam s))"
      "lw_blocks t = (lw_blocks s)(a \<mapsto> junk_block e (unat ?len))"
    have "held s0 self (on_lw (?f (Ptr a)) t)"
      unfolding held_def owns_on_lw
      by (rule owns_perm [OF t(2)])
        (use t(1) c in \<open>simp_all add: alloc_frame_def cam_blocks_def own_buffers_def mapped_buffers_def\<close>)
    moreover have "image_fits (lw_blocks t) (?f (Ptr a) (lw_cam t))"
      using t(1,3) signed_size [of "pix_sizeimage (lwc_fmt_pix (lw_cam s))"]
      by (simp add: image_fits_def alloc_frame_def junk_block_def)
    ultimately have "starts_with s0 self io (on_lw (?f (Ptr a)) t)"
      using t(1) c io conv by (simp add: lw_core_def alloc_frame_def no_buffers_def has_handle_def)
    from init_buffers_ready [OF this c(4)]
    have "safe (attempted s0 self io) (\<lambda>_. True)
        (andthen (lw_init_buffers e (on_lw (?f (Ptr a)) t)) (\<lambda>_ s. Some (Done 0 s)))"
      by (rule safe_andthen) (simp add: attempted_def)
    then show "safe (attempted s0 self io) (\<lambda>_. True) (if Ptr a = NULL then Some (Done (-1) (on_lw (?f (Ptr a)) t))
        else andthen (lw_init_buffers e (on_lw (?f (Ptr a)) t)) (\<lambda>_ s. Some (Done 0 s)))" by simp
  qed
qed

lemma bare_simps [simp]:
  "lw_bare s0 self (s\<lparr>lw_try_format := a\<rparr>) = lw_bare s0 self s" "lw_bare s0 self (s\<lparr>lw_s_fmt := b\<rparr>) = lw_bare s0 self s"
  "lw_bare s0 self (s\<lparr>lw_querycap := c\<rparr>) = lw_bare s0 self s" "lw_bare s0 self (s\<lparr>lw_cropcap := d\<rparr>) = lw_bare s0 self s"
  "lw_bare s0 self (s\<lparr>lw_s_crop := f\<rparr>) = lw_bare s0 self s"
  "lw_bare s0 self (on_lw (\<lambda>c. c\<lparr>lwc_fmt_pix := p, lwc_src_pix := q\<rparr>) s) = lw_bare s0 self s"
  "lw_bare s0 self (on_lw (lwc_fmt_pix_update g) s) = lw_bare s0 self s"
  "lw_bare s0 self (on_lw (lwc_src_pix_update g) s) = lw_bare s0 self s"
  by (simp_all add: lw_bare_def held_def has_handle_def no_buffers_def cam_blocks_def own_buffers_def mapped_buffers_def)

lemma gives_up: "lw_bare s0 self s \<Longrightarrow> lwc_io (lw_cam s) = io \<Longrightarrow> safe (attempted s0 self io) E (Some (Done (-1) s))"
  by (simp add: attempted_def)

lemma init_format_attempted:
  assumes bare: "lw_bare s0 self s" and io: "lwc_io (lw_cam s) = io"
  shows "safe (attempted s0 self io) (\<lambda>_. True) (lw_init_format e s)"
  unfolding lw_init_format_def
proof (rule safe_answer)
  fix ok rs
  let ?s = "(on_lw (lwc_v4lconvert_data_update (\<lambda>_. ok)) (s\<lparr>lw_create := rs\<rparr>))
      \<lparr>lw_converters := lw_converters (s\<lparr>lw_create := rs\<rparr>) + (if ok then 1 else 0)\<rparr>"
  have s: "lw_bare s0 self ?s" "lwc_io (lw_cam ?s) = io"
    using bare io by (auto simp: lw_bare_def held_def has_handle_def no_buffers_def cam_blocks_def own_buffers_def
        mapped_buffers_def split: if_splits)
  show "safe (attempted s0 self io) (\<lambda>_. True) (let s = ?s in
       if \<not> ok then Some (Done (-1) s)
       else
         andthen (answer lw_try_format lw_try_format_update s) (\<lambda>r s.
           (case r of
              None \<Rightarrow> Some (Done (-1) s)
            | Some (pix, src) \<Rightarrow>
                andthen (lw_ioctl lw_s_fmt lw_s_fmt_update
                    (on_lw (\<lambda>c. c\<lparr>lwc_fmt_pix := pix, lwc_src_pix := src\<rparr>) s)) (\<lambda>r s.
                  (case r of
                     Inl _ \<Rightarrow> Some (Done (-1) s)
                   | Inr src \<Rightarrow> lw_init_image e (on_lw (lwc_src_pix_update (\<lambda>_. src)) s))))))"
  proof (cases ok)
    case True
    with bare have conv: "lw_converters s0 < lw_converters ?s" by (simp add: lw_bare_def)
    show ?thesis
      unfolding Let_def
    proof (split if_split, intro conjI impI, rule gives_up [OF s], rule safe_answer)
      fix r rs'
      let ?t = "?s\<lparr>lw_try_format := rs'\<rparr>"
      show "safe (attempted s0 self io) (\<lambda>_. True) (case r of
              None \<Rightarrow> Some (Done (-1) ?t)
            | Some (pix, src) \<Rightarrow>
                andthen (lw_ioctl lw_s_fmt lw_s_fmt_update
                    (on_lw (\<lambda>c. c\<lparr>lwc_fmt_pix := pix, lwc_src_pix := src\<rparr>) ?t)) (\<lambda>r s.
                  (case r of
                     Inl _ \<Rightarrow> Some (Done (-1) s)
                   | Inr src \<Rightarrow> lw_init_image e (on_lw (lwc_src_pix_update (\<lambda>_. src)) s))))"
      proof (cases r)
        case (Some p)
        obtain pix src where p: "p = (pix, src)" by (cases p)
        show ?thesis
          unfolding Some p option.case prod.case
        proof (rule safe_ioctl)
          fix q qs
          let ?u = "(on_lw (\<lambda>c. c\<lparr>lwc_fmt_pix := pix, lwc_src_pix := src\<rparr>) ?t)\<lparr>lw_s_fmt := qs\<rparr>"
          show "safe (attempted s0 self io) (\<lambda>_. True) (case q of
                     Inl _ \<Rightarrow> Some (Done (-1) ?u)
                   | Inr src \<Rightarrow> lw_init_image e (on_lw (lwc_src_pix_update (\<lambda>_. src)) ?u))"
            by (cases q) (use s conv in \<open>simp_all add: attempted_def init_image_attempted\<close>)
        qed
      qed (use s in \<open>simp add: attempted_def\<close>)
    qed
  qed (use s in \<open>simp add: attempted_def\<close>)
qed

lemma crop_bare: "lw_bare s0 self s \<Longrightarrow> lwc_io (lw_cam s) = io \<Longrightarrow>
    safe (\<lambda>_ t. lw_bare s0 self t \<and> lwc_io (lw_cam t) = io) E (lw_crop s)"
  unfolding lw_crop_def
proof (rule safe_ioctl)
  fix r rs assume s: "lw_bare s0 self s" "lwc_io (lw_cam s) = io"
  have "safe (\<lambda>_ t. lw_bare s0 self t \<and> lwc_io (lw_cam t) = io) E
      (andthen (lw_ioctl lw_s_crop lw_s_crop_update (s\<lparr>lw_cropcap := rs\<rparr>)) (\<lambda>_ s. Some (Done () s)))"
    by (rule safe_ioctl) (use s in simp)
  then show "safe (\<lambda>_ t. lw_bare s0 self t \<and> lwc_io (lw_cam t) = io) E (case r of
          Inl _ \<Rightarrow> Some (Done () (s\<lparr>lw_cropcap := rs\<rparr>))
        | Inr _ \<Rightarrow> andthen (lw_ioctl lw_s_crop lw_s_crop_update (s\<lparr>lw_cropcap := rs\<rparr>)) (\<lambda>_ s. Some (Done () s)))"
    by (cases r) (use s in simp_all)
qed

lemma init_device_attempted:
  assumes s: "lw_bare s0 self s" "lwc_io (lw_cam s) = io"
  shows "safe (attempted s0 self io) (\<lambda>_. True) (lw_init_device e s)"
  unfolding lw_init_device_def
proof (rule safe_ioctl)
  fix r rs
  let ?s = "s\<lparr>lw_querycap := rs\<rparr>"
  let ?rest = "andthen (lw_crop ?s) (\<lambda>_ s.
                lw_init_format e (on_lw (lwc_fmt_pix_update (\<lambda>_. \<lparr>pix_width = word_of_int (lwc_width (lw_cam s)),
                  pix_height = word_of_int (lwc_height (lw_cam s)), pix_bytesperline = 0, pix_sizeimage = 0\<rparr>)) s))"
  have "safe (\<lambda>_ t. lw_bare s0 self t \<and> lwc_io (lw_cam t) = io) (\<lambda>_. True) (lw_crop ?s)"
    by (rule crop_bare) (use s in simp_all)
  then have "safe (attempted s0 self io) (\<lambda>_. True) ?rest"
    by (rule safe_andthen) (simp add: init_format_attempted)
  then show "safe (attempted s0 self io) (\<lambda>_. True) (case r of
          Inl _ \<Rightarrow> Some (Done (-1) ?s)
        | Inr cap \<Rightarrow> if \<not> lw_can (lwc_io (lw_cam ?s)) cap then Some (Done (-1) ?s) else ?rest)"
    by (cases r) (use s in \<open>simp_all add: attempted_def\<close>)
qed

text \<open>Everything that was taken since \<open>s0\<close> has been given back.\<close>

definition given_back :: "lw_world \<Rightarrow> lw_world \<Rightarrow> bool" where
  "given_back s0 t \<longleftrightarrow> lw_blocks t = lw_blocks s0 \<and> lw_maps t = lw_maps s0 \<and> lw_handles t = lw_handles s0"

lemma frees_camera:
  assumes own: "owns s0 s (X @ addr f @ addr q @ addr i @ [self]) M" and fresh: "lw_fresh s0"
    and rest: "\<And>t. owns s0 t X M \<Longrightarrow> alloc_frame s t \<Longrightarrow> safe Q E (g () t)"
    and cam: "lwc_src_fmt (lw_cam s) = q" "lwc_img_data (lw_cam s) = i"
  shows "safe Q E (andthen (lw_free f s) (\<lambda>_ s.
     andthen (lw_free (lwc_src_fmt (lw_cam s)) s) (\<lambda>_ s.
     andthen (lw_free (lwc_img_data (lw_cam s)) s) (\<lambda>_ s.
     andthen (lw_free (Ptr self) s) g))))"
proof (rule safe_free [where A = X and B = "addr q @ addr i @ [self]" and M = M and ?s0.0 = s0])
  fix t assume t: "alloc_frame s t" "owns s0 t (X @ addr q @ addr i @ [self]) M"
  show "safe Q E (andthen (lw_free (lwc_src_fmt (lw_cam t)) t) (\<lambda>_ s.
     andthen (lw_free (lwc_img_data (lw_cam s)) s) (\<lambda>_ s.
     andthen (lw_free (Ptr self) s) g)))"
  proof (rule safe_free [where A = X and B = "addr i @ [self]" and M = M and ?s0.0 = s0])
    show "owns s0 t (X @ addr (lwc_src_fmt (lw_cam t)) @ addr i @ [self]) M"
      using t cam by (simp add: alloc_frame_def)
    fix u assume u: "alloc_frame t u" "owns s0 u (X @ addr i @ [self]) M"
    show "safe Q E (andthen (lw_free (lwc_img_data (lw_cam u)) u) (\<lambda>_ s. andthen (lw_free (Ptr self) s) g))"
    proof (rule safe_free [where A = X and B = "[self]" and M = M and ?s0.0 = s0])
      show "owns s0 u (X @ addr (lwc_img_data (lw_cam u)) @ [self]) M"
        using t(1) u cam by (simp add: alloc_frame_def)
      fix v assume v: "alloc_frame u v" "owns s0 v (X @ [self]) M"
      show "safe Q E (andthen (lw_free (Ptr self) v) g)"
        by (rule safe_free [where A = X and B = "[]" and M = M and ?s0.0 = s0])
          (use t(1) u(1) v fresh rest in \<open>simp_all add: alloc_frame_def\<close>)
    qed (rule fresh)
  qed (rule fresh)
qed (use own fresh in simp_all)

lemma open_fails_gives_back:
  assumes "held s0 self s" "has_handle s0 s" "no_buffers (lw_cam s)" and fresh: "lw_fresh s0"
  shows "safe (\<lambda>p t. p = NULL \<and> given_back s0 t) E (lw_open_fails self s)"
  unfolding lw_open_fails_def
proof (rule safe_answer)
  fix ok rs
  let ?s = "(s\<lparr>lw_close := rs\<rparr>)\<lparr>lw_handles := lw_handles (s\<lparr>lw_close := rs\<rparr>) - {lwc_fd (lw_cam (s\<lparr>lw_close := rs\<rparr>))}\<rparr>"
  let ?c = "lw_cam s"
  have own: "owns s0 s (addr (lwc_fmt ?c) @ addr (lwc_src_fmt ?c) @ addr (lwc_img_data ?c) @ [self]) []"
    using assms(1,3) by (simp add: held_def cam_blocks_def own_buffers_def mapped_buffers_def no_buffers_def
        split: if_splits)
  have h: "lw_handles s - {lwc_fd (lw_cam s)} = lw_handles s0" using assms(2) by (auto simp: has_handle_def)
  have "safe (\<lambda>p t. p = NULL \<and> given_back s0 t) E (andthen (lw_free (lwc_fmt ?c) ?s) (\<lambda>_ s.
     andthen (lw_free (lwc_src_fmt (lw_cam s)) s) (\<lambda>_ s.
     andthen (lw_free (lwc_img_data (lw_cam s)) s) (\<lambda>_ s.
     andthen (lw_free (Ptr self) s) (\<lambda>_ s. Some (Done NULL s))))))"
    by (rule frees_camera [where X = "[]" and M = "[]" and q = "lwc_src_fmt ?c" and i = "lwc_img_data ?c", OF _ fresh])
      (use h in \<open>simp_all add: own given_back_def alloc_frame_def owns_none\<close>)
  then show "safe (\<lambda>p t. p = NULL \<and> given_back s0 t) E (andthen (lw_free (lwc_fmt (lw_cam (s\<lparr>lw_close := rs\<rparr>))) ?s) (\<lambda>_ s.
     andthen (lw_free (lwc_src_fmt (lw_cam s)) s) (\<lambda>_ s.
     andthen (lw_free (lwc_img_data (lw_cam s)) s) (\<lambda>_ s.
     andthen (lw_free (Ptr self) s) (\<lambda>_ s. Some (Done NULL s))))))" by simp
qed

lemma no_formats_gives_back:
  assumes "held s0 self s" "has_handle s0 s" "no_buffers (lw_cam s)" "lwc_img_data (lw_cam s) = NULL"
    and fresh: "lw_fresh s0"
  shows "safe (\<lambda>p t. p = NULL \<and> given_back s0 t) E (lw_no_formats self s)"
  unfolding lw_no_formats_def
proof (rule safe_free [where A = "[]" and B = "addr (lwc_src_fmt (lw_cam s)) @ [self]" and M = "[]" and ?s0.0 = s0])
  show "owns s0 s ([] @ addr (lwc_fmt (lw_cam s)) @ addr (lwc_src_fmt (lw_cam s)) @ [self]) []"
    using assms(1,3,4) by (simp add: held_def cam_blocks_def own_buffers_def mapped_buffers_def no_buffers_def
        split: if_splits)
  fix t assume t: "alloc_frame s t" "owns s0 t ([] @ addr (lwc_src_fmt (lw_cam s)) @ [self]) []"
  show "safe (\<lambda>p t. p = NULL \<and> given_back s0 t) E (andthen (lw_free (lwc_src_fmt (lw_cam t)) t) (\<lambda>_ s.
     andthen (answer lw_close lw_close_update s) (\<lambda>_ s.
     andthen (lw_free (Ptr self) (s\<lparr>lw_handles := lw_handles s - {lwc_fd (lw_cam s)}\<rparr>)) (\<lambda>_ s.
       Some (Done NULL s)))))"
  proof (rule safe_free [where A = "[]" and B = "[self]" and M = "[]" and ?s0.0 = s0])
    show "owns s0 t ([] @ addr (lwc_src_fmt (lw_cam t)) @ [self]) []" using t by (simp add: alloc_frame_def)
    fix u assume u: "alloc_frame t u" "owns s0 u ([] @ [self]) []"
    have h: "lw_handles u - {lwc_fd (lw_cam u)} = lw_handles s0"
      using assms(2) t(1) u(1) by (auto simp: has_handle_def alloc_frame_def)
    show "safe (\<lambda>p t. p = NULL \<and> given_back s0 t) E (andthen (answer lw_close lw_close_update u) (\<lambda>_ s.
       andthen (lw_free (Ptr self) (s\<lparr>lw_handles := lw_handles s - {lwc_fd (lw_cam s)}\<rparr>)) (\<lambda>_ s.
         Some (Done NULL s))))"
      by (rule safe_answer, rule safe_free [where A = "[]" and B = "[]" and M = "[]" and ?s0.0 = s0])
        (use u(2) h fresh in \<open>simp_all add: given_back_def alloc_frame_def owns_none\<close>)
  qed (rule fresh)
qed (rule fresh)

text \<open>The method a camera works with when \<open>io\<close> is asked for: without a choice it is mapping, twice.\<close>

definition chosen :: "webcam_io_method \<Rightarrow> webcam_io_method" where
  "chosen io = (if io = WEBCAM_IO_METHOD_AUTO then WEBCAM_IO_METHOD_MMAP else io)"

definition opened :: "lw_world \<Rightarrow> webcam_io_method \<Rightarrow> nat ptr \<Rightarrow> lw_world \<Rightarrow> bool" where
  "opened s0 io p t \<longleftrightarrow> p = NULL \<and> given_back s0 t \<or> (\<exists>self. p = Ptr self \<and> ready_as s0 self (chosen io) t)"

lemma open_device_opened:
  assumes s: "held s0 self s" "has_handle s0 s" "no_buffers (lw_cam s)" "lwc_img_data (lw_cam s) = NULL"
      "lw_converters s0 \<le> lw_converters s" "lwc_io (lw_cam s) = io" and fresh: "lw_fresh s0"
  shows "safe (opened s0 io) (\<lambda>_. True) (lw_open_device e io self s)"
  unfolding lw_open_device_def
proof (rule safe_andthen)
  let ?Q = "\<lambda>b t. attempted s0 self (chosen io) (if b then 0 else -1) t"
  show "safe ?Q (\<lambda>_. True) (if io = WEBCAM_IO_METHOD_AUTO
      then andthen (lw_init_device e (on_lw (lwc_io_update (\<lambda>_. WEBCAM_IO_METHOD_MMAP)) s)) (\<lambda>r s. Some (Done (r = 0) s))
      else Some (Done False s))"
  proof (cases "io = WEBCAM_IO_METHOD_AUTO")
    case True
    let ?s = "on_lw (lwc_io_update (\<lambda>_. WEBCAM_IO_METHOD_MMAP)) s"
    have "lw_bare s0 self ?s" "lwc_io (lw_cam ?s) = chosen io"
      using s True by (simp_all add: lw_bare_def held_def has_handle_def no_buffers_def cam_blocks_def own_buffers_def
          mapped_buffers_def chosen_def)
    from init_device_attempted [OF this]
    have "safe ?Q (\<lambda>_. True) (andthen (lw_init_device e ?s) (\<lambda>r s. Some (Done (r = 0) s)))"
      by (rule safe_andthen) (auto simp: attempted_def)
    with True show ?thesis by simp
  next
    case False
    with s show ?thesis by (simp add: attempted_def lw_bare_def chosen_def)
  qed
  fix b t assume t: "?Q b t"
  show "safe (opened s0 io) (\<lambda>_. True) (if b then Some (Done (Ptr self) t)
         else andthen (lw_init_device e t) (\<lambda>r s. if r < 0 then lw_open_fails self s else Some (Done (Ptr self) s)))"
  proof (cases b)
    case True
    with t show ?thesis by (simp add: attempted_def opened_def)
  next
    case False
    with t have "lw_bare s0 self t" "lwc_io (lw_cam t) = chosen io" by (simp_all add: attempted_def)
    from init_device_attempted [OF this]
    have "safe (opened s0 io) (\<lambda>_. True)
        (andthen (lw_init_device e t) (\<lambda>r s. if r < 0 then lw_open_fails self s else Some (Done (Ptr self) s)))"
    proof (rule safe_andthen)
      fix r u assume u: "attempted s0 self (chosen io) r u"
      show "safe (opened s0 io) (\<lambda>_. True) (if r < 0 then lw_open_fails self u else Some (Done (Ptr self) u))"
      proof (cases "r < 0")
        case True
        with u have "lw_bare s0 self u" by (auto simp: attempted_def)
        then have "safe (\<lambda>p t. p = NULL \<and> given_back s0 t) (\<lambda>_. True) (lw_open_fails self u)"
          using fresh by (intro open_fails_gives_back) (simp_all add: lw_bare_def)
        from safe_mono [OF this, of "opened s0 io" "\<lambda>_. True"] True show ?thesis by (simp add: opened_def)
      next
        case False
        with u show ?thesis by (auto simp: attempted_def opened_def)
      qed
    qed
    with False show ?thesis by simp
  qed
qed

lemma open_formats_opened:
  assumes own: "owns s0 s [self] []" and fresh: "lw_fresh s0" and fd: "fd \<notin> lw_handles s0"
    and s: "lw_handles s = lw_handles s0" "lw_converters s = lw_converters s0"
  shows "safe (opened s0 io) (\<lambda>_. True) (lw_open_formats e io w h self fd s)"
proof -
  let ?c = "\<lambda>fmt src. \<lparr>lwc_fd = fd, lwc_io = io, lwc_buffers = NULL, lwc_array = [],
         lwc_n_buffers = 0, lwc_img_data = NULL, lwc_img_data_len = 0, lwc_width = w, lwc_height = h,
         lwc_v4lconvert_data = False, lwc_fmt = fmt, lwc_fmt_pix = \<lparr>pix_width = 0, pix_height = 0,
           pix_bytesperline = 0, pix_sizeimage = 0\<rparr>,
         lwc_src_fmt = src, lwc_src_pix = \<lparr>pix_width = 0, pix_height = 0,
           pix_bytesperline = 0, pix_sizeimage = 0\<rparr>\<rparr>"
  let ?rest = "\<lambda>fmt src t. if fmt = NULL \<or> src = NULL then lw_no_formats self (t\<lparr>lw_cam := ?c fmt src\<rparr>)
      else lw_open_device e io self (t\<lparr>lw_cam := ?c fmt src\<rparr>)"
  let ?h = "insert fd (lw_handles s0)"
  have last: "safe (opened s0 io) (\<lambda>_. True) (?rest fmt src t)"
    if t: "owns s0 t (addr src @ addr fmt @ [self]) []" "lw_handles t = ?h" "lw_converters t = lw_converters s0"
    for fmt src t
  proof -
    let ?t = "t\<lparr>lw_cam := ?c fmt src\<rparr>"
    have "owns s0 ?t (addr fmt @ addr src @ [self]) []"
      using owns_perm [OF t(1), of "addr fmt @ addr src @ [self]" "[]"] by simp
    then have cam: "held s0 self ?t" "has_handle s0 ?t" "no_buffers (lw_cam ?t)"
      using t(2) fd by (simp_all add: held_def has_handle_def no_buffers_def cam_blocks_def own_buffers_def mapped_buffers_def)
    have "safe (opened s0 io) (\<lambda>_. True) (lw_no_formats self ?t)"
      using safe_mono [OF no_formats_gives_back [OF cam _ fresh, of "\<lambda>_. True"], of "opened s0 io" "\<lambda>_. True"]
      by (simp add: opened_def)
    moreover have "safe (opened s0 io) (\<lambda>_. True) (lw_open_device e io self ?t)"
      by (rule open_device_opened [OF cam]) (use t(3) fresh in simp_all)
    ultimately show ?thesis by simp
  qed
  have own': "owns s0 (s\<lparr>lw_handles := insert fd (lw_handles s)\<rparr>) [self] []" using own by simp
  have second: "safe (opened s0 io) (\<lambda>_. True) (andthen (lw_malloc (junk_block e 208) t) (\<lambda>src t. ?rest fmt src t))"
    if t: "owns s0 t (addr fmt @ [self]) []" "lw_handles t = ?h" "lw_converters t = lw_converters s0" for fmt t
    by (rule safe_malloc [OF t(1)]; rule last) (use t in \<open>simp_all add: alloc_frame_def\<close>)
  show ?thesis
    unfolding lw_open_formats_def Let_def
    by (rule safe_malloc [OF own']; rule second) (use s in \<open>simp_all add: alloc_frame_def\<close>)
qed

lemma webcam_open_opened:
  assumes fresh: "lw_fresh s" and fds: "\<And>fd. Inr fd \<in> set (lw_open s) \<Longrightarrow> fd \<notin> lw_handles s"
  shows "safe (opened s io) (\<lambda>_. True) (lw_webcam_open e stat io w h s)"
proof -
  obtain w' h' where wh: "(if w < 0 then (640, 480) else (w, h)) = (w', h')" by fastforce
  have undo: "safe (opened s io) (\<lambda>_. True) (andthen (lw_free (Ptr self) t) (\<lambda>_ s. Some (Done NULL s)))"
    if t: "owns s t [self] []" "lw_handles t = lw_handles s" for self t
    by (rule safe_free [where A = "[]" and B = "[]" and M = "[]" and ?s0.0 = s])
      (use t fresh in \<open>simp_all add: opened_def given_back_def alloc_frame_def owns_none\<close>)
  have first: "safe (opened s io) (\<lambda>_. True) (if stat \<noteq> Some True then andthen (lw_free (Ptr self) t) (\<lambda>_ s. Some (Done NULL s))
             else
               andthen (answer lw_open lw_open_update t) (\<lambda>fd s.
                 (case fd of
                    Inl _ \<Rightarrow> andthen (lw_free (Ptr self) s) (\<lambda>_ s. Some (Done NULL s))
                  | Inr fd \<Rightarrow> lw_open_formats e io w' h' self fd s)))"
    if t: "owns s t [self] []" "lw_handles t = lw_handles s" "lw_converters t = lw_converters s"
      "lw_open t = lw_open s" for self t
  proof (cases "stat = Some True")
    case False
    with undo [OF t(1,2)] show ?thesis by simp
  next
    case True
    show ?thesis
    proof (cases "lw_open t")
      case (Cons fd rs)
      let ?t = "t\<lparr>lw_open := rs\<rparr>"
      have "safe (opened s io) (\<lambda>_. True) (case fd of
                    Inl _ \<Rightarrow> andthen (lw_free (Ptr self) ?t) (\<lambda>_ s. Some (Done NULL s))
                  | Inr fd \<Rightarrow> lw_open_formats e io w' h' self fd ?t)"
      proof (cases fd)
        case (Inl err)
        with undo [of ?t self] t show ?thesis by simp
      next
        case (Inr n)
        with Cons t(4) have "n \<notin> lw_handles s" by (intro fds) simp
        then have "safe (opened s io) (\<lambda>_. True) (lw_open_formats e io w' h' self n ?t)"
          by (intro open_formats_opened) (use t fresh in simp_all)
        with Inr show ?thesis by simp
      qed
      with True Cons show ?thesis by (simp add: answer_def)
    qed (simp add: True answer_def)
  qed
  show ?thesis
    unfolding lw_webcam_open_def wh Let_def prod.case
  proof (rule safe_malloc [OF owns_start [OF fresh]])
    fix t self
    assume "alloc_frame s t" "owns s t [self] []"
    then show "safe (opened s io) (\<lambda>_. True) (case Ptr self of
           NULL \<Rightarrow> Some (Done NULL t)
         | Ptr self \<Rightarrow>
             if stat \<noteq> Some True then andthen (lw_free (Ptr self) t) (\<lambda>_ s. Some (Done NULL s))
             else
               andthen (answer lw_open lw_open_update t) (\<lambda>fd s.
                 (case fd of
                    Inl _ \<Rightarrow> andthen (lw_free (Ptr self) s) (\<lambda>_ s. Some (Done NULL s))
                  | Inr fd \<Rightarrow> lw_open_formats e io w' h' self fd s)))"
      using first [of t self] by (simp add: alloc_frame_def)
  qed (simp add: opened_def given_back_def alloc_frame_def)
qed

section \<open>Closing\<close>

lemma unmap_loop_owns:
  "owns s0 s A (map lwb_start bs @ M) \<Longrightarrow> lw_fresh s0 \<Longrightarrow>
   safe (\<lambda>ok t. (\<exists>N. owns s0 t A N \<and> (ok \<longrightarrow> N = M)) \<and> lw_cam t = lw_cam s \<and> lw_handles t = lw_handles s) E
     (lw_unmap_loop bs s)"
proof (induction bs arbitrary: s)
  case (Cons b bs)
  let ?Q = "\<lambda>ok t. (\<exists>N. owns s0 t A N \<and> (ok \<longrightarrow> N = M)) \<and> lw_cam t = lw_cam s \<and> lw_handles t = lw_handles s"
  have p: "part (lw_maps s0) (lw_next s0) (lw_maps s) ([] @ lwb_start b # map lwb_start bs @ M)"
    and rest: "lw_fresh s" "lw_next s0 \<le> lw_next s" "part (lw_blocks s0) (lw_next s0) (lw_blocks s) A"
    using Cons.prems(1) by (simp_all add: owns_def)
  have "lw_maps s0 (lwb_start b) = None" using p Cons.prems(2) by (auto simp: part_def lw_fresh_def)
  note del = part_del [OF p this]
  show ?case
    unfolding lw_unmap_loop.simps
  proof (rule safe_answer)
    fix ok rs
    let ?s = "s\<lparr>lw_munmap := rs\<rparr>"
    let ?t = "?s\<lparr>lw_maps := (lw_maps ?s)(lwb_start b := None)\<rparr>"
    have "owns s0 ?t A (map lwb_start bs @ M)"
      using rest del(2) by (auto simp: owns_def lw_fresh_def)
    from Cons.IH [OF this Cons.prems(2)] have "safe ?Q E (lw_unmap_loop bs ?t)" by simp
    moreover have "safe ?Q E (Some (Done False ?s))" using Cons.prems(1) by auto
    ultimately show "safe ?Q E (if \<not> ok then Some (Done False ?s)
       else if lw_maps ?s (lwb_start b) = None then Some Undef else lw_unmap_loop bs ?t)"
      using del(1) by auto
  qed
qed simp

lemma free_loop_owns:
  "owns s0 s (map lwb_start bs @ A) M \<Longrightarrow> lw_fresh s0 \<Longrightarrow>
   safe (\<lambda>_ t. owns s0 t A M \<and> alloc_frame s t) E (lw_free_loop bs s)"
proof (induction bs arbitrary: s)
  case Nil
  then show ?case by (simp add: alloc_frame_def)
next
  case (Cons b bs)
  show ?case
    unfolding lw_free_loop.simps
  proof (rule safe_free [where A = "[]" and B = "map lwb_start bs @ A" and M = M and ?s0.0 = s0])
    fix t assume t: "alloc_frame s t" "owns s0 t ([] @ map lwb_start bs @ A) M"
    then have "safe (\<lambda>_ u. owns s0 u A M \<and> alloc_frame t u) E (lw_free_loop bs t)"
      by (intro Cons.IH Cons.prems(2)) simp
    then show "safe (\<lambda>_ u. owns s0 u A M \<and> alloc_frame s u) E (lw_free_loop bs t)"
      by (rule safe_mono) (use t(1) in \<open>simp_all add: alloc_frame_def\<close>)
  qed (use Cons.prems in simp_all)
qed

text \<open>What is left of a camera after its buffers have been released: everything but the buffers.\<close>

abbreviation rest_blocks :: "nat \<Rightarrow> lw_webcam \<Rightarrow> nat list" where
  "rest_blocks self c \<equiv> addr (lwc_fmt c) @ addr (lwc_src_fmt c) @ addr (lwc_img_data c) @ [self]"

lemma uninit_device_frees:
  assumes ready: "lw_ready s0 self s" and fresh: "lw_fresh s0"
  shows "safe (\<lambda>r t. (r = 0 \<and> owns s0 t (rest_blocks self (lw_cam s)) [] \<or>
      r = -1 \<and> (\<exists>N. owns s0 t (addr (lwc_buffers (lw_cam s)) @ rest_blocks self (lw_cam s)) N)) \<and>
      lw_cam t = lw_cam s \<and> lw_handles t = lw_handles s) E (lw_uninit_device s)"
proof -
  let ?c = "lw_cam s"
  let ?B = "addr (lwc_buffers ?c) @ rest_blocks self ?c"
  let ?ok = "\<lambda>ok t. (\<exists>N. owns s0 t ?B N \<and> (ok \<longrightarrow> N = [])) \<and> lw_cam t = ?c \<and> lw_handles t = lw_handles s"
  have own: "owns s0 s (own_buffers ?c @ ?B) (mapped_buffers ?c)"
    using ready by (simp add: lw_ready_def buffers_ready_def lw_core_def held_def cam_blocks_def)
  have enough: "\<not> length (lwc_array ?c) < lwc_n_buffers ?c" and io: "lwc_io ?c \<noteq> WEBCAM_IO_METHOD_AUTO"
    using ready by (auto simp: lw_ready_def buffers_ready_def split: webcam_io_method.splits)
  have buffers: "safe ?ok E (case lwc_io ?c of
             WEBCAM_IO_METHOD_READ \<Rightarrow>
               (case lwc_array ?c of
                  [] \<Rightarrow> Some Undef
                | b # _ \<Rightarrow> andthen (lw_free (Ptr (lwb_start b)) s) (\<lambda>_ s. Some (Done True s)))
           | WEBCAM_IO_METHOD_MMAP \<Rightarrow> lw_unmap_loop (take (lwc_n_buffers ?c) (lwc_array ?c)) s
           | WEBCAM_IO_METHOD_USERPTR \<Rightarrow> andthen (lw_free_loop (take (lwc_n_buffers ?c) (lwc_array ?c)) s)
              (\<lambda>_ s. Some (Done True s))
           | WEBCAM_IO_METHOD_AUTO \<Rightarrow> Some (Done True s))"
  proof (cases "lwc_io ?c")
    case WEBCAM_IO_METHOD_READ
    with ready obtain b where b: "lwc_array ?c = [b]"
      by (auto simp: lw_ready_def buffers_ready_def length_Suc_conv)
    have "safe ?ok E (andthen (lw_free (Ptr (lwb_start b)) s) (\<lambda>_ s. Some (Done True s)))"
      by (rule safe_free [where A = "[]" and B = ?B and M = "[]" and ?s0.0 = s0])
        (use own WEBCAM_IO_METHOD_READ b fresh in \<open>simp_all add: own_buffers_def mapped_buffers_def alloc_frame_def\<close>)
    with WEBCAM_IO_METHOD_READ b show ?thesis by simp
  next
    case WEBCAM_IO_METHOD_MMAP
    with ready have n: "length (lwc_array ?c) = lwc_n_buffers ?c" by (simp add: lw_ready_def buffers_ready_def)
    have "owns s0 s ?B (map lwb_start (lwc_array ?c) @ [])"
      using own WEBCAM_IO_METHOD_MMAP by (simp add: own_buffers_def mapped_buffers_def)
    from unmap_loop_owns [OF this fresh, of E] WEBCAM_IO_METHOD_MMAP n show ?thesis by simp
  next
    case WEBCAM_IO_METHOD_USERPTR
    with ready have n: "length (lwc_array ?c) = lwc_n_buffers ?c" by (simp add: lw_ready_def buffers_ready_def)
    have "owns s0 s (map lwb_start (lwc_array ?c) @ ?B) []"
      using own WEBCAM_IO_METHOD_USERPTR by (simp add: own_buffers_def mapped_buffers_def)
    from free_loop_owns [OF this fresh, of E]
    have "safe ?ok E (andthen (lw_free_loop (lwc_array ?c) s) (\<lambda>_ s. Some (Done True s)))"
      by (rule safe_andthen) (simp add: alloc_frame_def)
    with WEBCAM_IO_METHOD_USERPTR n show ?thesis by simp
  qed (use io in simp)
  show ?thesis
    unfolding lw_uninit_device_def Let_def if_not_P [OF enough]
  proof (rule safe_andthen [OF buffers])
    fix ok t assume t: "?ok ok t"
    show "safe (\<lambda>r t. (r = 0 \<and> owns s0 t (rest_blocks self ?c) [] \<or> r = -1 \<and> (\<exists>N. owns s0 t ?B N)) \<and>
        lw_cam t = ?c \<and> lw_handles t = lw_handles s) E
      (if \<not> ok then Some (Done (-1) t) else andthen (lw_free (lwc_buffers ?c) t) (\<lambda>_ s. Some (Done 0 s)))"
    proof (cases ok)
      case True
      have "safe (\<lambda>r t. (r = 0 \<and> owns s0 t (rest_blocks self ?c) [] \<or> r = -1 \<and> (\<exists>N. owns s0 t ?B N)) \<and>
          lw_cam t = ?c \<and> lw_handles t = lw_handles s) E (andthen (lw_free (lwc_buffers ?c) t) (\<lambda>_ s. Some (Done 0 s)))"
        by (rule safe_free [where A = "[]" and B = "rest_blocks self ?c" and M = "[]" and ?s0.0 = s0])
          (use t True fresh in \<open>simp_all add: alloc_frame_def\<close>)
      with True show ?thesis by simp
    qed (use t in auto)
  qed
qed

lemma webcam_close_gives_back:
  assumes ready: "lw_ready s0 self s" and fresh: "lw_fresh s0"
  shows "safe (\<lambda>r t. lw_handles t = lw_handles s0 \<and> (r = 0 \<longrightarrow> given_back s0 t)) E (lw_webcam_close self s)"
    (is "safe ?Q E _")
  unfolding lw_webcam_close_def
proof (rule safe_andthen [OF uninit_device_frees [OF ready fresh]], rule safe_answer)
  fix u :: int and t ok rs
  let ?c = "lw_cam s"
  assume t: "(u = 0 \<and> owns s0 t (rest_blocks self ?c) [] \<or>
      u = -1 \<and> (\<exists>N. owns s0 t (addr (lwc_buffers ?c) @ rest_blocks self ?c) N)) \<and>
      lw_cam t = ?c \<and> lw_handles t = lw_handles s"
  let ?t = "(t\<lparr>lw_close := rs\<rparr>)\<lparr>lw_handles := lw_handles (t\<lparr>lw_close := rs\<rparr>) - {lwc_fd (lw_cam (t\<lparr>lw_close := rs\<rparr>))}\<rparr>"
  have h: "lw_handles s - {lwc_fd ?c} = lw_handles s0"
    using ready by (auto simp: lw_ready_def buffers_ready_def lw_core_def has_handle_def)
  have "safe ?Q E (andthen (lw_free (lwc_fmt ?c) ?t) (\<lambda>_ s.
     andthen (lw_free (lwc_src_fmt (lw_cam s)) s) (\<lambda>_ s.
     andthen (lw_free (lwc_img_data (lw_cam s)) s) (\<lambda>_ s.
     andthen (lw_free (Ptr self) s) (\<lambda>_ s. Some (Done (if u < 0 \<or> \<not> ok then -1 else 0) s))))))"
  proof (cases "u = 0")
    case True
    with t have own: "owns s0 t (rest_blocks self ?c) []" by auto
    show ?thesis
      by (rule frees_camera [where X = "[]" and M = "[]" and q = "lwc_src_fmt ?c" and i = "lwc_img_data ?c", OF _ fresh], simp add: own)
        (use t h in \<open>simp_all add: given_back_def alloc_frame_def owns_none\<close>)
  next
    case False
    with t obtain N where own: "u = -1" "owns s0 t (addr (lwc_buffers ?c) @ rest_blocks self ?c) N" by auto
    show ?thesis
      by (rule frees_camera [where X = "addr (lwc_buffers ?c)" and M = N and q = "lwc_src_fmt ?c" and i = "lwc_img_data ?c", OF _ fresh], simp add: own)
        (use t h own(1) in \<open>simp_all add: alloc_frame_def\<close>)
  qed
  then show "safe ?Q E (andthen (lw_free (lwc_fmt (lw_cam (t\<lparr>lw_close := rs\<rparr>))) ?t) (\<lambda>_ s.
     andthen (lw_free (lwc_src_fmt (lw_cam s)) s) (\<lambda>_ s.
     andthen (lw_free (lwc_img_data (lw_cam s)) s) (\<lambda>_ s.
     andthen (lw_free (Ptr self) s) (\<lambda>_ s. Some (Done (if u < 0 \<or> \<not> ok then -1 else 0) s))))))"
    using t by simp
qed

end
