(* ===== verification/Lwebcam_Props.thy ===== *)
theory Lwebcam_Props
  imports Lwebcam_Memory
begin

text \<open>
  The frames of the earlier camera library stay within the memory of \<^verbatim>\<open>Lwebcam_Memory\<close>, and arrive; its properties.
\<close>

section \<open>Frames\<close>

text \<open>
  What is asked of the converter and of the device: an image is not longer than its buffer, and neither is a
  frame.
\<close>

definition converter_fits :: "converter \<Rightarrow> bool" where
  "converter_fits conv \<longleftrightarrow> (\<forall>src fmt frame len pic. conv src fmt frame len = Ptr pic \<longrightarrow> int (length pic) \<le> len)"

definition frame_fits :: "lw_webcam \<Rightarrow> dequeued \<Rightarrow> bool" where
  "frame_fits c d \<longleftrightarrow>
     (let n = (if lwc_io c = WEBCAM_IO_METHOD_MMAP then lwb_length (lwc_array c ! dq_index d) else dq_length d) in
      length (dq_data d) \<le> n \<and> dq_bytesused d \<le> n)"

definition lw_working :: "lw_world \<Rightarrow> nat \<Rightarrow> lw_world \<Rightarrow> bool" where
  "lw_working s0 self s \<longleftrightarrow> lw_ready s0 self s \<and> (\<forall>d. Inr d \<in> set (lw_dqbuf s) \<longrightarrow> frame_fits (lw_cam s) d)"

lemma xioctl_in: "xioctl rs = Some (r, rs') \<Longrightarrow> r \<in> set rs \<and> set rs' \<subseteq> set rs"
  by (induction rs rule: xioctl.induct) (auto split: if_splits)

lemma safe_ioctl_in:
  assumes "\<And>r rs. r \<in> set (get s) \<Longrightarrow> set rs \<subseteq> set (get s) \<Longrightarrow> safe Q E (f r (upd (\<lambda>_. rs) s))"
  shows "safe Q E (andthen (lw_ioctl get upd s) f)"
proof (cases "xioctl (get s)")
  case (Some p)
  obtain r rs where p: "p = (r, rs)" by (cases p)
  with Some xioctl_in [of "get s" r rs] assms [of r rs] show ?thesis by (simp add: lw_ioctl_def)
qed (simp add: lw_ioctl_def)

lemma ready_scripts [simp]:
  "lw_ready s0 self (s\<lparr>lw_select := a\<rparr>) = lw_ready s0 self s" "lw_ready s0 self (s\<lparr>lw_read := b\<rparr>) = lw_ready s0 self s"
  "lw_ready s0 self (s\<lparr>lw_dqbuf := c\<rparr>) = lw_ready s0 self s" "lw_ready s0 self (s\<lparr>lw_qbuf := d\<rparr>) = lw_ready s0 self s"
  "lw_ready s0 self (s\<lparr>lw_streamon := f\<rparr>) = lw_ready s0 self s"
  "lw_ready s0 self (s\<lparr>lw_streamoff := g\<rparr>) = lw_ready s0 self s"
  by (simp_all add: lw_ready_def lw_core_def held_def has_handle_def)

lemma working_scripts [simp]:
  "lw_working s0 self (s\<lparr>lw_select := a\<rparr>) = lw_working s0 self s"
  "lw_working s0 self (s\<lparr>lw_read := b\<rparr>) = lw_working s0 self s"
  "lw_working s0 self (s\<lparr>lw_qbuf := d\<rparr>) = lw_working s0 self s"
  "lw_working s0 self (s\<lparr>lw_streamon := f\<rparr>) = lw_working s0 self s"
  "lw_working s0 self (s\<lparr>lw_streamoff := g\<rparr>) = lw_working s0 self s"
  by (simp_all add: lw_working_def)

text \<open>Writing into a block or a mapping of the camera.\<close>

lemma buffers_fit_set:
  "buffers_fit m bs \<Longrightarrow> m a = Some old \<Longrightarrow> length new = length old \<Longrightarrow> buffers_fit (m(a \<mapsto> new)) bs"
  by (fastforce simp: buffers_fit_def)

lemma image_fits_set:
  "image_fits m c \<Longrightarrow> m a = Some old \<Longrightarrow> length new = length old \<Longrightarrow> image_fits (m(a \<mapsto> new)) c"
  by (auto simp: image_fits_def)

lemma owns_write:
  "owns s0 s A M \<Longrightarrow> a \<in> set A \<Longrightarrow> owns s0 (s\<lparr>lw_blocks := (lw_blocks s)(a \<mapsto> x)\<rparr>) A M"
  "owns s0 s A M \<Longrightarrow> b \<in> set M \<Longrightarrow> owns s0 (s\<lparr>lw_maps := (lw_maps s)(b \<mapsto> x)\<rparr>) A M"
  by (auto simp: owns_def lw_fresh_def part_def)

lemma working_write:
  assumes "lw_working s0 self s" "a \<in> set (cam_blocks self (lw_cam s))" "lw_blocks s a = Some old" "length new = length old"
  shows "lw_working s0 self (s\<lparr>lw_blocks := (lw_blocks s)(a \<mapsto> new)\<rparr>)"
proof -
  have "owns s0 (s\<lparr>lw_blocks := (lw_blocks s)(a \<mapsto> new)\<rparr>) (cam_blocks self (lw_cam s)) (mapped_buffers (lw_cam s))"
    using assms(1,2) by (intro owns_write) (simp_all add: lw_working_def lw_ready_def lw_core_def held_def)
  then show ?thesis
    using assms(1) image_fits_set [where m = "lw_blocks s", OF _ assms(3,4)]
      buffers_fit_set [where m = "lw_blocks s", OF _ assms(3,4)]
    by (auto simp: lw_working_def lw_ready_def lw_core_def held_def has_handle_def buffers_ready_def
        split: webcam_io_method.splits)
qed

lemma working_map:
  assumes "lw_working s0 self s" "a \<in> set (mapped_buffers (lw_cam s))" "lw_maps s a = Some old" "length new = length old"
  shows "lw_working s0 self (s\<lparr>lw_maps := (lw_maps s)(a \<mapsto> new)\<rparr>)"
proof -
  have "owns s0 (s\<lparr>lw_maps := (lw_maps s)(a \<mapsto> new)\<rparr>) (cam_blocks self (lw_cam s)) (mapped_buffers (lw_cam s))"
    using assms(1,2) by (intro owns_write) (simp_all add: lw_working_def lw_ready_def lw_core_def held_def)
  then show ?thesis
    using assms(1) buffers_fit_set [where m = "lw_maps s", OF _ assms(3,4)]
    by (auto simp: lw_working_def lw_ready_def lw_core_def held_def has_handle_def buffers_ready_def
        split: webcam_io_method.splits)
qed

lemma blit_fits: "length ys \<le> length xs \<Longrightarrow> \<exists>zs. blit xs 0 ys = Some zs \<and> length zs = length xs"
  by (simp add: blit_def)

definition frame_result :: "lw_world \<Rightarrow> nat \<Rightarrow> int \<Rightarrow> lw_world \<Rightarrow> bool" where
  "frame_result s0 self r t \<longleftrightarrow> r \<in> {-1, 0, 1} \<and> lw_working s0 self t"

lemma process_image_working:
  assumes w: "lw_working s0 self s" and conv: "converter_fits conv" and len: "len \<le> length mem"
  shows "safe (frame_result s0 self) E (lw_process_image conv mem len s)"
proof -
  let ?c = "lw_cam s"
  let ?pic = "conv (lwc_src_pix ?c) (lwc_fmt_pix ?c) (take len mem) (lwc_img_data_len ?c)"
  obtain a img where img: "lwc_img_data ?c = Ptr a" "lw_blocks s a = Some img" "lwc_img_data_len ?c \<le> int (length img)"
    using w by (auto simp: lw_working_def lw_ready_def lw_core_def image_fits_def)
  show ?thesis
  proof (cases ?pic)
    case NULL
    with w len show ?thesis by (simp add: lw_process_image_def slice_def frame_result_def)
  next
    case (Ptr pic)
    with conv have "int (length pic) \<le> lwc_img_data_len ?c" unfolding converter_fits_def by blast
    with img(3) have "length pic \<le> length img" by linarith
    then obtain new where new: "blit img 0 pic = Some new" "length new = length img" using blit_fits by blast
    have "a \<in> set (cam_blocks self ?c)" by (simp add: cam_blocks_def img(1))
    from working_write [OF w this img(2) new(2)] len Ptr img new(1) show ?thesis
      by (simp add: lw_process_image_def slice_def frame_result_def)
  qed
qed

lemma frame_done_working:
  assumes "lw_working s0 self s" "converter_fits conv" "len \<le> length mem"
  shows "safe (frame_result s0 self) E (lw_frame_done conv mem len s)"
  unfolding lw_frame_done_def
proof (rule safe_andthen [OF process_image_working [OF assms]], rule safe_ioctl)
  fix rv :: int and t and r :: "errno + unit" and rs
  assume "frame_result s0 self rv t"
  then show "safe (frame_result s0 self) E (Some (Done (case r of Inl _ \<Rightarrow> -1 | Inr _ \<Rightarrow> rv) (t\<lparr>lw_qbuf := rs\<rparr>)))"
    by (cases r) (auto simp: frame_result_def)
qed

lemma frame_read_working:
  assumes w: "lw_working s0 self s" and conv: "converter_fits conv" and io: "lwc_io (lw_cam s) = WEBCAM_IO_METHOD_READ"
  shows "safe (frame_result s0 self) E (lw_frame_read conv s)"
proof -
  obtain b mem where b: "lwc_array (lw_cam s) = [b]" "lw_blocks s (lwb_start b) = Some mem" "length mem = lwb_length b"
    using w io by (auto simp: lw_working_def lw_ready_def buffers_ready_def length_Suc_conv)
  have "safe (frame_result s0 self) E (andthen (answer lw_read lw_read_update s) (\<lambda>r s.
            (case r of
               Inl err \<Rightarrow> Some (Done (frame_error err) s)
             | Inr data \<Rightarrow>
                 need (Option.bind (lw_blocks s (lwb_start b)) (\<lambda>mem. blit mem 0 (take (lwb_length b) data))) (\<lambda>mem.
                   lw_process_image conv mem (min (lwb_length b) (length data))
                     (s\<lparr>lw_blocks := (lw_blocks s)(lwb_start b \<mapsto> mem)\<rparr>)))))"
  proof (rule safe_answer)
    fix r rs
    let ?s = "s\<lparr>lw_read := rs\<rparr>"
    show "safe (frame_result s0 self) E (case r of
               Inl err \<Rightarrow> Some (Done (frame_error err) ?s)
             | Inr data \<Rightarrow>
                 need (Option.bind (lw_blocks ?s (lwb_start b)) (\<lambda>mem. blit mem 0 (take (lwb_length b) data))) (\<lambda>mem.
                   lw_process_image conv mem (min (lwb_length b) (length data))
                     (?s\<lparr>lw_blocks := (lw_blocks ?s)(lwb_start b \<mapsto> mem)\<rparr>)))"
    proof (cases r)
      case (Inl err)
      with w show ?thesis by (simp add: frame_result_def frame_error_def)
    next
      case (Inr data)
      have "length (take (lwb_length b) data) \<le> length mem" using b(3) by simp
      then obtain new where new: "blit mem 0 (take (lwb_length b) data) = Some new" "length new = length mem"
        using blit_fits by blast
      have "lw_working s0 self (?s\<lparr>lw_blocks := (lw_blocks ?s)(lwb_start b \<mapsto> new)\<rparr>)"
        by (rule working_write [where old = mem]) (use w b new io in \<open>simp_all add: cam_blocks_def own_buffers_def\<close>)
      from process_image_working [OF this conv, of _ new] new b Inr show ?thesis by simp
    qed
  qed
  with b(1) show ?thesis by (simp add: lw_frame_read_def)
qed

lemma frame_mmap_working:
  assumes w: "lw_working s0 self s" and conv: "converter_fits conv" and io: "lwc_io (lw_cam s) = WEBCAM_IO_METHOD_MMAP"
  shows "safe (frame_result s0 self) (\<lambda>_. True) (lw_frame_mmap conv s)"
  unfolding lw_frame_mmap_def
proof (rule safe_ioctl_in)
  fix r rs assume rs: "r \<in> set (lw_dqbuf s)" "set rs \<subseteq> set (lw_dqbuf s)"
  let ?s = "s\<lparr>lw_dqbuf := rs\<rparr>" and ?bufs = "lwc_array (lw_cam s)"
  have ws: "lw_working s0 self ?s" using w rs(2) by (auto simp: lw_working_def)
  show "safe (frame_result s0 self) (\<lambda>_. True) (case r of
          Inl err \<Rightarrow> Some (Done (frame_error err) ?s)
        | Inr d \<Rightarrow>
            if lwc_n_buffers (lw_cam ?s) \<le> dq_index d then errno_exit ?s
            else if length (lwc_array (lw_cam ?s)) \<le> dq_index d then Some Undef
            else
              let a = lwb_start (lwc_array (lw_cam ?s) ! dq_index d) in
              need (Option.bind (lw_maps ?s a) (\<lambda>mem. blit mem 0 (dq_data d))) (\<lambda>mem.
                lw_frame_done conv mem (dq_bytesused d) (?s\<lparr>lw_maps := (lw_maps ?s)(a \<mapsto> mem)\<rparr>)))"
  proof (cases r)
    case (Inl err)
    with ws show ?thesis by (simp add: frame_result_def frame_error_def)
  next
    case (Inr d)
    show ?thesis
    proof (cases "lwc_n_buffers (lw_cam s) \<le> dq_index d")
      case False
      have n: "length ?bufs = lwc_n_buffers (lw_cam s)" and fit: "buffers_fit (lw_maps s) ?bufs"
        using w io by (simp_all add: lw_working_def lw_ready_def buffers_ready_def)
      let ?b = "?bufs ! dq_index d"
      have mem_b: "?b \<in> set ?bufs" using False n by simp
      then obtain mem where mem: "lw_maps s (lwb_start ?b) = Some mem" "length mem = lwb_length ?b"
        using fit by (auto simp: buffers_fit_def)
      have "frame_fits (lw_cam s) d" using w rs(1) Inr by (simp add: lw_working_def)
      then have len: "length (dq_data d) \<le> length mem" "dq_bytesused d \<le> length mem"
        using io mem(2) by (simp_all add: frame_fits_def Let_def)
      obtain new where new: "blit mem 0 (dq_data d) = Some new" "length new = length mem"
        using blit_fits [OF len(1)] by blast
      have "lw_working s0 self (?s\<lparr>lw_maps := (lw_maps ?s)(lwb_start ?b \<mapsto> new)\<rparr>)"
        by (rule working_map [where old = mem]) (use ws mem new mem_b io in \<open>simp_all add: mapped_buffers_def\<close>)
      from frame_done_working [OF this conv, of "dq_bytesused d" new] len(2) new mem False n Inr
      show ?thesis by (simp add: Let_def)
    qed (simp add: Inr errno_exit_def)
  qed
qed

lemma frame_userptr_working:
  assumes w: "lw_working s0 self s" and conv: "converter_fits conv"
    and io: "lwc_io (lw_cam s) = WEBCAM_IO_METHOD_USERPTR"
  shows "safe (frame_result s0 self) (\<lambda>_. True) (lw_frame_userptr conv s)"
  unfolding lw_frame_userptr_def
proof (rule safe_ioctl_in)
  fix r rs assume rs: "r \<in> set (lw_dqbuf s)" "set rs \<subseteq> set (lw_dqbuf s)"
  let ?s = "s\<lparr>lw_dqbuf := rs\<rparr>" and ?bufs = "lwc_array (lw_cam s)"
  have ws: "lw_working s0 self ?s" using w rs(2) by (auto simp: lw_working_def)
  show "safe (frame_result s0 self) (\<lambda>_. True) (case r of
          Inl err \<Rightarrow> Some (Done (frame_error err) ?s)
        | Inr d \<Rightarrow>
            let cam = lw_cam ?s in
            if length (lwc_array cam) < lwc_n_buffers cam then Some Undef
            else if \<not> list_ex (\<lambda>b. dq_userptr d = lwb_start b \<and> dq_length d = lwb_length b)
                (take (lwc_n_buffers cam) (lwc_array cam))
            then errno_exit ?s
            else
              need (Option.bind (lw_blocks ?s (dq_userptr d)) (\<lambda>mem. blit mem 0 (dq_data d))) (\<lambda>mem.
                lw_frame_done conv mem (dq_bytesused d) (?s\<lparr>lw_blocks := (lw_blocks ?s)(dq_userptr d \<mapsto> mem)\<rparr>)))"
  proof (cases r)
    case (Inl err)
    with ws show ?thesis by (simp add: frame_result_def frame_error_def)
  next
    case (Inr d)
    have n: "length ?bufs = lwc_n_buffers (lw_cam s)" and fit: "buffers_fit (lw_blocks s) ?bufs"
      using w io by (simp_all add: lw_working_def lw_ready_def buffers_ready_def)
    show ?thesis
    proof (cases "list_ex (\<lambda>b. dq_userptr d = lwb_start b \<and> dq_length d = lwb_length b) ?bufs")
      case True
      then obtain b where b: "b \<in> set ?bufs" "dq_userptr d = lwb_start b" "dq_length d = lwb_length b"
        by (auto simp: list_ex_iff)
      then obtain mem where mem: "lw_blocks s (lwb_start b) = Some mem" "length mem = lwb_length b"
        using fit by (auto simp: buffers_fit_def)
      have "frame_fits (lw_cam s) d" using w rs(1) Inr by (simp add: lw_working_def)
      then have len: "length (dq_data d) \<le> length mem" "dq_bytesused d \<le> length mem"
        using io mem(2) b(3) by (simp_all add: frame_fits_def Let_def)
      obtain new where new: "blit mem 0 (dq_data d) = Some new" "length new = length mem"
        using blit_fits [OF len(1)] by blast
      have "lw_working s0 self (?s\<lparr>lw_blocks := (lw_blocks ?s)(lwb_start b \<mapsto> new)\<rparr>)"
        by (rule working_write [where old = mem])
          (use ws mem new b(1) io in \<open>simp_all add: cam_blocks_def own_buffers_def\<close>)
      from frame_done_working [OF this conv, of "dq_bytesused d" new] len(2) new mem True n Inr b(2)
      show ?thesis by (simp add: Let_def)
    qed (simp add: Inr errno_exit_def n Let_def)
  qed
qed

lemma read_frame_working:
  assumes w: "lw_working s0 self s" and conv: "converter_fits conv"
  shows "safe (frame_result s0 self) (\<lambda>_. True) (lw_read_frame conv s)"
proof (cases "lwc_io (lw_cam s)")
  case WEBCAM_IO_METHOD_AUTO
  with w show ?thesis by (simp add: lw_working_def lw_ready_def buffers_ready_def)
qed (simp_all add: lw_read_frame_def frame_read_working [OF w conv] frame_mmap_working [OF w conv]
    frame_userptr_working [OF w conv])

lemma wait_frame_working:
  assumes "lw_working s0 self s" and conv: "converter_fits conv"
  shows "safe (frame_result s0 self) (\<lambda>_. True) (lw_webcam_wait_frame conv s)"
proof (rule safe_some)
  fix y assume "lw_webcam_wait_frame conv s = Some y"
  then have "converter_fits conv \<longrightarrow> lw_working s0 self s \<longrightarrow> safe (frame_result s0 self) (\<lambda>_. True) (Some y)"
  proof (rule lw_webcam_wait_frame.raw_induct [rotated], intro impI)
    fix f :: "converter \<Rightarrow> int lw_act" and conv s y
    assume IH: "\<And>conv s y. f conv s = Some y \<Longrightarrow> converter_fits conv \<longrightarrow> lw_working s0 self s \<longrightarrow>
        safe (frame_result s0 self) (\<lambda>_. True) (Some y)"
      and body: "andthen (answer lw_select lw_select_update s) (\<lambda>r s.
       if r = Inl EINTR then f conv s
       else if isl r then Some (Done (-1) s)
       else if r = Inr False then Some (Done 0 s)
       else
         andthen (lw_read_frame conv s) (\<lambda>r s.
           if r < 0 then Some (Done (-1) s)
           else if 0 < r then Some (Done 1 s)
           else f conv s)) = Some y"
      and conv: "converter_fits conv" and w: "lw_working s0 self s"
    have loop: "safe (frame_result s0 self) (\<lambda>_. True) (f conv t)" if "lw_working s0 self t" for t
      by (rule safe_some, drule IH) (use conv that in simp)
    show "safe (frame_result s0 self) (\<lambda>_. True) (Some y)"
      unfolding body [symmetric]
    proof (rule safe_answer)
      fix r rs
      let ?s = "s\<lparr>lw_select := rs\<rparr>"
      have ws: "lw_working s0 self ?s" using w by simp
      have "safe (frame_result s0 self) (\<lambda>_. True) (andthen (lw_read_frame conv ?s) (\<lambda>r s.
           if r < 0 then Some (Done (-1) s) else if 0 < r then Some (Done 1 s) else f conv s))"
        by (rule safe_andthen [OF read_frame_working [OF ws conv]]) (auto simp: frame_result_def loop)
      then show "safe (frame_result s0 self) (\<lambda>_. True) (if r = Inl EINTR then f conv ?s
       else if isl r then Some (Done (-1) ?s)
       else if r = Inr False then Some (Done 0 ?s)
       else andthen (lw_read_frame conv ?s) (\<lambda>r s.
           if r < 0 then Some (Done (-1) s) else if 0 < r then Some (Done 1 s) else f conv s))"
        using loop [OF ws] ws by (simp add: frame_result_def)
    qed
  qed
  with assms show "safe (frame_result s0 self) (\<lambda>_. True) (Some y)" by blast
qed

lemma queue_loop_working:
  "lw_working s0 self s \<Longrightarrow> safe (\<lambda>_. lw_working s0 self) E (lw_queue_loop n s)"
proof (induction n arbitrary: s)
  case (Suc n)
  show ?case
    unfolding lw_queue_loop.simps
  proof (rule safe_ioctl)
    fix r :: "errno + unit" and rs
    show "safe (\<lambda>_. lw_working s0 self) E
        (case r of Inl _ \<Rightarrow> Some (Done False (s\<lparr>lw_qbuf := rs\<rparr>)) | Inr _ \<Rightarrow> lw_queue_loop n (s\<lparr>lw_qbuf := rs\<rparr>))"
      by (cases r) (use Suc in simp_all)
  qed
qed simp

lemma start_working:
  assumes w: "lw_working s0 self s"
  shows "safe (\<lambda>_. lw_working s0 self) E (lw_start_capturing s)"
proof -
  have n: "\<not> (lwc_io (lw_cam s) = WEBCAM_IO_METHOD_USERPTR \<and> length (lwc_array (lw_cam s)) < lwc_n_buffers (lw_cam s))"
    using w by (auto simp: lw_working_def lw_ready_def buffers_ready_def)
  have "safe (\<lambda>_. lw_working s0 self) E
      (andthen (lw_queue_loop (lwc_n_buffers (lw_cam s)) s) (\<lambda>ok s.
              if \<not> ok then Some (Done (-1) s)
              else andthen (lw_ioctl lw_streamon lw_streamon_update s) (\<lambda>r s.
                Some (Done (case r of Inl _ \<Rightarrow> - (1 :: int) | Inr _ \<Rightarrow> 0) s))))"
  proof (rule safe_andthen [OF queue_loop_working [OF w]])
    fix ok t assume t: "lw_working s0 self t"
    have "safe (\<lambda>_. lw_working s0 self) E (andthen (lw_ioctl lw_streamon lw_streamon_update t) (\<lambda>r s.
                Some (Done (case r of Inl _ \<Rightarrow> - (1 :: int) | Inr _ \<Rightarrow> 0) s)))"
      by (rule safe_ioctl) (use t in simp)
    with t show "safe (\<lambda>_. lw_working s0 self) E (if \<not> ok then Some (Done (-1) t)
              else andthen (lw_ioctl lw_streamon lw_streamon_update t) (\<lambda>r s.
                Some (Done (case r of Inl _ \<Rightarrow> - (1 :: int) | Inr _ \<Rightarrow> 0) s)))" by simp
  qed
  with n w show ?thesis by (cases "lwc_io (lw_cam s)") (simp_all add: lw_start_capturing_def)
qed

lemma stop_working:
  assumes w: "lw_working s0 self s"
  shows "safe (\<lambda>_. lw_working s0 self) E (lw_stop_capturing s)"
proof -
  have "safe (\<lambda>_. lw_working s0 self) E (andthen (lw_ioctl lw_streamoff lw_streamoff_update s) (\<lambda>r s.
        Some (Done (case r of Inl _ \<Rightarrow> - (1 :: int) | Inr _ \<Rightarrow> 0) s)))"
    by (rule safe_ioctl) (use w in simp)
  with w show ?thesis by (simp add: lw_stop_capturing_def)
qed

section \<open>Waiting until the frame is there\<close>

text \<open>The answers of \<^verbatim>\<open>select\<close> before the last one: interrupted, or ready for a call that finds nothing yet.\<close>

definition early :: "(errno + bool) list \<Rightarrow> bool" where
  "early xs \<longleftrightarrow> set xs \<subseteq> {Inl EINTR, Inr True}"

definition ready_count :: "(errno + bool) list \<Rightarrow> nat" where
  "ready_count xs = length (filter (\<lambda>x. x = Inr True) xs)"

lemma read_arrives:
  assumes b: "lwc_array (lw_cam s) = [b]" "lwc_io (lw_cam s) = WEBCAM_IO_METHOD_READ"
      "lw_blocks s (lwb_start b) = Some mem" "length mem = lwb_length b" "length data \<le> lwb_length b"
    and img: "lwc_img_data (lw_cam s) = Ptr a" "a \<noteq> lwb_start b" "lw_blocks s a = Some img"
    and conv: "conv (lwc_src_pix (lw_cam s)) (lwc_fmt_pix (lw_cam s)) data (lwc_img_data_len (lw_cam s)) = Ptr pic"
      "length pic \<le> length img"
    and rd: "lw_read s = Inr data # rd"
  shows "\<exists>t. lw_read_frame conv s = Some (Done 1 t) \<and> lw_blocks t a = Some (pic @ drop (length pic) img) \<and>
    lw_select t = lw_select s \<and> lw_read t = rd"
proof -
  have "take (lwb_length b) data = data" "min (lwb_length b) (length data) = length data" using b(5) by simp_all
  then show ?thesis
    using assms
    by (simp add: lw_read_frame_def lw_frame_read_def answer_def lw_process_image_def blit_def slice_def)
qed

lemma wait_arrives:
  assumes b: "lwc_array (lw_cam s) = [b]" "lwc_io (lw_cam s) = WEBCAM_IO_METHOD_READ"
      "lw_blocks s (lwb_start b) = Some mem" "length mem = lwb_length b" "length data \<le> lwb_length b"
    and img: "lwc_img_data (lw_cam s) = Ptr a" "a \<noteq> lwb_start b" "lw_blocks s a = Some img"
    and conv: "conv (lwc_src_pix (lw_cam s)) (lwc_fmt_pix (lw_cam s)) data (lwc_img_data_len (lw_cam s)) = Ptr pic"
      "length pic \<le> length img"
    and "early xs" "lw_select s = xs @ Inr True # sel"
      "lw_read s = replicate (ready_count xs) (Inl EAGAIN) @ Inr data # rd"
  shows "\<exists>t. lw_webcam_wait_frame conv s = Some (Done 1 t) \<and> lw_blocks t a = Some (pic @ drop (length pic) img) \<and>
    lw_select t = sel \<and> lw_read t = rd"
  using assms
proof (induction xs arbitrary: s)
  case Nil
  let ?s = "s\<lparr>lw_select := sel\<rparr>"
  have "\<exists>t. lw_read_frame conv ?s = Some (Done 1 t) \<and> lw_blocks t a = Some (pic @ drop (length pic) img) \<and>
      lw_select t = lw_select ?s \<and> lw_read t = rd"
    by (rule read_arrives [where b = b and mem = mem and data = data]) (use Nil in \<open>simp_all add: ready_count_def\<close>)
  then show ?case
    using Nil.prems(12) by (subst lw_webcam_wait_frame.simps) (auto simp: answer_def)
next
  case (Cons x xs)
  let ?s = "s\<lparr>lw_select := xs @ Inr True # sel\<rparr>"
  have e: "early xs" "x = Inl EINTR \<or> x = Inr True" using Cons.prems(11) by (auto simp: early_def)
  show ?case
  proof (cases "x = Inl EINTR")
    case True
    have "\<exists>t. lw_webcam_wait_frame conv ?s = Some (Done 1 t) \<and> lw_blocks t a = Some (pic @ drop (length pic) img) \<and>
        lw_select t = sel \<and> lw_read t = rd"
      by (rule Cons.IH) (use Cons.prems e True in \<open>simp_all add: ready_count_def\<close>)
    with True Cons.prems(12) show ?thesis by (subst lw_webcam_wait_frame.simps) (simp add: answer_def)
  next
    case False
    with e have x: "x = Inr True" by simp
    let ?t = "?s\<lparr>lw_read := replicate (ready_count xs) (Inl EAGAIN) @ Inr data # rd\<rparr>"
    have "lw_read_frame conv ?s = Some (Done 0 ?t)"
      using Cons.prems(1,2,13) x
      by (simp add: lw_read_frame_def lw_frame_read_def answer_def frame_error_def ready_count_def)
    moreover have "\<exists>t. lw_webcam_wait_frame conv ?t = Some (Done 1 t) \<and>
        lw_blocks t a = Some (pic @ drop (length pic) img) \<and> lw_select t = sel \<and> lw_read t = rd"
      by (rule Cons.IH) (use Cons.prems e in simp_all)
    ultimately show ?thesis
      using x Cons.prems(12) by (subst lw_webcam_wait_frame.simps) (simp add: answer_def)
  qed
qed

section \<open>A camera for the examples\<close>

definition lw_example_pix :: pix_format where
  "lw_example_pix = \<lparr>pix_width = 1, pix_height = 1, pix_bytesperline = 3, pix_sizeimage = 3\<rparr>"

definition lw_example :: lw_world where
  "lw_example =
     \<lparr>lw_cam = \<lparr>lwc_fd = 0, lwc_io = WEBCAM_IO_METHOD_READ, lwc_buffers = NULL, lwc_array = [], lwc_n_buffers = 0,
        lwc_img_data = NULL, lwc_img_data_len = 0, lwc_width = 0, lwc_height = 0, lwc_v4lconvert_data = False,
        lwc_fmt = NULL, lwc_fmt_pix = lw_example_pix, lwc_src_fmt = NULL, lwc_src_pix = lw_example_pix\<rparr>,
      lw_blocks = (\<lambda>_. None), lw_maps = (\<lambda>_. None), lw_next = 0, lw_handles = {}, lw_converters = 0,
      lw_pagesize = 4096, lw_grants = [True, True, True, True, True, True], lw_open = [Inr 3], lw_close = [True],
      lw_querycap = [Inr \<lparr>cap_capture = True, cap_streaming = False, cap_readwrite = True, cap_bus = [],
        cap_driver = [], cap_card = []\<rparr>],
      lw_cropcap = [Inl EINVAL], lw_s_crop = [], lw_create = [True],
      lw_try_format = [Some (lw_example_pix, lw_example_pix)], lw_s_fmt = [Inl EINTR, Inr lw_example_pix],
      lw_reqbufs = [], lw_querybuf = [], lw_mmap = [], lw_munmap = [], lw_qbuf = [], lw_dqbuf = [], lw_streamon = [],
      lw_streamoff = [], lw_read = [Inl EAGAIN, Inr [7, 8, 9]], lw_select = [Inr True, Inl EINTR, Inr True]\<rparr>"

definition lw_example_conv :: converter where
  "lw_example_conv src fmt frame len = (if len < 3 then NULL else Ptr (take 3 frame))"

lemma lw_example_conv: "converter_fits lw_example_conv"
  by (auto simp: converter_fits_def lw_example_conv_def)

lemma lw_example_opens:
  "\<exists>t. lw_webcam_open easy_env (Some True) WEBCAM_IO_METHOD_READ (-1) 0 lw_example = Some (Done (Ptr 0) t) \<and>
     lw_select t = lw_select lw_example \<and> lw_read t = lw_read lw_example \<and> lw_dqbuf t = [] \<and>
     lwc_array (lw_cam t) = [\<lparr>lwb_start = 5, lwb_length = 3\<rparr>] \<and> lwc_img_data (lw_cam t) = Ptr 3 \<and>
     lwc_img_data_len (lw_cam t) = 3"
  by (simp add: lw_webcam_open_def lw_example_def lw_malloc_def answer_def lw_open_formats_def lw_open_device_def
      lw_init_device_def lw_ioctl_def lw_can_def lw_crop_def lw_init_format_def lw_init_image_def lw_init_buffers_def
      lw_init_read_def on_lw_def lw_example_pix_def)

lemma lw_example_ready:
  "\<exists>t. lw_webcam_open easy_env (Some True) WEBCAM_IO_METHOD_READ (-1) 0 lw_example = Some (Done (Ptr 0) t) \<and>
     lw_ready lw_example 0 t \<and> lwc_io (lw_cam t) = WEBCAM_IO_METHOD_READ \<and>
     lw_select t = [Inr True, Inl EINTR, Inr True] \<and> lw_read t = [Inl EAGAIN, Inr [7, 8, 9]] \<and> lw_dqbuf t = [] \<and>
     lwc_array (lw_cam t) = [\<lparr>lwb_start = 5, lwb_length = 3\<rparr>] \<and> lwc_img_data (lw_cam t) = Ptr 3 \<and>
     lwc_img_data_len (lw_cam t) = 3"
proof -
  have "lw_fresh lw_example" by (simp add: lw_fresh_def lw_example_def)
  moreover have "fd \<notin> lw_handles lw_example" for fd by (simp add: lw_example_def)
  ultimately show ?thesis
    using webcam_open_opened [of lw_example WEBCAM_IO_METHOD_READ easy_env "Some True" "-1" 0] lw_example_opens
    by (auto simp: opened_def chosen_def) (auto simp: lw_example_def)
qed

section \<open>Properties\<close>

text \<open>Closing a camera leaves the converters alone.\<close>

lemma free_converters: "lw_converters s = k \<Longrightarrow> keeps (\<lambda>t. lw_converters t = k) (lw_free p s)"
  by (cases p) (simp_all add: lw_free_def)

lemma answer_converters:
  "(\<And>rs. lw_converters (upd (\<lambda>_. rs) s) = lw_converters s) \<Longrightarrow> lw_converters s = k \<Longrightarrow>
   keeps (\<lambda>t. lw_converters t = k) (answer get upd s)"
  by (simp add: answer_def split: list.split)

lemma unmap_converters: "lw_converters s = k \<Longrightarrow> keeps (\<lambda>t. lw_converters t = k) (lw_unmap_loop bs s)"
proof (induction bs arbitrary: s)
  case (Cons b bs)
  show ?case
    unfolding lw_unmap_loop.simps
    by (rule rets_andthen [OF answer_converters]) (simp_all add: Cons)
qed simp

lemma free_loop_converters: "lw_converters s = k \<Longrightarrow> keeps (\<lambda>t. lw_converters t = k) (lw_free_loop bs s)"
proof (induction bs arbitrary: s)
  case (Cons b bs)
  show ?case
    unfolding lw_free_loop.simps by (rule rets_andthen [OF free_converters [OF Cons.prems]]) (rule Cons.IH)
qed simp

lemma uninit_converters: "lw_converters s = k \<Longrightarrow> keeps (\<lambda>t. lw_converters t = k) (lw_uninit_device s)"
  unfolding lw_uninit_device_def Let_def
  by (auto intro!: rets_andthen [where Q' = "\<lambda>_ t. lw_converters t = k"] free_converters unmap_converters
      rets_andthen [OF free_loop_converters] rets_andthen [OF free_converters]
      split: webcam_io_method.split list.split)

lemma close_converters: "lw_converters s = k \<Longrightarrow> keeps (\<lambda>t. lw_converters t = k) (lw_webcam_close self s)"
  unfolding lw_webcam_close_def
  by (rule rets_andthen [OF uninit_converters], assumption, rule rets_andthen [OF answer_converters])
    (auto intro!: rets_andthen [OF free_converters])

text \<open>
  C29. The life of a camera: from a state in which fresh addresses are free and the system hands out fresh handles,
  opening it either fails and has given back every block, mapping and handle, or gives a camera that works with the
  method asked for, mapping when the choice is left to the library; closing that camera gives its handle back, and
  everything else when it returns 0. The one thing that neither gives back is the converter: closing leaves the number
  of live converters as it is, and when opening fails after the converter was made it stays too. The program may end
  in between.
\<close>

theorem lw_open_close_balance:
  assumes "lw_fresh s" "\<And>fd. Inr fd \<in> set (lw_open s) \<Longrightarrow> fd \<notin> lw_handles s"
  shows "safe (\<lambda>p t. p = NULL \<and> given_back s t \<or>
      (\<exists>self. p = Ptr self \<and> lwc_io (lw_cam t) = chosen io \<and> lw_converters s < lw_converters t \<and>
        safe (\<lambda>r u. lw_handles u = lw_handles s \<and> lw_converters u = lw_converters t \<and>
          (r = 0 \<longrightarrow> given_back s u)) (\<lambda>_. False) (lw_webcam_close self t))) (\<lambda>_. True) (lw_webcam_open e stat io w h s)"
proof (rule safe_mono [OF webcam_open_opened [OF assms]])
  fix p t assume "opened s io p t"
  then consider "p = NULL" "given_back s t" | self where "p = Ptr self" "ready_as s self (chosen io) t"
    by (auto simp: opened_def)
  then show "p = NULL \<and> given_back s t \<or>
      (\<exists>self. p = Ptr self \<and> lwc_io (lw_cam t) = chosen io \<and> lw_converters s < lw_converters t \<and>
        safe (\<lambda>r u. lw_handles u = lw_handles s \<and> lw_converters u = lw_converters t \<and> (r = 0 \<longrightarrow> given_back s u))
          (\<lambda>_. False) (lw_webcam_close self t))"
  proof cases
    case (2 self)
    then have ready: "lw_ready s self t" "lwc_io (lw_cam t) = chosen io" "lw_converters s < lw_converters t"
      by (auto simp: lw_ready_def lw_core_def)
    have "safe (\<lambda>r u. lw_handles u = lw_handles s \<and> lw_converters u = lw_converters t \<and> (r = 0 \<longrightarrow> given_back s u))
        (\<lambda>_. False) (lw_webcam_close self t)"
      by (rule safe_mono [OF safe_rets [OF webcam_close_gives_back [OF ready(1) assms(1), where E = "\<lambda>_. False"]
            close_converters [OF refl]]]) auto
    with 2 ready show ?thesis by blast
  qed simp
qed simp

theorem lw_open_close_balance_witness:
  "\<exists>t. lw_webcam_open easy_env (Some True) WEBCAM_IO_METHOD_READ (-1) 0 lw_example = Some (Done (Ptr 0) t) \<and>
     lwc_io (lw_cam t) = WEBCAM_IO_METHOD_READ \<and> lw_converters lw_example < lw_converters t \<and>
     safe (\<lambda>r u. lw_handles u = {} \<and> lw_converters u = lw_converters t \<and> (r = 0 \<longrightarrow> given_back lw_example u))
       (\<lambda>_. False) (lw_webcam_close 0 t)"
proof -
  have "lw_fresh lw_example" by (simp add: lw_fresh_def lw_example_def)
  moreover have "fd \<notin> lw_handles lw_example" for fd by (simp add: lw_example_def)
  ultimately show ?thesis
    using lw_open_close_balance [of lw_example WEBCAM_IO_METHOD_READ easy_env "Some True" "-1" 0] lw_example_opens
    by (auto simp: chosen_def) (auto simp: lw_example_def)
qed

text \<open>
  C30. A camera at work: starting, stopping and waiting for a frame keep all that the camera owns, and waiting returns
  -1, 0 or 1, with no access outside of a buffer, when the device and the converter keep within theirs. It may end
  the program, when the device names a buffer that it does not have.
\<close>

theorem lw_frames_safe:
  assumes "lw_working s0 self s" "converter_fits conv"
  shows "safe (\<lambda>r t. r \<in> {-1, 0, 1} \<and> lw_working s0 self t) (\<lambda>_. True) (lw_webcam_wait_frame conv s) \<and>
    safe (\<lambda>_. lw_working s0 self) (\<lambda>_. False) (lw_webcam_start_capturing s) \<and>
    safe (\<lambda>_. lw_working s0 self) (\<lambda>_. False) (lw_webcam_stop_capturing s)"
  using wait_frame_working [OF assms] start_working [OF assms(1)] stop_working [OF assms(1)]
  by (simp add: frame_result_def [abs_def] lw_webcam_start_capturing_def lw_webcam_stop_capturing_def)

theorem lw_frames_safe_witness:
  "\<exists>t. lw_working lw_example 0 t \<and> lwc_io (lw_cam t) = WEBCAM_IO_METHOD_READ \<and>
     safe (\<lambda>r u. r \<in> {-1, 0, 1} \<and> lw_working lw_example 0 u) (\<lambda>_. True)
       (lw_webcam_wait_frame lw_example_conv t)"
proof -
  obtain t where "lw_ready lw_example 0 t" "lwc_io (lw_cam t) = WEBCAM_IO_METHOD_READ" "lw_dqbuf t = []"
    using lw_example_ready by blast
  then have "lw_working lw_example 0 t" by (simp add: lw_working_def)
  then show ?thesis
    using lw_frames_safe [OF _ lw_example_conv, of lw_example 0 t] \<open>lwc_io (lw_cam t) = WEBCAM_IO_METHOD_READ\<close> by blast
qed

text \<open>
  C31. Waiting for a frame of a camera that is read: however often \<^verbatim>\<open>select\<close> is interrupted and the device has nothing
  yet, the call goes on waiting, returns 1 when the bytes arrive, and the image holds what the converter made of them.
\<close>

theorem lw_wait_arrives:
  assumes ready: "lw_ready s0 self s" and io: "lwc_io (lw_cam s) = WEBCAM_IO_METHOD_READ"
    and buf: "lwc_array (lw_cam s) = [b]" "length data \<le> lwb_length b"
    and pic: "lwc_img_data (lw_cam s) = Ptr a"
      "conv (lwc_src_pix (lw_cam s)) (lwc_fmt_pix (lw_cam s)) data (lwc_img_data_len (lw_cam s)) = Ptr pic"
    and fits: "converter_fits conv" and sel: "early xs" "lw_select s = xs @ Inr True # sel"
      "lw_read s = replicate (ready_count xs) (Inl EAGAIN) @ Inr data # rd"
  shows "\<exists>t rest. lw_webcam_wait_frame conv s = Some (Done 1 t) \<and> lw_blocks t a = Some (pic @ rest) \<and>
    lw_select t = sel \<and> lw_read t = rd"
proof -
  obtain mem where mem: "lw_blocks s (lwb_start b) = Some mem" "length mem = lwb_length b"
    using ready io buf(1) by (auto simp: lw_ready_def buffers_ready_def)
  obtain img where img: "lw_blocks s a = Some img" "lwc_img_data_len (lw_cam s) \<le> int (length img)"
    using ready pic(1) by (auto simp: lw_ready_def lw_core_def image_fits_def)
  have "int (length pic) \<le> lwc_img_data_len (lw_cam s)" using fits pic(2) unfolding converter_fits_def by blast
  then have len: "length pic \<le> length img" using img(2) by linarith
  have "distinct (cam_blocks self (lw_cam s))"
    using ready by (simp add: lw_ready_def lw_core_def held_def owns_def part_def)
  then have "a \<noteq> lwb_start b" using io buf(1) pic(1) by (auto simp: cam_blocks_def own_buffers_def)
  from wait_arrives [where xs = xs and conv = conv and data = data, OF buf(1) io mem buf(2) pic(1) this img(1) pic(2) len sel] show ?thesis by blast
qed

theorem lw_wait_arrives_witness:
  "\<exists>s t rest. lw_webcam_open easy_env (Some True) WEBCAM_IO_METHOD_READ (-1) 0 lw_example = Some (Done (Ptr 0) s) \<and>
     lw_webcam_wait_frame lw_example_conv s = Some (Done 1 t) \<and> lw_blocks t 3 = Some ([7, 8, 9] @ rest) \<and>
     lw_select t = [] \<and> lw_read t = []"
proof -
  obtain s where s: "lw_webcam_open easy_env (Some True) WEBCAM_IO_METHOD_READ (-1) 0 lw_example = Some (Done (Ptr 0) s)"
    "lw_ready lw_example 0 s" "lwc_io (lw_cam s) = WEBCAM_IO_METHOD_READ"
    "lw_select s = [Inr True, Inl EINTR] @ Inr True # []"
    "lw_read s = replicate (ready_count [Inr True, Inl EINTR]) (Inl EAGAIN) @ Inr [7, 8, 9] # []"
    "lwc_array (lw_cam s) = [\<lparr>lwb_start = 5, lwb_length = 3\<rparr>]" "lwc_img_data (lw_cam s) = Ptr 3"
    "lwc_img_data_len (lw_cam s) = 3"
    using lw_example_ready by (auto simp: ready_count_def)
  have "lw_example_conv (lwc_src_pix (lw_cam s)) (lwc_fmt_pix (lw_cam s)) [7, 8, 9] (lwc_img_data_len (lw_cam s)) =
      Ptr [7, 8, 9]" by (simp add: lw_example_conv_def s(8))
  from lw_wait_arrives [OF s(2,3,6) _ s(7) this lw_example_conv _ s(4,5)] s(1) show ?thesis
    by (simp add: early_def)
qed

end
