(* ===== verification/Webcam_Color.thy ===== *)
theory Webcam_Color
  imports Prelude "HOL-Library.Log_Nat"
begin

text \<open>
  The colours of \<^verbatim>\<open>src/rfbcam/webcam/webcam.c\<close>, which computes them in \<^verbatim>\<open>double\<close>. A double is a mantissa with an
  exponent of two, and each operation rounds its exact result to 53 bits, to the nearest and to the even one of
  two: IEEE binary64 as C implementations without excess precision have it. The values here are far from overflow and
  underflow, and no result depends on the sign of zero.
\<close>

section \<open>Doubles\<close>

type_synonym dbl = "int \<times> int"

definition dround :: "int \<Rightarrow> int \<Rightarrow> dbl" where
  "dround m e =
     (let k = nat (bitlen \<bar>m\<bar> - 53) in
      if k = 0 then (m, e)
      else let q = m div 2 ^ k; r = m mod 2 ^ k in
        (if 2 * r < 2 ^ k \<or> 2 * r = 2 ^ k \<and> even q then q else q + 1, e + int k))"

definition dint :: "int \<Rightarrow> dbl" where
  "dint n = dround n 0"

definition dmul :: "dbl \<Rightarrow> dbl \<Rightarrow> dbl" where
  "dmul a b = dround (fst a * fst b) (snd a + snd b)"

definition dadd :: "dbl \<Rightarrow> dbl \<Rightarrow> dbl" where
  "dadd a b =
     (let e = min (snd a) (snd b) in
      dround (fst a * 2 ^ nat (snd a - e) + fst b * 2 ^ nat (snd b - e)) e)"

definition dsub :: "dbl \<Rightarrow> dbl \<Rightarrow> dbl" where
  "dsub a b = dadd a (- fst b, snd b)"

text \<open>
  The double nearest to a fraction of positive numbers: a decimal literal, or the quotient of two small integers. The
  last bit of the mantissa that is rounded says whether the division left a rest.
\<close>

definition dquot :: "int \<Rightarrow> int \<Rightarrow> dbl" where
  "dquot p q =
     (let s = nat (56 + bitlen q); n = p * 2 ^ s in
      dround (2 * (n div q) + (if n mod q = 0 then 0 else 1)) (- int s - 1))"

text \<open>The conversion of a double to an integer drops its fraction.\<close>

definition dtrunc :: "dbl \<Rightarrow> int" where
  "dtrunc x = (if 0 \<le> snd x then fst x * 2 ^ nat (snd x) else sgn (fst x) * (\<bar>fst x\<bar> div 2 ^ nat (- snd x)))"

section \<open>The colour of a pixel\<close>

text \<open>\<^verbatim>\<open>clamp\<close>: the conversion to \<^verbatim>\<open>int\<close> is undefined for a value out of its range.\<close>

definition clamp :: "dbl \<Rightarrow> u8 option" where
  "clamp x =
     (let r = dtrunc x in
      if r < - (2 ^ 31) \<or> 2 ^ 31 \<le> r then None
      else if r < 0 then Some 0
      else if 255 < r then Some 255
      else Some (of_int r))"

text \<open>\<^verbatim>\<open>Y\<close>, \<^verbatim>\<open>Pb\<close> and \<^verbatim>\<open>Pr\<close>, and the three components.\<close>

definition yuv_Y :: "u8 \<Rightarrow> dbl" where
  "yuv_Y y = dmul (dquot 255 219) (dint (uint y - 0x10))"

definition yuv_P :: "u8 \<Rightarrow> dbl" where
  "yuv_P c = dmul (dquot 255 224) (dint (uint c - 0x80))"

definition yuv_R :: "u8 \<Rightarrow> u8 \<Rightarrow> u8 \<Rightarrow> dbl" where
  "yuv_R y u v = dadd (dadd (dmul (dint 1) (yuv_Y y)) (dmul (dint 0) (yuv_P u))) (dmul (dquot 1402 1000) (yuv_P v))"

definition yuv_G :: "u8 \<Rightarrow> u8 \<Rightarrow> u8 \<Rightarrow> dbl" where
  "yuv_G y u v = dsub (dadd (dmul (dint 1) (yuv_Y y)) (dmul (dquot 344 1000) (yuv_P u))) (dmul (dquot 714 1000) (yuv_P v))"

definition yuv_B :: "u8 \<Rightarrow> u8 \<Rightarrow> u8 \<Rightarrow> dbl" where
  "yuv_B y u v = dadd (dadd (dmul (dint 1) (yuv_Y y)) (dmul (dquot 1772 1000) (yuv_P u))) (dmul (dint 0) (yuv_P v))"

definition yuv_rgb :: "u8 \<Rightarrow> u8 \<Rightarrow> u8 \<Rightarrow> bytes option" where
  "yuv_rgb y u v = do {
     r \<leftarrow> clamp (yuv_R y u v);
     g \<leftarrow> clamp (yuv_G y u v);
     b \<leftarrow> clamp (yuv_B y u v);
     Some [r, g, b] }"

section \<open>Values and rounding errors\<close>

definition dval :: "dbl \<Rightarrow> real" where
  "dval x = of_int (fst x) * 2 powi snd x"

lemma dval_scale:
  assumes "e' \<le> e"
  shows "real_of_int m * 2 powi e = of_int (m * 2 ^ nat (e - e')) * 2 powi e'"
proof -
  have "(2::real) powi e = 2 powi (e - e') * 2 powi e'" by (simp add: power_int_diff)
  also have "(2::real) powi (e - e') = 2 ^ nat (e - e')" using assms by (simp add: power_int_def)
  finally show ?thesis by simp
qed

text \<open>Everything below 2048 is rounded by at most \<open>eps\<close>.\<close>

definition eps :: real where
  "eps = 1 / 2 ^ 42"

lemma dround_error:
  assumes "\<bar>of_int m * 2 powi e\<bar> \<le> (2048 :: real)"
  shows "\<bar>dval (dround m e) - of_int m * 2 powi e\<bar> \<le> eps"
proof (cases "bitlen \<bar>m\<bar> \<le> 53")
  case True
  then show ?thesis by (simp add: dround_def dval_def eps_def)
next
  case False
  define k where "k = nat (bitlen \<bar>m\<bar> - 53)"
  define q where "q = m div 2 ^ k"
  define r where "r = m mod 2 ^ k"
  define q' where "q' = (if 2 * r < 2 ^ k \<or> 2 * r = 2 ^ k \<and> even q then q else q + 1)"
  have k: "0 < k" using False by (simp add: k_def)
  have d: "dround m e = (q', e + int k)"
    using k by (simp add: dround_def Let_def q'_def q_def r_def flip: k_def)
  have m: "m = q * 2 ^ k + r" unfolding q_def r_def by (rule div_mult_mod_eq [symmetric])
  have r: "0 \<le> r" "r < 2 ^ k" by (simp_all add: r_def)
  have "2 * \<bar>q' * 2 ^ k - m\<bar> \<le> 2 ^ k" using r by (auto simp: q'_def m algebra_simps)
  then have "2 * \<bar>real_of_int (q' * 2 ^ k - m)\<bar> \<le> 2 ^ k"
    by (metis (mono_tags, lifting) of_int_abs of_int_le_iff of_int_mult of_int_numeral of_int_power)
  then have near: "\<bar>real_of_int (q' * 2 ^ k - m)\<bar> * 2 powi e \<le> 2 ^ k * 2 powi e / 2"
    using mult_right_mono [of "2 * \<bar>real_of_int (q' * 2 ^ k - m)\<bar>" "2 ^ k" "2 powi e"] by simp
  have "2 ^ nat (bitlen \<bar>m\<bar> - 1) \<le> \<bar>m\<bar>" using False by (intro conjunct1 [OF bitlen_bounds]) (auto simp: bitlen_eq_zero_iff)
  moreover have "nat (bitlen \<bar>m\<bar> - 1) = 52 + k" using False by (simp add: k_def)
  ultimately have "(2 :: int) ^ (52 + k) \<le> \<bar>m\<bar>" by simp
  then have "(2 :: real) ^ (52 + k) \<le> \<bar>of_int m\<bar>"
    by (metis of_int_abs of_int_le_iff of_int_numeral of_int_power)
  then have "2 ^ (52 + k) * 2 powi e \<le> \<bar>of_int m * 2 powi e :: real\<bar>" by (simp add: abs_mult)
  with assms have big: "2 ^ 52 * (2 ^ k * 2 powi e) \<le> (2048 :: real)"
    unfolding power_add mult.assoc by (rule order_trans [rotated])
  have "dval (dround m e) - of_int m * 2 powi e = of_int (q' * 2 ^ k - m) * 2 powi e"
    by (simp add: d dval_def power_int_add algebra_simps)
  then have "\<bar>dval (dround m e) - of_int m * 2 powi e\<bar> = \<bar>of_int (q' * 2 ^ k - m)\<bar> * 2 powi e"
    by (simp add: abs_mult)
  moreover have "2 ^ k * 2 powi e / 2 \<le> eps" using big unfolding eps_def by (simp add: field_simps)
  ultimately show ?thesis using near by linarith
qed

definition near :: "real \<Rightarrow> real \<Rightarrow> real \<Rightarrow> dbl \<Rightarrow> bool" where
  "near x d B a \<longleftrightarrow> \<bar>dval a - x\<bar> \<le> d \<and> \<bar>dval a\<bar> \<le> B"

lemma near_round:
  assumes "dval' = of_int m * 2 powi e" "\<bar>dval'\<bar> \<le> B" "B \<le> 2048" "\<bar>dval' - x\<bar> \<le> d"
  shows "near x (d + eps) (B + 1) (dround m e)"
proof -
  have "\<bar>dval (dround m e) - dval'\<bar> \<le> eps" using dround_error [of m e] assms by simp
  moreover have "eps \<le> 1" by (simp add: eps_def)
  ultimately show ?thesis using assms(2,4) unfolding near_def by linarith
qed

lemma near_mul:
  assumes a: "near x d B a" and b: "near y d' B' b" and "B * B' \<le> 2048" "\<bar>x\<bar> \<le> X" "0 \<le> B" "0 \<le> d'"
  shows "near (x * y) (d * B' + X * d' + eps) (B * B' + 1) (dmul a b)"
  unfolding dmul_def
proof (rule near_round)
  show "dval a * dval b = of_int (fst a * fst b) * 2 powi (snd a + snd b)"
    by (simp add: dval_def power_int_add)
  show "\<bar>dval a * dval b\<bar> \<le> B * B'"
    unfolding abs_mult using a b assms(5) by (intro mult_mono) (auto simp: near_def)
  have "0 \<le> X" using assms(4) by simp
  have "dval a * dval b - x * y = (dval a - x) * dval b + x * (dval b - y)" by (simp add: algebra_simps)
  then have "\<bar>dval a * dval b - x * y\<bar> \<le> \<bar>dval a - x\<bar> * \<bar>dval b\<bar> + \<bar>x\<bar> * \<bar>dval b - y\<bar>"
    by (metis abs_mult abs_triangle_ineq)
  moreover have "\<bar>dval a - x\<bar> * \<bar>dval b\<bar> \<le> d * B'"
    using a b by (intro mult_mono) (auto simp: near_def intro: order_trans [OF abs_ge_zero])
  moreover have "\<bar>x\<bar> * \<bar>dval b - y\<bar> \<le> X * d'"
    using b assms(4) \<open>0 \<le> X\<close> by (intro mult_mono) (auto simp: near_def)
  ultimately show "\<bar>dval a * dval b - x * y\<bar> \<le> d * B' + X * d'" by linarith
qed (fact assms)

lemma near_add:
  assumes a: "near x d B a" and b: "near y d' B' b" and "B + B' \<le> 2048"
  shows "near (x + y) (d + d' + eps) (B + B' + 1) (dadd a b)"
  unfolding dadd_def Let_def
proof (rule near_round)
  let ?e = "min (snd a) (snd b)"
  show "dval a + dval b = of_int (fst a * 2 ^ nat (snd a - ?e) + fst b * 2 ^ nat (snd b - ?e)) * 2 powi ?e"
    unfolding dval_def of_int_add distrib_right by (intro arg_cong2 [where f = "(+)"] dval_scale) simp_all
qed (use a b assms(3) in \<open>auto simp: near_def\<close>)

lemma near_neg: "near x d B a \<Longrightarrow> near (- x) d B (- fst a, snd a)"
  by (simp add: near_def dval_def abs_minus_commute)

lemma near_sub:
  "near x d B a \<Longrightarrow> near y d' B' b \<Longrightarrow> B + B' \<le> 2048 \<Longrightarrow> near (x - y) (d + d' + eps) (B + B' + 1) (dsub a b)"
  using near_add [OF _ near_neg, of x d B a y d' B' b] by (simp add: dsub_def)

section \<open>The exact colours\<close>

lemma dint_near:
  assumes "\<bar>n\<bar> \<le> 1000"
  shows "near (of_int n) 0 \<bar>of_int n\<bar> (dint n)"
proof -
  have "bitlen \<bar>n\<bar> \<le> 53" using assms by (simp add: bitlen_le_iff_power)
  then show ?thesis by (simp add: near_def dint_def dround_def dval_def)
qed

lemma literals:
  "dquot 255 219 = (5243917374335509, -52)" "dquot 255 224 = (5126865647229806, -52)"
  "dquot 1402 1000 = (6314046677573435, -52)" "dquot 344 1000 = (6196953087261802, -54)"
  "dquot 714 1000 = (6431140267885068, -53)" "dquot 1772 1000 = (7980378539700519, -52)"
  by code_simp+

lemma literals_near:
  "near (255 / 219) (eps / 1000) 2 (dquot 255 219)" "near (255 / 224) (eps / 1000) 2 (dquot 255 224)"
  "near 1.402 (eps / 1000) 2 (dquot 1402 1000)" "near 0.344 (eps / 1000) 2 (dquot 344 1000)"
  "near 0.714 (eps / 1000) 2 (dquot 714 1000)" "near 1.772 (eps / 1000) 2 (dquot 1772 1000)"
  by (simp_all add: literals near_def dval_def eps_def power_int_def abs_le_iff field_simps)

lemma near_mono: "near x d B a \<Longrightarrow> d \<le> d' \<Longrightarrow> B \<le> B' \<Longrightarrow> near x d' B' a"
  by (simp add: near_def)

abbreviation luma :: "u8 \<Rightarrow> real" where
  "luma y \<equiv> 255 / 219 * of_int (uint y - 16)"

abbreviation chroma :: "u8 \<Rightarrow> real" where
  "chroma c \<equiv> 255 / 224 * of_int (uint c - 128)"

lemma uint_u8: "0 \<le> uint c" "uint c \<le> 255" for c :: u8
  using uint_lt2p [of c] by auto

lemma yuv_Y_near: "near (luma y) (2 * eps) 600 (yuv_Y y)"
proof -
  have b: "\<bar>uint y - 16\<bar> \<le> 239" using uint_u8 [of y] by linarith
  then have "\<bar>of_int (uint y - 16)\<bar> \<le> (239 :: real)" by (metis of_int_abs of_int_le_iff of_int_numeral)
  with dint_near [of "uint y - 16"] b have "near (of_int (uint y - 16)) 0 239 (dint (uint y - 16))"
    by (auto intro: near_mono)
  from near_mul [OF literals_near(1) this, of 2] show ?thesis
    unfolding yuv_Y_def by (auto intro: near_mono simp: eps_def)
qed

lemma yuv_P_near: "near (chroma c) (2 * eps) 300 (yuv_P c)" "\<bar>chroma c\<bar> \<le> 150"
proof -
  have b: "\<bar>uint c - 128\<bar> \<le> 128" using uint_u8 [of c] by linarith
  then have r: "\<bar>of_int (uint c - 128)\<bar> \<le> (128 :: real)" by (metis of_int_abs of_int_le_iff of_int_numeral)
  with dint_near [of "uint c - 128"] b have "near (of_int (uint c - 128)) 0 128 (dint (uint c - 128))"
    by (auto intro: near_mono)
  from near_mul [OF literals_near(2) this, of 2] show "near (chroma c) (2 * eps) 300 (yuv_P c)"
    unfolding yuv_P_def by (auto intro: near_mono simp: eps_def)
  show "\<bar>chroma c\<bar> \<le> 150" using r unfolding abs_mult by simp
qed

text \<open>The three components are near to the exact ones.\<close>

lemma one_near: "near 1 0 1 (dint 1)"
  using dint_near [of 1] by simp

lemma zero_near: "near 0 0 0 (dint 0)"
  using dint_near [of 0] by simp

lemma scaled_near:
  assumes "near k (eps / 1000) 2 d" "\<bar>k\<bar> \<le> 2"
  shows "near (k * chroma c) (6 * eps) 601 (dmul d (yuv_P c))"
  by (rule near_mono [OF near_mul [OF assms(1) yuv_P_near(1) [of c] _ assms(2)]]) (simp_all add: eps_def)

lemma dropped_near: "near 0 eps 1 (dmul (dint 0) (yuv_P c))"
  using near_mul [OF zero_near yuv_P_near(1) [of c], of 0] by (simp add: eps_def)

lemma luma_near: "near (luma y) (3 * eps) 601 (dmul (dint 1) (yuv_Y y))"
proof -
  have "near (1 * luma y) (3 * eps) 601 (dmul (dint 1) (yuv_Y y))"
    by (rule near_mono [OF near_mul [OF one_near yuv_Y_near [of y], of 1]]) (simp_all add: eps_def)
  then show ?thesis by (simp only: mult_1)
qed

lemma components_near:
  "near (luma y + 1.402 * chroma v) (20 * eps) 2000 (yuv_R y u v)"
  "near (luma y + 0.344 * chroma u - 0.714 * chroma v) (20 * eps) 2000 (yuv_G y u v)"
  "near (luma y + 1.772 * chroma u) (20 * eps) 2000 (yuv_B y u v)"
proof -
  note p = scaled_near [OF literals_near(3)] scaled_near [OF literals_near(4)] scaled_near [OF literals_near(5)]
    scaled_near [OF literals_near(6)]
  have "near (luma y + 0 + 1.402 * chroma v) (20 * eps) 2000 (yuv_R y u v)"
    unfolding yuv_R_def
    by (rule near_mono [OF near_add [OF near_add [OF luma_near [of y] dropped_near [of u]] p(1) [of v]]]) (simp_all add: eps_def)
  then show "near (luma y + 1.402 * chroma v) (20 * eps) 2000 (yuv_R y u v)" by (simp only: add_0_right)
  show "near (luma y + 0.344 * chroma u - 0.714 * chroma v) (20 * eps) 2000 (yuv_G y u v)"
    unfolding yuv_G_def
    by (rule near_mono [OF near_sub [OF near_add [OF luma_near [of y] p(2) [of u]] p(3) [of v]]]) (simp_all add: eps_def)
  have "near (luma y + 1.772 * chroma u + 0) (20 * eps) 2000 (yuv_B y u v)"
    unfolding yuv_B_def
    by (rule near_mono [OF near_add [OF near_add [OF luma_near [of y] p(4) [of u]] dropped_near [of v]]]) (simp_all add: eps_def)
  then show "near (luma y + 1.772 * chroma u) (20 * eps) 2000 (yuv_B y u v)" by (simp only: add_0_right)
qed

text \<open>Truncation and clamping of a value that is near to a fraction, unless the fraction is an integer.\<close>

definition clamped :: "int \<Rightarrow> u8" where
  "clamped r = of_int (max 0 (min 255 r))"

lemma dtrunc_floor: "dtrunc x = (if 0 \<le> dval x then \<lfloor>dval x\<rfloor> else \<lceil>dval x\<rceil>)"
proof (cases "0 \<le> snd x")
  case True
  then have "dval x = of_int (fst x * 2 ^ nat (snd x))" by (simp add: dval_def power_int_def)
  then show ?thesis using True by (simp only: dtrunc_def floor_of_int ceiling_of_int if_True if_cancel)
next
  case False
  define k where "k = nat (- snd x)"
  have v: "dval x = of_int (fst x) / of_int (2 ^ k)"
    unfolding dval_def power_int_def k_def using False by (simp only: if_False power_inverse divide_inverse of_int_power of_int_numeral)
  have "\<lceil>dval x\<rceil> = - ((- fst x) div 2 ^ k)"
    unfolding v ceiling_def minus_divide_left of_int_minus [symmetric] floor_divide_of_int_eq by simp
  moreover have "\<lfloor>dval x\<rfloor> = fst x div 2 ^ k" unfolding v floor_divide_of_int_eq ..
  moreover have "0 \<le> dval x \<longleftrightarrow> 0 \<le> fst x" unfolding v by (simp add: zero_le_divide_iff power_le_zero_eq)
  ultimately show ?thesis using False by (auto simp: dtrunc_def sgn_if simp flip: k_def)
qed

lemma clamp_clamped:
  assumes "\<bar>dval x\<bar> \<le> 2000"
  shows "clamp x = Some (clamped \<lfloor>dval x\<rfloor>)"
proof (cases "0 \<le> dval x")
  case True
  then have "\<lfloor>dval x\<rfloor> \<le> 2000" "0 \<le> \<lfloor>dval x\<rfloor>" using assms by linarith+
  then show ?thesis using True by (auto simp: clamp_def dtrunc_floor clamped_def Let_def)
next
  case False
  define c where "c = \<lceil>dval x\<rceil>"
  have "- 2000 \<le> c" "c \<le> 0" "\<lfloor>dval x\<rfloor> < 0" using False assms unfolding c_def by linarith+
  moreover have "dtrunc x = c" using False by (simp add: dtrunc_floor c_def)
  ultimately show ?thesis by (cases "c = 0") (auto simp: clamp_def clamped_def Let_def)
qed

text \<open>The common denominator of the exact components.\<close>

definition yuv_unit :: int where
  "yuv_unit = 219 * 224000"

lemma clamp_near:
  assumes near: "near (of_int n / of_int yuv_unit) (20 * eps) 2000 x" and "\<not> yuv_unit dvd n"
  shows "clamp x = Some (clamped (n div yuv_unit))"
proof -
  let ?q = "n div yuv_unit" and ?r = "n mod yuv_unit"
  have "?r \<noteq> 0" using assms(2) by (simp add: dvd_eq_mod_eq_0)
  then have r: "1 \<le> ?r" "?r \<le> yuv_unit - 1"
    using pos_mod_sign [of yuv_unit n] pos_mod_bound [of yuv_unit n] unfolding yuv_unit_def by linarith+
  have "real_of_int n = of_int ?q * of_int yuv_unit + of_int ?r"
    by (metis div_mult_mod_eq of_int_add of_int_mult)
  then have "of_int n / real_of_int yuv_unit = of_int ?q + of_int ?r / of_int yuv_unit"
    by (simp add: yuv_unit_def field_simps)
  moreover have real: "1 \<le> real_of_int ?r" "real_of_int ?r \<le> of_int (yuv_unit - 1)"
    using r by (simp_all only: of_int_le_iff of_int_1_le_iff)
  have "1 / of_int yuv_unit \<le> of_int ?r / real_of_int yuv_unit"
    "of_int ?r / of_int yuv_unit \<le> 1 - 1 / real_of_int yuv_unit"
    using r real by (simp_all add: yuv_unit_def field_simps)
  moreover have "20 * eps < 1 / of_int yuv_unit" by (simp add: eps_def yuv_unit_def)
  ultimately have "\<lfloor>dval x\<rfloor> = ?q" using near unfolding near_def floor_eq_iff by linarith
  with clamp_clamped [of x] near show ?thesis by (simp add: near_def)
qed

definition exact_R :: "u8 \<Rightarrow> u8 \<Rightarrow> int" where
  "exact_R y v = 255 * 224000 * (uint y - 16) + 255 * 219 * (1402 * (uint v - 128))"

definition exact_G :: "u8 \<Rightarrow> u8 \<Rightarrow> u8 \<Rightarrow> int" where
  "exact_G y u v = 255 * 224000 * (uint y - 16) + 255 * 219 * (344 * (uint u - 128) - 714 * (uint v - 128))"

definition exact_B :: "u8 \<Rightarrow> u8 \<Rightarrow> int" where
  "exact_B y u = 255 * 224000 * (uint y - 16) + 255 * 219 * (1772 * (uint u - 128))"

lemma unit_dvd:
  assumes "yuv_unit dvd 255 * 224000 * y + 255 * 219 * w"
  shows "73 dvd y" "44800 dvd w"
proof -
  obtain k where k: "255 * 224000 * y + 255 * 219 * w = yuv_unit * k" using assms by (rule dvdE)
  then have "57120000 * y = 73 * (672000 * k - 765 * w)" by (simp add: yuv_unit_def)
  then have "73 dvd 57120000 * y" by (rule dvdI)
  moreover have "coprime (73 :: int) 57120000" by code_simp
  ultimately show "73 dvd y" by (simp only: coprime_dvd_mult_right_iff)
  from k have "11169 * w = 44800 * (219 * k - 255 * y)" by (simp add: yuv_unit_def)
  then have "44800 dvd 11169 * w" by (rule dvdI)
  moreover have "coprime (44800 :: int) 11169" by code_simp
  ultimately show "44800 dvd w" by (simp only: coprime_dvd_mult_right_iff)
qed

lemma u8_uint: "uint x = n \<Longrightarrow> x = of_int n" for x :: u8
  by (metis word_of_int_uint)

lemma luma_cases:
  fixes y :: u8
  assumes "73 dvd uint y - 16"
  shows "y \<in> {16, 89, 162, 235}"
proof -
  obtain k where k: "uint y - 16 = 73 * k" using assms by (rule dvdE)
  then have "- 1 < k" "k < 4" using uint_u8 [of y] by linarith+
  then have "k = 0 \<or> k = 1 \<or> k = 2 \<or> k = 3" by linarith
  then have "uint y = 16 \<or> uint y = 89 \<or> uint y = 162 \<or> uint y = 235" using k by auto
  then show ?thesis by (auto dest!: u8_uint)
qed

lemma chroma_zero:
  fixes c :: u8
  assumes "44800 dvd k * (uint c - 128)" "k = 1402 \<or> k = 1772"
  shows "c = 128"
proof -
  obtain j where j: "k * (uint c - 128) = 44800 * j" using assms(1) by (rule dvdE)
  have "11200 dvd uint c - 128"
  proof (cases "k = 1402")
    case True
    have "701 * (uint c - 128) = 11200 * (2 * j)" using j True by simp
    then have "11200 dvd 701 * (uint c - 128)" by (rule dvdI)
    moreover have "coprime (11200 :: int) 701" by code_simp
    ultimately show ?thesis by (simp only: coprime_dvd_mult_right_iff)
  next
    case False
    then have "443 * (uint c - 128) = 11200 * j" using j assms(2) by simp
    then have "11200 dvd 443 * (uint c - 128)" by (rule dvdI)
    moreover have "coprime (11200 :: int) 443" by code_simp
    ultimately show ?thesis by (simp only: coprime_dvd_mult_right_iff)
  qed
  then obtain i where "uint c - 128 = 11200 * i" by (rule dvdE)
  moreover from this have "- 1 < i" "i < 1" using uint_u8 [of c] by linarith+
  ultimately have "uint c = 128" by simp
  then show ?thesis by (auto dest!: u8_uint)
qed

lemma small_pairs:
  fixes a b k :: int
  assumes "a \<in> {- 18..18}" "b \<in> {- 32..31}" "43 * a - 51 * b = 800 * k" "- 3 \<le> k" "k \<le> 3"
  shows "(a, b) \<in> {(- 4, 28), (- 2, 14), (0, 0), (2, - 14), (4, - 28)}"
proof -
  have "43 * (a - 2 * k) = 51 * (b + 14 * k)" using assms(3) by simp
  then have "51 dvd 43 * (a - 2 * k)" by (rule dvdI)
  moreover have "coprime (51 :: int) 43" by code_simp
  ultimately have "51 dvd a - 2 * k" by (simp only: coprime_dvd_mult_right_iff)
  then obtain j where "a - 2 * k = 51 * j" by (rule dvdE)
  moreover from this have "- 1 < j" "j < 1" using assms(1,4,5) by auto
  ultimately have a: "a = 2 * k" by simp
  then have b: "b = - 14 * k" using assms(3) by simp
  then have "k = - 2 \<or> k = - 1 \<or> k = 0 \<or> k = 1 \<or> k = 2" using assms(2,4,5) by auto
  then show ?thesis by (auto simp: a b)
qed

lemma chroma_pairs:
  fixes u v :: u8
  assumes "44800 dvd 344 * (uint u - 128) - 714 * (uint v - 128)"
  shows "(u, v) \<in> {(100, 240), (114, 184), (128, 128), (142, 72), (156, 16)}"
proof -
  obtain k where k: "344 * (uint u - 128) - 714 * (uint v - 128) = 44800 * k" using assms by (rule dvdE)
  then have "172 * (uint u - 128) = 7 * (51 * (uint v - 128) + 3200 * k)"
    "357 * (uint v - 128) = 4 * (43 * (uint u - 128) - 5600 * k)" by simp_all
  then have "7 dvd 172 * (uint u - 128)" "4 dvd 357 * (uint v - 128)" by (blast intro: dvdI)+
  moreover have "coprime (7 :: int) 172" "coprime (4 :: int) 357" by code_simp+
  ultimately have "7 dvd uint u - 128" "4 dvd uint v - 128" by (simp_all only: coprime_dvd_mult_right_iff)
  then obtain a b where ab: "uint u = 128 + 7 * a" "uint v = 128 + 4 * b" by (metis dvdE diff_eq_eq add.commute)
  have "a \<in> {- 18..18}" "b \<in> {- 32..31}" using ab uint_u8 [of u] uint_u8 [of v] by auto
  moreover have "43 * a - 51 * b = 800 * k" using k ab by simp
  moreover have "- 3 \<le> k" "k \<le> 3" using calculation by auto
  ultimately have "(a, b) \<in> {(- 4, 28), (- 2, 14), (0, 0), (2, - 14), (4, - 28)}"
    by (rule small_pairs)
  with ab show ?thesis by (auto dest!: u8_uint)
qed

text \<open>The colours whose exact components are integers are few enough to be evaluated.\<close>

lemma bitlen_numeral:
  "bitlen 1 = 1" "bitlen (numeral (Num.Bit0 n)) = bitlen (numeral n) + 1"
  "bitlen (numeral (Num.Bit1 n)) = bitlen (numeral n) + 1"
  using compute_bitlen [of 1] compute_bitlen [of "numeral (Num.Bit0 n)"] compute_bitlen [of "numeral (Num.Bit1 n)"]
  by simp_all

lemmas evaluate = bitlen_numeral dround_def dint_def dmul_def dadd_def dsub_def dtrunc_def clamp_def clamped_def Let_def
  yuv_Y_def yuv_P_def literals exact_R_def exact_G_def exact_B_def yuv_unit_def

lemma products:
  "dmul (dint 1) (yuv_Y 16) = (0, - 52)"
  "dmul (dint 1) (yuv_Y 89) = (5981343255101440, - 46)"
  "dmul (dint 1) (yuv_Y 162) = (5981343255101440, - 45)"
  "dmul (dint 1) (yuv_Y 235) = (8972014882652160, - 45)"
  "dmul (dquot 344 1000) (yuv_P 100) = (- 6172746239264686, - 49)"
  "dmul (dquot 344 1000) (yuv_P 114) = (- 6172746239264686, - 50)"
  "dmul (dquot 344 1000) (yuv_P 142) = (6172746239264686, - 50)"
  "dmul (dquot 344 1000) (yuv_P 156) = (6172746239264686, - 49)"
  "dmul (dquot 714 1000) (yuv_P 240) = (6406018626213642, - 46)"
  "dmul (dquot 714 1000) (yuv_P 184) = (6406018626213642, - 47)"
  "dmul (dquot 714 1000) (yuv_P 72) = (- 6406018626213642, - 47)"
  "dmul (dquot 714 1000) (yuv_P 16) = (- 6406018626213642, - 46)"
  "dmul (dquot 344 1000) (yuv_P 128) = (0, - 106)"
  "dmul (dquot 714 1000) (yuv_P 128) = (0, - 105)"
  "dmul (dquot 1402 1000) (yuv_P 128) = (0, - 104)"
  "dmul (dquot 1772 1000) (yuv_P 128) = (0, - 104)"
  by (simp_all add: evaluate)

lemmas evaluate_sum = products dsub_def dadd_def dround_def bitlen_numeral dtrunc_def clamp_def clamped_def
  exact_G_def yuv_unit_def Let_def

lemma evaluated_G:
  "clamp (yuv_G 16 100 240) = Some (clamped (exact_G 16 100 240 div yuv_unit))"
  "clamp (yuv_G 16 114 184) = Some (clamped (exact_G 16 114 184 div yuv_unit))"
  "clamp (yuv_G 16 142 72) = Some (clamped (exact_G 16 142 72 div yuv_unit))"
  "clamp (yuv_G 16 156 16) = Some (clamped (exact_G 16 156 16 div yuv_unit))"
  "clamp (yuv_G 89 100 240) = Some (clamped (exact_G 89 100 240 div yuv_unit))"
  "clamp (yuv_G 89 114 184) = Some (clamped (exact_G 89 114 184 div yuv_unit))"
  "clamp (yuv_G 89 142 72) = Some (clamped (exact_G 89 142 72 div yuv_unit))"
  "clamp (yuv_G 89 156 16) = Some (clamped (exact_G 89 156 16 div yuv_unit))"
  "clamp (yuv_G 162 100 240) = Some (clamped (exact_G 162 100 240 div yuv_unit))"
  "clamp (yuv_G 162 114 184) = Some (clamped (exact_G 162 114 184 div yuv_unit))"
  "clamp (yuv_G 162 142 72) = Some (clamped (exact_G 162 142 72 div yuv_unit))"
  "clamp (yuv_G 162 156 16) = Some (clamped (exact_G 162 156 16 div yuv_unit))"
  "clamp (yuv_G 235 100 240) = Some (clamped (exact_G 235 100 240 div yuv_unit))"
  "clamp (yuv_G 235 114 184) = Some (clamped (exact_G 235 114 184 div yuv_unit))"
  "clamp (yuv_G 235 142 72) = Some (clamped (exact_G 235 142 72 div yuv_unit))"
  "clamp (yuv_G 235 156 16) = Some (clamped (exact_G 235 156 16 div yuv_unit))"
  by (simp_all add: yuv_G_def evaluate_sum)

text \<open>Zeros do not change a luma; without chroma the components are the luma, which is an integer.\<close>

definition fits53 :: "dbl \<Rightarrow> bool" where
  "fits53 a \<longleftrightarrow> bitlen \<bar>fst a\<bar> \<le> 53"

lemma dround_shifted:
  assumes "bitlen \<bar>m\<bar> \<le> 53"
  shows "dval (dround (m * 2 ^ d) e) = of_int m * 2 powi (e + int d) \<and> fits53 (dround (m * 2 ^ d) e)"
proof (cases "m = 0")
  case True
  then show ?thesis by (simp add: dround_def dval_def fits53_def)
next
  case False
  define k where "k = nat (bitlen \<bar>m\<bar> + int d - 53)"
  have b: "bitlen \<bar>m * 2 ^ d\<bar> = bitlen \<bar>m\<bar> + int d" using False bitlen_pow2 [of "\<bar>m\<bar>" d] by (simp add: abs_mult)
  have k: "k \<le> d" using assms by (simp add: k_def)
  then obtain j where d: "d = j + k" by (metis le_add_diff_inverse2)
  have r: "m * 2 ^ d = m * 2 ^ j * 2 ^ k" by (simp add: d power_add)
  have "dround (m * 2 ^ d) e = (m * 2 ^ j, e + int k)"
  proof (cases "k = 0")
    case True
    then show ?thesis unfolding dround_def b k_def [symmetric] by (simp add: d)
  next
    case False
    then show ?thesis unfolding dround_def b k_def [symmetric] unfolding r by simp
  qed
  moreover have "bitlen \<bar>m * 2 ^ j\<bar> \<le> 53"
    using assms False bitlen_pow2 [of "\<bar>m\<bar>" j] d by (auto simp: abs_mult k_def)
  ultimately show ?thesis by (simp add: dval_def fits53_def d power_int_add)
qed

lemma add_zero:
  assumes "fits53 a" "fst z = 0"
  shows "dval (dadd a z) = dval a \<and> fits53 (dadd a z)"
proof -
  let ?e = "min (snd a) (snd z)"
  have "dadd a z = dround (fst a * 2 ^ nat (snd a - ?e)) ?e" using assms(2) by (simp add: dadd_def Let_def)
  with dround_shifted [of "fst a" "nat (snd a - ?e)" ?e] assms(1) show ?thesis by (simp add: fits53_def dval_def)
qed

lemma grey_sum:
  assumes "y \<in> {16, 89, 162, 235}" "fst z = 0" "fst z' = 0"
  shows "clamp (dadd (dadd (dmul (dint 1) (yuv_Y y)) z) z') =
    Some (clamped (255 * 224000 * (uint y - 16) div yuv_unit))"
proof -
  let ?l = "dmul (dint 1) (yuv_Y y)"
  have "fits53 ?l \<and> dval ?l = of_int (255 * 224000 * (uint y - 16) div yuv_unit) \<and> dval ?l \<le> 255 \<and> 0 \<le> dval ?l"
    using assms(1) by (auto simp: products fits53_def bitlen_numeral dval_def power_int_def yuv_unit_def power_one_over)
  moreover from this have "dval (dadd (dadd ?l z) z') = dval ?l" using add_zero assms(2,3) by metis
  ultimately show ?thesis using clamp_clamped [of "dadd (dadd ?l z) z'"] by simp
qed

lemma zero_products:
  "fst (dmul (dint 0) c) = 0" "fst (dmul d (yuv_P 128)) = 0"
  by (simp_all add: dmul_def dint_def dround_def yuv_P_def)

lemma clamp_components:
  "clamp (yuv_R y u v) = Some (clamped (exact_R y v div yuv_unit))"
  "clamp (yuv_G y u v) = Some (clamped (exact_G y u v div yuv_unit))"
  "clamp (yuv_B y u v) = Some (clamped (exact_B y u div yuv_unit))"
proof -
  show "clamp (yuv_R y u v) = Some (clamped (exact_R y v div yuv_unit))"
  proof (cases "yuv_unit dvd exact_R y v")
    case True
    note d = unit_dvd [OF this [unfolded exact_R_def]]
    have y: "y \<in> {16, 89, 162, 235}" by (rule luma_cases [OF d(1)])
    have v: "v = 128" by (rule chroma_zero [OF d(2)]) simp
    show ?thesis unfolding yuv_R_def v by (simp only: grey_sum [OF y] zero_products) (simp add: exact_R_def)
  next
    case False
    have "luma y + 1.402 * chroma v = of_int (exact_R y v) / of_int yuv_unit"
      by (simp add: exact_R_def yuv_unit_def field_simps)
    then show ?thesis using clamp_near [OF _ False] components_near(1) [of y v u] by simp
  qed
  show "clamp (yuv_G y u v) = Some (clamped (exact_G y u v div yuv_unit))"
  proof (cases "yuv_unit dvd exact_G y u v")
    case True
    note d = unit_dvd [OF this [unfolded exact_G_def]]
    have y: "y \<in> {16, 89, 162, 235}" by (rule luma_cases [OF d(1)])
    have c: "(u, v) \<in> {(100, 240), (114, 184), (128, 128), (142, 72), (156, 16)}" by (rule chroma_pairs [OF d(2)])
    have "clamp (yuv_G y 128 128) = Some (clamped (exact_G y 128 128 div yuv_unit))"
      unfolding yuv_G_def dsub_def by (simp add: grey_sum [OF y] zero_products exact_G_def)
    with evaluated_G y c show ?thesis by auto
  next
    case False
    have "luma y + 0.344 * chroma u - 0.714 * chroma v = of_int (exact_G y u v) / of_int yuv_unit"
      by (simp add: exact_G_def yuv_unit_def field_simps)
    then show ?thesis using clamp_near [OF _ False] components_near(2) [of y u v] by simp
  qed
  show "clamp (yuv_B y u v) = Some (clamped (exact_B y u div yuv_unit))"
  proof (cases "yuv_unit dvd exact_B y u")
    case True
    note d = unit_dvd [OF this [unfolded exact_B_def]]
    have y: "y \<in> {16, 89, 162, 235}" by (rule luma_cases [OF d(1)])
    have u: "u = 128" by (rule chroma_zero [OF d(2)]) simp
    show ?thesis unfolding yuv_B_def u by (simp only: grey_sum [OF y] zero_products) (simp add: exact_B_def)
  next
    case False
    have "luma y + 1.772 * chroma u = of_int (exact_B y u) / of_int yuv_unit"
      by (simp add: exact_B_def yuv_unit_def field_simps)
    then show ?thesis using clamp_near [OF _ False] components_near(3) [of y u v] by simp
  qed
qed

lemma yuv_rgb_defined: "\<exists>r g b. yuv_rgb y u v = Some [r, g, b]"
  by (simp add: yuv_rgb_def clamp_components)

text \<open>
  C32. The doubles of the conversion to RGB are exact enough: for each of the 16777216 values of \<^verbatim>\<open>Y\<close>, \<^verbatim>\<open>Cb\<close> and
  \<^verbatim>\<open>Cr\<close> the three components are those of the formula over the rational numbers, rounded down and clamped to a byte, and
  no conversion to an integer is undefined. They are not the nearest integers that the comment above \<^verbatim>\<open>clamp\<close> promises,
  because the conversion drops the fraction: 4.66 gives 4.
\<close>

theorem webcam_colors_exact:
  "yuv_rgb y u v = Some [clamped (exact_R y v div yuv_unit), clamped (exact_G y u v div yuv_unit),
     clamped (exact_B y u div yuv_unit)]"
  by (simp add: yuv_rgb_def clamp_components)

end
