(* ===== verification/Webcam.thy ===== *)
theory Webcam
  imports Lwebcam Events Webcam_Color
begin

text \<open>
  The imported camera library, \<^verbatim>\<open>src/rfbcam/webcam/webcam.c\<close>. Frames come from mapped buffers of the device, a thread
  of the camera converts them to RGB, and the application copies the last one under a lock. Cameras, blocks, arrays of
  buffers and mappings are named by addresses, so that what is used after it was freed can be seen. The thread of a
  camera runs its own code between the steps of the application, as often as a script says.
\<close>

section \<open>Data\<close>

text \<open>The address of a buffer: null, \<^verbatim>\<open>MAP_FAILED\<close>, or a mapping.\<close>

datatype wc_start = NoStart | MapFailed | Mapped nat

record wc_buffer =
  wcb_start :: wc_start
  wcb_length :: nat

text \<open>
  \<^verbatim>\<open>struct webcam\<close>. Of the thread the model keeps whether \<^verbatim>\<open>w->thread\<close> names one that has not been joined, and in \<open>wc_stray\<close>
  whether one runs whose name was overwritten when streaming was started again.
\<close>

record wc_webcam =
  wc_name :: "nat ptr"
  wc_fd :: int
  wc_buffers :: "nat ptr"
  wc_nbuffers :: u8
  wc_frame_start :: "nat ptr"
  wc_frame_length :: nat
  wc_thread :: bool
  wc_stray :: bool
  wc_mtx :: mtx
  wc_width :: u16
  wc_height :: u16
  wc_colorspace :: u8
  wc_formats :: "bytes list"
  wc_streaming :: bool

text \<open>
  What \<^verbatim>\<open>VIDIOC_S_FMT\<close> gives: width, height, colour space and the four characters of the pixel format. \<^verbatim>\<open>VIDIOC_DQBUF\<close>
  gives the index of a buffer and the bytes the device has put there.
\<close>

record wc_world =
  ww_cams :: "nat \<Rightarrow> wc_webcam option"
  ww_blocks :: "nat \<Rightarrow> bytes option"
  ww_arrays :: "nat \<Rightarrow> wc_buffer list option"
  ww_maps :: "nat \<Rightarrow> bytes option"
  ww_next :: nat
  ww_fds :: "int set"
  ww_table :: "nat ptr list"
  ww_handler :: bool
  ww_grants :: "bool list"
  ww_open :: "(errno + int) list"
  ww_querycap :: "(errno + caps) list"
  ww_enum_fmt :: "(errno + bytes) list"
  ww_s_fmt :: "(errno + u32 \<times> u32 \<times> u32 \<times> bytes) list"
  ww_reqbufs :: "(errno + nat) list"
  ww_querybuf :: "(errno + nat) list"
  ww_mmap :: "bool list"
  ww_dqbuf :: "(errno + nat \<times> bytes) list"
  ww_qbuf :: "(errno + unit) list"
  ww_streamon :: "(errno + unit) list"
  ww_streamoff :: "(errno + unit) list"
  ww_create :: "bool list"
  ww_rounds :: "nat list"
  ww_busy :: "bool list"

type_synonym 'a wc_act = "wc_world \<Rightarrow> (wc_world, 'a) outcome option"

section \<open>Memory, locks and the device\<close>

definition cam_of :: "nat \<Rightarrow> wc_world \<Rightarrow> (wc_webcam \<Rightarrow> (wc_world, 'a) outcome option) \<Rightarrow> (wc_world, 'a) outcome option" where
  "cam_of a s f = need (ww_cams s a) f"

definition set_cam :: "(wc_webcam \<Rightarrow> wc_webcam) \<Rightarrow> nat \<Rightarrow> wc_world \<Rightarrow> wc_world" where
  "set_cam f a s = s\<lparr>ww_cams := (ww_cams s)(a := map_option f (ww_cams s a))\<rparr>"

definition wc_malloc :: "bytes \<Rightarrow> nat ptr wc_act" where
  "wc_malloc mem s =
     andthen (answer ww_grants ww_grants_update s) (\<lambda>ok s.
       if \<not> ok then Some (Done NULL s)
       else Some (Done (Ptr (ww_next s)) (s\<lparr>ww_blocks := (ww_blocks s)(ww_next s \<mapsto> mem), ww_next := Suc (ww_next s)\<rparr>)))"

definition wc_free :: "nat ptr \<Rightarrow> unit wc_act" where
  "wc_free p s =
     (case p of
        NULL \<Rightarrow> Some (Done () s)
      | Ptr a \<Rightarrow> if ww_blocks s a = None then Some Undef
                 else Some (Done () (s\<lparr>ww_blocks := (ww_blocks s)(a := None)\<rparr>)))"

definition wc_alloc_array :: "wc_buffer list \<Rightarrow> nat ptr wc_act" where
  "wc_alloc_array bs s =
     andthen (answer ww_grants ww_grants_update s) (\<lambda>ok s.
       if \<not> ok then Some (Done NULL s)
       else Some (Done (Ptr (ww_next s)) (s\<lparr>ww_arrays := (ww_arrays s)(ww_next s \<mapsto> bs), ww_next := Suc (ww_next s)\<rparr>)))"

definition wc_free_array :: "nat ptr \<Rightarrow> unit wc_act" where
  "wc_free_array p s =
     (case p of
        NULL \<Rightarrow> Some (Done () s)
      | Ptr a \<Rightarrow> if ww_arrays s a = None then Some Undef
                 else Some (Done () (s\<lparr>ww_arrays := (ww_arrays s)(a := None)\<rparr>)))"

definition wc_lock :: "nat \<Rightarrow> unit wc_act" where
  "wc_lock a s = cam_of a s (\<lambda>c.
     map_option (map_outcome (\<lambda>m. set_cam (wc_mtx_update (\<lambda>_. m)) a s) id) (acquire (wc_mtx c)))"

definition wc_unlock :: "nat \<Rightarrow> unit wc_act" where
  "wc_unlock a s = cam_of a s (\<lambda>c.
     map_option (map_outcome (\<lambda>m. set_cam (wc_mtx_update (\<lambda>_. m)) a s) id) (release (wc_mtx c)))"

text \<open>\<^verbatim>\<open>_ioctl\<close>: the call is made again while it is interrupted.\<close>

definition wc_ioctl :: "(wc_world \<Rightarrow> (errno + 'a) list) \<Rightarrow>
    (((errno + 'a) list \<Rightarrow> (errno + 'a) list) \<Rightarrow> wc_world \<Rightarrow> wc_world) \<Rightarrow> (errno + 'a) wc_act" where
  "wc_ioctl get upd s = lw_ioctl get upd s"

section \<open>Conversion\<close>

text \<open>
  A chroma byte \<open>off\<close> bytes after the luma at \<open>i\<close>. The sum is a \<^verbatim>\<open>size_t\<close>, so that it wraps around before the start;
  outside of the buffer the chroma is 0x80.
\<close>

definition wc_sample :: "bytes \<Rightarrow> nat \<Rightarrow> int \<Rightarrow> u8" where
  "wc_sample buf i off =
     (let k = (int i + off) mod 2 ^ 64 in if 0 < k \<and> k < int (length buf) then buf ! nat k else 0x80)"

definition wc_pixel :: "bytes \<Rightarrow> nat \<Rightarrow> bytes option" where
  "wc_pixel buf i =
     yuv_rgb (buf ! i) (wc_sample buf i (if i mod 4 = 0 then 1 else - 1)) (wc_sample buf i (if i mod 4 = 2 then 1 else - 1))"

definition wc_convert_frame :: "bytes \<Rightarrow> bytes \<Rightarrow> bytes option" where
  "wc_convert_frame buf frame =
     for_loop 2 0 (length buf) (\<lambda>i frame. do {
       px \<leftarrow> wc_pixel buf i;
       blit frame (i div 2 * 3) px }) frame"

text \<open>\<^verbatim>\<open>convertToRGB\<close> into the frame of the camera, which the first conversion allocates.\<close>

definition convertToRGB :: "wc_buffer \<Rightarrow> nat \<Rightarrow> unit wc_act" where
  "convertToRGB buf a s =
     cam_of a s (\<lambda>c.
       andthen
         (if wc_frame_start c = NULL then
            let n = wcb_length buf div 2 * 3 in
            andthen (wc_malloc (replicate n 0) s) (\<lambda>p s.
              Some (Done () (set_cam (\<lambda>c. c\<lparr>wc_frame_length := n, wc_frame_start := p\<rparr>) a s)))
          else Some (Done () s)) (\<lambda>_ s.
       cam_of a s (\<lambda>c.
         if wcb_length buf = 0 then Some (Done () s)
         else
           (case (wcb_start buf, wc_frame_start c) of
              (Mapped m, Ptr f) \<Rightarrow>
                need (do {
                    mem \<leftarrow> ww_maps s m;
                    src \<leftarrow> slice mem 0 (wcb_length buf);
                    frame \<leftarrow> ww_blocks s f;
                    wc_convert_frame src frame }) (\<lambda>frame.
                  Some (Done () (s\<lparr>ww_blocks := (ww_blocks s)(f \<mapsto> frame)\<rparr>)))
            | _ \<Rightarrow> Some Undef))))"

section \<open>Opening and closing\<close>

text \<open>The handler for \<^verbatim>\<open>SIGSEGV\<close> is installed once; its structure is written without a check.\<close>

definition wc_install_handler :: "unit wc_act" where
  "wc_install_handler s =
     (if ww_handler s then Some (Done () s)
      else andthen (answer ww_grants ww_grants_update s) (\<lambda>ok s.
        if ok then Some (Done () (s\<lparr>ww_handler := True\<rparr>)) else Some Undef))"

fun wc_store :: "nat \<Rightarrow> nat ptr list \<Rightarrow> nat ptr list" where
  "wc_store a [] = []"
| "wc_store a (NULL # ps) = Ptr a # ps"
| "wc_store a (p # ps) = p # wc_store a ps"

definition wc_new :: "bytes \<Rightarrow> int \<Rightarrow> nat wc_act" where
  "wc_new dev fd s =
     andthen (answer ww_grants ww_grants_update s) (\<lambda>ok s.
       if \<not> ok then Some Undef
       else
         let a = ww_next s in
         andthen (wc_malloc (dev @ [0]) (s\<lparr>ww_next := Suc a\<rparr>)) (\<lambda>name s.
           Some (Done a (s\<lparr>ww_cams := (ww_cams s)(a \<mapsto> \<lparr>wc_name = name, wc_fd = fd, wc_buffers = NULL, wc_nbuffers = 0,
               wc_frame_start = NULL, wc_frame_length = 0, wc_thread = False, wc_stray = False, wc_mtx = MtxFree, wc_width = 0,
               wc_height = 0, wc_colorspace = 0, wc_formats = replicate 16 (replicate 5 0), wc_streaming = False\<rparr>),
             ww_table := wc_store a (ww_table s)\<rparr>))))"

text \<open>
  The loop over the formats of the device, with room for \<open>n\<close> of them in \<^verbatim>\<open>formats[16][5]\<close>: one more would be written after the
  array.
\<close>

fun wc_enum_loop :: "nat \<Rightarrow> nat \<Rightarrow> unit wc_act" where
  "wc_enum_loop a 0 s =
     andthen (wc_ioctl ww_enum_fmt ww_enum_fmt_update s) (\<lambda>r s.
       (case r of Inl _ \<Rightarrow> Some (Done () s) | Inr _ \<Rightarrow> Some Undef))"
| "wc_enum_loop a (Suc n) s =
     andthen (wc_ioctl ww_enum_fmt ww_enum_fmt_update s) (\<lambda>r s.
       (case r of
          Inl _ \<Rightarrow> Some (Done () s)
        | Inr code \<Rightarrow> wc_enum_loop a n
            (set_cam (wc_formats_update (\<lambda>fs. fs[15 - n := take 4 code @ [0]])) a s)))"

text \<open>\<^verbatim>\<open>webcam_open\<close>: \<open>stat\<close> tells whether the path is a character device, if it exists.\<close>

definition wc_webcam_open :: "bytes \<Rightarrow> bool option \<Rightarrow> nat ptr wc_act" where
  "wc_webcam_open dev stat s =
     andthen (wc_install_handler s) (\<lambda>_ s.
       if stat \<noteq> Some True then Some (Done NULL s)
       else
         andthen (answer ww_open ww_open_update s) (\<lambda>r s.
           (case r of
              Inl _ \<Rightarrow> Some (Done NULL s)
            | Inr fd \<Rightarrow>
                andthen (wc_ioctl ww_querycap ww_querycap_update (s\<lparr>ww_fds := insert fd (ww_fds s)\<rparr>)) (\<lambda>r s.
                  (case r of
                     Inl _ \<Rightarrow> Some (Done NULL s)
                   | Inr cap \<Rightarrow>
                       if \<not> cap_capture cap then Some (Done NULL s)
                       else
                         andthen (wc_new dev fd s) (\<lambda>a s.
                         andthen (wc_enum_loop a 16 s) (\<lambda>_ s. Some (Done (Ptr a) s))))))))"

text \<open>Unmapping the buffers of a camera; \<^verbatim>\<open>munmap\<close> of what is not mapped fails, and nobody looks.\<close>

definition wc_unmap :: "wc_buffer \<Rightarrow> wc_world \<Rightarrow> wc_world" where
  "wc_unmap b s = (case wcb_start b of Mapped m \<Rightarrow> s\<lparr>ww_maps := (ww_maps s)(m := None)\<rparr> | _ \<Rightarrow> s)"

definition wc_unmap_buffers :: "wc_webcam \<Rightarrow> unit wc_act" where
  "wc_unmap_buffers c s =
     (if wc_nbuffers c = 0 then Some (Done () s)
      else
        (case wc_buffers c of
           NULL \<Rightarrow> Some Undef
         | Ptr b \<Rightarrow> need (ww_arrays s b) (\<lambda>bs.
             if length bs < unat (wc_nbuffers c) then Some Undef
             else Some (Done () (fold wc_unmap (take (unat (wc_nbuffers c)) bs) s)))))"

text \<open>
  Nothing ends a thread of the camera here: one that has not been joined goes on using the structure after it was
  freed, which is undefined.
\<close>

definition wc_webcam_close :: "nat \<Rightarrow> unit wc_act" where
  "wc_webcam_close a s =
     cam_of a s (\<lambda>c.
     if wc_thread c \<or> wc_stray c then Some Undef
     else
     andthen (wc_free (wc_frame_start c) s) (\<lambda>_ s.
     andthen (wc_unmap_buffers c (set_cam (wc_frame_length_update (\<lambda>_. 0)) a s)) (\<lambda>_ s.
     andthen (wc_free_array (wc_buffers c) s) (\<lambda>_ s.
     andthen (wc_free (wc_name c) s) (\<lambda>_ s.
       Some (Done () (s\<lparr>ww_fds := ww_fds s - {wc_fd c}, ww_cams := (ww_cams s)(a := None)\<rparr>)))))))"

section \<open>The size of the frames\<close>

definition wc_drop_buffers :: "nat \<Rightarrow> unit wc_act" where
  "wc_drop_buffers a s =
     cam_of a s (\<lambda>c.
       if wc_buffers c = NULL then Some (Done () s)
       else andthen (wc_unmap_buffers c s) (\<lambda>_ s. wc_free_array (wc_buffers c) s))"

text \<open>The loop over the buffers: \<open>n\<close> are still to be mapped, from the index \<open>i\<close> on.\<close>

fun wc_map_loop :: "cenv \<Rightarrow> nat \<Rightarrow> nat \<Rightarrow> nat \<Rightarrow> unit wc_act" where
  "wc_map_loop e b i 0 s = Some (Done () s)"
| "wc_map_loop e b i (Suc n) s =
     andthen (wc_ioctl ww_querybuf ww_querybuf_update s) (\<lambda>r s.
       (case r of
          Inl _ \<Rightarrow> Some (Done () s)
        | Inr len \<Rightarrow>
            andthen (answer ww_mmap ww_mmap_update s) (\<lambda>ok s.
              let start = (if ok then Mapped (ww_next s) else MapFailed);
                  s' = s\<lparr>ww_arrays := (ww_arrays s)(b := map_option (\<lambda>bs. bs[i := \<lparr>wcb_start = start, wcb_length = len\<rparr>])
                         (ww_arrays s b))\<rparr> in
              if \<not> ok then Some (Done () s')
              else wc_map_loop e b (Suc i) n
                (s'\<lparr>ww_maps := (ww_maps s)(ww_next s \<mapsto> junk_block e len), ww_next := Suc (ww_next s)\<rparr>))))"

definition wc_request_buffers :: "cenv \<Rightarrow> nat \<Rightarrow> unit wc_act" where
  "wc_request_buffers e a s =
     andthen (wc_ioctl ww_reqbufs ww_reqbufs_update s) (\<lambda>r s.
       (case r of
          Inl _ \<Rightarrow> Some (Done () s)
        | Inr count \<Rightarrow>
            if count < 2 then Some (Done () s)
            else
              let n = of_nat count :: u8 in
              andthen (wc_alloc_array (replicate (unat n) \<lparr>wcb_start = NoStart, wcb_length = 0\<rparr>)
                  (set_cam (wc_nbuffers_update (\<lambda>_. n)) a s)) (\<lambda>p s.
                let s = set_cam (wc_buffers_update (\<lambda>_. p)) a s in
                (case p of NULL \<Rightarrow> Some (Done () s) | Ptr b \<Rightarrow> wc_map_loop e b 0 (unat n) s))))"

text \<open>
  \<^verbatim>\<open>webcam_resize\<close>: when \<^verbatim>\<open>VIDIOC_S_FMT\<close> fails the structure still holds what was asked for, YUYV in the colour space 3. The
  five bytes for the name of the format are never freed.
\<close>

definition wc_webcam_resize :: "cenv \<Rightarrow> nat \<Rightarrow> u16 \<Rightarrow> u16 \<Rightarrow> unit wc_act" where
  "wc_webcam_resize e a width height s =
     andthen (wc_ioctl ww_s_fmt ww_s_fmt_update s) (\<lambda>r s.
       (case (case r of Inl _ \<Rightarrow> (ucast width, ucast height, 3, str_bytes ''YUYV'') | Inr fmt \<Rightarrow> fmt) of
          (w, h, cs, code) \<Rightarrow>
            andthen (wc_malloc (take 4 code @ [0])
                (set_cam (\<lambda>c. c\<lparr>wc_width := ucast w, wc_height := ucast h, wc_colorspace := ucast cs\<rparr>) a s)) (\<lambda>p s.
              if p = NULL then Some Undef
              else
                andthen (wc_drop_buffers a s) (\<lambda>_ s. wc_request_buffers e a s))))"

section \<open>Streaming\<close>

text \<open>Waiting for a filled buffer: \<^verbatim>\<open>None\<close> when the device gives another error, which is only reported.\<close>

partial_function (option) wc_dequeue :: "wc_world \<Rightarrow> (wc_world, (nat \<times> bytes) option) outcome option" where
  "wc_dequeue s =
     andthen (wc_ioctl ww_dqbuf ww_dqbuf_update s) (\<lambda>r s.
       (case r of
          Inl err \<Rightarrow> if err = EAGAIN then wc_dequeue s else Some (Done None s)
        | Inr d \<Rightarrow> Some (Done (Some d) s)))"

text \<open>The bytes the device has put into a mapped buffer.\<close>

definition wc_fill :: "wc_buffer \<Rightarrow> bytes \<Rightarrow> wc_world \<Rightarrow> wc_world" where
  "wc_fill buf data s =
     (case wcb_start buf of
        Mapped m \<Rightarrow> s\<lparr>ww_maps := (ww_maps s)(m := map_option (\<lambda>mem. take (length mem) (data @ drop (length data) mem)) (ww_maps s m))\<rparr>
      | _ \<Rightarrow> s)"

text \<open>\<^verbatim>\<open>webcam_read\<close>: after an error of the device the cleared structure has the index 0. A failed assertion ends the program.\<close>

definition wc_webcam_read :: "nat \<Rightarrow> unit wc_act" where
  "wc_webcam_read a s =
     andthen (wc_dequeue s) (\<lambda>r s.
     cam_of a s (\<lambda>c.
       let i = (case r of None \<Rightarrow> 0 | Some d \<Rightarrow> fst d) in
       if unat (wc_nbuffers c) \<le> i then Some (Exit s)
       else
         (case wc_buffers c of
            NULL \<Rightarrow> Some Undef
          | Ptr b \<Rightarrow> need (Option.bind (ww_arrays s b) (\<lambda>bs. if i < length bs then Some (bs ! i) else None)) (\<lambda>buf.
              andthen (wc_lock a (case r of None \<Rightarrow> s | Some d \<Rightarrow> wc_fill buf (snd d) s)) (\<lambda>_ s.
              andthen (convertToRGB buf a s) (\<lambda>_ s.
              andthen (wc_unlock a s) (\<lambda>_ s.
              andthen (wc_ioctl ww_qbuf ww_qbuf_update s) (\<lambda>_ s. Some (Done () s)))))))))"

text \<open>\<open>n\<close> rounds of the loop of \<^verbatim>\<open>webcam_streaming\<close>, fewer when the camera stops streaming.\<close>

fun webcam_streaming :: "nat \<Rightarrow> nat \<Rightarrow> unit wc_act" where
  "webcam_streaming a 0 s = Some (Done () s)"
| "webcam_streaming a (Suc n) s =
     cam_of a s (\<lambda>c.
       if wc_streaming c then andthen (wc_webcam_read a s) (\<lambda>_ s. webcam_streaming a n s)
       else Some (Done () s))"

text \<open>
  The thread of a camera runs for as many rounds as the script says. When it would have to wait, for the lock of the
  frame or for the device, it stays where it was before these rounds, and may run again later.
\<close>

definition wc_thread_runs :: "nat \<Rightarrow> unit wc_act" where
  "wc_thread_runs a s =
     cam_of a s (\<lambda>c.
       case ww_rounds s of
         [] \<Rightarrow> Some (Done () s)
       | n # ns \<Rightarrow>
           (case webcam_streaming a (if wc_thread c \<or> wc_stray c then n else 0) (s\<lparr>ww_rounds := ns\<rparr>) of
              None \<Rightarrow> Some (Done () (s\<lparr>ww_rounds := ns\<rparr>))
            | Some r \<Rightarrow> Some r))"

fun wc_queue_loop :: "nat \<Rightarrow> bool wc_act" where
  "wc_queue_loop 0 s = Some (Done True s)"
| "wc_queue_loop (Suc n) s =
     andthen (wc_ioctl ww_qbuf ww_qbuf_update s) (\<lambda>r s.
       (case r of Inl _ \<Rightarrow> Some (Done False s) | Inr _ \<Rightarrow> wc_queue_loop n s))"

definition wc_stream_on :: "nat \<Rightarrow> unit wc_act" where
  "wc_stream_on a s =
     cam_of a s (\<lambda>c.
     andthen (wc_queue_loop (unat (wc_nbuffers c)) s) (\<lambda>ok s.
       if \<not> ok then Some (Done () s)
       else
         andthen (wc_ioctl ww_streamon ww_streamon_update s) (\<lambda>r s.
           (case r of
              Inl _ \<Rightarrow> Some (Done () s)
            | Inr _ \<Rightarrow>
                andthen (answer ww_create ww_create_update (set_cam (wc_streaming_update (\<lambda>_. True)) a s)) (\<lambda>ok s.
                  Some (Done () (set_cam (\<lambda>c. c\<lparr>wc_stray := wc_stray c \<or> wc_thread c, wc_thread := ok\<rparr>) a s)))))))"

text \<open>
  \<^verbatim>\<open>pthread_join\<close>: the thread sees that the camera has stopped streaming, but when it is busy it first ends the
  call of \<^verbatim>\<open>webcam_read\<close> it is in. There must be a thread.
\<close>

definition wc_join :: "nat \<Rightarrow> unit wc_act" where
  "wc_join a s =
     cam_of a s (\<lambda>c.
       if \<not> wc_thread c then Some Undef
       else
         andthen
           (case ww_busy s of
              [] \<Rightarrow> Some (Done () s)
            | busy # bs \<Rightarrow> if busy then wc_webcam_read a (s\<lparr>ww_busy := bs\<rparr>) else Some (Done () (s\<lparr>ww_busy := bs\<rparr>)))
           (\<lambda>_ s. Some (Done () (set_cam (wc_thread_update (\<lambda>_. False)) a s))))"

definition wc_stream_off :: "nat \<Rightarrow> unit wc_act" where
  "wc_stream_off a s =
     andthen (wc_join a (set_cam (wc_streaming_update (\<lambda>_. False)) a s)) (\<lambda>_ s.
     andthen (wc_ioctl ww_streamoff ww_streamoff_update s) (\<lambda>_ s. Some (Done () s)))"

definition webcam_stream :: "nat \<Rightarrow> bool \<Rightarrow> unit wc_act" where
  "webcam_stream a flag s = (if flag then wc_stream_on a s else wc_stream_off a s)"

text \<open>
  \<^verbatim>\<open>memcpy\<close> of \<open>n\<close> bytes from the block \<open>f\<close> to the block \<open>d\<close>, from the index \<open>i\<close> on. The thread of the camera may run between
  any two bytes: only the lock keeps it from the frame.
\<close>

fun wc_copy_loop :: "nat \<Rightarrow> nat \<Rightarrow> nat \<Rightarrow> nat \<Rightarrow> nat \<Rightarrow> unit wc_act" where
  "wc_copy_loop a d f i 0 s = Some (Done () s)"
| "wc_copy_loop a d f i (Suc n) s =
     andthen (wc_thread_runs a s) (\<lambda>_ s.
     need (do {
         mem \<leftarrow> ww_blocks s f;
         px \<leftarrow> slice mem i 1;
         dest \<leftarrow> ww_blocks s d;
         blit dest i px }) (\<lambda>dest.
       wc_copy_loop a d f (Suc i) n (s\<lparr>ww_blocks := (ww_blocks s)(d \<mapsto> dest)\<rparr>)))"

definition wc_grab_copy :: "nat \<Rightarrow> nat ptr \<times> nat \<Rightarrow> (nat ptr \<times> nat) wc_act" where
  "wc_grab_copy a frame s =
     cam_of a s (\<lambda>c.
       if 0 < wc_frame_length c then
         andthen
           (if fst frame = NULL then
              andthen (wc_malloc (replicate (wc_frame_length c) 0) s) (\<lambda>p s. Some (Done (p, wc_frame_length c) s))
            else Some (Done frame s)) (\<lambda>frame s.
         (case (fst frame, wc_frame_start c) of
            (Ptr d, Ptr f) \<Rightarrow> andthen (wc_copy_loop a d f 0 (wc_frame_length c) s) (\<lambda>_ s. Some (Done frame s))
          | _ \<Rightarrow> Some Undef))
       else Some (Done frame s))"

text \<open>\<^verbatim>\<open>webcam_grab\<close>: the caller's buffer before and after. The thread may run before the lock is taken and while it is held.\<close>

definition webcam_grab :: "nat \<Rightarrow> nat ptr \<times> nat \<Rightarrow> (nat ptr \<times> nat) wc_act" where
  "webcam_grab a frame s =
     andthen (wc_thread_runs a s) (\<lambda>_ s.
     andthen (wc_lock a s) (\<lambda>_ s.
     andthen (wc_thread_runs a s) (\<lambda>_ s.
     andthen (wc_grab_copy a frame s) (\<lambda>frame s.
     andthen (wc_thread_runs a s) (\<lambda>_ s.
     andthen (wc_unlock a s) (\<lambda>_ s. Some (Done frame s)))))))"

section \<open>The handler for segmentation faults\<close>

text \<open>It works on every entry of the table, and nothing ever removes one.\<close>

fun wc_handler_loop :: "nat ptr list \<Rightarrow> unit wc_act" where
  "wc_handler_loop [] s = Some (Done () s)"
| "wc_handler_loop (NULL # ps) s = wc_handler_loop ps s"
| "wc_handler_loop (Ptr a # ps) s =
     cam_of a s (\<lambda>c.
     andthen
       (if wc_streaming c then andthen (wc_unlock a s) (\<lambda>_ s. webcam_stream a False s) else Some (Done () s)) (\<lambda>_ s.
     andthen (wc_webcam_close a s) (\<lambda>_ s. wc_handler_loop ps s)))"

definition handler :: "unit wc_act" where
  "handler s = andthen (wc_handler_loop (ww_table s) s) (\<lambda>_ s. Some (Exit s))"

end
