(* ===== verification/Webcam_Props.thy ===== *)
theory Webcam_Props
  imports Webcam Lwebcam_Memory
begin

text \<open>
  The imported camera library: the picture that a frame gives, the memory its conversion needs, the invariant of a
  camera between the steps of the application and of its thread, and what a resize that fails leaves behind.
\<close>

section \<open>Conversion\<close>

text \<open>
  The colour of a pixel of a frame in YUYV. An odd pixel has the chroma of its pair; an even one has the red chroma of
  the pair before it, and none at the start.
\<close>

definition wc_colour :: "bytes \<Rightarrow> nat \<Rightarrow> bytes" where
  "wc_colour data k =
     (let y = data ! (2 * k);
          u = (if even k then data ! (2 * k + 1) else data ! (2 * k - 1));
          v = (if odd k then data ! (2 * k + 1) else if k = 0 then 0x80 else data ! (2 * k - 1)) in
      [clamped (exact_R y v div yuv_unit), clamped (exact_G y u v div yuv_unit), clamped (exact_B y u div yuv_unit)])"

lemma wc_pixel_defined: "\<exists>r g b. wc_pixel buf i = Some [r, g, b]"
  using yuv_rgb_defined by (simp add: wc_pixel_def)

lemma wc_pixel_colour:
  assumes "even (length data)" "length data < 2 ^ 64" "k < length data div 2"
  shows "wc_pixel data (2 * k) = Some (wc_colour data k)"
proof -
  have k: "2 * k + 1 < length data" using assms(1,3) by auto
  then have up: "wc_sample data (2 * k) 1 = data ! (2 * k + 1)"
    using assms(2) by (auto simp: wc_sample_def Let_def nat_add_distrib nat_mult_distrib)
  have down: "wc_sample data (2 * k) (- 1) = (if k = 0 then 0x80 else data ! (2 * k - 1))"
  proof (cases "k = 0")
    case True
    then show ?thesis using assms(2) by (simp add: wc_sample_def)
  next
    case False
    then have "(int (2 * k) + - 1) mod 2 ^ 64 = int (2 * k - 1)" using k assms(2) by auto
    moreover have "nat (int (2 * k - 1)) = 2 * k - 1" "0 < int (2 * k - 1)" using False by simp_all
    ultimately show ?thesis unfolding wc_sample_def Let_def using False k by auto
  qed
  have m: "(2 * k) mod 4 = 0 \<longleftrightarrow> even k" "(2 * k) mod 4 = 2 \<longleftrightarrow> odd k" by presburger+
  show ?thesis
    unfolding wc_pixel_def m wc_colour_def Let_def
    by (cases "even k") (auto simp: up down yuv_rgb_def clamp_components)
qed

definition wc_px :: "bytes \<Rightarrow> nat \<Rightarrow> bytes" where
  "wc_px buf k = the (wc_pixel buf (2 * k))"

lemma wc_px: "wc_pixel buf (2 * k) = Some (wc_px buf k)" "length (wc_px buf k) = 3"
  using wc_pixel_defined [of buf "2 * k"] by (auto simp: wc_px_def)

definition pixels_of :: "nat \<Rightarrow> nat" where
  "pixels_of n = (n + 1) div 2"

lemma length_pixels: "length (concat (map (wc_px buf) [0..<k])) = 3 * k"
  by (induction k) (simp_all add: wc_px)

lemma convert_from:
  assumes "3 * k \<le> length frame" "k \<le> pixels_of (length buf)"
  shows "for_loop 2 (2 * k) (length buf) (\<lambda>i frame. do {
           px \<leftarrow> wc_pixel buf i;
           blit frame (i div 2 * 3) px }) (concat (map (wc_px buf) [0..<k]) @ drop (3 * k) frame) =
    (if 3 * pixels_of (length buf) \<le> length frame
     then Some (concat (map (wc_px buf) [0..<pixels_of (length buf)]) @ drop (3 * pixels_of (length buf)) frame) else None)"
  using assms
proof (induction "pixels_of (length buf) - k" arbitrary: k)
  case 0
  then have "k = pixels_of (length buf)" by simp
  with 0 show ?case by (simp add: pixels_of_def)
next
  case (Suc n)
  let ?f = "\<lambda>i frame. do { px \<leftarrow> wc_pixel buf i; blit frame (i div 2 * 3) px }"
  let ?p = "\<lambda>k. concat (map (wc_px buf) [0..<k]) @ drop (3 * k) frame"
  have k: "2 * k < length buf" "k < pixels_of (length buf)" using Suc(2) by (auto simp: pixels_of_def)
  show ?case
  proof (cases "3 * Suc k \<le> length frame")
    case True
    have "?f (2 * k) (?p k) = Some (?p (Suc k))"
      using True wc_px(2) [of buf k] by (simp add: wc_px(1) blit_def length_pixels)
    then have "for_loop 2 (2 * k) (length buf) ?f (?p k) = for_loop 2 (2 * Suc k) (length buf) ?f (?p (Suc k))"
      using k(1) by (simp add: for_loop_step)
    with Suc(1) [of "Suc k"] Suc(2) True k(2) show ?thesis by simp
  next
    case False
    then have "?f (2 * k) (?p k) = None"
      using Suc(3) wc_px(2) [of buf k] by (simp add: wc_px(1) blit_def length_pixels)
    moreover have "3 * Suc k \<le> 3 * pixels_of (length buf)" using k(2) by simp
    ultimately show ?thesis using False k(1) by (simp add: for_loop_step)
  qed
qed

lemma convert_frame_eq:
  "wc_convert_frame buf frame =
    (if 3 * pixels_of (length buf) \<le> length frame
     then Some (concat (map (wc_px buf) [0..<pixels_of (length buf)]) @ drop (3 * pixels_of (length buf)) frame) else None)"
  using convert_from [of 0 frame buf] by (simp add: wc_convert_frame_def)

lemma convert_new_frame:
  assumes "ww_cams s a = Some c" "wcb_start buf = Mapped m" "ww_maps s m = Some mem" "length mem = wcb_length buf"
    "wc_frame_start c = NULL" "ww_grants s = True # gs"
  shows "if even (length mem)
    then \<exists>t px. convertToRGB buf a s = Some (Done () t) \<and>
      ww_cams t a = Some (c\<lparr>wc_frame_start := Ptr (ww_next s), wc_frame_length := length mem div 2 * 3\<rparr>) \<and>
      ww_blocks t = (ww_blocks s)(ww_next s \<mapsto> px) \<and> ww_maps t = ww_maps s \<and> length px = length mem div 2 * 3
    else convertToRGB buf a s = Some Undef"
  using assms
  by (auto simp: convertToRGB_def cam_of_def wc_malloc_def answer_def set_cam_def Let_def slice_def convert_frame_eq
    pixels_of_def length_pixels elim!: evenE oddE)

lemma convert_old_frame:
  assumes "ww_cams s a = Some c" "wcb_start buf = Mapped m" "ww_maps s m = Some mem" "length mem = wcb_length buf"
    "wc_frame_start c = Ptr f" "ww_blocks s f = Some px"
  shows "if (length mem + 1) div 2 * 3 \<le> length px
    then \<exists>px'. convertToRGB buf a s = Some (Done () (s\<lparr>ww_blocks := (ww_blocks s)(f \<mapsto> px')\<rparr>)) \<and> length px' = length px \<and>
      drop ((length mem + 1) div 2 * 3) px' = drop ((length mem + 1) div 2 * 3) px
    else convertToRGB buf a s = Some Undef"
proof (cases "mem = []")
  case True
  then have "convertToRGB buf a s = Some (Done () s)" using assms by (simp add: convertToRGB_def cam_of_def)
  moreover have "s\<lparr>ww_blocks := (ww_blocks s)(f \<mapsto> px)\<rparr> = s" using assms(6) by (simp add: fun_upd_idem)
  ultimately show ?thesis using True by (auto intro!: exI [of _ px])
next
  case False
  let ?n = "(length mem + 1) div 2"
  let ?px = "concat (map (wc_px mem) [0..<?n]) @ drop (3 * ?n) px"
  have "convertToRGB buf a s =
    (if ?n * 3 \<le> length px then Some (Done () (s\<lparr>ww_blocks := (ww_blocks s)(f \<mapsto> ?px)\<rparr>)) else Some Undef)"
    using assms False by (auto simp: convertToRGB_def cam_of_def slice_def convert_frame_eq pixels_of_def)
  then show ?thesis by (auto simp: length_pixels mult.commute intro!: exI [of _ ?px] simp del: One_nat_def)
qed

text \<open>A device with one format and two buffers of four bytes, whose second resize fails.\<close>

definition wc_example :: wc_world where
  "wc_example =
     \<lparr>ww_cams = (\<lambda>_. None), ww_blocks = (\<lambda>_. None), ww_arrays = (\<lambda>_. None), ww_maps = (\<lambda>_. None), ww_next = 0, ww_fds = {},
      ww_table = replicate 16 NULL, ww_handler = False, ww_grants = [True, True, True, True, True, True, True, True], ww_open = [Inr 3],
      ww_querycap = [Inr \<lparr>cap_capture = True, cap_streaming = True, cap_readwrite = False, cap_bus = [], cap_driver = [],
        cap_card = []\<rparr>],
      ww_enum_fmt = [Inr (str_bytes ''YUYV''), Inl EINVAL],
      ww_s_fmt = [Inl EINTR, Inr (2, 1, 8, str_bytes ''YUYV''), Inl EINVAL], ww_reqbufs = [Inr 2, Inl EINVAL],
      ww_querybuf = [Inr 4, Inr 4], ww_mmap = [True, True],
      ww_dqbuf = [Inl EAGAIN, Inl EINTR, Inr (1, [16, 128, 235, 128])], ww_qbuf = [Inr ()], ww_streamon = [Inr ()],
      ww_streamoff = [Inr ()], ww_create = [True], ww_rounds = [1], ww_busy = [True]\<rparr>"

text \<open>The same device with a camera that has no frame yet, a buffer of four bytes and one of six.\<close>

definition wc_resized :: wc_world where
  "wc_resized = wc_example\<lparr>ww_next := 10, ww_maps := [1 \<mapsto> replicate 4 0x80, 2 \<mapsto> replicate 6 0x80],
     ww_cams := [0 \<mapsto> \<lparr>wc_name = NULL, wc_fd = 3, wc_buffers = NULL, wc_nbuffers = 0, wc_frame_start = NULL,
       wc_frame_length = 0, wc_thread = False, wc_stray = False, wc_mtx = MtxFree, wc_width = 0, wc_height = 0,
       wc_colorspace = 0, wc_formats = [], wc_streaming = False\<rparr>]\<rparr>"

text \<open>
  C33. The frame that the first conversion allocates is used for all that follow. The first conversion takes three bytes
  for each whole pair of bytes of its buffer, and is undefined when the buffer has an odd length. A later one keeps block
  and size of the frame, and what it does not reach of the picture; it is defined exactly when the frame has three bytes
  for each pair of bytes that the buffer has begun, so that a longer buffer after a resize is written past its end.
\<close>

theorem wc_convert_defined_iff:
  assumes "ww_cams s a = Some c" "wcb_start buf = Mapped m" "ww_maps s m = Some mem" "length mem = wcb_length buf"
  shows "(\<forall>gs. wc_frame_start c = NULL \<and> ww_grants s = True # gs \<longrightarrow>
      (if even (length mem)
       then \<exists>t px. convertToRGB buf a s = Some (Done () t) \<and>
         ww_cams t a = Some (c\<lparr>wc_frame_start := Ptr (ww_next s), wc_frame_length := length mem div 2 * 3\<rparr>) \<and>
         ww_blocks t = (ww_blocks s)(ww_next s \<mapsto> px) \<and> ww_maps t = ww_maps s \<and> length px = length mem div 2 * 3
       else convertToRGB buf a s = Some Undef)) \<and>
    (\<forall>f px. wc_frame_start c = Ptr f \<and> ww_blocks s f = Some px \<longrightarrow>
      (if (length mem + 1) div 2 * 3 \<le> length px
       then \<exists>px'. convertToRGB buf a s = Some (Done () (s\<lparr>ww_blocks := (ww_blocks s)(f \<mapsto> px')\<rparr>)) \<and> length px' = length px \<and>
         drop ((length mem + 1) div 2 * 3) px' = drop ((length mem + 1) div 2 * 3) px
       else convertToRGB buf a s = Some Undef)) \<and>
    (wc_convert_frame mem frame \<noteq> None \<longleftrightarrow> (length mem + 1) div 2 * 3 \<le> length frame)"
proof (intro conjI allI impI)
  show "wc_convert_frame mem frame \<noteq> None \<longleftrightarrow> (length mem + 1) div 2 * 3 \<le> length frame"
    by (auto simp: convert_frame_eq pixels_of_def)
qed (use convert_new_frame [OF assms] convert_old_frame [OF assms] in blast)+

theorem wc_convert_defined_iff_witness:
  "\<exists>t px. convertToRGB \<lparr>wcb_start = Mapped 1, wcb_length = 4\<rparr> 0 wc_resized = Some (Done () t) \<and> ww_blocks t 10 = Some px \<and>
     length px = 6 \<and> convertToRGB \<lparr>wcb_start = Mapped 2, wcb_length = 6\<rparr> 0 t = Some Undef"
proof -
  have w: "ww_maps wc_resized = [1 \<mapsto> replicate 4 0x80, 2 \<mapsto> replicate 6 0x80]" "ww_next wc_resized = 10"
    by (simp_all add: wc_resized_def)
  obtain c where c: "ww_cams wc_resized 0 = Some c" "wc_frame_start c = NULL" by (simp add: wc_resized_def)
  have "ww_grants wc_resized = True # tl (ww_grants wc_resized)" by (simp add: wc_resized_def wc_example_def)
  then obtain t px where t: "convertToRGB \<lparr>wcb_start = Mapped 1, wcb_length = 4\<rparr> 0 wc_resized = Some (Done () t)"
    "\<exists>c. ww_cams t 0 = Some c \<and> wc_frame_start c = Ptr 10" "ww_blocks t 10 = Some px" "length px = 6" "ww_maps t = ww_maps wc_resized"
    using wc_convert_defined_iff [OF c(1), of "\<lparr>wcb_start = Mapped 1, wcb_length = 4\<rparr>" 1 "replicate 4 0x80"] c(2) w
    by fastforce
  then show ?thesis
    using wc_convert_defined_iff [of t 0 _ "\<lparr>wcb_start = Mapped 2, wcb_length = 6\<rparr>" 2 "replicate 6 0x80"] w(1) by auto
qed

lemma convert_frame_even:
  assumes "even (length buf)" "length frame = length buf div 2 * 3" "length buf < 2 ^ 64"
  shows "wc_convert_frame buf frame = Some (concat (map (wc_colour buf) [0..<length buf div 2]))"
proof -
  have pic: "map (wc_px buf) [0..<length buf div 2] = map (wc_colour buf) [0..<length buf div 2]"
    using wc_pixel_colour [OF assms(1,3)] by (intro map_cong) (simp_all add: wc_px_def)
  have n: "pixels_of (length buf) = length buf div 2" using assms(1) by (auto simp: pixels_of_def elim!: evenE)
  show ?thesis unfolding convert_frame_eq n pic using assms(2) by simp
qed

section \<open>A camera between two steps\<close>

definition wc_fresh :: "wc_world \<Rightarrow> bool" where
  "wc_fresh s \<longleftrightarrow> (\<forall>a. ww_next s \<le> a \<longrightarrow> ww_blocks s a = None \<and> ww_arrays s a = None \<and> ww_maps s a = None)"

definition wc_mapped :: "nat \<Rightarrow> (nat \<Rightarrow> bytes option) \<Rightarrow> wc_buffer \<Rightarrow> bool" where
  "wc_mapped L maps x \<longleftrightarrow> wcb_length x = L \<and> (\<exists>m mem. wcb_start x = Mapped m \<and> maps m = Some mem \<and> length mem = L)"

text \<open>The blocks of a camera and the buffer of its application: they are different, and large enough for a picture.\<close>

definition wc_room :: "nat \<Rightarrow> (nat \<Rightarrow> bytes option) \<Rightarrow> wc_webcam \<Rightarrow> nat ptr \<times> nat \<Rightarrow> bool" where
  "wc_room L blocks c fr \<longleftrightarrow>
     (\<forall>x \<in> set (addr (wc_name c) @ addr (wc_frame_start c) @ addr (fst fr)). blocks x \<noteq> None) \<and>
     distinct (addr (wc_name c) @ addr (wc_frame_start c) @ addr (fst fr)) \<and>
     (wc_frame_start c = NULL \<and> wc_frame_length c = 0 \<or>
      wc_frame_length c = L div 2 * 3 \<and>
      (\<exists>f px. wc_frame_start c = Ptr f \<and> blocks f = Some px \<and> length px = L div 2 * 3)) \<and>
     (\<forall>d px. fst fr = Ptr d \<longrightarrow> blocks d = Some px \<longrightarrow> L div 2 * 3 \<le> length px)"

text \<open>
  \<open>wc_life a L fr s\<close>: the camera at \<open>a\<close> has mapped buffers for frames of \<open>L\<close> bytes, nobody holds its lock, and \<open>fr\<close> is the
  buffer its application grabs into. Memory can be had.
\<close>

definition wc_life :: "nat \<Rightarrow> nat \<Rightarrow> nat ptr \<times> nat \<Rightarrow> wc_world \<Rightarrow> bool" where
  "wc_life a L fr s \<longleftrightarrow> even L \<and> L < 2 ^ 64 \<and> wc_fresh s \<and> list_all id (ww_grants s) \<and>
     (\<exists>c b bs. ww_cams s a = Some c \<and> wc_mtx c = MtxFree \<and> wc_buffers c = Ptr b \<and> ww_arrays s b = Some bs \<and>
        length bs = unat (wc_nbuffers c) \<and> list_all (wc_mapped L (ww_maps s)) bs \<and> wc_room L (ww_blocks s) c fr)"

lemma wc_lifeE:
  assumes "wc_life a L fr s"
  obtains c b bs where "ww_cams s a = Some c" "wc_mtx c = MtxFree" "wc_buffers c = Ptr b" "ww_arrays s b = Some bs"
    "length bs = unat (wc_nbuffers c)" "list_all (wc_mapped L (ww_maps s)) bs" "wc_room L (ww_blocks s) c fr"
    "even L" "L < 2 ^ 64" "wc_fresh s" "list_all id (ww_grants s)"
  using assms unfolding wc_life_def by blast

text \<open>Scripts and what is not memory do not matter.\<close>

lemma wc_life_scripts [simp]:
  "wc_life a L fr (s\<lparr>ww_dqbuf := x1\<rparr>) = wc_life a L fr s" "wc_life a L fr (s\<lparr>ww_qbuf := x2\<rparr>) = wc_life a L fr s"
  "wc_life a L fr (s\<lparr>ww_streamon := x2\<rparr>) = wc_life a L fr s" "wc_life a L fr (s\<lparr>ww_streamoff := x2\<rparr>) = wc_life a L fr s"
  "wc_life a L fr (s\<lparr>ww_create := x3\<rparr>) = wc_life a L fr s" "wc_life a L fr (s\<lparr>ww_rounds := x4\<rparr>) = wc_life a L fr s"
  "wc_life a L fr (s\<lparr>ww_busy := x3\<rparr>) = wc_life a L fr s"
  by (simp_all add: wc_life_def wc_fresh_def)

lemma wc_life_set [simp]:
  "wc_life a L fr (set_cam (wc_streaming_update f) a s) = wc_life a L fr s"
  "wc_life a L fr (set_cam (wc_thread_update f) a s) = wc_life a L fr s"
  "wc_life a L fr (set_cam (\<lambda>c. c\<lparr>wc_stray := x c, wc_thread := y\<rparr>) a s) = wc_life a L fr s"
  by (auto simp: wc_life_def wc_fresh_def set_cam_def wc_room_def)

lemma wc_mapped_fill: "length mem' = length mem \<Longrightarrow> maps m = Some mem \<Longrightarrow> wc_mapped L maps x \<Longrightarrow> wc_mapped L (maps(m \<mapsto> mem')) x"
  by (auto simp: wc_mapped_def)

lemma wc_life_fill:
  assumes "wc_life a L fr s"
  shows "wc_life a L fr (wc_fill buf data s)"
proof (cases "\<exists>m mem. wcb_start buf = Mapped m \<and> ww_maps s m = Some mem")
  case True
  then obtain m mem where m: "wcb_start buf = Mapped m" "ww_maps s m = Some mem" by blast
  let ?mem = "take (length mem) (data @ drop (length data) mem)"
  have s': "wc_fill buf data s = s\<lparr>ww_maps := (ww_maps s)(m \<mapsto> ?mem)\<rparr>" by (simp add: wc_fill_def m)
  have "length ?mem = length mem" by simp
  from assms show ?thesis
  proof (rule wc_lifeE)
    fix c b bs
    assume *: "ww_cams s a = Some c" "wc_mtx c = MtxFree" "wc_buffers c = Ptr b" "ww_arrays s b = Some bs"
      "length bs = unat (wc_nbuffers c)" "list_all (wc_mapped L (ww_maps s)) bs" "wc_room L (ww_blocks s) c fr"
      "even L" "L < 2 ^ 64" "wc_fresh s" "list_all id (ww_grants s)"
    have "list_all (wc_mapped L ((ww_maps s)(m \<mapsto> ?mem))) bs"
      using *(6) wc_mapped_fill [where maps = "ww_maps s", OF \<open>length ?mem = length mem\<close> m(2)] by (auto simp: list_all_iff)
    moreover have "wc_fresh (s\<lparr>ww_maps := (ww_maps s)(m \<mapsto> ?mem)\<rparr>)" using *(10) m(2) by (auto simp: wc_fresh_def)
    ultimately show ?thesis using * unfolding s' wc_life_def by auto
  qed
next
  case False
  then have "wc_fill buf data s = s" by (auto simp: wc_fill_def fun_upd_idem split: wc_start.split)
  with assms show ?thesis by simp
qed

text \<open>What the frame of a camera shows.\<close>

definition wc_shows :: "nat \<Rightarrow> bytes \<Rightarrow> wc_world \<Rightarrow> bool" where
  "wc_shows a pic s \<longleftrightarrow>
     (\<exists>c f. ww_cams s a = Some c \<and> wc_frame_start c = Ptr f \<and> ww_blocks s f = Some pic)"

lemma length_picture: "length (concat (map (wc_colour data) [0..<n])) = n * 3"
  by (induction n) (simp_all add: wc_colour_def Let_def)

text \<open>The conversion of a buffer under the lock of the frame.\<close>

lemma locked_convert:
  assumes life: "wc_life a L fr s" and buf: "wcb_start buf = Mapped m" "wcb_length buf = L"
    and mem: "ww_maps s m = Some mem" "length mem = L"
  shows "ww_grants s = [] \<and>
      andthen (wc_lock a s) (\<lambda>_ s. andthen (convertToRGB buf a s) (\<lambda>_ s. andthen (wc_unlock a s) k)) = None \<or>
    (\<exists>t. andthen (wc_lock a s) (\<lambda>_ s. andthen (convertToRGB buf a s) (\<lambda>_ s. andthen (wc_unlock a s) k)) = k () t \<and>
      wc_life a L fr t \<and> wc_shows a (concat (map (wc_colour mem) [0..<L div 2])) t \<and> ww_qbuf t = ww_qbuf s)"
  using life
proof (rule wc_lifeE)
  fix c b bs
  assume *: "ww_cams s a = Some c" "wc_mtx c = MtxFree" "wc_buffers c = Ptr b" "ww_arrays s b = Some bs"
    "length bs = unat (wc_nbuffers c)" "list_all (wc_mapped L (ww_maps s)) bs" "wc_room L (ww_blocks s) c fr"
    "even L" "L < 2 ^ 64" "wc_fresh s" "list_all id (ww_grants s)"
  let ?pic = "concat (map (wc_colour mem) [0..<L div 2])"
  let ?m = "andthen (wc_lock a s) (\<lambda>_ s. andthen (convertToRGB buf a s) (\<lambda>_ s. andthen (wc_unlock a s) k))"
  have conv: "wc_convert_frame mem px = Some ?pic" if "length px = L div 2 * 3" for px
    using convert_frame_even [of mem px] that mem(2) *(8,9) by simp
  have zero: "?pic = px" if "length px = L div 2 * 3" "L = 0" for px using that by simp
  have sl: "slice mem 0 L = Some mem" using mem(2) by (simp add: slice_def)
  show ?thesis
  proof (cases "wc_frame_start c")
    case (Ptr f)
    then obtain px where f: "ww_blocks s f = Some px" "length px = L div 2 * 3" using *(7) by (auto simp: wc_room_def)
    let ?t = "s\<lparr>ww_blocks := (ww_blocks s)(f \<mapsto> ?pic)\<rparr>"
    have "?m = k () ?t"
      using * f Ptr buf mem conv [OF f(2)] zero [OF f(2)] sl
      by (auto simp: wc_lock_def wc_unlock_def cam_of_def set_cam_def convertToRGB_def fun_upd_idem)
    moreover have "wc_room L ((ww_blocks s)(f \<mapsto> ?pic)) c fr"
      using *(7) Ptr length_picture [of mem "L div 2"] by (auto simp: wc_room_def)
    then have "wc_life a L fr ?t" using * f by (auto simp: wc_life_def wc_fresh_def)
    ultimately show ?thesis using *(1) Ptr by (auto simp: wc_shows_def)
  next
    case NULL
    show ?thesis
    proof (cases "ww_grants s")
      case Nil
      then have "?m = None"
        using * NULL by (simp add: wc_lock_def cam_of_def set_cam_def convertToRGB_def wc_malloc_def answer_def Let_def)
      with Nil show ?thesis by simp
    next
      case (Cons g gs)
      let ?c = "c\<lparr>wc_frame_length := L div 2 * 3, wc_frame_start := Ptr (ww_next s), wc_mtx := MtxFree\<rparr>"
      let ?t = "s\<lparr>ww_grants := gs, ww_blocks := (ww_blocks s)(ww_next s \<mapsto> ?pic), ww_next := Suc (ww_next s),
        ww_cams := (ww_cams s)(a \<mapsto> ?c)\<rparr>"
      have "g" using *(11) Cons by simp
      have step: "?m = k () ?t"
        using * NULL Cons \<open>g\<close> buf mem conv [of "replicate (L div 2 * 3) 0"] sl
        by (cases "L = 0") (auto simp: wc_lock_def wc_unlock_def cam_of_def set_cam_def convertToRGB_def wc_malloc_def answer_def Let_def
          intro!: arg_cong [where f = "k ()"] wc_world.equality)
      have "ww_blocks s (ww_next s) = None" using *(10) by (simp add: wc_fresh_def)
      then have new: "ww_next s \<notin> set (addr (wc_name c) @ addr (fst fr))" using *(7) unfolding wc_room_def by force
      have "wc_room L ((ww_blocks s)(ww_next s \<mapsto> ?pic)) ?c fr"
        using *(7) NULL new length_picture [of mem "L div 2"] by (auto simp: wc_room_def wc_fresh_def)
      then have "wc_life a L fr ?t" using * Cons by (auto simp: wc_life_def wc_fresh_def)
      with step show ?thesis by (auto simp: wc_shows_def)
    qed
  qed
qed

end
