(* ===== verification/Webcam_Steps.thy ===== *)
theory Webcam_Steps
  imports Webcam_Props
begin

text \<open>
  The steps of the imported camera library: what the application and the thread of a camera do in any order keeps the
  invariant of the camera, the lock keeps the thread from the frame while it is copied, a filled buffer becomes the picture that is grabbed, a resize that succeeds gives a camera
  that works, and one that fails leaves a camera that cannot be closed.
\<close>

section \<open>Reading\<close>

lemma locked_convert_safe:
  assumes "wc_life a L fr s" "wc_mapped L (ww_maps s) buf" and next_step: "\<And>t. wc_life a L fr t \<Longrightarrow> safe Q E (k () t)"
  shows "safe Q E (andthen (wc_lock a s) (\<lambda>_ s. andthen (convertToRGB buf a s) (\<lambda>_ s. andthen (wc_unlock a s) k)))"
proof -
  obtain m mem where buf: "wcb_start buf = Mapped m" "wcb_length buf = L" and mem: "ww_maps s m = Some mem" "length mem = L"
    using assms(2) by (auto simp: wc_mapped_def)
  from locked_convert [OF assms(1) buf mem, where k = k] show ?thesis
    by (elim disjE exE conjE) (simp_all add: next_step)
qed

lemma wc_dequeue_kept: "wc_life a L fr s \<Longrightarrow> safe (\<lambda>_. wc_life a L fr) E (wc_dequeue s)"
proof (rule safe_some)
  fix y assume "wc_dequeue s = Some y" "wc_life a L fr s"
  then show "safe (\<lambda>_. wc_life a L fr) E (Some y)"
  proof (induction rule: wc_dequeue.raw_induct [rotated, consumes 1])
    case (1 self s y)
    have loop: "safe (\<lambda>_. wc_life a L fr) E (self t)" if "wc_life a L fr t" for t
      by (rule safe_some, rule 1(1), assumption, rule that)
    show ?case
      unfolding 1(2) [symmetric] wc_ioctl_def
      by (rule safe_ioctl) (auto simp: 1(3) loop split: sum.split)
  qed
qed

lemma wc_buffer_at:
  assumes "wc_life a L fr s" "ww_cams s a = Some c" "i < unat (wc_nbuffers c)"
  obtains b buf where "wc_buffers c = Ptr b" "ww_arrays s b \<bind> (\<lambda>bs. if i < length bs then Some (bs ! i) else None) = Some buf"
    "wc_mapped L (ww_maps s) buf"
  using assms(1)
proof (rule wc_lifeE)
  fix c' b bs
  assume *: "ww_cams s a = Some c'" "wc_buffers c' = Ptr b" "ww_arrays s b = Some bs"
    "length bs = unat (wc_nbuffers c')" "list_all (wc_mapped L (ww_maps s)) bs"
  with assms(2,3) have "i < length bs" "c' = c" by simp_all
  with * show ?thesis by (intro that [of b "bs ! i"]) (simp_all add: list_all_length)
qed

lemma wc_fill_arrays [simp]: "ww_arrays (wc_fill buf data s) = ww_arrays s" "ww_cams (wc_fill buf data s) = ww_cams s"
  by (simp_all add: wc_fill_def split: wc_start.split)

lemma wc_mapped_filled: "wc_mapped L (ww_maps s) x \<Longrightarrow> wc_mapped L (ww_maps (wc_fill buf data s)) x"
  by (auto simp: wc_mapped_def wc_fill_def split: wc_start.split)

lemma wc_read_kept:
  assumes "wc_life a L fr s"
  shows "safe (\<lambda>_. wc_life a L fr) (\<lambda>_. True) (wc_webcam_read a s)"
  unfolding wc_webcam_read_def
proof (rule safe_andthen [OF wc_dequeue_kept [OF assms]])
  fix r :: "(nat \<times> bytes) option" and t assume t: "wc_life a L fr t"
  from t obtain c where c: "ww_cams t a = Some c" by (rule wc_lifeE)
  let ?i = "case r of None \<Rightarrow> 0 | Some d \<Rightarrow> fst d"
  show "safe (\<lambda>_. wc_life a L fr) (\<lambda>_. True)
    (cam_of a t (\<lambda>c. let i = ?i in if unat (wc_nbuffers c) \<le> i then Some (Exit t)
       else (case wc_buffers c of NULL \<Rightarrow> Some Undef
         | Ptr b \<Rightarrow> need (ww_arrays t b \<bind> (\<lambda>bs. if i < length bs then Some (bs ! i) else None)) (\<lambda>buf.
             andthen (wc_lock a (case r of None \<Rightarrow> t | Some d \<Rightarrow> wc_fill buf (snd d) t)) (\<lambda>_ s.
             andthen (convertToRGB buf a s) (\<lambda>_ s.
             andthen (wc_unlock a s) (\<lambda>_ s.
             andthen (wc_ioctl ww_qbuf ww_qbuf_update s) (\<lambda>_ s. Some (Done () s)))))))))"
  proof (cases "unat (wc_nbuffers c) \<le> ?i")
    case True
    then show ?thesis by (simp add: cam_of_def c)
  next
    case False
    then have "?i < unat (wc_nbuffers c)" by simp
    with t c obtain b buf where b: "wc_buffers c = Ptr b"
      "ww_arrays t b \<bind> (\<lambda>bs. if ?i < length bs then Some (bs ! ?i) else None) = Some buf" "wc_mapped L (ww_maps t) buf"
      by (rule wc_buffer_at)
    let ?t = "case r of None \<Rightarrow> t | Some d \<Rightarrow> wc_fill buf (snd d) t"
    have "wc_life a L fr ?t" "wc_mapped L (ww_maps ?t) buf"
      using t b(3) by (simp_all add: wc_life_fill wc_mapped_filled split: option.split)
    then have "safe (\<lambda>_. wc_life a L fr) (\<lambda>_. True)
      (andthen (wc_lock a ?t) (\<lambda>_ s. andthen (convertToRGB buf a s) (\<lambda>_ s.
         andthen (wc_unlock a s) (\<lambda>_ s. andthen (wc_ioctl ww_qbuf ww_qbuf_update s) (\<lambda>_ s. Some (Done () s))))))"
      by (rule locked_convert_safe) (auto simp: wc_ioctl_def intro: safe_ioctl)
    with False b(1,2) show ?thesis unfolding cam_of_def c need_simps Let_def by simp
  qed
qed

lemma wc_streaming_kept: "wc_life a L fr s \<Longrightarrow> safe (\<lambda>_. wc_life a L fr) (\<lambda>_. True) (webcam_streaming a n s)"
proof (induction n arbitrary: s)
  case (Suc n)
  then obtain c where c: "ww_cams s a = Some c" by (elim wc_lifeE)
  have "safe (\<lambda>_. wc_life a L fr) (\<lambda>_. True) (andthen (wc_webcam_read a s) (\<lambda>_. webcam_streaming a n))"
    by (rule safe_andthen [OF wc_read_kept [OF Suc(2)]]) (rule Suc(1))
  with Suc(2) show ?case by (simp add: cam_of_def c)
qed simp

section \<open>Grabbing\<close>

text \<open>The buffer of the application starts with the whole picture that the camera shows.\<close>

definition wc_copied :: "nat \<Rightarrow> nat ptr \<times> nat \<Rightarrow> wc_world \<Rightarrow> bool" where
  "wc_copied a fr s \<longleftrightarrow>
     (\<forall>pic. wc_shows a pic s \<longrightarrow> pic \<noteq> [] \<longrightarrow>
        (\<exists>d dest. fst fr = Ptr d \<and> ww_blocks s d = Some dest \<and> take (length pic) dest = pic))"

lemma wc_copied_rounds [simp]: "wc_copied a fr (s\<lparr>ww_rounds := x\<rparr>) = wc_copied a fr s"
  by (simp add: wc_copied_def wc_shows_def)

lemma wc_thread_kept: "wc_life a L fr s \<Longrightarrow> safe (\<lambda>_. wc_life a L fr) (\<lambda>_. True) (wc_thread_runs a s)"
proof (cases "ww_rounds s")
  case (Cons n ns)
  assume s: "wc_life a L fr s"
  then obtain c where c: "ww_cams s a = Some c" by (rule wc_lifeE)
  have "wc_life a L fr (s\<lparr>ww_rounds := ns\<rparr>)" using s by simp
  then show ?thesis
    unfolding wc_thread_runs_def cam_of_def c need_simps Cons
    using wc_streaming_kept [of a L fr "s\<lparr>ww_rounds := ns\<rparr>" "if wc_thread c \<or> wc_stray c then n else 0"]
    by (auto split: option.split)
next
  case Nil
  assume s: "wc_life a L fr s"
  then obtain c where "ww_cams s a = Some c" by (rule wc_lifeE)
  with s Nil show ?thesis by (simp add: wc_thread_runs_def cam_of_def)
qed

text \<open>While the application holds the lock the thread gets no further than to it, or fails its assertion.\<close>

definition wc_held :: "nat \<Rightarrow> wc_world \<Rightarrow> bool" where
  "wc_held a s \<longleftrightarrow>
     (\<exists>c b bs. ww_cams s a = Some c \<and> wc_mtx c = MtxHeld \<and> wc_buffers c = Ptr b \<and> ww_arrays s b = Some bs \<and>
        length bs = unat (wc_nbuffers c))"

lemma wc_held_frame:
  "ww_cams t = ww_cams s \<Longrightarrow> ww_arrays t = ww_arrays s \<Longrightarrow> wc_held a s \<Longrightarrow> wc_held a t"
  by (simp add: wc_held_def)

lemma dequeue_frame: "safe (\<lambda>_ t. \<exists>q. t = s\<lparr>ww_dqbuf := q\<rparr>) E (wc_dequeue s)"
proof (rule safe_some)
  fix y assume "wc_dequeue s = Some y"
  then show "safe (\<lambda>_ t. \<exists>q. t = s\<lparr>ww_dqbuf := q\<rparr>) E (Some y)"
  proof (induction rule: wc_dequeue.raw_induct [rotated, consumes 1])
    case (1 self s y)
    have loop: "safe (\<lambda>_ t. \<exists>q. t = s\<lparr>ww_dqbuf := q\<rparr>) E (self (s\<lparr>ww_dqbuf := x\<rparr>))" for x
      by (rule safe_some, drule 1(1)) (auto elim: safe_mono)
    show ?case
      unfolding 1(2) [symmetric] wc_ioctl_def
      by (rule safe_ioctl) (auto simp: loop split: sum.split)
  qed
qed

lemma held_lock: "wc_held a s \<Longrightarrow> wc_lock a s = None"
  by (auto simp: wc_held_def wc_lock_def cam_of_def)

lemma held_read:
  assumes "wc_held a s"
  shows "safe (\<lambda>_ _. False) (\<lambda>_. True) (wc_webcam_read a s)"
  unfolding wc_webcam_read_def
proof (rule safe_andthen [OF dequeue_frame])
  fix r :: "(nat \<times> bytes) option" and t assume "\<exists>q. t = s\<lparr>ww_dqbuf := q\<rparr>"
  then have t: "wc_held a t" using assms by (auto intro: wc_held_frame [where s = s])
  then obtain c b bs where c: "ww_cams t a = Some c" "wc_buffers c = Ptr b" "ww_arrays t b = Some bs"
    "length bs = unat (wc_nbuffers c)" by (auto simp: wc_held_def)
  have "wc_lock a (wc_fill buf data t) = None" "wc_lock a t = None" for buf data
    using t by (auto intro!: held_lock wc_held_frame [where s = t])
  then show "safe (\<lambda>_ _. False) (\<lambda>_. True)
    (cam_of a t (\<lambda>c. let i = (case r of None \<Rightarrow> 0 | Some d \<Rightarrow> fst d) in if unat (wc_nbuffers c) \<le> i then Some (Exit t)
       else (case wc_buffers c of NULL \<Rightarrow> Some Undef
         | Ptr b \<Rightarrow> need (ww_arrays t b \<bind> (\<lambda>bs. if i < length bs then Some (bs ! i) else None)) (\<lambda>buf.
             andthen (wc_lock a (case r of None \<Rightarrow> t | Some d \<Rightarrow> wc_fill buf (snd d) t)) (\<lambda>_ s.
             andthen (convertToRGB buf a s) (\<lambda>_ s.
             andthen (wc_unlock a s) (\<lambda>_ s.
             andthen (wc_ioctl ww_qbuf ww_qbuf_update s) (\<lambda>_ s. Some (Done () s)))))))))"
    using c by (auto simp: cam_of_def Let_def split: option.split)
qed

lemma held_streaming: "wc_held a s \<Longrightarrow> safe (\<lambda>_ t. t = s) (\<lambda>_. True) (webcam_streaming a n s)"
proof (cases n)
  case (Suc m)
  assume s: "wc_held a s"
  then obtain c where "ww_cams s a = Some c" by (auto simp: wc_held_def)
  moreover have "safe (\<lambda>_ t. t = s) (\<lambda>_. True) (andthen (wc_webcam_read a s) (\<lambda>_. webcam_streaming a m))"
    by (rule safe_andthen [OF held_read [OF s]]) simp
  ultimately show ?thesis using Suc by (simp add: cam_of_def)
qed simp

lemma held_thread:
  assumes "wc_held a s"
  shows "settles (\<lambda>_ t. t = s\<lparr>ww_rounds := tl (ww_rounds s)\<rparr>) (\<lambda>_. True) (wc_thread_runs a s)"
proof -
  obtain c where c: "ww_cams s a = Some c" using assms by (auto simp: wc_held_def)
  show ?thesis
  proof (cases "ww_rounds s")
    case Nil
    then show ?thesis by (simp add: settles_def wc_thread_runs_def cam_of_def c)
  next
    case (Cons n ns)
    have "wc_held a (s\<lparr>ww_rounds := ns\<rparr>)" using assms by (auto intro: wc_held_frame [where s = s])
    from held_streaming [OF this, of "if wc_thread c \<or> wc_stray c then n else 0"] show ?thesis
      by (auto simp: settles_def wc_thread_runs_def cam_of_def c Cons split: option.split)
  qed
qed

lemma held_thread_cases:
  assumes "wc_held a s"
  obtains t where "wc_thread_runs a s = Some (Exit t)"
  | "wc_thread_runs a s = Some (Done () (s\<lparr>ww_rounds := tl (ww_rounds s)\<rparr>))"
  using held_thread [OF assms]
  by (cases "wc_thread_runs a s"; cases "the (wc_thread_runs a s)") (auto simp: settles_def)

lemma copy_loop:
  assumes "wc_held a s" "ww_blocks s f = Some px" "ww_blocks s d = Some dest" "d \<noteq> f" "i + n \<le> length px" "i + n \<le> length dest"
  shows "safe (\<lambda>_ t. \<exists>rs. t = s\<lparr>ww_rounds := rs,
      ww_blocks := (ww_blocks s)(d \<mapsto> take i dest @ take n (drop i px) @ drop (i + n) dest)\<rparr>) (\<lambda>_. True)
    (wc_copy_loop a d f i n s)"
  using assms
proof (induction n arbitrary: i s dest)
  case 0
  then show ?case by (auto simp: fun_upd_idem intro!: exI [of _ "ww_rounds s"])
next
  case (Suc n)
  from Suc(2) show ?case
  proof (cases rule: held_thread_cases)
    case (1 t)
    then show ?thesis by simp
  next
    case 2
    let ?dest = "take i dest @ [px ! i] @ drop (Suc i) dest"
    let ?s = "s\<lparr>ww_rounds := tl (ww_rounds s), ww_blocks := (ww_blocks s)(d \<mapsto> ?dest)\<rparr>"
    have i: "i < length px" "i < length dest" using Suc(6,7) by simp_all
    then have "slice px i 1 = Some [px ! i]" "blit dest i [px ! i] = Some ?dest"
      by (simp_all add: slice_def blit_def take_Suc_conv_app_nth take_Suc hd_drop_conv_nth)
    with 2 Suc(3,4) have step: "wc_copy_loop a d f i (Suc n) s = wc_copy_loop a d f (Suc i) n ?s" by simp
    have held: "wc_held a ?s" using Suc(2) by (auto intro: wc_held_frame [where s = s])
    have rest: "take (Suc i) ?dest @ take n (drop (Suc i) px) @ drop (Suc i + n) ?dest =
        take i dest @ take (Suc n) (drop i px) @ drop (i + Suc n) dest"
      using i by (simp add: take_Suc hd_drop_conv_nth drop_Suc add.commute flip: tl_drop)
    have "safe (\<lambda>_ t. \<exists>rs. t = ?s\<lparr>ww_rounds := rs, ww_blocks := (ww_blocks ?s)(d \<mapsto>
        take (Suc i) ?dest @ take n (drop (Suc i) px) @ drop (Suc i + n) ?dest)\<rparr>) (\<lambda>_. True) (wc_copy_loop a d f (Suc i) n ?s)"
      by (rule Suc(1) [OF held]) (use Suc(3-7) in auto)
    moreover have "?s\<lparr>ww_rounds := rs, ww_blocks := (ww_blocks ?s)(d \<mapsto> x)\<rparr> = s\<lparr>ww_rounds := rs, ww_blocks := (ww_blocks s)(d \<mapsto> x)\<rparr>" for rs x
      by simp
    ultimately show ?thesis unfolding step rest by (simp only:)
  qed
qed

lemma grab_copies:
  assumes "wc_life a L fr s" "ww_cams s a = Some c" "wc_frame_start c = Ptr f" "ww_blocks s f = Some px"
    "fst fr = Ptr d" "ww_blocks s d = Some dest" "0 < wc_frame_length c"
  shows "length px = wc_frame_length c" "blit dest 0 px = Some (px @ drop (length px) dest)"
    "wc_life a L fr (s\<lparr>ww_blocks := (ww_blocks s)(d \<mapsto> px @ drop (length px) dest)\<rparr>)"
    "wc_copied a fr (s\<lparr>ww_blocks := (ww_blocks s)(d \<mapsto> px @ drop (length px) dest)\<rparr>)"
proof -
  from assms(1) obtain b bs where *: "wc_mtx c = MtxFree" "wc_buffers c = Ptr b" "ww_arrays s b = Some bs"
    "length bs = unat (wc_nbuffers c)" "list_all (wc_mapped L (ww_maps s)) bs" "wc_room L (ww_blocks s) c fr"
    "even L" "L < 2 ^ 64" "wc_fresh s" "list_all id (ww_grants s)"
    by (rule wc_lifeE) (use assms(2) in auto)
  have len: "wc_frame_length c = L div 2 * 3" "length px = L div 2 * 3" "L div 2 * 3 \<le> length dest" and d: "d \<noteq> f"
    using *(6) assms(3-7) by (auto simp: wc_room_def)
  show "length px = wc_frame_length c" "blit dest 0 px = Some (px @ drop (length px) dest)"
    using len by (simp_all add: blit_def)
  have "wc_room L ((ww_blocks s)(d \<mapsto> px @ drop (length px) dest)) c fr"
    using *(6) assms(3-6) len d by (auto simp: wc_room_def)
  then show "wc_life a L fr (s\<lparr>ww_blocks := (ww_blocks s)(d \<mapsto> px @ drop (length px) dest)\<rparr>)"
    using * assms(2,6) by (auto simp: wc_life_def wc_fresh_def)
  show "wc_copied a fr (s\<lparr>ww_blocks := (ww_blocks s)(d \<mapsto> px @ drop (length px) dest)\<rparr>)"
    using assms(2-6) d by (auto simp: wc_copied_def wc_shows_def)
qed

lemma wc_life_locked:
  assumes "wc_life a L fr s" "ww_cams s a = Some c"
  shows "wc_lock a s = Some (Done () (s\<lparr>ww_cams := (ww_cams s)(a \<mapsto> c\<lparr>wc_mtx := MtxHeld\<rparr>)\<rparr>))"
  using assms by (elim wc_lifeE) (simp add: wc_lock_def cam_of_def set_cam_def)

lemma life_new_buffer:
  assumes "wc_life a L (NULL, n) s" "ww_cams s a = Some c" "0 < wc_frame_length c"
  shows "wc_life a L (Ptr (ww_next s), wc_frame_length c) (s\<lparr>ww_grants := drop 1 (ww_grants s),
    ww_blocks := (ww_blocks s)(ww_next s \<mapsto> replicate (wc_frame_length c) 0), ww_next := Suc (ww_next s)\<rparr>)"
proof -
  from assms(1) obtain b bs where *: "wc_mtx c = MtxFree" "wc_buffers c = Ptr b" "ww_arrays s b = Some bs"
    "length bs = unat (wc_nbuffers c)" "list_all (wc_mapped L (ww_maps s)) bs" "wc_room L (ww_blocks s) c (NULL, n)"
    "even L" "L < 2 ^ 64" "wc_fresh s" "list_all id (ww_grants s)"
    by (rule wc_lifeE) (use assms(2) in auto)
  have "\<exists>f px. wc_frame_start c = Ptr f \<and> ww_blocks s f = Some px" using *(6) assms(3) by (auto simp: wc_room_def)
  then obtain f px where f: "wc_frame_start c = Ptr f" "ww_blocks s f = Some px" by blast
  have "ww_blocks s (ww_next s) = None" using *(9) by (simp add: wc_fresh_def)
  then have new: "ww_next s \<notin> set (addr (wc_name c) @ addr (wc_frame_start c))" using *(6) unfolding wc_room_def by force
  have "wc_room L ((ww_blocks s)(ww_next s \<mapsto> replicate (wc_frame_length c) 0)) c (Ptr (ww_next s), wc_frame_length c)"
    using *(6) new f assms(3) by (auto simp: wc_room_def)
  moreover have "list_all id (drop 1 (ww_grants s))" using *(10) by (cases "ww_grants s") simp_all
  ultimately show ?thesis using * assms(2) by (auto simp: wc_life_def wc_fresh_def)
qed

text \<open>
  The copy under the lock. \<open>K\<close> are the cameras with the lock of this one free.
\<close>

lemma copy_filled:
  assumes "wc_life a L fr (s\<lparr>ww_cams := K\<rparr>)" "K a = Some c" "ww_cams s a = Some (c\<lparr>wc_mtx := MtxHeld\<rparr>)"
    "fst fr = Ptr d" "0 < wc_frame_length c"
  shows "safe (\<lambda>fr' t. ww_cams t = ww_cams s \<and> wc_life a L fr' (t\<lparr>ww_cams := K\<rparr>) \<and> wc_copied a fr' (t\<lparr>ww_cams := K\<rparr>))
    (\<lambda>_. True) (wc_grab_copy a fr s)"
proof -
  from assms obtain b bs f px dest where *: "wc_buffers c = Ptr b" "ww_arrays s b = Some bs" "length bs = unat (wc_nbuffers c)"
    "wc_frame_start c = Ptr f" "ww_blocks s f = Some px" "ww_blocks s d = Some dest" "d \<noteq> f" "wc_frame_length c \<le> length dest"
    by (elim wc_lifeE) (auto simp: wc_room_def)
  have g: "length px = wc_frame_length c"
    "wc_life a L fr (s\<lparr>ww_cams := K, ww_blocks := (ww_blocks s)(d \<mapsto> px @ drop (length px) dest)\<rparr>)"
    "wc_copied a fr (s\<lparr>ww_cams := K, ww_blocks := (ww_blocks s)(d \<mapsto> px @ drop (length px) dest)\<rparr>)"
    using grab_copies [OF assms(1), of c f px d dest] assms(2,4,5) *(4-6) by simp_all
  have "wc_held a s" using assms(3) *(1-3) by (simp add: wc_held_def)
  have order: "s\<lparr>ww_rounds := x, ww_blocks := y, ww_cams := K\<rparr> = s\<lparr>ww_cams := K, ww_blocks := y\<rparr>\<lparr>ww_rounds := x\<rparr>" for x y
    by (rule wc_world.equality) simp_all
  from \<open>wc_held a s\<close> have "safe (\<lambda>_ t. \<exists>rs. t = s\<lparr>ww_rounds := rs, ww_blocks := (ww_blocks s)(d \<mapsto> px @ drop (length px) dest)\<rparr>) (\<lambda>_. True)
      (wc_copy_loop a d f 0 (wc_frame_length c) s)"
    using copy_loop [of a s f px d dest 0 "wc_frame_length c"] *(5-8) g(1) by simp
  then have "safe (\<lambda>fr' t. ww_cams t = ww_cams s \<and> wc_life a L fr' (t\<lparr>ww_cams := K\<rparr>) \<and> wc_copied a fr' (t\<lparr>ww_cams := K\<rparr>))
      (\<lambda>_. True) (andthen (wc_copy_loop a d f 0 (wc_frame_length c) s) (\<lambda>_ s. Some (Done fr s)))"
    by (rule safe_andthen) (use g(2,3) in \<open>auto simp: order\<close>)
  then show ?thesis using assms(3-5) *(4) by (simp add: wc_grab_copy_def cam_of_def)
qed

lemma copy_kept:
  assumes "wc_life a L fr (s\<lparr>ww_cams := K\<rparr>)" "K a = Some c" "ww_cams s a = Some (c\<lparr>wc_mtx := MtxHeld\<rparr>)"
  shows "safe (\<lambda>fr' t. ww_cams t = ww_cams s \<and> wc_life a L fr' (t\<lparr>ww_cams := K\<rparr>) \<and> wc_copied a fr' (t\<lparr>ww_cams := K\<rparr>))
    (\<lambda>_. True) (wc_grab_copy a fr s)"
proof (cases "0 < wc_frame_length c")
  case False
  then have "wc_copied a fr (s\<lparr>ww_cams := K\<rparr>)"
    using assms by (elim wc_lifeE) (auto simp: wc_copied_def wc_shows_def wc_room_def)
  with False assms show ?thesis by (simp add: wc_grab_copy_def cam_of_def)
next
  case True
  show ?thesis
  proof (cases "fst fr")
    case (Ptr d)
    with copy_filled [OF assms _ True] show ?thesis by blast
  next
    case NULL
    then obtain n where fr: "fr = (NULL, n)" by (cases fr) auto
    show ?thesis
    proof (cases "ww_grants s")
      case Nil
      then show ?thesis using True NULL assms(3) by (simp add: wc_grab_copy_def cam_of_def wc_malloc_def answer_def)
    next
      case (Cons g gs)
      let ?fr = "(Ptr (ww_next s), wc_frame_length c)"
      let ?s = "s\<lparr>ww_grants := gs,
        ww_blocks := (ww_blocks s)(ww_next s \<mapsto> replicate (wc_frame_length c) 0), ww_next := Suc (ww_next s)\<rparr>"
      have "g" using assms(1) Cons by (auto elim: wc_lifeE)
      then have "wc_grab_copy a fr s = wc_grab_copy a ?fr ?s"
        using True fr Cons assms(3) by (simp add: wc_grab_copy_def cam_of_def wc_malloc_def answer_def)
      moreover have order: "?s\<lparr>ww_cams := K\<rparr> = s\<lparr>ww_cams := K, ww_grants := gs,
          ww_blocks := (ww_blocks s)(ww_next s \<mapsto> replicate (wc_frame_length c) 0), ww_next := Suc (ww_next s)\<rparr>"
        by (rule wc_world.equality) simp_all
      have "wc_life a L ?fr (?s\<lparr>ww_cams := K\<rparr>)"
        unfolding order using life_new_buffer [of a L n "s\<lparr>ww_cams := K\<rparr>" c] assms fr True Cons by simp
      ultimately show ?thesis
        using copy_filled [of a L ?fr K ?s c "ww_next s"] assms(2,3) True by simp
    qed
  qed
qed

lemma wc_grab_kept:
  assumes "wc_life a L fr s"
  shows "safe (\<lambda>fr' t. wc_life a L fr' t \<and> wc_copied a fr' t) (\<lambda>_. True) (webcam_grab a fr s)"
  unfolding webcam_grab_def
proof (rule safe_andthen [OF wc_thread_kept [OF assms]])
  fix t assume t: "wc_life a L fr t"
  then obtain c where c: "ww_cams t a = Some c" "wc_mtx c = MtxFree" by (rule wc_lifeE)
  let ?Q = "\<lambda>fr' t. wc_life a L fr' t \<and> wc_copied a fr' t"
  let ?K = "ww_cams t"
  let ?cams = "?K(a \<mapsto> c\<lparr>wc_mtx := MtxHeld\<rparr>)"
  let ?fin = "\<lambda>frame s. andthen (wc_thread_runs a s) (\<lambda>_ s. andthen (wc_unlock a s) (\<lambda>_ s. Some (Done frame s)))"
  have held: "wc_held a u" if "wc_life a L fr' (u\<lparr>ww_cams := ?K\<rparr>)" "ww_cams u = ?cams" for u fr'
    using that c by (auto simp: wc_held_def elim!: wc_lifeE)
  have fin: "safe ?Q (\<lambda>_. True) (?fin fr' u)"
    if u: "wc_life a L fr' (u\<lparr>ww_cams := ?K\<rparr>)" "ww_cams u = ?cams" "wc_copied a fr' (u\<lparr>ww_cams := ?K\<rparr>)" for fr' u
    using held [OF u(1,2)]
  proof (cases rule: held_thread_cases)
    case (1 v)
    then show ?thesis by simp
  next
    case 2
    have "wc_unlock a (u\<lparr>ww_rounds := x\<rparr>) = Some (Done () (u\<lparr>ww_cams := ?K, ww_rounds := x\<rparr>))" for x
      using u(2) c by (auto simp: wc_unlock_def cam_of_def set_cam_def fun_upd_idem intro!: wc_world.equality)
    with 2 u(1,3) show ?thesis by simp
  qed
  let ?t = "t\<lparr>ww_cams := ?cams\<rparr>"
  have life: "wc_life a L fr (?t\<lparr>ww_cams := ?K\<rparr>)" using t by simp
  have copy: "safe ?Q (\<lambda>_. True) (andthen (wc_grab_copy a fr (?t\<lparr>ww_rounds := x\<rparr>)) ?fin)" for x
    by (rule safe_andthen [OF copy_kept [of a L fr ?K _ c]]) (use life c in \<open>simp_all add: fin\<close>)
  have "safe ?Q (\<lambda>_. True) (andthen (wc_thread_runs a ?t) (\<lambda>_ s. andthen (wc_grab_copy a fr s) ?fin))"
    using held [OF life] by (cases rule: held_thread_cases) (simp_all add: copy)
  then show "safe ?Q (\<lambda>_. True) (andthen (wc_lock a t) (\<lambda>_ s. andthen (wc_thread_runs a s) (\<lambda>_ s. andthen (wc_grab_copy a fr s) ?fin)))"
    by (simp add: wc_life_locked [OF t c(1)])
qed

section \<open>Starting, stopping and closing\<close>

lemma queue_loop_kept: "wc_life a L fr s \<Longrightarrow> safe (\<lambda>_. wc_life a L fr) E (wc_queue_loop n s)"
proof (induction n arbitrary: s)
  case (Suc n)
  show ?case
    unfolding wc_queue_loop.simps wc_ioctl_def by (rule safe_ioctl) (auto simp: Suc split: sum.split)
qed simp

lemma stream_on_kept:
  assumes "wc_life a L fr s"
  shows "safe (\<lambda>_. wc_life a L fr) E (wc_stream_on a s)"
proof -
  from assms obtain c where c: "ww_cams s a = Some c" by (rule wc_lifeE)
  have "safe (\<lambda>_. wc_life a L fr) E (andthen (answer ww_create ww_create_update (set_cam (wc_streaming_update (\<lambda>_. True)) a t))
      (\<lambda>ok s. Some (Done () (set_cam (\<lambda>c. c\<lparr>wc_stray := wc_stray c \<or> wc_thread c, wc_thread := ok\<rparr>) a s))))" if "wc_life a L fr t" for t
    by (rule safe_answer) (simp add: that)
  then have "safe (\<lambda>_. wc_life a L fr) E
      (andthen (lw_ioctl ww_streamon ww_streamon_update t) (\<lambda>r s.
         (case r of
            Inl _ \<Rightarrow> Some (Done () s)
          | Inr _ \<Rightarrow>
              andthen (answer ww_create ww_create_update (set_cam (wc_streaming_update (\<lambda>_. True)) a s)) (\<lambda>ok s.
                Some (Done () (set_cam (\<lambda>c. c\<lparr>wc_stray := wc_stray c \<or> wc_thread c, wc_thread := ok\<rparr>) a s))))))" if "wc_life a L fr t" for t
    by (intro safe_ioctl) (simp add: that split: sum.split)
  then show ?thesis
    unfolding wc_stream_on_def cam_of_def c need_simps wc_ioctl_def
    by (intro safe_andthen [OF queue_loop_kept [OF assms]]) simp
qed

lemma stream_off_kept:
  assumes "wc_life a L fr s" "ww_cams s a = Some c" "wc_thread c"
  shows "safe (\<lambda>_. wc_life a L fr) (\<lambda>_. True) (wc_stream_off a s)"
proof -
  let ?s = "set_cam (wc_streaming_update (\<lambda>_. False)) a s"
  have "safe (\<lambda>_. wc_life a L fr) (\<lambda>_. True)
      (case ww_busy ?s of [] \<Rightarrow> Some (Done () ?s)
       | busy # bs \<Rightarrow> if busy then wc_webcam_read a (?s\<lparr>ww_busy := bs\<rparr>) else Some (Done () (?s\<lparr>ww_busy := bs\<rparr>)))"
    using assms(1) by (simp add: wc_read_kept split: list.split)
  then have "safe (\<lambda>_. wc_life a L fr) (\<lambda>_. True) (wc_join a ?s)"
    unfolding wc_join_def cam_of_def
    using assms(2,3) by (simp add: set_cam_def [where s = s]) (erule safe_andthen, simp)
  then show ?thesis
    unfolding wc_stream_off_def wc_ioctl_def by (rule safe_andthen) (rule safe_ioctl, simp)
qed

text \<open>Closing gives back the frame, the mappings, the array, the name and the handle, and leaves the application its picture.\<close>

lemma unmap_frame:
  "ww_blocks (fold wc_unmap bs s) = ww_blocks s" "ww_cams (fold wc_unmap bs s) = ww_cams s"
  "ww_arrays (fold wc_unmap bs s) = ww_arrays s" "ww_fds (fold wc_unmap bs s) = ww_fds s"
  by (induction bs arbitrary: s) (simp_all add: wc_unmap_def split: wc_start.split)

lemma unmapped: "Mapped m \<in> wcb_start ` set bs \<or> ww_maps s m = None \<Longrightarrow> ww_maps (fold wc_unmap bs s) m = None"
proof (induction bs arbitrary: s)
  case (Cons x bs)
  have "ww_maps s m = None \<Longrightarrow> ww_maps (wc_unmap x s) m = None"
    "wcb_start x = Mapped m \<Longrightarrow> ww_maps (wc_unmap x s) m = None"
    by (simp_all add: wc_unmap_def split: wc_start.split)
  with Cons(2) show ?case by (simp, intro Cons(1)) (auto dest: sym)
qed simp

definition wc_closed :: "nat \<Rightarrow> wc_webcam \<Rightarrow> nat ptr \<times> nat \<Rightarrow> wc_world \<Rightarrow> wc_world \<Rightarrow> bool" where
  "wc_closed a c fr s t \<longleftrightarrow> ww_cams t a = None \<and> ww_fds t = ww_fds s - {wc_fd c} \<and>
     (\<forall>x \<in> set (addr (wc_name c) @ addr (wc_frame_start c)). ww_blocks t x = None) \<and>
     (\<forall>b \<in> set (addr (wc_buffers c)). ww_arrays t b = None \<and>
        (\<forall>m. Mapped m \<in> wcb_start ` set (the (ww_arrays s b)) \<longrightarrow> ww_maps t m = None)) \<and>
     (\<forall>d \<in> set (addr (fst fr)). ww_blocks t d = ww_blocks s d)"

lemma close_kept:
  assumes "wc_life a L fr s" "ww_cams s a = Some c" "\<not> wc_thread c" "\<not> wc_stray c"
  shows "\<exists>t. wc_webcam_close a s = Some (Done () t) \<and> wc_closed a c fr s t"
proof -
  from assms(1) obtain b bs where *: "wc_buffers c = Ptr b" "ww_arrays s b = Some bs" "length bs = unat (wc_nbuffers c)"
    "wc_room L (ww_blocks s) c fr"
    by (rule wc_lifeE) (use assms(2) in auto)
  have live: "\<forall>x \<in> set (addr (wc_name c) @ addr (wc_frame_start c) @ addr (fst fr)). ww_blocks s x \<noteq> None"
    and dist: "distinct (addr (wc_name c) @ addr (wc_frame_start c) @ addr (fst fr))" using *(4) by (simp_all add: wc_room_def)
  have nz: "bs = []" if "wc_nbuffers c = 0" using *(3) that by simp
  have un: "ww_maps (fold wc_unmap bs u) m = None" if "Mapped m \<in> wcb_start ` set bs" for m u using that by (simp add: unmapped)
  show ?thesis
    using * live dist un nz
    by (cases "wc_name c"; cases "wc_frame_start c"; cases "wc_nbuffers c = 0"; cases "fst fr")
      (auto simp: wc_webcam_close_def cam_of_def assms(2-4) wc_free_def wc_free_array_def wc_unmap_buffers_def set_cam_def
        unmap_frame wc_closed_def)
qed

section \<open>Getting ready\<close>

lemma map_loop_maps:
  assumes "ww_arrays s b = Some bs" "length bs = i + n" "list_all (wc_mapped L (ww_maps s)) (take i bs)" "wc_fresh s"
    "ww_querybuf s = replicate n (Inr L) @ qs" "ww_mmap s = replicate n True @ ms"
  shows "\<exists>ar mp nx bs'. wc_map_loop e b i n s = Some (Done () (s\<lparr>ww_arrays := ar, ww_maps := mp, ww_next := nx,
      ww_querybuf := qs, ww_mmap := ms\<rparr>)) \<and> ar b = Some bs' \<and> length bs' = i + n \<and> list_all (wc_mapped L mp) bs' \<and>
    wc_fresh (s\<lparr>ww_arrays := ar, ww_maps := mp, ww_next := nx\<rparr>)"
  using assms
proof (induction n arbitrary: i s bs)
  case 0
  then show ?case
    by (intro exI [of _ "ww_arrays s"] exI [of _ "ww_maps s"] exI [of _ "ww_next s"] exI [of _ bs]) simp
next
  case (Suc n)
  let ?x = "\<lparr>wcb_start = Mapped (ww_next s), wcb_length = L\<rparr>"
  let ?s = "s\<lparr>ww_arrays := (ww_arrays s)(b \<mapsto> bs[i := ?x]), ww_maps := (ww_maps s)(ww_next s \<mapsto> junk_block e L),
    ww_next := Suc (ww_next s), ww_querybuf := replicate n (Inr L) @ qs, ww_mmap := replicate n True @ ms\<rparr>"
  have step: "wc_map_loop e b i (Suc n) s = wc_map_loop e b (Suc i) n ?s"
    using Suc(2,6,7)
    by (auto simp: wc_ioctl_def lw_ioctl_def answer_def Let_def
      intro!: arg_cong [where f = "wc_map_loop e b (Suc i) n"] wc_world.equality)
  have none: "ww_maps s (ww_next s) = None" and b: "b \<noteq> ww_next s" using Suc(2,5) by (auto simp: wc_fresh_def)
  have "wc_mapped L ((ww_maps s)(ww_next s \<mapsto> junk_block e L)) x" if "wc_mapped L (ww_maps s) x" for x
    using that none by (auto simp: wc_mapped_def)
  then have "list_all (wc_mapped L ((ww_maps s)(ww_next s \<mapsto> junk_block e L))) (take i bs)"
    using Suc(4) by (auto simp: list_all_iff)
  then have l: "list_all (wc_mapped L (ww_maps ?s)) (take (Suc i) (bs[i := ?x]))"
    using Suc(3) by (simp add: take_Suc_conv_app_nth wc_mapped_def junk_block_def)
  have p: "ww_arrays ?s b = Some (bs[i := ?x])" "length (bs[i := ?x]) = Suc i + n"
    "ww_querybuf ?s = replicate n (Inr L) @ qs" "ww_mmap ?s = replicate n True @ ms" using Suc(3) by simp_all
  have f: "wc_fresh ?s" using Suc(2,5) by (auto simp: wc_fresh_def)
  obtain ar mp nx bs' where "wc_map_loop e b (Suc i) n ?s = Some (Done () (?s\<lparr>ww_arrays := ar, ww_maps := mp, ww_next := nx,
      ww_querybuf := qs, ww_mmap := ms\<rparr>))" "ar b = Some bs'" "length bs' = Suc i + n" "list_all (wc_mapped L mp) bs'"
      "wc_fresh (?s\<lparr>ww_arrays := ar, ww_maps := mp, ww_next := nx\<rparr>)"
    using Suc(1) [OF p(1,2) l f p(3,4)] by blast
  then show ?case
    unfolding step
    by (intro exI [of _ ar] exI [of _ mp] exI [of _ nx] exI [of _ bs']) (auto simp: wc_fresh_def)
qed

text \<open>A camera that has been opened, before its first resize.\<close>

definition wc_opened :: "nat \<Rightarrow> wc_world \<Rightarrow> bool" where
  "wc_opened a s \<longleftrightarrow> wc_fresh s \<and> list_all id (ww_grants s) \<and>
     (\<exists>c n name. ww_cams s a = Some c \<and> wc_name c = Ptr n \<and> ww_blocks s n = Some name \<and> wc_buffers c = NULL \<and>
        wc_frame_start c = NULL \<and> wc_frame_length c = 0 \<and> wc_mtx c = MtxFree \<and> \<not> wc_thread c \<and> \<not> wc_stray c)"

lemma resize_ready:
  assumes "wc_opened a s" "even L" "L < 2 ^ 64" "xioctl (ww_s_fmt s) = Some (r, rs)" "xioctl (ww_reqbufs s) = Some (Inr n, rs')"
    "2 \<le> n" "n < 256" "ww_querybuf s = replicate n (Inr L) @ qs" "ww_mmap s = replicate n True @ ms" "2 \<le> length (ww_grants s)"
  shows "\<exists>t. wc_webcam_resize e a w h s = Some (Done () t) \<and> wc_life a L (NULL, 0) t \<and>
    ww_dqbuf t = ww_dqbuf s \<and> ww_qbuf t = ww_qbuf s \<and> ww_s_fmt t = rs \<and> ww_reqbufs t = rs' \<and>
    ww_grants t = drop 2 (ww_grants s) \<and> (\<exists>c. ww_cams t a = Some c \<and> unat (wc_nbuffers c) = n \<and> \<not> wc_thread c \<and> \<not> wc_stray c)"
proof -
  from assms(1) obtain c nm name where c: "ww_cams s a = Some c" "wc_name c = Ptr nm" "ww_blocks s nm = Some name"
    "wc_buffers c = NULL" "wc_frame_start c = NULL" "wc_frame_length c = 0" "wc_mtx c = MtxFree" "\<not> wc_thread c" "\<not> wc_stray c"
    and s: "wc_fresh s" "list_all id (ww_grants s)" by (auto simp: wc_opened_def)
  obtain w' h' cs code where fmt: "(case r of Inl _ \<Rightarrow> (ucast w, ucast h, 3, str_bytes ''YUYV'') | Inr fmt \<Rightarrow> fmt) = (w', h', cs, code)"
    by (metis prod_cases4)
  obtain gs where gs: "ww_grants s = True # True # gs" "list_all id gs"
    using s(2) assms(10) by (cases "ww_grants s"; cases "tl (ww_grants s)") auto
  have n: "unat (of_nat n :: u8) = n" using assms(7) by (simp add: unat_of_nat)
  let ?c = "c\<lparr>wc_width := ucast w', wc_height := ucast h', wc_colorspace := ucast cs, wc_nbuffers := of_nat n,
    wc_buffers := Ptr (Suc (ww_next s))\<rparr>"
  let ?bs = "replicate n \<lparr>wcb_start = NoStart, wcb_length = 0\<rparr>"
  let ?s = "s\<lparr>ww_s_fmt := rs, ww_cams := (ww_cams s)(a \<mapsto> ?c), ww_grants := gs,
    ww_blocks := (ww_blocks s)(ww_next s \<mapsto> take 4 code @ [0]), ww_next := Suc (Suc (ww_next s)), ww_reqbufs := rs',
    ww_arrays := (ww_arrays s)(Suc (ww_next s) \<mapsto> ?bs)\<rparr>"
  have step: "wc_webcam_resize e a w h s = wc_map_loop e (Suc (ww_next s)) 0 n ?s"
    using assms(4-6) c gs n
    by (auto simp: wc_webcam_resize_def wc_ioctl_def lw_ioctl_def fmt wc_malloc_def answer_def set_cam_def cam_of_def
      wc_drop_buffers_def wc_request_buffers_def wc_alloc_array_def Let_def
      intro!: arg_cong [where f = "wc_map_loop e (Suc (ww_next s)) 0 n"] wc_world.equality)
  have "wc_fresh ?s" using s(1) by (auto simp: wc_fresh_def)
  then obtain ar mp nx bs' where t: "wc_map_loop e (Suc (ww_next s)) 0 n ?s = Some (Done () (?s\<lparr>ww_arrays := ar, ww_maps := mp,
      ww_next := nx, ww_querybuf := qs, ww_mmap := ms\<rparr>))" "ar (Suc (ww_next s)) = Some bs'" "length bs' = 0 + n"
      "list_all (wc_mapped L mp) bs'" "wc_fresh (?s\<lparr>ww_arrays := ar, ww_maps := mp, ww_next := nx\<rparr>)"
    using map_loop_maps [of ?s "Suc (ww_next s)" ?bs 0 n L qs ms e] assms(8,9) by auto
  have "nm \<noteq> ww_next s" using c(3) s(1) by (auto simp: wc_fresh_def)
  then have "wc_room L ((ww_blocks s)(ww_next s \<mapsto> take 4 code @ [0])) ?c (NULL, 0)"
    using c by (simp add: wc_room_def)
  then have "wc_life a L (NULL, 0) (?s\<lparr>ww_arrays := ar, ww_maps := mp, ww_next := nx, ww_querybuf := qs, ww_mmap := ms\<rparr>)"
    using t(2-5) assms(2,3) c gs n by (auto simp: wc_life_def wc_fresh_def)
  with t(1) gs n c(8,9) show ?thesis
    unfolding step
    by (intro exI [of _ "?s\<lparr>ww_arrays := ar, ww_maps := mp, ww_next := nx, ww_querybuf := qs, ww_mmap := ms\<rparr>"]) simp
qed

text \<open>Opening: the formats of the device fill the array, as long as there are no more than 16.\<close>

abbreviation format_name :: "bytes \<Rightarrow> bytes" where
  "format_name code \<equiv> take 4 code @ [0]"

lemma enum_loop_formats:
  assumes "ww_cams s a = Some c" "length (wc_formats c) = 16" "n \<le> 16"
    "ww_enum_fmt s = map Inr codes @ Inl err # es" "err \<noteq> EINTR"
  shows "wc_enum_loop a n s = (if length codes \<le> n
    then Some (Done () (s\<lparr>ww_enum_fmt := es, ww_cams := (ww_cams s)(a \<mapsto> c\<lparr>wc_formats :=
      take (16 - n) (wc_formats c) @ map format_name codes @ drop (16 - n + length codes) (wc_formats c)\<rparr>)\<rparr>))
    else Some Undef)"
  using assms
proof (induction n arbitrary: s c codes)
  case 0
  then show ?case by (cases codes) (simp_all add: wc_ioctl_def lw_ioctl_def fun_upd_idem)
next
  case (Suc n)
  show ?case
  proof (cases codes)
    case Nil
    with Suc show ?thesis by (simp add: wc_ioctl_def lw_ioctl_def fun_upd_idem)
  next
    case (Cons code codes')
    let ?i = "15 - n"
    let ?c = "c\<lparr>wc_formats := (wc_formats c)[?i := format_name code]\<rparr>"
    let ?s = "s\<lparr>ww_enum_fmt := map Inr codes' @ Inl err # es, ww_cams := (ww_cams s)(a \<mapsto> ?c)\<rparr>"
    have step: "wc_enum_loop a (Suc n) s = wc_enum_loop a n ?s"
      using Suc(2,5) Cons
      by (auto simp: wc_ioctl_def lw_ioctl_def set_cam_def intro!: arg_cong [where f = "wc_enum_loop a n"] wc_world.equality)
    have i: "16 - n = Suc ?i" "16 - Suc n = ?i" "?i < length (wc_formats c)" using Suc(3,4) by auto
    have fs: "take (16 - n) (wc_formats ?c) @ map format_name codes' @ drop (16 - n + length codes') (wc_formats ?c) =
        take (16 - Suc n) (wc_formats c) @ map format_name codes @ drop (16 - Suc n + length codes) (wc_formats c)"
      unfolding i(1,2) using i(3) by (simp add: Cons take_Suc_conv_app_nth drop_update_cancel)
    show ?thesis
      unfolding step using Suc(1) [of ?s ?c codes'] Suc(3-6) Cons fs by (auto intro!: wc_world.equality)
  qed
qed

lemma open_formats:
  assumes "wc_fresh s" "list_all id (ww_grants s)" "3 \<le> length (ww_grants s)" "ww_open s = Inr fd # os"
    "xioctl (ww_querycap s) = Some (Inr cap, qs)" "cap_capture cap"
    "ww_enum_fmt s = map Inr codes @ Inl err # es" "err \<noteq> EINTR"
  shows "if length codes \<le> 16
    then \<exists>t a. wc_webcam_open dev (Some True) s = Some (Done (Ptr a) t) \<and> wc_opened a t \<and>
      (\<exists>c. ww_cams t a = Some c \<and> wc_fd c = fd \<and> take (length codes) (wc_formats c) = map format_name codes) \<and>
      length (ww_grants s) \<le> length (ww_grants t) + 3 \<and> ww_s_fmt t = ww_s_fmt s \<and> ww_reqbufs t = ww_reqbufs s \<and>
      ww_querybuf t = ww_querybuf s \<and> ww_mmap t = ww_mmap s \<and> ww_dqbuf t = ww_dqbuf s \<and> ww_qbuf t = ww_qbuf s
    else wc_webcam_open dev (Some True) s = Some Undef"
proof -
  obtain gs where gs: "ww_grants s = True # True # True # gs" "list_all id gs"
    using assms(2,3) by (cases "ww_grants s"; cases "tl (ww_grants s)"; cases "tl (tl (ww_grants s))") auto
  let ?gs = "if ww_handler s then True # gs else gs"
  let ?a = "ww_next s"
  let ?c = "\<lparr>wc_name = Ptr (Suc ?a), wc_fd = fd, wc_buffers = NULL, wc_nbuffers = 0,
    wc_frame_start = NULL, wc_frame_length = 0, wc_thread = False, wc_stray = False, wc_mtx = MtxFree, wc_width = 0,
    wc_height = 0, wc_colorspace = 0, wc_formats = replicate 16 (replicate 5 0), wc_streaming = False\<rparr>"
  let ?s = "s\<lparr>ww_grants := ?gs, ww_handler := True, ww_open := os, ww_fds := insert fd (ww_fds s), ww_querycap := qs,
    ww_next := Suc (Suc ?a), ww_blocks := (ww_blocks s)(Suc ?a \<mapsto> dev @ [0]), ww_cams := (ww_cams s)(?a \<mapsto> ?c),
    ww_table := wc_store ?a (ww_table s)\<rparr>"
  have step: "wc_webcam_open dev (Some True) s = andthen (wc_enum_loop ?a 16 ?s) (\<lambda>_ s. Some (Done (Ptr ?a) s))"
    using assms(4-6) gs
    by (cases "ww_handler s")
      (auto simp: wc_webcam_open_def wc_install_handler_def answer_def wc_ioctl_def lw_ioctl_def wc_new_def wc_malloc_def Let_def
        intro!: arg_cong [where f = "\<lambda>u. andthen (wc_enum_loop ?a 16 u) (\<lambda>_ s. Some (Done (Ptr ?a) s))"] wc_world.equality)
  let ?fs = "map format_name codes @ drop (length codes) (wc_formats ?c)"
  have loop: "wc_enum_loop ?a 16 ?s = (if length codes \<le> 16
    then Some (Done () (?s\<lparr>ww_enum_fmt := es, ww_cams := (ww_cams ?s)(?a \<mapsto> ?c\<lparr>wc_formats := ?fs\<rparr>)\<rparr>)) else Some Undef)"
    using enum_loop_formats [of ?s ?a ?c 16 codes err es] assms(7,8) by simp
  show ?thesis
  proof (cases "length codes \<le> 16")
    case True
    let ?u = "?s\<lparr>ww_enum_fmt := es, ww_cams := (ww_cams ?s)(?a \<mapsto> ?c\<lparr>wc_formats := ?fs\<rparr>)\<rparr>"
    have "wc_webcam_open dev (Some True) s = Some (Done (Ptr ?a) ?u)" unfolding step loop using True by simp
    moreover have "wc_opened ?a ?u" using assms(1) gs(2) by (auto simp: wc_opened_def wc_fresh_def)
    moreover have "\<exists>c. ww_cams ?u ?a = Some c \<and> wc_fd c = fd \<and> take (length codes) (wc_formats c) = map format_name codes"
      by simp
    moreover have "length (ww_grants s) \<le> length (ww_grants ?u) + 3" using gs(1) by simp
    moreover have "ww_s_fmt ?u = ww_s_fmt s" "ww_reqbufs ?u = ww_reqbufs s" "ww_querybuf ?u = ww_querybuf s"
      "ww_mmap ?u = ww_mmap s" "ww_dqbuf ?u = ww_dqbuf s" "ww_qbuf ?u = ww_qbuf s" by simp_all
    ultimately show ?thesis using True by (simp only: if_True) blast
  next
    case False
    then show ?thesis unfolding step loop by simp
  qed
qed

section \<open>A frame and a resize\<close>

lemma dequeue_waits:
  assumes "ww_dqbuf s = map Inl early @ Inr d # rest" "set early \<subseteq> {EAGAIN, EINTR}"
  shows "wc_dequeue s = Some (Done (Some d) (s\<lparr>ww_dqbuf := rest\<rparr>))"
  using assms
proof (induction early arbitrary: s)
  case Nil
  then show ?case by (subst wc_dequeue.simps) (simp add: wc_ioctl_def lw_ioctl_def)
next
  case (Cons err early)
  let ?s = "s\<lparr>ww_dqbuf := map Inl early @ Inr d # rest\<rparr>"
  have "wc_dequeue s = wc_dequeue ?s"
  proof (cases "err = EINTR")
    case True
    then have "wc_ioctl ww_dqbuf ww_dqbuf_update s = wc_ioctl ww_dqbuf ww_dqbuf_update ?s"
      using Cons(2) by (auto simp: wc_ioctl_def lw_ioctl_def split: option.split)
    then show ?thesis by (subst (1 2) wc_dequeue.simps) simp
  next
    case False
    with Cons(2,3) have "wc_ioctl ww_dqbuf ww_dqbuf_update s = Some (Done (Inl EAGAIN) ?s)"
      by (simp add: wc_ioctl_def lw_ioctl_def)
    then show ?thesis by (subst wc_dequeue.simps) simp
  qed
  also have "\<dots> = Some (Done (Some d) (?s\<lparr>ww_dqbuf := rest\<rparr>))" using Cons(1) [of ?s] Cons(3) by simp
  finally show ?case by simp
qed

lemma read_picture:
  assumes life: "wc_life a L fr s" and c: "ww_cams s a = Some c"
    and dq: "ww_dqbuf s = map Inl early @ Inr (i, data) # rest" "set early \<subseteq> {EAGAIN, EINTR}"
    and i: "i < unat (wc_nbuffers c)" and data: "length data = L"
    and q: "xioctl (ww_qbuf s) = Some (r, qs)" and grants: "ww_grants s \<noteq> []"
  shows "\<exists>t. wc_webcam_read a s = Some (Done () t) \<and> wc_life a L fr t \<and>
    wc_shows a (concat (map (wc_colour data) [0..<L div 2])) t"
proof -
  let ?s = "s\<lparr>ww_dqbuf := rest\<rparr>"
  from wc_buffer_at [OF life c i] obtain b buf where b: "wc_buffers c = Ptr b"
    "ww_arrays s b \<bind> (\<lambda>bs. if i < length bs then Some (bs ! i) else None) = Some buf" "wc_mapped L (ww_maps s) buf" .
  obtain m mem where m: "wcb_start buf = Mapped m" "wcb_length buf = L" "ww_maps s m = Some mem" "length mem = L"
    using b(3) by (auto simp: wc_mapped_def)
  let ?t = "wc_fill buf data ?s"
  let ?k = "\<lambda>_ s. andthen (wc_ioctl ww_qbuf ww_qbuf_update s) (\<lambda>_ s. Some (Done () s))"
  have t: "wc_life a L fr ?t" "ww_maps ?t m = Some data" "ww_grants ?t = ww_grants s" "ww_qbuf ?t = ww_qbuf s"
    using life m data by (simp_all add: wc_life_fill) (simp_all add: wc_fill_def)
  have "wc_webcam_read a s = andthen (wc_lock a ?t) (\<lambda>_ s. andthen (convertToRGB buf a s) (\<lambda>_ s. andthen (wc_unlock a s) ?k))"
    unfolding wc_webcam_read_def dequeue_waits [OF dq] using c i b(1,2) by (simp add: cam_of_def Let_def cong: if_cong)
  with locked_convert [OF t(1) m(1,2) t(2) data, where k = ?k] t(3) grants
  obtain u where u: "wc_webcam_read a s = ?k () u" "wc_life a L fr u"
    "wc_shows a (concat (map (wc_colour data) [0..<L div 2])) u" "ww_qbuf u = ww_qbuf ?t" by auto
  have "?k () u = Some (Done () (u\<lparr>ww_qbuf := qs\<rparr>))" using u(4) t(4) q by (simp add: wc_ioctl_def lw_ioctl_def)
  with u(1-3) show ?thesis by (simp add: wc_shows_def)
qed

text \<open>A resize that fails has given the array of buffers back, but the camera still points to it.\<close>

lemma failed_resize:
  assumes "wc_life a L fr s" "ww_cams s a = Some c" "wc_nbuffers c \<noteq> 0" "ww_grants s \<noteq> []"
    "xioctl (ww_s_fmt s) = Some (r, rs)" "xioctl (ww_reqbufs s) = Some (Inl err, rs')"
  shows "\<exists>t. wc_webcam_resize e a w h s = Some (Done () t) \<and> wc_webcam_close a t = Some Undef"
proof -
  from assms(1) obtain b bs where *: "wc_buffers c = Ptr b" "ww_arrays s b = Some bs" "length bs = unat (wc_nbuffers c)"
    "wc_room L (ww_blocks s) c fr" "wc_fresh s" "list_all id (ww_grants s)"
    by (rule wc_lifeE) (use assms(2) in auto)
  obtain w' h' cs code where fmt: "(case r of Inl _ \<Rightarrow> (ucast w, ucast h, 3, str_bytes ''YUYV'') | Inr fmt \<Rightarrow> fmt) = (w', h', cs, code)"
    by (metis prod_cases4)
  obtain gs where gs: "ww_grants s = True # gs" using *(6) assms(4) by (cases "ww_grants s") auto
  let ?c = "c\<lparr>wc_width := ucast w', wc_height := ucast h', wc_colorspace := ucast cs\<rparr>"
  let ?bl = "(ww_blocks s)(ww_next s \<mapsto> take 4 code @ [0])"
  let ?s = "s\<lparr>ww_s_fmt := rs, ww_cams := (ww_cams s)(a \<mapsto> ?c), ww_grants := gs, ww_blocks := ?bl, ww_next := Suc (ww_next s)\<rparr>"
  let ?u = "fold wc_unmap bs ?s"
  let ?t = "?u\<lparr>ww_arrays := (ww_arrays s)(b := None), ww_reqbufs := rs'\<rparr>"
  have frame: "ww_reqbufs (fold wc_unmap xs u) = ww_reqbufs u" for xs u
    by (induction xs arbitrary: u) (simp_all add: wc_unmap_def split: wc_start.split)
  have "wc_webcam_resize e a w h s = andthen (wc_drop_buffers a ?s) (\<lambda>_ s. wc_request_buffers e a s)"
    using assms(2,5) gs
    by (auto simp: wc_webcam_resize_def wc_ioctl_def lw_ioctl_def fmt wc_malloc_def answer_def set_cam_def
      intro!: arg_cong [where f = "\<lambda>u. andthen (wc_drop_buffers a u) (\<lambda>_ s. wc_request_buffers e a s)"] wc_world.equality)
  also have "\<dots> = wc_request_buffers e a (?u\<lparr>ww_arrays := (ww_arrays s)(b := None)\<rparr>)"
    using * assms(3) by (simp add: wc_drop_buffers_def cam_of_def wc_unmap_buffers_def wc_free_array_def unmap_frame)
  also have "\<dots> = Some (Done () ?t)"
    using assms(6) frame by (simp add: wc_request_buffers_def wc_ioctl_def lw_ioctl_def)
  finally have resize: "wc_webcam_resize e a w h s = Some (Done () ?t)" .
  have "ww_blocks ?t x \<noteq> None" if "wc_frame_start c = Ptr x" for x using *(4) that by (simp add: unmap_frame wc_room_def)
  then have "\<exists>v. wc_free (wc_frame_start c) ?t = Some (Done () v) \<and> ww_cams v = (ww_cams s)(a \<mapsto> ?c) \<and> ww_arrays v b = None"
    by (cases "wc_frame_start c") (simp_all add: wc_free_def unmap_frame)
  then have "wc_webcam_close a ?t = Some Undef"
    using *(1) assms(3) by (auto simp: wc_webcam_close_def cam_of_def unmap_frame wc_unmap_buffers_def set_cam_def)
  with resize show ?thesis by blast
qed

section \<open>An example\<close>

lemma replicate_2: "replicate 2 x = [x, x]"
  by (simp add: numeral_2_eq_2)

lemma wc_example_fresh: "wc_fresh wc_example"
  by (simp add: wc_fresh_def wc_example_def)

lemma wc_example_ready:
  "\<exists>a c t. wc_life a 4 (NULL, 0) t \<and> ww_cams t a = Some c \<and> unat (wc_nbuffers c) = 2 \<and> \<not> wc_thread c \<and> \<not> wc_stray c \<and> ww_dqbuf t = ww_dqbuf wc_example \<and>
     ww_qbuf t = [Inr ()] \<and> ww_s_fmt t = [Inl EINVAL] \<and> ww_reqbufs t = [Inl EINVAL] \<and> ww_grants t \<noteq> []"
proof -
  obtain a t where t: "wc_opened a t" "length (ww_grants wc_example) \<le> length (ww_grants t) + 3" "ww_s_fmt t = ww_s_fmt wc_example"
    "ww_reqbufs t = ww_reqbufs wc_example" "ww_querybuf t = ww_querybuf wc_example" "ww_mmap t = ww_mmap wc_example"
    "ww_dqbuf t = ww_dqbuf wc_example" "ww_qbuf t = ww_qbuf wc_example"
    using open_formats [OF wc_example_fresh, of 3 "[]"
        "\<lparr>cap_capture = True, cap_streaming = True, cap_readwrite = False, cap_bus = [], cap_driver = [], cap_card = []\<rparr>" "[]"
        "[str_bytes ''YUYV'']" EINVAL "[]" "[]"]
    by (auto simp: wc_example_def)
  obtain u where u: "wc_life a 4 (NULL, 0) u" "ww_dqbuf u = ww_dqbuf t" "ww_qbuf u = ww_qbuf t" "ww_s_fmt u = [Inl EINVAL]"
    "ww_reqbufs u = [Inl EINVAL]" "ww_grants u = drop 2 (ww_grants t)" "\<exists>c. ww_cams u a = Some c \<and> unat (wc_nbuffers c) = 2 \<and> \<not> wc_thread c \<and> \<not> wc_stray c"
    using resize_ready [OF t(1), of 4 "Inr (2, 1, 8, str_bytes ''YUYV'')" "[Inl EINVAL]" 2 "[Inl EINVAL]" "[]" "[]" easy_env 2 1] t(2-8)
    by (auto simp: wc_example_def replicate_2)
  have "ww_grants u \<noteq> []" using u(6) t(2) by (auto simp: wc_example_def)
  with u t(7,8) show ?thesis by (auto simp: wc_example_def intro!: exI [of _ a] exI [of _ u])
qed

section \<open>Properties\<close>

text \<open>
  C34. Opening a device that lists its formats and then gives an error: with at most 16 of them the camera holds their
  names, and a resize for which the device grants 2 to 255 buffers of one even length then leaves it ready to stream;
  with one format more the array of the camera is written past its end.
\<close>

theorem wc_open_ready:
  assumes "wc_fresh s" "list_all id (ww_grants s)" "5 \<le> length (ww_grants s)" "ww_open s = Inr fd # os"
    "xioctl (ww_querycap s) = Some (Inr cap, qs)" "cap_capture cap"
    "ww_enum_fmt s = map Inr codes @ Inl err # es" "err \<noteq> EINTR"
    "xioctl (ww_s_fmt s) = Some (r, rs)" "xioctl (ww_reqbufs s) = Some (Inr n, rs')" "2 \<le> n" "n < 256"
    "ww_querybuf s = replicate n (Inr L) @ ls" "ww_mmap s = replicate n True @ ms" "even L" "L < 2 ^ 64"
  shows "if length codes \<le> 16
    then \<exists>a t u. wc_webcam_open dev (Some True) s = Some (Done (Ptr a) t) \<and>
      (\<exists>c. ww_cams t a = Some c \<and> wc_fd c = fd \<and> take (length codes) (wc_formats c) = map (\<lambda>code. take 4 code @ [0]) codes) \<and>
      wc_webcam_resize e a w h t = Some (Done () u) \<and> wc_life a L (NULL, 0) u
    else wc_webcam_open dev (Some True) s = Some Undef"
proof (cases "length codes \<le> 16")
  case True
  have "3 \<le> length (ww_grants s)" using assms(3) by simp
  from open_formats [OF assms(1,2) this assms(4-8), of dev] True obtain a t where t:
    "wc_webcam_open dev (Some True) s = Some (Done (Ptr a) t)" "wc_opened a t"
    "\<exists>c. ww_cams t a = Some c \<and> wc_fd c = fd \<and> take (length codes) (wc_formats c) = map format_name codes"
    "length (ww_grants s) \<le> length (ww_grants t) + 3" "ww_s_fmt t = ww_s_fmt s" "ww_reqbufs t = ww_reqbufs s"
    "ww_querybuf t = ww_querybuf s" "ww_mmap t = ww_mmap s" by auto
  have "2 \<le> length (ww_grants t)" using t(4) assms(3) by simp
  then obtain u where "wc_webcam_resize e a w h t = Some (Done () u)" "wc_life a L (NULL, 0) u"
    using resize_ready [OF t(2) assms(15,16), of r rs n rs' ls ms e w h] assms(9-14) t(5-8) by auto
  with t(1,3) True show ?thesis by auto
next
  case False
  have "3 \<le> length (ww_grants s)" using assms(3) by simp
  from open_formats [OF assms(1,2) this assms(4-8), of dev] False show ?thesis by simp
qed

theorem wc_open_ready_witness:
  "\<exists>a t u. wc_webcam_open [] (Some True) wc_example = Some (Done (Ptr a) t) \<and>
     (\<exists>c. ww_cams t a = Some c \<and> wc_fd c = 3 \<and> take 1 (wc_formats c) = [[89, 85, 89, 86, 0]]) \<and>
     wc_webcam_resize easy_env a 2 1 t = Some (Done () u) \<and> wc_life a 4 (NULL, 0) u"
  using wc_open_ready [OF wc_example_fresh, of 3 "[]"
      "\<lparr>cap_capture = True, cap_streaming = True, cap_readwrite = False, cap_bus = [], cap_driver = [], cap_card = []\<rparr>" "[]"
      "[str_bytes ''YUYV'']" EINVAL "[]" "Inr (2, 1, 8, str_bytes ''YUYV'')" "[Inl EINVAL]" 2 "[Inl EINVAL]" 4 "[]" "[]" "[]" easy_env 2 1]
  by (auto simp: wc_example_def replicate_2 str_bytes_def of_char_def)

text \<open>
  C35. A camera at work: whatever the device answers, and whenever the thread of the camera runs, before the lock is taken,
  between any two bytes that are copied and before it is given back, reading, grabbing and starting to stream keep what
  the camera owns and touch no memory outside of it; so does stopping when there is a thread to join. What is grabbed is
  one whole picture, that of the frame last read. Closing a camera of which no thread is left gives everything back that
  it owns, and leaves the application its picture.
\<close>

theorem wc_life_safe:
  assumes "wc_life a L fr s" "ww_cams s a = Some c"
  shows "safe (\<lambda>_. wc_life a L fr) (\<lambda>_. True) (webcam_streaming a n s) \<and>
    safe (\<lambda>fr' t. wc_life a L fr' t \<and> wc_copied a fr' t) (\<lambda>_. True) (webcam_grab a fr s) \<and>
    safe (\<lambda>_. wc_life a L fr) (\<lambda>_. True) (webcam_stream a True s) \<and>
    (wc_thread c \<longrightarrow> safe (\<lambda>_. wc_life a L fr) (\<lambda>_. True) (webcam_stream a False s)) \<and>
    (\<not> wc_thread c \<and> \<not> wc_stray c \<longrightarrow> (\<exists>t. wc_webcam_close a s = Some (Done () t) \<and> wc_closed a c fr s t))"
  using assms by (simp add: webcam_stream_def wc_streaming_kept wc_grab_kept stream_on_kept stream_off_kept close_kept)

theorem wc_life_safe_witness:
  "\<exists>a c s. wc_life a 4 (NULL, 0) s \<and> ww_cams s a = Some c \<and> ww_dqbuf s = ww_dqbuf wc_example \<and>
     safe (\<lambda>fr' t. wc_life a 4 fr' t \<and> wc_copied a fr' t) (\<lambda>_. True) (webcam_grab a (NULL, 0) s) \<and>
     (\<exists>t. wc_webcam_close a s = Some (Done () t) \<and> wc_closed a c (NULL, 0) s t)"
  using wc_example_ready wc_life_safe by blast

text \<open>
  C36. A frame becomes a picture: however often the device is not ready or interrupts the call before, when it has filled
  a buffer reading returns, and the frame of the camera shows the three colours of each pixel. Even pixels take their
  red chroma from the pair before.
\<close>

theorem wc_read_picture:
  assumes "wc_life a L fr s" "ww_cams s a = Some c"
    "ww_dqbuf s = map Inl early @ Inr (i, data) # rest" "set early \<subseteq> {EAGAIN, EINTR}"
    "i < unat (wc_nbuffers c)" "length data = L" "xioctl (ww_qbuf s) = Some (r, qs)" "ww_grants s \<noteq> []"
  shows "\<exists>t. wc_webcam_read a s = Some (Done () t) \<and> wc_life a L fr t \<and>
    wc_shows a (concat (map (wc_colour data) [0..<L div 2])) t"
  by (rule read_picture [OF assms])

theorem wc_read_picture_witness:
  "\<exists>a s t. ww_dqbuf s = ww_dqbuf wc_example \<and> wc_webcam_read a s = Some (Done () t) \<and>
     wc_shows a [0, 0, 0, 255, 255, 255] t"
proof -
  obtain a c s where s: "wc_life a 4 (NULL, 0) s" "ww_cams s a = Some c" "unat (wc_nbuffers c) = 2" "ww_dqbuf s = ww_dqbuf wc_example"
    "ww_qbuf s = [Inr ()]" "ww_grants s \<noteq> []" using wc_example_ready by blast
  have pic: "concat (map (wc_colour [16, 128, 235, 128]) [0..<4 div 2]) = [0, 0, 0, 255, 255, 255]"
    by (simp add: upt_rec wc_colour_def Let_def clamped_def exact_R_def exact_G_def exact_B_def yuv_unit_def)
  show ?thesis
    using wc_read_picture [OF s(1,2), of "[EAGAIN, EINTR]" 1 "[16, 128, 235, 128]" "[]" "Inr ()" "[]"] s(3-6) pic
    by (auto simp: wc_example_def)
qed

text \<open>
  C37. A resize for which the device grants no buffers returns, but it has freed the array of the old ones and leaves the
  camera pointing to it: closing the camera afterwards reads and frees that array once more.
\<close>

theorem wc_failed_resize:
  assumes "wc_life a L fr s" "ww_cams s a = Some c" "wc_nbuffers c \<noteq> 0" "ww_grants s \<noteq> []"
    "xioctl (ww_s_fmt s) = Some (r, rs)" "xioctl (ww_reqbufs s) = Some (Inl err, rs')"
  shows "\<exists>t. wc_webcam_resize e a w h s = Some (Done () t) \<and> wc_webcam_close a t = Some Undef"
  by (rule failed_resize [OF assms])

theorem wc_failed_resize_witness:
  "\<exists>a s t. wc_life a 4 (NULL, 0) s \<and> wc_webcam_resize easy_env a 2 1 s = Some (Done () t) \<and> wc_webcam_close a t = Some Undef"
proof -
  obtain a c s where s: "wc_life a 4 (NULL, 0) s" "ww_cams s a = Some c" "unat (wc_nbuffers c) = 2" "ww_s_fmt s = [Inl EINVAL]"
    "ww_reqbufs s = [Inl EINVAL]" "ww_grants s \<noteq> []" using wc_example_ready by blast
  have "wc_nbuffers c \<noteq> 0" using s(3) by auto
  with wc_failed_resize [OF s(1,2), of "Inl EINVAL" "[]" EINVAL "[]" easy_env 2 1] s show ?thesis by auto
qed

end
