(* ===== verification/Spec2Isabelle.thy ===== *)
theory Spec2Isabelle
  imports Framebuffer Framebuffer_Typed Protocol Io Events Connection Connection_Wire Connection_Steps Connection_Props
    Connection_Alone Connection_Messages Connection_Session
    Server Server_Props Colorspace Colorspace_Props V4l2 V4l2_Props Rfbcam Rfbcam_Props ErrorLog
    Lwebcam Lwebcam_Memory Lwebcam_Props Webcam Webcam_Color Webcam_Props Webcam_Steps
begin

text \<open>
  A model of trfb, a server library for the remote framebuffer (VNC) protocol, of the camera library
  libwebcam beside it, and of the program rfbcam that joins the two, with the theorems that say what
  they do.

  \<^bold>\<open>The program.\<close> The application creates a server (\<^verbatim>\<open>trfb.c\<close>), which owns a framebuffer (\<^verbatim>\<open>fb.c\<close>), a ring of
  events and a list of connections. \<^verbatim>\<open>trfb_server_start\<close> runs the thread of the server (\<^verbatim>\<open>server.c\<close>): it
  accepts clients, creates a connection for each, reaps those that have ended and stops them all at
  its end. Each connection has its own thread (\<^verbatim>\<open>connection.c\<close>), which talks to its client through
  a buffered object (\<^verbatim>\<open>io.c\<close>) over a socket, agrees on a protocol version (\<^verbatim>\<open>protocol.c\<close>), answers
  update requests with the pixels of the framebuffer, and adds the keys, pointers and cut texts of the
  client to the ring, where the application polls them. \<^verbatim>\<open>error.c\<close> is the log. libwebcam
  (\<^verbatim>\<open>v4l2.c\<close>, \<^verbatim>\<open>libv4l2.c\<close>, \<^verbatim>\<open>colorspace.c\<close>) opens a video device, takes frames from it and converts
  images; \<^verbatim>\<open>rfbcam.c\<close> is an application of both. \<^verbatim>\<open>lwebcam.c\<close> is an earlier camera library beside it, which
  has buffers of its own and leaves the conversion to libv4lconvert, and \<^verbatim>\<open>webcam.c\<close> an imported one, in which a thread
  of the camera converts each frame for the application to grab. The build of rfbcam uses neither of the two.

  \<^bold>\<open>How the code is represented.\<close> A C structure is a record with a field for each member, in the code's
  order where there is one; an enumeration is a datatype; \<^verbatim>\<open>unsigned\<close> and the fixed-width types are
  words that wrap around, and a signed 32-bit value is an integer whose overflow is undefined. Memory
  is a list of bytes in host byte order, accessed with bounds (\<open>slice\<close>, \<open>blit\<close>, \<open>load\<close>, \<open>store\<close>); texts
  that pass between threads are blocks of an explicit heap, and connections of a server are named by
  their addresses. A pointer that may be null is \<open>'a ptr\<close>. A function gives \<^theory_text>\<open>None\<close> when it never
  returns, because it waits for something that does not happen, and otherwise an outcome: a normal return
  (\<open>Done\<close>), the end of its thread (\<open>Exit\<close>) or undefined behaviour (\<open>Undef\<close>). \<open>safe Q E m\<close> says that \<open>m\<close> is not
  undefined and satisfies \<open>Q\<close> or \<open>E\<close>, and \<open>settles\<close> that it also comes to an end.

  What the platform does is an argument or a script, never a definition: the allocator, the byte order,
  indeterminate memory and what \<^verbatim>\<open>mtx_destroy\<close> does to a held mutex are the record \<open>cenv\<close>. \<^verbatim>\<open>trfb_framebuffer_copy\<close> copies the
  bytes of the lock that its caller holds, and the copy is released with that lock: this is undefined unless the flag
  \<open>destroy_held\<close> says that the platform leaves such a mutex alone, which the theorems that need it state (\<open>sw_lax\<close> and
  \<open>sw_copies\<close> are the same for the thread of a server). A byte of a message that is shifted into the sign bit of an \<^verbatim>\<open>int\<close>
  counts as wrapping, as GCC documents it. System calls take their answers one by one from lists
  in the state, and a call whose list has ended waits for ever. What other threads do is a script as well,
  with one entry for each time this thread takes a lock: locks exclude each other, so those are the points at
  which another thread's steps can be seen. Theorems quantify over all scripts, with the conditions they state.

  \<^bold>\<open>The theories.\<close>
  \<^item> \<^verbatim>\<open>Prelude\<close>: memory, loops with their rule, outcomes, and lemmas on words and bytes.
  \<^item> \<^verbatim>\<open>Framebuffer\<close>: \<^verbatim>\<open>fb.c\<close> and the pixel functions of \<^verbatim>\<open>trfb.h\<close>. Pixels read back as they were written,
    and creating, copying, resizing, converting and byte-swapping a well-formed framebuffer do what they say
    on every pixel, within the sizes for which 32-bit byte counts do not wrap. \<^verbatim>\<open>Framebuffer_Typed\<close> has its type
    soundness: every framebuffer that a program makes with sides up to 32767 and shifts below 32 is well formed, and no
    function is undefined on it.
  \<^item> \<^verbatim>\<open>Protocol\<close>: \<^verbatim>\<open>protocol.c\<close>; version messages round trip, and the loops that send and receive move all
    bytes in order.
  \<^item> \<^verbatim>\<open>Io\<close>: \<^verbatim>\<open>io.c\<close>. The locales \<open>transport\<close>, \<open>full_transport\<close> and \<open>live_transport\<close> state what a buffered object
    relies on, each extending the one before; the socket functions are interpretations of all three. Over
    them reading refines the stream of bytes, and writing does while the transport takes all it is given.
  \<^item> \<^verbatim>\<open>Events\<close>: the event ring and the framebuffer's lock from \<^verbatim>\<open>server.c\<close>; the ring refines a bounded queue.
  \<^item> \<^verbatim>\<open>Connection\<close>: \<^verbatim>\<open>connection.c\<close>. \<^verbatim>\<open>Connection_Wire\<close> divides the stream of a client into the handshake and its messages,
    and says in which streams no SetPixelFormat message asks for a shift of 32 or more. \<^verbatim>\<open>Connection_Steps\<close> gives for each function the bytes it exchanges and the
    invariant it keeps, in the locale of a full transport; \<^verbatim>\<open>Connection_Props\<close> the progress of the handshake and
    the properties of the whole thread over a socket; \<^verbatim>\<open>Connection_Messages\<close> those of each message and of
    requests to stop. \<^verbatim>\<open>Connection_Alone\<close> has the locale \<open>thread_invariant\<close>, which carries an invariant through reading and
    writing, for a thread that nobody disturbs. \<^verbatim>\<open>Connection_Session\<close> has the whole conversation: the thread refines the division of its client's stream into messages.
  \<^item> \<^verbatim>\<open>Server\<close>: \<^verbatim>\<open>trfb.c\<close>, the thread of \<^verbatim>\<open>server.c\<close>, and creation and release of connections; \<^verbatim>\<open>Server_Props\<close> has
    the invariant of the list of clients, memory safety of the thread, and what starting and stopping wait for.
  \<^item> \<^verbatim>\<open>Colorspace\<close>: \<^verbatim>\<open>colorspace.c\<close>; \<^verbatim>\<open>Colorspace_Props\<close> proves in the locale \<open>pixel_format\<close>, with an interpretation for
    each format of the table that has a fixed number of bytes per pixel, that converting an image line by line is
    converting its pixels.
  \<^item> \<^verbatim>\<open>V4l2\<close>: \<^verbatim>\<open>v4l2.c\<close> and \<^verbatim>\<open>libv4l2.c\<close>; \<^verbatim>\<open>V4l2_Props\<close> has the invariant of an open camera, the balance of handles and
    mappings, the memory that a frame needs, the list of devices and the scale of the controls.
  \<^item> \<^verbatim>\<open>Rfbcam\<close> and \<^verbatim>\<open>Rfbcam_Props\<close>: \<^verbatim>\<open>rfbcam.c\<close>, the composition of \<^verbatim>\<open>Server\<close>, \<^verbatim>\<open>Events\<close> and \<^verbatim>\<open>V4l2\<close>.
    The theorem below follows a key from the socket of a client to the levels of the camera.
  \<^item> \<^verbatim>\<open>Lwebcam\<close>: \<^verbatim>\<open>lwebcam.c\<close>, with blocks of memory, mappings and handles that are owned. \<^verbatim>\<open>Lwebcam_Memory\<close> shows
    what a camera owns from its opening to its end, as a multiset of addresses; \<^verbatim>\<open>Lwebcam_Props\<close> that frames are taken
    within the buffers and arrive.
  \<^item> \<^verbatim>\<open>Webcam\<close>: \<^verbatim>\<open>webcam.c\<close>; a camera is named by its address, and its thread runs as often as a script says, before the
    application takes the lock, between any two bytes that it copies and before it gives the lock back; a thread that has
    to wait stays where it was. A camera with a thread that has not been joined may not be closed. \<^verbatim>\<open>Webcam_Color\<close> has the arithmetic of its colours: a double is \<open>m * 2 ^ e\<close> for two integers
    and each operation is rounded to 53 bits, the nearer and else the even one, as IEEE binary64 does without excess precision or
    fused operations; no value comes near the limits of the exponent. An analysis of the errors proves that the bytes are
    those of the exact rational formula. \<^verbatim>\<open>Webcam_Props\<close> has the conversion of a frame and the invariant of a camera;
    \<^verbatim>\<open>Webcam_Steps\<close> that every step of the application and of the thread keeps it, from opening to closing.
  \<^item> \<^verbatim>\<open>ErrorLog\<close>: \<^verbatim>\<open>error.c\<close>.

  \<^bold>\<open>Loops and bounds.\<close> No definition uses fuel. Loops with a counter are \<open>for_loop\<close>, which terminates; loops over a
  script are structural; loops that may go on for ever are \<^theory_text>\<open>partial_function\<close>, and the theorems on progress
  prove that they give a result when the script serves enough calls: one for each byte that is still to be read
  and one for each write. The framebuffer of a connection's server is at most 32767 pixels each way in the theorems on
  connections and on all framebuffers of a program, so that no byte count of any depth reaches 4 GiB; \<open>framebuffer_copy_complete_iff\<close> shows what happens above.

  \<^bold>\<open>What the theorems show that the code does not mean.\<close> Some theorems state behaviour that is an error: a partial write
  makes \<^verbatim>\<open>trfb_io_flush\<close> keep the wrong bytes; reaping a client loses those before it in the list; a client that
  starts late overwrites the request to stop; \<^verbatim>\<open>UpdateRequest\<close> sends the whole framebuffer after the header of a part;
  converting to YUV422 reads past its buffer; a camera's frame is read past its end when the driver reports short
  lines; the frames of rfbcam never reach a client; the earlier camera library maps buffers where it should fall
  back to reading, and never destroys its converter; and the imported one takes the red chroma of even pixels from the pair
  before, adds where its green should subtract, never enlarges its frame, and frees its buffers twice after a resize that
  fails. The framebuffer of a connection carries the copy of a held mutex after an update request, and is released with
  it. Each is proved of the code as it stands.

  \<^bold>\<open>Not modelled.\<close> \<^verbatim>\<open>tinycthread.c\<close>, \<^verbatim>\<open>tinycthread.h\<close> and \<^verbatim>\<open>c11threads.h\<close> are a third-party wrapper of the platform's
  threads; the model has the meaning of C11 threads that the code relies on. The programs under
  \<^verbatim>\<open>src/test\<close> and the test programs in \<^verbatim>\<open>src/rfbcam/webcam\<close> draw with libraries that are not part of the repository. Calls of \<^verbatim>\<open>trfb_msg\<close> and
  output on the standard streams change no state and are left out of the other components.
\<close>

section \<open>From the wire to the camera\<close>

lemma server_part [simp]:
  "srv_queue (trfb_server.truncate s) = srv_queue s" "events_wf (trfb_server.truncate s) = events_wf s"
  by (simp_all add: trfb_server.truncate_def srv_queue_def ring_slot_def [abs_def] events_wf_def)

lemma inputs_own_no_text: "concat (map event_texts (map input_event ms)) = []"
  by (induction ms) (auto simp: event_texts_def)

lemma enqueue_all:
  "length q + length evs \<le> TRFB_EVENTS_QUEUE_LEN \<Longrightarrow> foldl enqueue q evs = q @ evs"
  by (induction evs arbitrary: q) (simp_all add: enqueue_def)

text \<open>
  C14. From the wire to the camera: when a client sends at most 128 key and pointer messages and then a byte that is
  no message type, to a server whose queue is empty and on which no other thread works, nobody asks the connection to
  stop and the socket serves, then the connection ends; and the loop of rfbcam over the events, which starts only then,
  comes to an end and has turned the levels of the camera as the pressed keys say, in the order in which the client
  sent them. (The 129th event would be dropped.)
\<close>

theorem keys_reach_camera:
  fixes th :: "sock ptr thread"
  assumes "can_go sock_read sock_write sock_inp sock_full sock_budget n n w th" "n = Suc (length (input_bytes ms))"
    and "unasked th" "th_others th = []" "list_all input_ok ms" "ty \<notin> {0, 2, 3, 4, 5, 6}"
    and "io_pending sock_inp (th_io th) = input_bytes ms @ ty # rest"
    and "srv_queue (th_srv th) = []" "length ms \<le> TRFB_EVENTS_QUEUE_LEN"
    and a: "ap_others a = []" "levels_ok (ap_levels a)"
  shows "\<exists>t. connection_loop e th = Some (Exit t) \<and>
    (\<forall>s. trfb_server.truncate s = th_srv t \<longrightarrow>
      (\<exists>ev' s'. poll_loop ev (a\<lparr>ap_srv := s\<rparr>) =
         Some (Done ev' ((fold event_effect (map input_event ms) a)\<lparr>ap_srv := s'\<rparr>)) \<and> srv_queue s' = []))"
proof -
  obtain t where t: "connection_loop e th = Some (Exit t)" "ended t" "srv_queue (th_srv t) = map input_event ms"
    using sk.input_session [OF assms(1) [unfolded assms(2)] assms(3-5,7), of e] assms(6,8,9)
    by (auto simp: enqueue_all msg_types_def)
  have "\<exists>ev' s'. poll_loop ev (a\<lparr>ap_srv := s\<rparr>) =
      Some (Done ev' ((fold event_effect (map input_event ms) a)\<lparr>ap_srv := s'\<rparr>)) \<and> srv_queue s' = []"
    if s: "trfb_server.truncate s = th_srv t" for s
  proof -
    have q: "srv_queue s = map input_event ms" and wf: "events_wf s"
      using t(2,3) s server_part [of s] by (simp_all add: ended_def srv_ok_def)
    have own: "texts_owned s" by (simp add: texts_owned_def q inputs_own_no_text [unfolded map_map])
    from poll_loop_drains [of "a\<lparr>ap_srv := s\<rparr>" ev] a q wf own show ?thesis
      by (auto simp: fold_effect_srv)
  qed
  with t(1) show ?thesis by blast
qed

theorem keys_reach_camera_witness:
  "\<exists>t ev' a. connection_loop easy_env (fed [4, 1, 0, 0, 0, 0, 0, 65, 9]) = Some (Exit t) \<and>
     poll_loop EvNone (idle_app (th_srv t)) = Some (Done ev' a) \<and> brightness (ap_levels a) = 51"
proof -
  let ?ms = "[(4, [1, 0, 0, 0, 0, 0, 65])] :: (u8 \<times> bytes) list"
  have "can_go sock_read sock_write sock_inp sock_full sock_budget 9 9 0 (fed [4, 1, 0, 0, 0, 0, 0, 65, 9])"
    by (rule fed_can_go) simp_all
  from keys_reach_camera [OF this, of ?ms 9 "[]" "idle_app free_server" easy_env EvNone]
  obtain t where t: "connection_loop easy_env (fed [4, 1, 0, 0, 0, 0, 0, 65, 9]) = Some (Exit t)"
    "\<And>s. trfb_server.truncate s = th_srv t \<Longrightarrow>
      (\<exists>ev' s'. poll_loop EvNone ((idle_app free_server)\<lparr>ap_srv := s\<rparr>) =
         Some (Done ev' ((fold event_effect (map input_event ?ms) (idle_app free_server))\<lparr>ap_srv := s'\<rparr>)))"
    by (auto simp: fed_pending idle_app_srv idle_app_levels TRFB_EVENTS_QUEUE_LEN_def) blast
  have "(idle_app free_server)\<lparr>ap_srv := ap_srv (idle_app (th_srv t))\<rparr> = idle_app (th_srv t)"
    "trfb_server.truncate (ap_srv (idle_app (th_srv t))) = th_srv t"
    by (simp_all add: idle_app_def trfb_server.defs)
  with t(2) [of "ap_srv (idle_app (th_srv t))"] t(1) show ?thesis
    by (auto simp: event_effect_def key_effect_def key_action_def key_table_def is_key_def turned_def be32_def
        idle_app_def)
qed

end
